(* ===== verification/Prelude.thy ===== *)
theory Prelude
  imports Main "HOL-Library.Word" "HOL-Library.Monad_Syntax"
begin

text \<open>
  Shared vocabulary of the development: the machine integers of the port
  (\<open>uint8_t\<close> .. \<open>uint32_t\<close>), C memory blocks and NUL-terminated strings as byte lists,
  the few libc string routines the source calls, C loops, and the generic lemmas the
  component theories use.

  Results of code that reads or writes memory are of type \<open>'a option\<close>: \<open>None\<close> stands for
  an execution with no defined result (an access outside the block, a dereference of a
  NULL or released pointer, a loop that never returns), \<open>Some x\<close> for a normal return of
  \<open>x\<close>. The \<open>do\<close> notation of the option monad sequences such steps.
\<close>

section \<open>Machine integers\<close>

type_synonym u8 = "8 word"
type_synonym u16 = "16 word"
type_synonym u32 = "32 word"

named_theorems inv_intros \<open>preservation lemmas of component invariants\<close>
named_theorems frame_simps \<open>state components an operation leaves unchanged\<close>

lemma unat_u8_less [simp]: "unat (x :: u8) < 256"
  using unsigned_less [of x] by simp

lemma unat_u16_less [simp]: "unat (x :: u16) < 65536"
  using unsigned_less [of x] by simp

lemma unat_u32_less [simp]: "unat (x :: u32) < 4294967296"
  using unsigned_less [of x] by simp

lemma unat_plus_one: "x + 1 \<noteq> 0 \<Longrightarrow> unat (x + 1) = Suc (unat x)" for x :: "'a::len word"
  by (metis Suc_eq_plus1 add.commute unatSuc)

lemma unat_u8_plus_one: "unat (x :: u8) < 255 \<Longrightarrow> unat (x + 1) = Suc (unat x)"
  by (simp add: unat_word_ariths)

lemma unat_u16_plus_one: "unat (x :: u16) < 65535 \<Longrightarrow> unat (x + 1) = Suc (unat x)"
  by (simp add: unat_word_ariths)

text \<open>Two bytes in network order.\<close>

lemma word_cat_8_alt: "(word_cat (a :: u8) (b :: u8) :: u16) = ucast a * 256 + ucast b"
  by (simp add: word_cat_eq push_bit_eq_mult)

lemma unat_word_cat_8: "unat (word_cat (a :: u8) (b :: u8) :: u16) = 256 * unat a + unat b"
proof -
  have "unat a * 256 + unat b < 65536" using unat_u8_less [of a] unat_u8_less [of b] by linarith
  then show ?thesis
    by (simp add: word_cat_8_alt unat_word_ariths unsigned_ucast_eq take_bit_eq_mod)
qed

lemma byte_pair: "256 * a + b = 256 * c + d \<longleftrightarrow> a = c \<and> b = d" if "b < 256" "d < 256" for a b c d :: nat
proof
  assume e: "256 * a + b = 256 * c + d"
  have "(256 * a + b) mod 256 = b" "(256 * c + d) mod 256 = d" using that by simp_all
  with e have "b = d" by metis
  with e show "a = c \<and> b = d" by simp
qed simp

lemma word_cat_8_inj: "(word_cat (a :: u8) (b :: u8) :: u16) = word_cat c d \<longleftrightarrow> a = c \<and> b = d"
  by (simp only: word_unat_eq_iff unat_word_cat_8 byte_pair unat_u8_less)

section \<open>Byte strings\<close>

definition str :: "string \<Rightarrow> u8 list" where
  "str s = map of_char s"

abbreviation crlf :: "u8 list" where
  "crlf \<equiv> [13, 10]"

lemma str_simps [simp]:
  "str [] = []"
  "str (c # s) = of_char c # str s"
  by (simp_all add: str_def)

lemma length_str [simp]: "length (str s) = length s"
  by (simp add: str_def)

section \<open>C memory blocks and strings\<close>

text \<open>
  A block of memory is the list of its bytes; a pointer into it is an offset. A read or
  a write outside the block has no defined result.
\<close>

definition rd :: "'a list \<Rightarrow> nat \<Rightarrow> 'a option" where
  "rd m p = (if p < length m then Some (m ! p) else None)"

definition wr :: "'a list \<Rightarrow> nat \<Rightarrow> 'a \<Rightarrow> 'a list option" where
  "wr m p c = (if p < length m then Some (m[p := c]) else None)"

lemma rd_eq_Some [simp]: "rd m p = Some c \<longleftrightarrow> p < length m \<and> c = m ! p"
  by (auto simp: rd_def)

lemma rd_in [simp]: "p < length m \<Longrightarrow> rd m p = Some (m ! p)"
  by (simp add: rd_def)

lemma wr_eq_Some: "wr m p c = Some m' \<longleftrightarrow> p < length m \<and> m' = m[p := c]"
  by (auto simp: wr_def)

lemma wr_in [simp]: "p < length m \<Longrightarrow> wr m p c = Some (m[p := c])"
  by (simp add: wr_def)

lemma wr_out: "length m \<le> p \<Longrightarrow> wr m p c = None"
  by (simp add: wr_def)

text \<open>\<open>memcpy(dst + p, src, n)\<close> with the source bytes given as a list.\<close>

definition wr_list :: "'a list \<Rightarrow> nat \<Rightarrow> 'a list \<Rightarrow> 'a list option" where
  "wr_list m p bs =
     (if p + length bs \<le> length m then Some (take p m @ bs @ drop (p + length bs) m) else None)"

definition rd_list :: "'a list \<Rightarrow> nat \<Rightarrow> nat \<Rightarrow> 'a list option" where
  "rd_list m p n = (if p + n \<le> length m then Some (take n (drop p m)) else None)"

lemma length_wr_list: "wr_list m p bs = Some m' \<Longrightarrow> length m' = length m"
  by (auto simp: wr_list_def split: if_splits)

text \<open>The string a pointer designates: the bytes up to the first NUL.\<close>

definition cstr :: "u8 list \<Rightarrow> nat \<Rightarrow> u8 list" where
  "cstr m p = takeWhile (\<lambda>c. c \<noteq> 0) (drop p m)"

definition terminated :: "u8 list \<Rightarrow> nat \<Rightarrow> bool" where
  "terminated m p \<longleftrightarrow> 0 \<in> set (drop p m)"

definition c_strlen :: "u8 list \<Rightarrow> nat \<Rightarrow> nat option" where
  "c_strlen m p = (if terminated m p then Some (length (cstr m p)) else None)"

lemma c_strlen_Some: "c_strlen m p = Some n \<longleftrightarrow> terminated m p \<and> n = length (cstr m p)"
  by (auto simp: c_strlen_def)

lemma cstr_no_nul [simp]: "0 \<notin> set (cstr m p)"
  by (auto simp: cstr_def dest: set_takeWhileD)

lemma takeWhile_nth_stop:
  "\<exists>x\<in>set xs. \<not> P x \<Longrightarrow>
     length (takeWhile P xs) < length xs \<and> \<not> P (xs ! length (takeWhile P xs))"
  by (induction xs) auto

lemma terminated_bound:
  assumes "terminated m p"
  shows "p + length (cstr m p) < length m" and "m ! (p + length (cstr m p)) = 0"
proof -
  have ex: "\<exists>x\<in>set (drop p m). \<not> x \<noteq> 0" using assms by (auto simp: terminated_def)
  from takeWhile_nth_stop [OF ex]
  have *: "length (cstr m p) < length (drop p m)" "drop p m ! length (cstr m p) = 0"
    by (auto simp: cstr_def)
  then show "p + length (cstr m p) < length m" by simp
  with * show "m ! (p + length (cstr m p)) = 0" by simp
qed

lemma nth_cstr:
  assumes "i < length (cstr m p)"
  shows "m ! (p + i) = cstr m p ! i" and "p + i < length m"
proof -
  have le: "length (cstr m p) \<le> length (drop p m)"
    unfolding cstr_def by (rule length_takeWhile_le)
  with assms show l: "p + i < length m" by simp
  from assms have "cstr m p ! i = drop p m ! i"
    by (simp add: cstr_def takeWhile_nth)
  then show "m ! (p + i) = cstr m p ! i" using l by simp
qed

lemma cstr_nth_nonzero: "i < length (cstr m p) \<Longrightarrow> cstr m p ! i \<noteq> 0"
  using cstr_no_nul nth_mem by metis

text \<open>A string followed by its terminator.\<close>

lemma cstr_append: "0 \<notin> set s \<Longrightarrow> cstr (s @ 0 # r) 0 = s"
  by (simp add: cstr_def takeWhile_append)

lemma terminated_append: "terminated (s @ 0 # r) 0"
  by (simp add: terminated_def)

text \<open>Reading the string byte by byte, the terminator included.\<close>

lemma rd_cstr: "terminated m p \<Longrightarrow> i < length (cstr m p) \<Longrightarrow> rd m (p + i) = Some (cstr m p ! i)"
  by (simp add: nth_cstr)

lemma rd_cstr_end: "terminated m p \<Longrightarrow> rd m (p + length (cstr m p)) = Some 0"
  by (simp add: terminated_bound)

text \<open>A suffix of a C string is a C string.\<close>

lemma takeWhile_drop_le:
  "k \<le> length (takeWhile P xs) \<Longrightarrow> takeWhile P (drop k xs) = drop k (takeWhile P xs)"
  by (induction xs arbitrary: k) (auto simp: drop_Cons' split: if_splits)

lemma cstr_add: "k \<le> length (cstr m p) \<Longrightarrow> cstr m (p + k) = drop k (cstr m p)"
  using takeWhile_drop_le [of k "\<lambda>c. c \<noteq> 0" "drop p m"]
  by (simp add: cstr_def add.commute)

lemma terminated_add:
  assumes "terminated m p" "k \<le> length (cstr m p)"
  shows "terminated m (p + k)"
proof -
  let ?n = "length (cstr m p) - k"
  have "drop (p + k) m ! ?n = 0" and "?n < length (drop (p + k) m)"
    using terminated_bound [OF assms(1)] assms(2) by (simp_all add: add.commute)
  then show ?thesis unfolding terminated_def by (metis nth_mem)
qed

text \<open>\<open>strstr\<close>: the offset of the first occurrence of a literal.\<close>

fun find_sub :: "'a list \<Rightarrow> 'a list \<Rightarrow> nat option" where
  "find_sub pat [] = (if pat = [] then Some 0 else None)"
| "find_sub pat (x # xs) =
     (if take (length pat) (x # xs) = pat then Some 0 else map_option Suc (find_sub pat xs))"

definition c_strstr :: "u8 list \<Rightarrow> nat \<Rightarrow> u8 list \<Rightarrow> nat option option" where
  "c_strstr m p pat =
     (if terminated m p then Some (map_option (\<lambda>k. p + k) (find_sub pat (cstr m p))) else None)"

lemma find_sub_Some:
  "find_sub pat xs = Some k \<Longrightarrow>
     k + length pat \<le> length xs \<and> take (length pat) (drop k xs) = pat"
proof (induction xs arbitrary: k)
  case Nil
  then show ?case by (auto split: if_splits)
next
  case (Cons x xs)
  show ?case
  proof (cases "take (length pat) (x # xs) = pat")
    case True
    then have "length pat \<le> length (x # xs)"
      by (metis length_take min.cobounded1)
    with True Cons.prems show ?thesis by simp
  next
    case False
    with Cons.prems obtain j where "k = Suc j" "find_sub pat xs = Some j" by auto
    with Cons.IH show ?thesis by auto
  qed
qed

lemma find_sub_None: "find_sub pat xs = None \<Longrightarrow> \<not> (\<exists>a b. xs = a @ pat @ b)"
proof (induction xs)
  case Nil
  then show ?case by (auto split: if_splits)
next
  case (Cons x xs)
  from Cons.prems have 1: "take (length pat) (x # xs) \<noteq> pat" and "find_sub pat xs = None"
    by (auto split: if_splits)
  with Cons.IH have 2: "\<not> (\<exists>a b. xs = a @ pat @ b)" by simp
  show ?case
  proof
    assume "\<exists>a b. x # xs = a @ pat @ b"
    then obtain a b where *: "x # xs = a @ pat @ b" by blast
    then show False
    proof (cases a)
      case Nil
      with * 1 show ?thesis by simp
    next
      case (Cons y ys)
      with * 2 show ?thesis by auto
    qed
  qed
qed

lemma find_sub_Nil [simp]: "find_sub [] xs = Some 0"
  by (cases xs) auto

lemma find_sub_append: "find_sub pat (pat @ xs) = Some 0"
  by (cases pat) simp_all

lemma find_sub_iff: "find_sub pat xs \<noteq> None \<longleftrightarrow> (\<exists>a b. xs = a @ pat @ b)"
proof
  assume "find_sub pat xs \<noteq> None"
  then obtain k where "find_sub pat xs = Some k" by blast
  from find_sub_Some [OF this] have "take (length pat) (drop k xs) = pat" by simp
  then have "xs = take k xs @ pat @ drop (length pat) (drop k xs)"
    by (metis append_take_drop_id)
  then show "\<exists>a b. xs = a @ pat @ b" by blast
next
  assume "\<exists>a b. xs = a @ pat @ b"
  then show "find_sub pat xs \<noteq> None" using find_sub_None by blast
qed

lemma c_strstr_Some:
  assumes "c_strstr m p pat = Some (Some q)"
  shows "terminated m p" and "p \<le> q" and "q - p + length pat \<le> length (cstr m p)"
    and "take (length pat) (drop (q - p) (cstr m p)) = pat"
  using assms find_sub_Some [of pat "cstr m p" "q - p"]
  by (auto simp: c_strstr_def split: if_splits)

lemma c_strstr_terminated: "terminated m p \<Longrightarrow> \<exists>r. c_strstr m p pat = Some r"
  by (simp add: c_strstr_def)

section \<open>Lists that are filled from the front\<close>

lemma filter_take_Suc:
  "k < length s \<Longrightarrow> filter P (take (Suc k) s) = filter P (take k s) @ (if P (s ! k) then [s ! k] else [])"
  by (simp add: take_Suc_conv_app_nth)

lemma length_filter_take_le: "length (filter P (take k s)) \<le> length (filter P s)"
  by (metis append_take_drop_id filter_append le_add1 length_append)

lemma filter_take_prefix: "take (length (filter P (take k s))) (filter P s) = filter P (take k s)"
  by (metis append_eq_conv_conj append_take_drop_id filter_append)

lemma list_update_append_drop:
  "length d < length r \<Longrightarrow> (d @ drop (length d) r)[length d := c] = d @ c # drop (Suc (length d)) r"
  by (simp add: list_update_append Cons_nth_drop_Suc [symmetric])

lemma wr_after:
  assumes "Suc (length d) < length r"
  shows "wr (d @ a # drop (Suc (length d)) r) (Suc (length d)) c
    = Some (d @ a # c # drop (Suc (Suc (length d))) r)"
proof -
  have "drop (Suc (length d)) r = r ! Suc (length d) # drop (Suc (Suc (length d))) r"
    using assms by (simp add: Cons_nth_drop_Suc)
  then show ?thesis using assms by (simp add: wr_def list_update_append)
qed

section \<open>C loops\<close>

text \<open>
  A loop is iterated by its body: \<open>None\<close> a fault, \<open>Inl s\<close> the next round's state,
  \<open>Inr r\<close> the value at which the loop is left. A loop that is never left is \<open>None\<close>.
\<close>

partial_function (option) loop :: "('s \<Rightarrow> ('s + 'r) option) \<Rightarrow> 's \<Rightarrow> 'r option" where
  "loop b s =
     (case b s of
        None \<Rightarrow> None
      | Some x \<Rightarrow> (case x of Inl s' \<Rightarrow> loop b s' | Inr r \<Rightarrow> Some r))"

lemmas loop_unfold = loop.simps

text \<open>Total correctness: an invariant, and a measure that every further round lowers.\<close>

lemma loop_rule:
  fixes mu :: "'s \<Rightarrow> nat"
  assumes "I s"
    and "\<And>s. I s \<Longrightarrow>
      (\<exists>s'. b s = Some (Inl s') \<and> I s' \<and> mu s' < mu s) \<or> (\<exists>r. b s = Some (Inr r) \<and> Q r)"
  shows "\<exists>r. loop b s = Some r \<and> Q r"
  using assms(1)
proof (induction "mu s" arbitrary: s rule: less_induct)
  case less
  from assms(2) [OF less.prems] show ?case
  proof
    assume "\<exists>s'. b s = Some (Inl s') \<and> I s' \<and> mu s' < mu s"
    then obtain s' where "b s = Some (Inl s')" "I s'" "mu s' < mu s" by blast
    moreover from this less.hyps have "\<exists>r. loop b s' = Some r \<and> Q r" by blast
    ultimately show ?thesis by (simp add: loop_unfold [of b s])
  next
    assume "\<exists>r. b s = Some (Inr r) \<and> Q r"
    then show ?thesis by (auto simp: loop_unfold [of b s])
  qed
qed

text \<open>A loop whose rounds never end and never fault has no result.\<close>

lemma loop_step: "b s = Some (Inl s') \<Longrightarrow> loop b s = loop b s'"
  by (simp add: loop_unfold [of b s])

lemma loop_done: "b s = Some (Inr r) \<Longrightarrow> loop b s = Some r"
  by (simp add: loop_unfold [of b s])

lemma loop_fault: "b s = None \<Longrightarrow> loop b s = None"
  by (simp add: loop_unfold [of b s])

text \<open>Partial correctness: what holds of a result, if there is one.\<close>

lemma loop_partial:
  fixes b :: "'s \<Rightarrow> ('s + 'r) option"
  assumes "loop b s = Some r" and "I s"
    and "\<And>s s'. I s \<Longrightarrow> b s = Some (Inl s') \<Longrightarrow> I s'"
    and "\<And>s r. I s \<Longrightarrow> b s = Some (Inr r) \<Longrightarrow> Q r"
  shows "Q r"
proof -
  define P where "P b s r \<longleftrightarrow> (\<forall>s s'. I s \<longrightarrow> b s = Some (Inl s') \<longrightarrow> I s') \<longrightarrow>
      (\<forall>s r. I s \<longrightarrow> b s = Some (Inr r) \<longrightarrow> Q r) \<longrightarrow> I s \<longrightarrow> Q r" for b :: "'s \<Rightarrow> ('s + 'r) option" and s r
  have "P b s r"
  proof (rule loop.raw_induct [OF _ assms(1)])
    fix lp and b :: "'s \<Rightarrow> ('s + 'r) option" and s r
    assume "\<And>s b y. lp s b = Some y \<Longrightarrow> P s b y"
      and "(case b s of None \<Rightarrow> None | Some (Inl s') \<Rightarrow> lp b s' | Some (Inr r) \<Rightarrow> Some r) = Some r"
    then show "P b s r" unfolding P_def by (auto split: option.splits sum.splits)
  qed
  with assms(2-) show ?thesis unfolding P_def by blast
qed

text \<open>A loop that follows another one, step by step.\<close>

lemma loop_simulation:
  assumes "loop b q = Some r" "R s q"
    and "\<And>s q q'. R s q \<Longrightarrow> b q = Some (Inl q') \<Longrightarrow> \<exists>s'. c s = Some (Inl s') \<and> R s' q'"
    and "\<And>s q r. R s q \<Longrightarrow> b q = Some (Inr r) \<Longrightarrow> \<exists>t. c s = Some (Inr t) \<and> Q t r"
  shows "\<exists>t. loop c s = Some t \<and> Q t r"
proof (rule loop_partial [OF assms(1), where I = "\<lambda>q. \<exists>s'. loop c s = loop c s' \<and> R s' q"])
  show "\<exists>s'. loop c s = loop c s' \<and> R s' q" using assms(2) by blast
next
  fix q q' assume "\<exists>s'. loop c s = loop c s' \<and> R s' q" "b q = Some (Inl q')"
  then show "\<exists>s'. loop c s = loop c s' \<and> R s' q'" using assms(3) loop_step by metis
next
  fix q r assume "\<exists>s'. loop c s = loop c s' \<and> R s' q" "b q = Some (Inr r)"
  then show "\<exists>t. loop c s = Some t \<and> Q t r" using assms(4) loop_done by metis
qed

section \<open>Step relations\<close>

text \<open>An invariant of a step relation holds of every state reachable from one it holds of.\<close>

locale step_invariant =
  fixes step :: "'s \<Rightarrow> 's \<Rightarrow> bool" and I :: "'s \<Rightarrow> bool"
  assumes keeps: "step s s' \<Longrightarrow> I s \<Longrightarrow> I s'"
begin

lemma reachable: "step\<^sup>*\<^sup>* s s' \<Longrightarrow> I s \<Longrightarrow> I s'"
  by (induction rule: rtranclp_induct) (auto intro: keeps)

end

end
