(* ===== verification/Ppp_Core.thy ===== *)
theory Ppp_Core
  imports Prelude
begin

text \<open>
  The PPP session layer of \<open>lwip-2.1.2/src/netif/ppp/ppp.c\<close>, as this firmware builds it
  (PPPoS only, IPv4 only, no authentication, no compression of packets but VJ, phase
  notification on), with the two link callbacks of \<open>pppos.c\<close> it reaches
  (\<open>pppos_connect\<close>, \<open>pppos_disconnect\<close>) and \<open>link_terminated\<close> of \<open>auth.c\<close>.

  The calls into the LCP automaton (\<open>lcp_open\<close>, \<open>lcp_lowerup\<close>, \<open>lcp_lowerdown\<close>,
  \<open>lcp_close\<close>) are arguments of the definitions: any reaction of LCP, including one
  that comes back into this layer, is allowed. The calls out of the layer (the two user
  callbacks, timers, the network interface) are appended to \<open>out\<close> in their order.

  The control block is one structure in the source: what the protocols keep in it extends the
  record, and the operations work on every extension.
\<close>

section \<open>The control block\<close>

abbreviation (input) "PPP_PHASE_DEAD \<equiv> 0 :: u8"
abbreviation (input) "PPP_PHASE_HOLDOFF \<equiv> 2 :: u8"
abbreviation (input) "PPP_PHASE_INITIALIZE \<equiv> 3 :: u8"
abbreviation (input) "PPP_PHASE_ESTABLISH \<equiv> 6 :: u8"
abbreviation (input) "PPP_PHASE_AUTHENTICATE \<equiv> 7 :: u8"
abbreviation (input) "PPP_PHASE_NETWORK \<equiv> 9 :: u8"
abbreviation (input) "PPP_PHASE_RUNNING \<equiv> 10 :: u8"
abbreviation (input) "PPP_PHASE_TERMINATE \<equiv> 11 :: u8"
abbreviation (input) "PPP_PHASE_DISCONNECT \<equiv> 12 :: u8"

abbreviation (input) "PPPERR_NONE \<equiv> 0 :: u8"
abbreviation (input) "PPPERR_OPEN \<equiv> 2 :: u8"
abbreviation (input) "PPPERR_USER \<equiv> 5 :: u8"
abbreviation (input) "PPPERR_CONNECT \<equiv> 6 :: u8"

datatype err = ERR_OK | ERR_MEM | ERR_RTE | ERR_INPROGRESS | ERR_VAL | ERR_ALREADY | ERR_CONN
  | ERR_IF

datatype ppp_event =
    Link_Status u8          \<comment> \<open>\<open>link_status_cb(pcb, err_code)\<close>\<close>
  | Notify_Phase u8         \<comment> \<open>\<open>notify_phase_cb(pcb, phase)\<close>\<close>
  | Sys_Timeout u32         \<comment> \<open>\<open>sys_timeout(ms, ppp_do_connect, pcb)\<close>\<close>
  | Sys_Untimeout           \<comment> \<open>\<open>sys_untimeout(ppp_do_connect, pcb)\<close>\<close>
  | Netif_Link bool         \<comment> \<open>\<open>netif_set_link_up\<close>, \<open>netif_set_link_down\<close>\<close>
  | Netif_Addr u32 u32 u32  \<comment> \<open>\<open>netif_set_addr(ip, netmask, gw)\<close>\<close>
  | Link_Output u16         \<comment> \<open>\<open>pppos_netif_output\<close> with this protocol\<close>

record ppp_pcb =
  phase :: u8
  err_code :: u8
  if4_up :: bool
  notify_phase_cb :: bool      \<comment> \<open>a notify callback is registered\<close>
  pppos_open :: bool           \<comment> \<open>\<open>pppos->open\<close> of the serial link below\<close>
  vj_enabled :: bool
  dns_servers :: "u32 \<times> u32"
  out :: "ppp_event list"

record 'p lcp_ops =
  call_open :: "'p \<Rightarrow> 'p"
  call_lowerup :: "'p \<Rightarrow> 'p"
  call_lowerdown :: "'p \<Rightarrow> 'p"
  call_close :: "'p \<Rightarrow> 'p"

definition emit :: "ppp_event \<Rightarrow> 'a ppp_pcb_scheme \<Rightarrow> 'a ppp_pcb_scheme" where
  "emit e pcb = pcb\<lparr>out := out pcb @ [e]\<rparr>"

section \<open>Phases, link start and link end\<close>

definition new_phase :: "u8 \<Rightarrow> 'a ppp_pcb_scheme \<Rightarrow> 'a ppp_pcb_scheme" where
  "new_phase p pcb =
     (let pcb = pcb\<lparr>phase := p\<rparr> in if notify_phase_cb pcb then emit (Notify_Phase p) pcb else pcb)"

definition ppp_new :: "ppp_pcb" where
  "ppp_new = new_phase PPP_PHASE_DEAD
     \<lparr>phase = 0, err_code = 0, if4_up = False, notify_phase_cb = False, pppos_open = False,
      vj_enabled = False, dns_servers = (0, 0), out = []\<rparr>"

definition ppp_set_notify_phase_callback :: "'a ppp_pcb_scheme \<Rightarrow> 'a ppp_pcb_scheme" where
  "ppp_set_notify_phase_callback pcb = emit (Notify_Phase (phase pcb)) (pcb\<lparr>notify_phase_cb := True\<rparr>)"

definition ppp_start :: "'a ppp_pcb_scheme lcp_ops \<Rightarrow> 'a ppp_pcb_scheme \<Rightarrow> 'a ppp_pcb_scheme" where
  "ppp_start L pcb = call_lowerup L (call_open L (new_phase PPP_PHASE_ESTABLISH pcb))"

definition pppos_connect :: "'a ppp_pcb_scheme lcp_ops \<Rightarrow> 'a ppp_pcb_scheme \<Rightarrow> 'a ppp_pcb_scheme" where
  "pppos_connect L pcb = ppp_start L (pcb\<lparr>pppos_open := True\<rparr>)"

definition ppp_link_failed :: "'a ppp_pcb_scheme \<Rightarrow> 'a ppp_pcb_scheme" where
  "ppp_link_failed pcb =
     (let pcb = new_phase PPP_PHASE_DEAD pcb; pcb = pcb\<lparr>err_code := PPPERR_OPEN\<rparr>
      in emit (Link_Status (err_code pcb)) pcb)"

definition ppp_link_end :: "'a ppp_pcb_scheme \<Rightarrow> 'a ppp_pcb_scheme" where
  "ppp_link_end pcb =
     (let pcb = new_phase PPP_PHASE_DEAD pcb;
          pcb = (if err_code pcb = PPPERR_NONE then pcb\<lparr>err_code := PPPERR_CONNECT\<rparr> else pcb)
      in emit (Link_Status (err_code pcb)) pcb)"

definition pppos_disconnect :: "'a ppp_pcb_scheme \<Rightarrow> 'a ppp_pcb_scheme" where
  "pppos_disconnect pcb = ppp_link_end (pcb\<lparr>pppos_open := False\<rparr>)"

definition ppp_link_terminated :: "'a ppp_pcb_scheme \<Rightarrow> 'a ppp_pcb_scheme" where
  "ppp_link_terminated pcb = pppos_disconnect pcb"

definition link_terminated :: "('a ppp_pcb_scheme \<Rightarrow> 'a ppp_pcb_scheme) \<Rightarrow> 'a ppp_pcb_scheme \<Rightarrow> 'a ppp_pcb_scheme" where
  "link_terminated lowerdown pcb =
     (if phase pcb = PPP_PHASE_DEAD then pcb
      else ppp_link_terminated (lowerdown (new_phase PPP_PHASE_DISCONNECT pcb)))"

section \<open>The user's operations\<close>

text \<open>An asserted phase that does not hold stops the program: no defined result.\<close>

definition ppp_do_connect :: "'a ppp_pcb_scheme lcp_ops \<Rightarrow> 'a ppp_pcb_scheme \<Rightarrow> 'a ppp_pcb_scheme option" where
  "ppp_do_connect L pcb =
     (if phase pcb = PPP_PHASE_DEAD \<or> phase pcb = PPP_PHASE_HOLDOFF
      then Some (pppos_connect L (new_phase PPP_PHASE_INITIALIZE pcb)) else None)"

definition ppp_connect :: "'a ppp_pcb_scheme lcp_ops \<Rightarrow> u16 \<Rightarrow> 'a ppp_pcb_scheme \<Rightarrow> (err \<times> 'a ppp_pcb_scheme) option" where
  "ppp_connect L holdoff pcb =
     (if phase pcb \<noteq> PPP_PHASE_DEAD then Some (ERR_ALREADY, pcb)
      else if holdoff = 0 then do { pcb \<leftarrow> ppp_do_connect L pcb; Some (ERR_OK, pcb) }
      else Some (ERR_OK, emit (Sys_Timeout (ucast holdoff * 1000)) (new_phase PPP_PHASE_HOLDOFF pcb)))"

definition ppp_close :: "'a ppp_pcb_scheme lcp_ops \<Rightarrow> bool \<Rightarrow> 'a ppp_pcb_scheme \<Rightarrow> err \<times> 'a ppp_pcb_scheme" where
  "ppp_close L nocarrier pcb =
     (let pcb = pcb\<lparr>err_code := PPPERR_USER\<rparr>;
          pcb = (if phase pcb = PPP_PHASE_HOLDOFF
                 then new_phase PPP_PHASE_DEAD (emit Sys_Untimeout pcb) else pcb)
      in if phase pcb = PPP_PHASE_DEAD
         then (ERR_OK, emit (Link_Status (err_code pcb)) pcb)
         else if PPP_PHASE_TERMINATE \<le> phase pcb then (ERR_INPROGRESS, pcb)
         else if phase pcb < PPP_PHASE_ESTABLISH
         then (ERR_OK, ppp_link_terminated (new_phase PPP_PHASE_DISCONNECT pcb))
         else if nocarrier \<and> phase pcb = PPP_PHASE_RUNNING
         then (ERR_OK, link_terminated (call_lowerdown L) (call_lowerdown L pcb))
         else (ERR_OK, call_close L pcb))"

text \<open>\<open>ppp_free\<close>: \<open>None\<close> is the released control block.\<close>

definition ppp_free :: "'a ppp_pcb_scheme \<Rightarrow> err \<times> 'a ppp_pcb_scheme option" where
  "ppp_free pcb = (if phase pcb \<noteq> PPP_PHASE_DEAD then (ERR_CONN, Some pcb) else (ERR_OK, None))"

text \<open>\<open>ppp_ioctl\<close>: the \<open>int\<close> stored through the argument pointer, if one is given.\<close>

definition ppp_ioctl :: "'a ppp_pcb_scheme option \<Rightarrow> u8 \<Rightarrow> bool \<Rightarrow> err \<times> int option" where
  "ppp_ioctl pcb cmd arg =
     (case pcb of
        None \<Rightarrow> (ERR_VAL, None)
      | Some pcb \<Rightarrow>
          if cmd = 0 then if arg then (ERR_OK, Some (if if4_up pcb then 1 else 0)) else (ERR_VAL, None)
          else if cmd = 1 then if arg then (ERR_OK, Some (uint (err_code pcb))) else (ERR_VAL, None)
          else (ERR_VAL, None))"

section \<open>Operations for the network protocols\<close>

definition sifaddr :: "u32 \<Rightarrow> u32 \<Rightarrow> u32 \<Rightarrow> 'a ppp_pcb_scheme \<Rightarrow> 'a ppp_pcb_scheme" where
  "sifaddr our_adr his_adr netmask pcb = emit (Netif_Addr our_adr netmask his_adr) pcb"

definition cifaddr :: "'a ppp_pcb_scheme \<Rightarrow> 'a ppp_pcb_scheme" where
  "cifaddr pcb = emit (Netif_Addr 0 0xffffffff 0) pcb"

definition sdns :: "u32 \<Rightarrow> u32 \<Rightarrow> 'a ppp_pcb_scheme \<Rightarrow> 'a ppp_pcb_scheme" where
  "sdns ns1 ns2 pcb = pcb\<lparr>dns_servers := (ns1, ns2)\<rparr>"

definition cdns :: "u32 \<Rightarrow> u32 \<Rightarrow> 'a ppp_pcb_scheme \<Rightarrow> 'a ppp_pcb_scheme" where
  "cdns ns1 ns2 pcb =
     (let (a, b) = dns_servers pcb
      in pcb\<lparr>dns_servers := (if a = ns1 then 0 else a, if b = ns2 then 0 else b)\<rparr>)"

definition sifvjcomp :: "bool \<Rightarrow> 'a ppp_pcb_scheme \<Rightarrow> 'a ppp_pcb_scheme" where
  "sifvjcomp vjcomp pcb = pcb\<lparr>vj_enabled := vjcomp\<rparr>"

definition sifup :: "'a ppp_pcb_scheme \<Rightarrow> 'a ppp_pcb_scheme" where
  "sifup pcb =
     (let pcb = pcb\<lparr>if4_up := True, err_code := PPPERR_NONE\<rparr>
      in emit (Link_Status (err_code pcb)) (emit (Netif_Link True) pcb))"

definition sifdown :: "'a ppp_pcb_scheme \<Rightarrow> 'a ppp_pcb_scheme" where
  "sifdown pcb = emit (Netif_Link False) (pcb\<lparr>if4_up := False\<rparr>)"

section \<open>Packets\<close>

text \<open>
  Where \<open>ppp_input\<close> sends a packet. The verdict of the VJ decompressor (not modelled)
  is an argument; \<open>lcp_opened\<close> is \<open>pcb->lcp_fsm.state == PPP_FSM_OPENED\<close>.
\<close>

datatype ppp_verdict =
    Drop
  | To_Ip4 "u8 list"
  | To_Ip4_Vj "u8 list"
  | To_Protocol u16 "u8 list"
  | Protocol_Reject "u8 list"

abbreviation (input) "PPP_IP \<equiv> 0x21 :: u16"
abbreviation (input) "PPP_VJC_COMP \<equiv> 0x2d :: u16"
abbreviation (input) "PPP_VJC_UNCOMP \<equiv> 0x2f :: u16"
abbreviation (input) "PPP_IPCP \<equiv> 0x8021 :: u16"
abbreviation (input) "PPP_LCP \<equiv> 0xc021 :: u16"

definition protocols :: "u16 list" where
  "protocols = [PPP_LCP, PPP_IPCP]"

definition ppp_input :: "'a ppp_pcb_scheme \<Rightarrow> bool \<Rightarrow> bool \<Rightarrow> u8 list \<Rightarrow> ppp_verdict" where
  "ppp_input pcb lcp_opened vj_ok pb =
     (case pb of
        b1 # b0 # payload \<Rightarrow>
          (let protocol = word_cat b1 b0 :: u16 in
           if protocol \<noteq> PPP_LCP \<and> \<not> lcp_opened then Drop
           else if phase pcb \<le> PPP_PHASE_AUTHENTICATE \<and> protocol \<noteq> PPP_LCP then Drop
           else if protocol = PPP_IP then To_Ip4 payload
           else if protocol = PPP_VJC_COMP \<or> protocol = PPP_VJC_UNCOMP
           then if vj_enabled pcb \<and> vj_ok then To_Ip4_Vj payload else Drop
           else if protocol \<in> set protocols then To_Protocol protocol payload
           else Protocol_Reject pb)
      | _ \<Rightarrow> Drop)"

text \<open>
  The verdict of the VJ compressor and the result of the link's output routine are
  arguments.
\<close>

datatype vj_type = TYPE_IP | TYPE_COMPRESSED_TCP | TYPE_UNCOMPRESSED_TCP | TYPE_ERROR

definition ppp_netif_output :: "vj_type \<Rightarrow> err \<Rightarrow> u16 \<Rightarrow> 'a ppp_pcb_scheme \<Rightarrow> err \<times> 'a ppp_pcb_scheme" where
  "ppp_netif_output vj link_err protocol pcb =
     (if protocol = PPP_IP \<and> \<not> if4_up pcb then (ERR_RTE, pcb)
      else if protocol = PPP_IP \<and> vj_enabled pcb
      then (case vj of
              TYPE_IP \<Rightarrow> (link_err, emit (Link_Output protocol) pcb)
            | TYPE_COMPRESSED_TCP \<Rightarrow> (link_err, emit (Link_Output PPP_VJC_COMP) pcb)
            | TYPE_UNCOMPRESSED_TCP \<Rightarrow> (link_err, emit (Link_Output PPP_VJC_UNCOMP) pcb)
            | TYPE_ERROR \<Rightarrow> (ERR_VAL, pcb))
      else (link_err, emit (Link_Output protocol) pcb))"

definition ppp_netif_output_ip4 :: "vj_type \<Rightarrow> err \<Rightarrow> 'a ppp_pcb_scheme \<Rightarrow> err \<times> 'a ppp_pcb_scheme" where
  "ppp_netif_output_ip4 vj link_err pcb = ppp_netif_output vj link_err PPP_IP pcb"

section \<open>Facts of the session layer\<close>

lemmas ppp_core_defs = new_phase_def emit_def ppp_link_end_def pppos_disconnect_def
  ppp_link_terminated_def ppp_link_failed_def

lemma new_phase_simps [simp]:
  "phase (new_phase p pcb) = p"
  "err_code (new_phase p pcb) = err_code pcb"
  "if4_up (new_phase p pcb) = if4_up pcb"
  "pppos_open (new_phase p pcb) = pppos_open pcb"
  "notify_phase_cb (new_phase p pcb) = notify_phase_cb pcb"
  by (simp_all add: new_phase_def emit_def Let_def)

lemma emit_simps [simp]:
  "phase (emit e pcb) = phase pcb"
  "err_code (emit e pcb) = err_code pcb"
  "if4_up (emit e pcb) = if4_up pcb"
  "pppos_open (emit e pcb) = pppos_open pcb"
  "notify_phase_cb (emit e pcb) = notify_phase_cb pcb"
  "out (emit e pcb) = out pcb @ [e]"
  by (simp_all add: emit_def)

lemma out_new_phase [simp]:
  "out (new_phase p pcb) = out pcb @ (if notify_phase_cb pcb then [Notify_Phase p] else [])"
  by (simp add: new_phase_def emit_def Let_def)

lemma ppp_link_end_simps [simp]:
  "phase (ppp_link_end pcb) = PPP_PHASE_DEAD"
  "pppos_open (ppp_link_end pcb) = pppos_open pcb"
  "err_code (ppp_link_end pcb) = (if err_code pcb = PPPERR_NONE then PPPERR_CONNECT else err_code pcb)"
  "last (out (ppp_link_end pcb)) = Link_Status (err_code (ppp_link_end pcb))"
  by (simp_all add: ppp_link_end_def Let_def)

lemma ppp_link_terminated_simps [simp]:
  "phase (ppp_link_terminated pcb) = PPP_PHASE_DEAD"
  "\<not> pppos_open (ppp_link_terminated pcb)"
  "err_code (ppp_link_terminated pcb) =
     (if err_code pcb = PPPERR_NONE then PPPERR_CONNECT else err_code pcb)"
  "last (out (ppp_link_terminated pcb)) = Link_Status (err_code (ppp_link_terminated pcb))"
  by (simp_all add: ppp_link_terminated_def pppos_disconnect_def)

lemma ppp_link_end_error: "err_code (ppp_link_end pcb) \<noteq> PPPERR_NONE"
  by simp

text \<open>Closing a dead or held-off session only reports to the user.\<close>

lemma ppp_close_idle:
  assumes "phase pcb = PPP_PHASE_DEAD \<or> phase pcb = PPP_PHASE_HOLDOFF"
  shows "ppp_close L nc pcb = ppp_close L' nc' pcb"
    and "fst (ppp_close L nc pcb) = ERR_OK"
    and "phase (snd (ppp_close L nc pcb)) = PPP_PHASE_DEAD"
    and "\<exists>es. out (snd (ppp_close L nc pcb)) = out pcb @ es @ [Link_Status PPPERR_USER] \<and>
      (\<forall>e\<in>set es. \<forall>c. e \<noteq> Link_Status c)"
  using assms by (auto simp: ppp_close_def Let_def)

lemma ppp_close_dead:
  "phase pcb = PPP_PHASE_DEAD \<Longrightarrow>
     ppp_close L nc pcb = (ERR_OK, emit (Link_Status PPPERR_USER) (pcb\<lparr>err_code := PPPERR_USER\<rparr>))"
  by (simp add: ppp_close_def Let_def emit_def)

section \<open>Properties of the session layer\<close>

text \<open>
  \<open>ppp_close\<close> from the dead or the hold-off phase always ends in the dead phase and
  reports to the user exactly once, with \<open>PPPERR_USER\<close>, as its last act; it does not
  depend on the LCP automaton, so a close always gives the user the signal the
  reconnection is built on.
\<close>
theorem ppp_close_reports_user:
  assumes "phase pcb = PPP_PHASE_DEAD \<or> phase pcb = PPP_PHASE_HOLDOFF"
  shows "\<exists>es pcb'. ppp_close L nc pcb = (ERR_OK, pcb') \<and> phase pcb' = PPP_PHASE_DEAD \<and>
    out pcb' = out pcb @ es @ [Link_Status PPPERR_USER] \<and>
    (\<forall>c. Link_Status c \<notin> set es) \<and> (\<forall>L' nc'. ppp_close L' nc' pcb = (ERR_OK, pcb'))"
proof -
  from ppp_close_idle(4) [OF assms, of L nc] obtain es where
    "out (snd (ppp_close L nc pcb)) = out pcb @ es @ [Link_Status PPPERR_USER]"
    "\<forall>c. Link_Status c \<notin> set es" by blast
  moreover have "ppp_close L nc pcb = (ERR_OK, snd (ppp_close L nc pcb))"
    using ppp_close_idle(2) [OF assms, of L nc] by (metis prod.collapse)
  ultimately show ?thesis
    using ppp_close_idle(1,3) [OF assms] by metis
qed

theorem ppp_close_reports_user_witness:
  "\<exists>es pcb'. ppp_close \<lparr>call_open = id, call_lowerup = id, call_lowerdown = id, call_close = id\<rparr> True ppp_new = (ERR_OK, pcb') \<and>
    phase pcb' = PPP_PHASE_DEAD \<and>
    out pcb' = out ppp_new @ es @ [Link_Status PPPERR_USER] \<and>
    (\<forall>c. Link_Status c \<notin> set es) \<and> (\<forall>L' nc'. ppp_close L' nc' ppp_new = (ERR_OK, pcb'))"
  by (rule ppp_close_reports_user) (simp add: ppp_new_def)

text \<open>
  \<open>ppp_input\<close> hands a packet to the IP layer only past the authentication phase and
  with LCP opened, and then unchanged behind its two protocol bytes; an LCP packet is
  passed to LCP in every phase; every other packet is dropped until LCP is open.
\<close>
theorem ppp_input_gate:
  "(ppp_input pcb lcp_opened vj_ok pb = To_Ip4 payload \<longleftrightarrow>
      lcp_opened \<and> PPP_PHASE_AUTHENTICATE < phase pcb \<and> pb = 0x00 # 0x21 # payload) \<and>
   ppp_input pcb lcp_opened vj_ok (0xc0 # 0x21 # payload) = To_Protocol PPP_LCP payload \<and>
   (lcp_opened \<or> ppp_input pcb lcp_opened vj_ok pb = Drop \<or>
      (\<exists>p. pb = 0xc0 # 0x21 # p \<and> ppp_input pcb lcp_opened vj_ok pb = To_Protocol PPP_LCP p))"
proof -
  have cat: "(word_cat a b :: u16) = 0x21 \<longleftrightarrow> a = 0 \<and> b = 0x21"
    "(word_cat a b :: u16) = 0xc021 \<longleftrightarrow> a = 0xc0 \<and> b = 0x21" for a b :: u8
    using word_cat_8_inj [where a = a and b = b and c = 0 and d = "0x21"]
      word_cat_8_inj [where a = a and b = b and c = "0xc0" and d = "0x21"]
    by (simp_all add: word_cat_8_alt)
  have A: "ppp_input pcb lcp_opened vj_ok pb = To_Ip4 payload \<longleftrightarrow>
      lcp_opened \<and> PPP_PHASE_AUTHENTICATE < phase pcb \<and> pb = 0x00 # 0x21 # payload"
    by (auto simp: ppp_input_def Let_def cat not_less protocols_def split: list.splits if_splits)
  have B: "ppp_input pcb lcp_opened vj_ok (0xc0 # 0x21 # payload) = To_Protocol PPP_LCP payload"
    by (simp add: ppp_input_def Let_def word_cat_8_alt protocols_def)
  have nv: "(word_cat (192 :: u8) (33 :: u8) :: u16) \<noteq> 0x2d"
    "(word_cat (192 :: u8) (33 :: u8) :: u16) \<noteq> 0x2f"
    by (simp_all add: word_cat_8_alt)
  have C: "lcp_opened \<or> ppp_input pcb lcp_opened vj_ok pb = Drop \<or>
      (\<exists>p. pb = 0xc0 # 0x21 # p \<and> ppp_input pcb lcp_opened vj_ok pb = To_Protocol PPP_LCP p)"
    by (auto simp: ppp_input_def Let_def cat nv protocols_def split: list.splits)
  from A B C show ?thesis by blast
qed

end
