(* ===== verification/Gsm_State.thy ===== *)
theory Gsm_State
  imports Ppp_Core
begin

text \<open>
  The data of the modem driver: the types of \<open>gsm/gsm.h\<close> and the static variables of
  \<open>gsm/gsm_hardware_layer.c\<close> and \<open>gsm/gsm_data_layer.c\<close>, gathered into one record, with
  the hardware the two files drive (power pins, the UART transmitter, the tick counter).

  The tick is constant while one handler runs: the handlers are short against a
  millisecond. \<open>sys_reset\<close> records a call of \<open>NVIC_SystemReset\<close>, after which the program
  does not go on; the other components of a state in which it is set carry no meaning.
\<close>

section \<open>Types of \<open>gsm.h\<close>\<close>

datatype gsm_response_event = GSM_EVENT_OK | GSM_EVENT_TIMEOUT | GSM_EVENT_ERROR

datatype gsm_state_t = GSM_STATE_OK | GSM_STATE_RESET | GSM_STATE_SEND_SMS | GSM_STATE_READ_SMS
  | GSM_STATE_POWER_ON | GSM_STATE_REOPEN_PPP | GSM_STATE_GET_BTS_INFO | GSM_STATE_GOTO_SLEEP
  | GSM_STATE_WAKEUP | GSM_STATE_AT_MODE_IDLE | GSM_STATE_SLEEP | GSM_STATE_HTTP_GET
  | GSM_STATE_HTTP_POST | GSM_STATE_FILE_READ

datatype gsm_internet_mode = GSM_INTERNET_MODE_AT_STACK | GSM_INTERNET_MODE_PPP_STACK

text \<open>The functions the program passes as \<open>gsm_send_at_cb_t\<close>.\<close>

datatype at_cb = CB_gsm_config_module | CB_open_ppp_stack

abbreviation (input) "GSM_ATC_BUFFER_SIZE \<equiv> 256 :: nat"
abbreviation (input) "GSM_PPP_MODEM_BUFFER_SIZE \<equiv> 1024 :: nat"

record gsm_modem_buffer =
  idx_in :: u16
  idx_out :: u16
  modem_bytes :: "u8 list"

text \<open>The control block pointer: NULL, one that was released, or a live block.\<close>

datatype pcb_ref = Pcb_Null | Pcb_Freed | Pcb_Live ppp_pcb

section \<open>The state\<close>

record gsm =
  \<comment> \<open>\<open>m_gsm_atc.atc\<close>; the string pointers are constants of the program or NULL\<close>
  at_cmd :: "u8 list option"
  expect_resp :: "u8 list option"
  expect_end :: "u8 list option"
  timeout_atc_ms :: u32
  current_timeout_atc_ms :: u32
  retry_count_atc :: u8
  rx_buffer :: "u8 list"
  rx_index :: u16
  send_at_callback :: "at_cb option"
  \<comment> \<open>the other statics of \<open>gsm_hardware_layer.c\<close>\<close>
  modem :: gsm_modem_buffer
  m_new_uart_data :: bool
  m_dma_rx_expected_size :: u32
  m_poll_interval :: u32
  m_last_poll :: u32
  m_gsm_imei :: "u8 list"
  m_sim_imei :: "u8 list"
  m_nw_operator :: "u8 list"
  m_sim_ccid :: "u8 list"
  \<comment> \<open>\<open>m_gsm_manager\<close> and the other statics of \<open>gsm_data_layer.c\<close>\<close>
  state :: gsm_state_t
  step :: u8
  gsm_ready :: u8
  mode :: gsm_internet_mode
  ppp_phase :: u8
  m_ppp_control_block :: pcb_ref
  m_ppp_connected :: bool
  m_last_tick :: u32
  ccid_retry :: u32            \<comment> \<open>\<open>static retry\<close> of \<open>gsm_config_module\<close>\<close>
  ppp_retry_count :: u8        \<comment> \<open>\<open>static retry_count\<close> of \<open>open_ppp_stack\<close>\<close>
  power_step :: u8             \<comment> \<open>\<open>static step\<close> of \<open>gsm_power_on_sequence\<close>\<close>
  \<comment> \<open>the hardware\<close>
  tick :: u32
  pwr_en :: bool
  pwr_reset :: bool
  pwr_key :: bool
  uart_enabled :: bool
  uart_tx :: "u8 list"
  sys_reset :: bool

text \<open>The initial values of the static variables.\<close>

definition gsm_boot :: gsm where
  "gsm_boot =
     \<lparr>at_cmd = None, expect_resp = None, expect_end = None, timeout_atc_ms = 0,
      current_timeout_atc_ms = 0, retry_count_atc = 0,
      rx_buffer = replicate GSM_ATC_BUFFER_SIZE 0, rx_index = 0, send_at_callback = None,
      modem = \<lparr>idx_in = 0, idx_out = 0, modem_bytes = replicate GSM_PPP_MODEM_BUFFER_SIZE 0\<rparr>,
      m_new_uart_data = False, m_dma_rx_expected_size = 0, m_poll_interval = 5, m_last_poll = 0,
      m_gsm_imei = replicate 16 0, m_sim_imei = replicate 16 0, m_nw_operator = replicate 32 0,
      m_sim_ccid = replicate 21 0,
      state = GSM_STATE_OK, step = 0, gsm_ready = 0, mode = GSM_INTERNET_MODE_AT_STACK,
      ppp_phase = 0, m_ppp_control_block = Pcb_Null, m_ppp_connected = False, m_last_tick = 0,
      ccid_retry = 0, ppp_retry_count = 0, power_step = 0,
      tick = 0, pwr_en = False, pwr_reset = False, pwr_key = False, uart_enabled = True,
      uart_tx = [], sys_reset = False\<rparr>"

end
