(* ===== verification/Fifo_Spec.thy ===== *)
theory Fifo_Spec
  imports Prelude
begin

text \<open>
  The interface of a bounded byte queue between an interrupt that fills it and a main
  loop that drains it: what a provider promises, and what a client may conclude for
  every interleaving of the two.
\<close>

section \<open>Queues on lists\<close>

datatype 'a fifo_op = Put "'a list" | Get u32

text \<open>The abstract queue: the bytes read so far and the bytes that wait.\<close>

fun queue_run :: "'a fifo_op list \<Rightarrow> 'a list \<Rightarrow> 'a list \<times> 'a list" where
  "queue_run [] w = ([], w)"
| "queue_run (Put xs # ops) w = queue_run ops (w @ xs)"
| "queue_run (Get n # ops) w =
     (let (r, w') = queue_run ops (drop (unat n) w) in (take (unat n) w @ r, w'))"

text \<open>The backlog never exceeds the capacity.\<close>

fun fits :: "nat \<Rightarrow> 'a fifo_op list \<Rightarrow> nat \<Rightarrow> bool" where
  "fits c [] k \<longleftrightarrow> True"
| "fits c (Put xs # ops) k \<longleftrightarrow> k + length xs \<le> c \<and> fits c ops (k + length xs)"
| "fits c (Get n # ops) k \<longleftrightarrow> fits c ops (k - unat n)"

fun received :: "'a fifo_op list \<Rightarrow> 'a list" where
  "received [] = []"
| "received (Put xs # ops) = xs @ received ops"
| "received (Get n # ops) = received ops"

lemma queue_run_order: "fst (queue_run ops w) @ snd (queue_run ops w) = w @ received ops"
  by (induction ops w rule: queue_run.induct) (simp_all add: case_prod_unfold Let_def)

text \<open>The same operations on a concrete queue, and what the reads have returned.\<close>

fun fifo_run ::
  "('a list \<Rightarrow> 'q \<Rightarrow> 'q option) \<Rightarrow> (u32 \<Rightarrow> 'q \<Rightarrow> ('a list \<times> 'q) option) \<Rightarrow>
   'a fifo_op list \<Rightarrow> 'q \<Rightarrow> ('a list \<times> 'q) option" where
  "fifo_run put get [] q = Some ([], q)"
| "fifo_run put get (Put xs # ops) q = do { q \<leftarrow> put xs q; fifo_run put get ops q }"
| "fifo_run put get (Get n # ops) q = do {
     (xs, q) \<leftarrow> get n q;
     (ys, q) \<leftarrow> fifo_run put get ops q;
     Some (xs @ ys, q) }"

section \<open>The interface\<close>

locale bounded_fifo =
  fixes put :: "'a list \<Rightarrow> 'q \<Rightarrow> 'q option"
    and get :: "u32 \<Rightarrow> 'q \<Rightarrow> ('a list \<times> 'q) option"
    and inv :: "'q \<Rightarrow> bool"
    and contents :: "'q \<Rightarrow> 'a list"
    and cap :: nat
  assumes put_ok: "inv q \<Longrightarrow> length (contents q) + length xs \<le> cap \<Longrightarrow>
      \<exists>q'. put xs q = Some q' \<and> inv q' \<and> contents q' = contents q @ xs"
    and get_ok: "inv q \<Longrightarrow>
      \<exists>q'. get n q = Some (take (unat n) (contents q), q') \<and> inv q' \<and>
        contents q' = drop (unat n) (contents q)"
begin

text \<open>The concrete queue behaves as the list queue while the backlog fits.\<close>

lemma refines:
  assumes "inv q" "fits cap ops (length (contents q))"
  shows "\<exists>q'. fifo_run put get ops q = Some (fst (queue_run ops (contents q)), q') \<and> inv q' \<and>
    contents q' = snd (queue_run ops (contents q))"
  using assms
proof (induction ops arbitrary: q)
  case Nil
  then show ?case by simp
next
  case (Cons a ops)
  show ?case
  proof (cases a)
    case (Put xs)
    with Cons.prems obtain q1 where "put xs q = Some q1" "inv q1" "contents q1 = contents q @ xs"
      using put_ok [of q xs] by auto
    moreover from this have "fits cap ops (length (contents q1))" using Cons.prems(2) Put by simp
    ultimately show ?thesis using Cons.IH [of q1] Put by simp
  next
    case (Get n)
    obtain q1 where 1: "get n q = Some (take (unat n) (contents q), q1)" "inv q1"
      "contents q1 = drop (unat n) (contents q)"
      using get_ok [OF Cons.prems(1)] by blast
    with Cons.prems Get have "fits cap ops (length (contents q1))" by simp
    with Cons.IH [OF 1(2)] 1 Get show ?thesis by (auto simp: case_prod_unfold Let_def)
  qed
qed

text \<open>Nothing is lost, reordered or invented.\<close>

lemma in_order:
  assumes "inv q" "fits cap ops (length (contents q))"
  shows "\<exists>out q'. fifo_run put get ops q = Some (out, q') \<and> inv q' \<and>
    out @ contents q' = contents q @ received ops"
  using refines [OF assms] queue_run_order [of ops "contents q"] by auto

end

end
