(* ===== verification/Gsm_Hardware.thy ===== *)
theory Gsm_Hardware
  imports Gsm_State Fifo_Spec
begin

text \<open>
  The AT command engine and the receive path of \<open>gsm/gsm_hardware_layer.c\<close>: commands are
  sent with an expected response, a timeout and a retry count; received bytes go to the
  AT buffer or, in PPP mode, to the ring the PPP stack reads; \<open>gsm_hw_layer_run\<close> matches
  the AT buffer against the expectation and drives timeouts and retries.

  The callbacks are a parameter \<open>cb\<close> of \<open>gsm_hw_layer_run\<close>, because they live in the
  data layer above; they get the event and the response buffer as it stands at the call
  (\<open>None\<close> for NULL). Every callback reads the response before it sends the next command,
  so reading the snapshot is reading the buffer.
\<close>

section \<open>Transmission\<close>

text \<open>
  \<open>usart1_hw_uart_send_raw\<close> without DMA: each byte is written to the transmitter and
  waited for. The bytes come from a memory block, of which the first \<open>n\<close> are sent.
\<close>

definition gsm_hw_uart_send_raw :: "u8 list \<Rightarrow> nat \<Rightarrow> gsm \<Rightarrow> gsm option" where
  "gsm_hw_uart_send_raw raw n s = do {
     bs \<leftarrow> rd_list raw 0 n;
     Some (s\<lparr>uart_tx := uart_tx s @ bs\<rparr>) }"

text \<open>A command is a NUL-terminated constant; the model keeps it without its NUL.\<close>

definition cmd_strlen :: "u8 list option \<Rightarrow> nat option" where
  "cmd_strlen c = map_option length c"

definition gsm_hw_send_at_cmd ::
  "u8 list \<Rightarrow> u8 list \<Rightarrow> u8 list \<Rightarrow> u32 \<Rightarrow> u8 \<Rightarrow> at_cb option \<Rightarrow> gsm \<Rightarrow> gsm option" where
  "gsm_hw_send_at_cmd cmd expect_r expect_e timeout retry_count callback s =
     (if timeout = 0 \<or> callback = None
      then do { n \<leftarrow> cmd_strlen (at_cmd s); gsm_hw_uart_send_raw (cmd @ [0]) n s }
      else
        let s = s\<lparr>at_cmd := Some cmd, expect_resp := Some expect_r, expect_end := Some expect_e,
                  retry_count_atc := retry_count, send_at_callback := callback,
                  timeout_atc_ms := timeout, current_timeout_atc_ms := tick s,
                  rx_buffer := replicate GSM_ATC_BUFFER_SIZE 0, rx_index := 0\<rparr>
        in gsm_hw_uart_send_raw (cmd @ [0]) (length cmd) s)"

definition gsm_hw_layer_reset_rx_buffer :: "gsm \<Rightarrow> gsm" where
  "gsm_hw_layer_reset_rx_buffer s =
     s\<lparr>rx_buffer := replicate GSM_ATC_BUFFER_SIZE 0, rx_index := 0, retry_count_atc := 0\<rparr>"

definition gsm_change_hw_polling_interval :: "u32 \<Rightarrow> gsm \<Rightarrow> gsm" where
  "gsm_change_hw_polling_interval ms s = s\<lparr>m_poll_interval := ms\<rparr>"

section \<open>The command engine\<close>

text \<open>Whether the end of the response matches, when an end is expected.\<close>

definition end_matches :: "gsm \<Rightarrow> bool option" where
  "end_matches s =
     (case expect_end s of
        None \<Rightarrow> Some True
      | Some e \<Rightarrow>
          if e = [] then Some True
          else if length e < unat (rx_index s)
          then do { bs \<leftarrow> rd_list (rx_buffer s) (unat (rx_index s) - length e) (length e);
                    Some (bs = e) }
          else Some False)"

definition run_callback ::
  "(at_cb \<Rightarrow> gsm_response_event \<Rightarrow> u8 list option \<Rightarrow> gsm \<Rightarrow> gsm option) \<Rightarrow>
   gsm_response_event \<Rightarrow> u8 list option \<Rightarrow> gsm \<Rightarrow> gsm option" where
  "run_callback cb event response s =
     (case send_at_callback s of None \<Rightarrow> Some s | Some f \<Rightarrow> cb f event response s)"

text \<open>The receive half of \<open>gsm_hw_layer_run\<close>, entered while a command is pending.\<close>

definition at_receive ::
  "(at_cb \<Rightarrow> gsm_response_event \<Rightarrow> u8 list option \<Rightarrow> gsm \<Rightarrow> gsm option) \<Rightarrow> gsm \<Rightarrow> gsm option" where
  "at_receive cb s =
     (if \<not> m_new_uart_data s then Some s
      else do {
        let s = s\<lparr>m_new_uart_data := False\<rparr>;
        expected \<leftarrow> expect_resp s;
        hit \<leftarrow> c_strstr (rx_buffer s) 0 expected;
        if hit = None then Some s
        else do {
          do_cb \<leftarrow> end_matches s;
          if \<not> do_cb then Some s
          else do {
            let s = s\<lparr>retry_count_atc := 0, timeout_atc_ms := 0\<rparr>;
            buf \<leftarrow> wr (rx_buffer s) (unat (rx_index s)) 0;
            let s = s\<lparr>rx_buffer := buf\<rparr>;
            s \<leftarrow> run_callback cb GSM_EVENT_OK (Some buf) s;
            Some (s\<lparr>rx_index := 0, rx_buffer := replicate GSM_ATC_BUFFER_SIZE 0\<rparr>) } } })"

text \<open>The timeout half.\<close>

definition at_timeout ::
  "(at_cb \<Rightarrow> gsm_response_event \<Rightarrow> u8 list option \<Rightarrow> gsm \<Rightarrow> gsm option) \<Rightarrow> gsm \<Rightarrow> gsm option" where
  "at_timeout cb s =
     (let diff = tick s - current_timeout_atc_ms s in
      if timeout_atc_ms s \<noteq> 0 \<and> timeout_atc_ms s \<le> diff
      then
        let s = (if retry_count_atc s \<noteq> 0
                 then s\<lparr>retry_count_atc := retry_count_atc s - 1\<rparr> else s)
        in if retry_count_atc s = 0
           then do {
             let s = s\<lparr>timeout_atc_ms := 0\<rparr>;
             s \<leftarrow> run_callback cb GSM_EVENT_TIMEOUT None s;
             let s = s\<lparr>rx_index := 0\<rparr>;
             buf \<leftarrow> wr (rx_buffer s) (unat (rx_index s)) 0;
             Some (s\<lparr>rx_buffer := buf\<rparr>) }
           else do {
             let s = s\<lparr>current_timeout_atc_ms := tick s\<rparr>;
             cmd \<leftarrow> at_cmd s;
             gsm_hw_uart_send_raw (cmd @ [0]) (length cmd) s }
      else Some s)"

definition gsm_hw_layer_run ::
  "(at_cb \<Rightarrow> gsm_response_event \<Rightarrow> u8 list option \<Rightarrow> gsm \<Rightarrow> gsm option) \<Rightarrow> gsm \<Rightarrow> gsm option" where
  "gsm_hw_layer_run cb s =
     (if tick s - m_last_poll s < m_poll_interval s then Some s
      else do {
        let s = s\<lparr>m_last_poll := tick s\<rparr>;
        s \<leftarrow> (if retry_count_atc s \<noteq> 0 then at_receive cb s else Some s);
        s \<leftarrow> at_timeout cb s;
        Some (s\<lparr>m_last_poll := tick s\<rparr>) })"

section \<open>The receive path\<close>

definition modem_put :: "u8 \<Rightarrow> gsm_modem_buffer \<Rightarrow> gsm_modem_buffer option" where
  "modem_put b q = do {
     bs \<leftarrow> wr (modem_bytes q) (unat (idx_in q)) b;
     let i = idx_in q + 1;
     let i = (if of_nat GSM_PPP_MODEM_BUFFER_SIZE \<le> i then 0 else i);
     bs \<leftarrow> wr bs (unat i) 0;
     Some (q\<lparr>idx_in := i, modem_bytes := bs\<rparr>) }"

fun modem_put_all :: "u8 list \<Rightarrow> gsm_modem_buffer \<Rightarrow> gsm_modem_buffer option" where
  "modem_put_all [] q = Some q"
| "modem_put_all (b # bs) q = do { q \<leftarrow> modem_put b q; modem_put_all bs q }"

fun at_fill :: "u8 list \<Rightarrow> u8 list \<times> u16 \<Rightarrow> (u8 list \<times> u16) option" where
  "at_fill [] (buf, index) = Some (buf, index)"
| "at_fill (b # bs) (buf, index) = do {
     buf \<leftarrow> wr buf (unat index) b;
     let index = index + 1;
     if GSM_ATC_BUFFER_SIZE \<le> unat index
     then do { buf \<leftarrow> wr buf 0 0; Some (buf, 0) }
     else at_fill bs (buf, index) }"

definition gsm_hw_layer_uart_fill_rx :: "u8 list \<Rightarrow> gsm \<Rightarrow> gsm option" where
  "gsm_hw_layer_uart_fill_rx data s =
     (if data = [] then Some s
      else
        let s = s\<lparr>m_new_uart_data := True\<rparr>
        in if mode s = GSM_INTERNET_MODE_PPP_STACK
           then do { q \<leftarrow> modem_put_all data (modem s); Some (s\<lparr>modem := q\<rparr>) }
           else do { (buf, index) \<leftarrow> at_fill data (rx_buffer s, rx_index s);
                     Some (s\<lparr>rx_buffer := buf, rx_index := index\<rparr>) })"

definition modem_get :: "gsm_modem_buffer \<Rightarrow> (u8 option \<times> gsm_modem_buffer) option" where
  "modem_get q =
     (if idx_out q = idx_in q then Some (None, q)
      else do {
        b \<leftarrow> rd (modem_bytes q) (unat (idx_out q));
        let o' = idx_out q + 1;
        let o' = (if o' = of_nat GSM_PPP_MODEM_BUFFER_SIZE then 0 else o');
        Some (Some b, q\<lparr>idx_out := o'\<rparr>) })"

text \<open>The bytes copied to the caller; their number is the source's result.\<close>

fun modem_copy :: "nat \<Rightarrow> gsm_modem_buffer \<Rightarrow> (u8 list \<times> gsm_modem_buffer) option" where
  "modem_copy 0 q = Some ([], q)"
| "modem_copy (Suc n) q = do {
     (b, q) \<leftarrow> modem_get q;
     case b of
       None \<Rightarrow> Some ([], q)
     | Some b \<Rightarrow> do { (bs, q) \<leftarrow> modem_copy n q; Some (b # bs, q) } }"

definition gsm_hardware_layer_copy_ppp_buffer :: "u32 \<Rightarrow> gsm \<Rightarrow> (u8 list \<times> gsm) option" where
  "gsm_hardware_layer_copy_ppp_buffer len s = do {
     (bs, q) \<leftarrow> modem_copy (unat len) (modem s);
     Some (bs, s\<lparr>modem := q\<rparr>) }"

definition gsm_uart_rx_dma_update_rx_index :: "bool \<Rightarrow> gsm \<Rightarrow> gsm option" where
  "gsm_uart_rx_dma_update_rx_index rx_status s =
     (if rx_status
      then Some (s\<lparr>rx_index := rx_index s + ucast (m_dma_rx_expected_size s)\<rparr>)
      else do { buf \<leftarrow> wr (rx_buffer s) 0 0;
                Some (s\<lparr>m_dma_rx_expected_size := 0, rx_buffer := buf, sys_reset := True\<rparr>) })"

definition gsm_uart_handler :: "gsm \<Rightarrow> gsm" where
  "gsm_uart_handler s = s\<lparr>m_new_uart_data := True\<rparr>"

section \<open>Identity strings\<close>

definition gsm_set_sim_imei :: "u8 list \<Rightarrow> gsm \<Rightarrow> gsm option" where
  "gsm_set_sim_imei imei s = do {
     bs \<leftarrow> rd_list imei 0 15; m \<leftarrow> wr_list (m_sim_imei s) 0 bs; m \<leftarrow> wr m 15 0;
     Some (s\<lparr>m_sim_imei := m\<rparr>) }"

definition gsm_set_module_imei :: "u8 list \<Rightarrow> gsm \<Rightarrow> gsm option" where
  "gsm_set_module_imei imei s = do {
     bs \<leftarrow> rd_list imei 0 15; m \<leftarrow> wr_list (m_gsm_imei s) 0 bs; m \<leftarrow> wr m 15 0;
     Some (s\<lparr>m_gsm_imei := m\<rparr>) }"

text \<open>\<open>snprintf\<close> with \<open>"%s"\<close> and size 31: at most 30 characters and a NUL.\<close>

definition gsm_set_network_operator :: "u8 list \<Rightarrow> gsm \<Rightarrow> gsm option" where
  "gsm_set_network_operator nw_operator s = do {
     _ \<leftarrow> c_strlen nw_operator 0;
     m \<leftarrow> wr_list (m_nw_operator s) 0 (take 30 (cstr nw_operator 0) @ [0]);
     m \<leftarrow> wr m 31 0;
     Some (s\<lparr>m_nw_operator := m\<rparr>) }"

section \<open>The PPP ring is a queue of capacity 1023\<close>

definition ring_length :: "gsm_modem_buffer \<Rightarrow> nat" where
  "ring_length q = (unat (idx_in q) + 1024 - unat (idx_out q)) mod 1024"

definition ring_contents :: "gsm_modem_buffer \<Rightarrow> u8 list" where
  "ring_contents q =
     map (\<lambda>k. modem_bytes q ! ((unat (idx_out q) + k) mod 1024)) [0..<ring_length q]"

definition ring_inv :: "gsm_modem_buffer \<Rightarrow> bool" where
  "ring_inv q \<longleftrightarrow> length (modem_bytes q) = 1024 \<and> unat (idx_in q) < 1024 \<and> unat (idx_out q) < 1024"

lemma length_ring_contents [simp]: "length (ring_contents q) = ring_length q"
  by (simp add: ring_contents_def)

lemma ring_length_less: "ring_length q < 1024"
  by (simp add: ring_length_def)

lemma ring_in: "ring_inv q \<Longrightarrow> (unat (idx_out q) + ring_length q) mod 1024 = unat (idx_in q)"
  by (simp add: ring_length_def ring_inv_def mod_add_right_eq)

lemma mod_add_inj_less:
  fixes a b c n :: nat
  assumes "(c + b) mod n = (c + a) mod n" "b < n" "a < b"
  shows False
proof -
  have "n dvd (c + b) - (c + a)" using assms(1,3) mod_eq_dvd_iff_nat [of "c + a" "c + b" n] by simp
  then have "n dvd b - a" by simp
  then show False using assms(2,3) by (auto dest: dvd_imp_le)
qed

lemma mod_add_inj:
  fixes a b c n :: nat
  assumes "(c + a) mod n = (c + b) mod n" "a < n" "b < n"
  shows "a = b"
  using mod_add_inj_less [of c a n b] mod_add_inj_less [of c b n a] assms
  by (metis linorder_neqE_nat)

lemma ring_succ:
  assumes "unat (i :: u16) < 1024"
  shows "unat (if of_nat 1024 \<le> i + 1 then 0 else i + 1) = (unat i + 1) mod 1024"
proof -
  have u: "unat (i + 1) = unat i + 1" using unat_u16_plus_one [of i] assms by simp
  have e: "(of_nat 1024 \<le> i + 1) = (1024 \<le> unat i + 1)" using u by (simp add: word_le_nat_alt)
  show ?thesis
  proof (cases "unat i + 1 = 1024")
    case True
    then show ?thesis using e by simp
  next
    case False
    then have "unat i + 1 < 1024" using assms by simp
    then show ?thesis using e u by simp
  qed
qed

lemma ring_succ_eq:
  assumes "unat (i :: u16) < 1024"
  shows "unat (if i + 1 = of_nat 1024 then 0 else i + 1) = (unat i + 1) mod 1024"
proof -
  have u: "unat (i + 1) = unat i + 1" using unat_u16_plus_one [of i] assms by simp
  have e: "(i + 1 = of_nat 1024) = (unat i + 1 = 1024)" using u by (simp add: word_unat_eq_iff)
  show ?thesis
  proof (cases "unat i + 1 = 1024")
    case True
    then show ?thesis using e by simp
  next
    case False
    then have "unat i + 1 < 1024" using assms by simp
    then show ?thesis using e u False by simp
  qed
qed

lemma modem_put_eq:
  assumes "ring_inv q"
  shows "\<exists>q'. modem_put b q = Some q' \<and> ring_inv q' \<and> idx_out q' = idx_out q \<and>
    unat (idx_in q') = (unat (idx_in q) + 1) mod 1024 \<and>
    modem_bytes q' = ((modem_bytes q)[unat (idx_in q) := b])[(unat (idx_in q) + 1) mod 1024 := 0]"
  using ring_succ [of "idx_in q"] assms
  by (simp add: modem_put_def ring_inv_def Let_def wr_def)

lemma ring_contents_put:
  assumes q: "ring_inv q" and n: "ring_length q < 1023"
    and q': "idx_out q' = idx_out q" "unat (idx_in q') = (unat (idx_in q) + 1) mod 1024"
    "modem_bytes q' = ((modem_bytes q)[unat (idx_in q) := b])[(unat (idx_in q) + 1) mod 1024 := 0]"
  shows "ring_contents q' = ring_contents q @ [b]"
proof -
  let ?o = "unat (idx_out q)" and ?i = "unat (idx_in q)" and ?n = "ring_length q"
  have i: "(?o + ?n) mod 1024 = ?i" by (rule ring_in [OF q])
  have l: "length (modem_bytes q) = 1024" "?o < 1024" "?i < 1024" using q by (simp_all add: ring_inv_def)
  have i1: "(?i + 1) mod 1024 = (?o + Suc ?n) mod 1024" using i by (metis Suc_eq_plus1 add_Suc_right mod_Suc_eq)
  have n': "ring_length q' = Suc ?n"
    using n l q' unfolding ring_length_def by (auto simp: mod_if split: if_splits)
  have old: "modem_bytes q' ! ((?o + k) mod 1024) = modem_bytes q ! ((?o + k) mod 1024)"
    if "k < ?n" for k
  proof -
    have "(?o + k) mod 1024 \<noteq> ?i" using mod_add_inj [of ?o k 1024 ?n] i that n by auto
    moreover have "(?o + k) mod 1024 \<noteq> (?i + 1) mod 1024"
      using mod_add_inj [of ?o k 1024 "Suc ?n"] i1 that n by auto
    ultimately show ?thesis using q'(3) l by simp
  qed
  have "(?i + 1) mod 1024 \<noteq> ?i" using l by (simp add: mod_if)
  then have new: "modem_bytes q' ! ((?o + ?n) mod 1024) = b" using q'(3) l i by simp
  show ?thesis using old new n' q'(1) by (simp add: ring_contents_def)
qed

lemma modem_put_ok:
  assumes "ring_inv q" "ring_length q < 1023"
  shows "\<exists>q'. modem_put b q = Some q' \<and> ring_inv q' \<and> ring_contents q' = ring_contents q @ [b]"
  using modem_put_eq [OF assms(1), of b] ring_contents_put [OF assms] by blast

lemma modem_put_all_ok:
  "ring_inv q \<Longrightarrow> ring_length q + length bs \<le> 1023 \<Longrightarrow>
     \<exists>q'. modem_put_all bs q = Some q' \<and> ring_inv q' \<and> ring_contents q' = ring_contents q @ bs"
proof (induction bs arbitrary: q)
  case (Cons b bs)
  from Cons.prems obtain q1 where 1: "modem_put b q = Some q1" "ring_inv q1"
    "ring_contents q1 = ring_contents q @ [b]"
    using modem_put_ok [of q b] by auto
  then have "ring_length q1 = Suc (ring_length q)" by (metis length_append_singleton length_ring_contents)
  with Cons.IH [OF 1(2)] Cons.prems(2) 1 show ?case by auto
qed simp

lemma modem_get_ok:
  assumes q: "ring_inv q"
  shows "case ring_contents q of
      [] \<Rightarrow> modem_get q = Some (None, q)
    | b # bs \<Rightarrow> \<exists>q'. modem_get q = Some (Some b, q') \<and> ring_inv q' \<and> ring_contents q' = bs"
proof (cases "ring_length q")
  case 0
  then have "unat (idx_in q) = unat (idx_out q)" using ring_in [OF q] q by (simp add: ring_inv_def)
  then have "idx_out q = idx_in q" by (simp add: word_unat_eq_iff)
  then show ?thesis using 0 by (simp add: ring_contents_def modem_get_def)
next
  case (Suc n)
  let ?o = "unat (idx_out q)" and ?i = "unat (idx_in q)"
  have l: "length (modem_bytes q) = 1024" "?o < 1024" "?i < 1024" using q by (simp_all add: ring_inv_def)
  have ne: "idx_out q \<noteq> idx_in q" using Suc l by (auto simp: ring_length_def)
  define o' where "o' = (if idx_out q + 1 = of_nat 1024 then 0 else idx_out q + 1)"
  have o': "unat o' = (?o + 1) mod 1024" unfolding o'_def by (rule ring_succ_eq) (rule l)
  let ?q' = "q\<lparr>idx_out := o'\<rparr>"
  have g: "modem_get q = Some (Some (modem_bytes q ! ?o), ?q')"
    using ne l by (simp add: modem_get_def o'_def Let_def)
  have n: "ring_length ?q' = n"
    using Suc l o' unfolding ring_length_def by (auto simp: mod_if split: if_splits)
  have "ring_contents q = map (\<lambda>k. modem_bytes q ! ((?o + k) mod 1024)) (0 # map Suc [0..<n])"
    unfolding ring_contents_def Suc by (subst map_Suc_upt) (simp add: upt_conv_Cons del: upt_Suc)
  also have "\<dots> = modem_bytes q ! ?o # ring_contents ?q'"
    using n l o' by (simp add: ring_contents_def comp_def mod_add_left_eq)
  finally show ?thesis using g l o' by (simp add: ring_inv_def)
qed

lemma modem_copy_ok:
  "ring_inv q \<Longrightarrow> \<exists>q'. modem_copy n q = Some (take n (ring_contents q), q') \<and> ring_inv q' \<and>
     ring_contents q' = drop n (ring_contents q)"
proof (induction n arbitrary: q)
  case (Suc n)
  note g = modem_get_ok [OF Suc.prems]
  show ?case
  proof (cases "ring_contents q")
    case Nil
    with g Suc.prems show ?thesis by simp
  next
    case (Cons b bs)
    with g obtain q1 where "modem_get q = Some (Some b, q1)" "ring_inv q1" "ring_contents q1 = bs" by auto
    with Suc.IH [of q1] Cons show ?thesis by auto
  qed
qed simp

definition ppp_rx_inv :: "gsm \<Rightarrow> bool" where
  "ppp_rx_inv s \<longleftrightarrow> mode s = GSM_INTERNET_MODE_PPP_STACK \<and> ring_inv (modem s)"

interpretation ppp_ring: bounded_fifo gsm_hw_layer_uart_fill_rx gsm_hardware_layer_copy_ppp_buffer
  ppp_rx_inv "\<lambda>s. ring_contents (modem s)" 1023
proof
  fix s and xs :: "u8 list"
  assume "ppp_rx_inv s" "length (ring_contents (modem s)) + length xs \<le> 1023"
  then show "\<exists>s'. gsm_hw_layer_uart_fill_rx xs s = Some s' \<and> ppp_rx_inv s' \<and>
      ring_contents (modem s') = ring_contents (modem s) @ xs"
    using modem_put_all_ok [of "modem s" xs]
    by (auto simp: gsm_hw_layer_uart_fill_rx_def ppp_rx_inv_def Let_def)
next
  fix s n
  assume "ppp_rx_inv s"
  then show "\<exists>s'. gsm_hardware_layer_copy_ppp_buffer n s =
        Some (take (unat n) (ring_contents (modem s)), s') \<and> ppp_rx_inv s' \<and>
      ring_contents (modem s') = drop (unat n) (ring_contents (modem s))"
    using modem_copy_ok [of "modem s" "unat n"]
    by (auto simp: gsm_hardware_layer_copy_ppp_buffer_def ppp_rx_inv_def)
qed

lemma modem_put_full:
  assumes q: "ring_inv q" and n: "ring_length q = 1023"
  shows "\<exists>q'. modem_put b q = Some q' \<and> ring_inv q' \<and> ring_contents q' = []"
proof -
  from modem_put_eq [OF q, of b] obtain q' where
    q': "modem_put b q = Some q'" "ring_inv q'" "idx_out q' = idx_out q"
    "unat (idx_in q') = (unat (idx_in q) + 1) mod 1024" by blast
  have "unat (idx_in q') = (unat (idx_out q) + Suc 1023) mod 1024"
    using q'(4) ring_in [OF q] n by (metis add_Suc_right mod_Suc_eq Suc_eq_plus1)
  then have "unat (idx_in q') = unat (idx_out q')" using q q'(3) by (simp add: ring_inv_def)
  then have "ring_length q' = 0" by (simp add: ring_length_def)
  then show ?thesis using q' by (simp add: ring_contents_def)
qed

section \<open>The AT receive buffer\<close>

lemma at_fill_fit:
  "length buf = 256 \<Longrightarrow> unat i + length bs < 256 \<Longrightarrow>
     at_fill bs (buf, i) =
       Some (take (unat i) buf @ bs @ drop (unat i + length bs) buf, i + of_nat (length bs))"
proof (induction bs arbitrary: buf i)
  case (Cons b bs)
  have i1: "unat (i + 1) = Suc (unat i)" using Cons.prems by (intro unat_u16_plus_one) simp
  have t: "take (Suc (unat i)) (buf[unat i := b]) = take (unat i) buf @ [b]"
    using Cons.prems by (simp add: take_Suc_conv_app_nth)
  show ?case using Cons.IH [of "buf[unat i := b]" "i + 1"] Cons.prems i1 t
    by (simp add: wr_def Let_def add.commute add.left_commute)
qed simp

lemma at_fill_overflow:
  "length buf = 256 \<Longrightarrow> unat i < 256 \<Longrightarrow> 256 \<le> unat i + length bs \<Longrightarrow>
     at_fill bs (buf, i) = Some ((take (unat i) buf @ take (256 - unat i) bs)[0 := 0], 0)"
proof (induction bs arbitrary: buf i)
  case (Cons b bs)
  have i1: "unat (i + 1) = Suc (unat i)" using Cons.prems by (intro unat_u16_plus_one) simp
  have t: "take (Suc (unat i)) (buf[unat i := b]) = take (unat i) buf @ [b]"
    using Cons.prems by (simp add: take_Suc_conv_app_nth)
  show ?case
  proof (cases "unat i = 255")
    case True
    then have "buf[unat i := b] = take (unat i) buf @ [b]"
      using t Cons.prems(1) i1 by simp
    then show ?thesis using Cons.prems True i1 by (simp add: wr_def Let_def)
  next
    case False
    then have "256 - unat i = Suc (256 - Suc (unat i))" using Cons.prems by simp
    then show ?thesis using Cons.IH [of "buf[unat i := b]" "i + 1"] Cons.prems i1 t False
      by (simp add: wr_def Let_def)
  qed
qed simp

lemma at_fill_inv:
  assumes "length buf = 256" "unat i < 256"
  shows "\<exists>buf' i'. at_fill bs (buf, i) = Some (buf', i') \<and> length buf' = 256 \<and> unat i' < 256"
proof (cases "unat i + length bs < 256")
  case True
  then have "unat (i + of_nat (length bs)) = unat i + length bs"
    by (simp add: unat_word_ariths unat_of_nat take_bit_eq_mod)
  then show ?thesis using at_fill_fit [OF assms(1) True] assms True by simp
next
  case False
  then show ?thesis using at_fill_overflow [OF assms, of bs] assms by simp
qed

section \<open>One command and its response\<close>

text \<open>A sequence of receive interrupts, each with the bytes it delivers.\<close>

fun deliver :: "u8 list list \<Rightarrow> gsm \<Rightarrow> gsm option" where
  "deliver [] s = Some s"
| "deliver (c # cs) s = do { s \<leftarrow> gsm_hw_layer_uart_fill_rx c s; deliver cs s }"

lemma deliver_at:
  assumes "mode s = GSM_INTERNET_MODE_AT_STACK"
  shows "rx_buffer s = resp @ replicate (256 - length resp) 0 \<Longrightarrow> rx_index s = of_nat (length resp) \<Longrightarrow>
    length (resp @ concat cs) < 256 \<Longrightarrow>
    deliver cs s = Some (s\<lparr>rx_buffer := resp @ concat cs @ replicate (256 - length (resp @ concat cs)) 0,
      rx_index := of_nat (length (resp @ concat cs)),
      m_new_uart_data := m_new_uart_data s \<or> concat cs \<noteq> []\<rparr>)"
  using assms
proof (induction cs arbitrary: s resp)
  case Nil
  then show ?case by simp
next
  case (Cons c cs)
  show ?case
  proof (cases "c = []")
    case True
    then show ?thesis using Cons by (simp add: gsm_hw_layer_uart_fill_rx_def)
  next
    case False
    have i: "unat (rx_index s) = length resp"
      using Cons.prems by (simp add: unat_of_nat take_bit_eq_mod)
    have l: "length (rx_buffer s) = 256" using Cons.prems by simp
    have "at_fill c (rx_buffer s, rx_index s) =
        Some ((resp @ c) @ replicate (256 - length (resp @ c)) 0, of_nat (length (resp @ c)))"
      using at_fill_fit [OF l, of "rx_index s" c] i Cons.prems by (simp add: add.commute)
    then have "gsm_hw_layer_uart_fill_rx c s = Some (s\<lparr>m_new_uart_data := True,
        rx_buffer := (resp @ c) @ replicate (256 - length (resp @ c)) 0,
        rx_index := of_nat (length (resp @ c))\<rparr>)"
      using False Cons.prems by (simp add: gsm_hw_layer_uart_fill_rx_def Let_def)
    then show ?thesis using Cons.prems False by (simp add: Cons.IH [of _ "resp @ c"])
  qed
qed

text \<open>The state right after a command is sent.\<close>

definition at_pending ::
  "u8 list \<Rightarrow> u8 list \<Rightarrow> u8 list \<Rightarrow> u32 \<Rightarrow> u8 \<Rightarrow> at_cb \<Rightarrow> gsm \<Rightarrow> gsm" where
  "at_pending cmd er ee timeout retry f s =
     s\<lparr>at_cmd := Some cmd, expect_resp := Some er, expect_end := Some ee, retry_count_atc := retry,
       send_at_callback := Some f, timeout_atc_ms := timeout, current_timeout_atc_ms := tick s,
       rx_buffer := replicate 256 0, rx_index := 0, uart_tx := uart_tx s @ cmd\<rparr>"

lemma gsm_hw_send_at_cmd_eq:
  "timeout \<noteq> 0 \<Longrightarrow> gsm_hw_send_at_cmd cmd er ee timeout retry (Some f) s =
     Some (at_pending cmd er ee timeout retry f s)"
  by (simp add: gsm_hw_send_at_cmd_def at_pending_def gsm_hw_uart_send_raw_def rd_list_def Let_def)

definition response_complete :: "u8 list \<Rightarrow> u8 list \<Rightarrow> u8 list \<Rightarrow> bool" where
  "response_complete er ee resp \<longleftrightarrow>
     (\<exists>a b. resp = a @ er @ b) \<and> (ee = [] \<or> (\<exists>a. a \<noteq> [] \<and> resp = a @ ee))"

lemma suffix_take_drop:
  "length e < length r \<Longrightarrow> take (length e) (drop (length r - length e) r) = e \<longleftrightarrow> (\<exists>a. a \<noteq> [] \<and> r = a @ e)"
  by (auto simp: append_eq_conv_conj) (metis append_take_drop_id diff_is_0_eq length_drop length_take not_le take_all diff_diff_cancel less_imp_le_nat append_Nil length_0_conv take_eq_Nil zero_less_diff)

lemma end_matches_response:
  assumes "rx_buffer s = resp @ replicate (256 - length resp) 0" "rx_index s = of_nat (length resp)"
    "length resp < 256" "expect_end s = Some ee"
  shows "end_matches s = Some (ee = [] \<or> (\<exists>a. a \<noteq> [] \<and> resp = a @ ee))"
proof -
  have i: "unat (rx_index s) = length resp" using assms by (simp add: unat_of_nat take_bit_eq_mod)
  show ?thesis
  proof (cases "length ee < length resp")
    case True
    then have "rd_list (rx_buffer s) (length resp - length ee) (length ee) =
        Some (take (length ee) (drop (length resp - length ee) resp))"
      using assms by (simp add: rd_list_def)
    then show ?thesis using True i assms(4) suffix_take_drop [OF True]
      by (auto simp: end_matches_def)
  next
    case False
    then show ?thesis using i assms(4) by (auto simp: end_matches_def)
  qed
qed

lemma at_receive_response:
  assumes "rx_buffer s = resp @ replicate (256 - length resp) 0" "rx_index s = of_nat (length resp)"
    "length resp < 256" "0 \<notin> set resp" "expect_resp s = Some er" "expect_end s = Some ee"
    "send_at_callback s = Some f" "m_new_uart_data s"
  shows "at_receive cb s =
    (if response_complete er ee resp
     then do { s' \<leftarrow> cb f GSM_EVENT_OK (Some (rx_buffer s))
                 (s\<lparr>m_new_uart_data := False, retry_count_atc := 0, timeout_atc_ms := 0\<rparr>);
               Some (s'\<lparr>rx_index := 0, rx_buffer := replicate 256 0\<rparr>) }
     else Some (s\<lparr>m_new_uart_data := False\<rparr>))"
proof -
  let ?s = "s\<lparr>m_new_uart_data := False\<rparr>"
  have split: "rx_buffer s = resp @ 0 # replicate (255 - length resp) 0"
  proof -
    have "256 - length resp = Suc (255 - length resp)" using assms(3) by simp
    then show ?thesis using assms(1) by (simp only: replicate_Suc)
  qed
  have hit: "c_strstr (rx_buffer s) 0 er = Some (find_sub er resp)"
    using cstr_append [OF assms(4)] terminated_append [of resp] split
    by (cases "find_sub er resp") (simp_all add: c_strstr_def)
  have em: "end_matches ?s = Some (ee = [] \<or> (\<exists>a. a \<noteq> [] \<and> resp = a @ ee))"
    by (rule end_matches_response) (use assms in simp_all)
  have i: "unat (rx_index s) = length resp" using assms by (simp add: unat_of_nat take_bit_eq_mod)
  have upd: "(rx_buffer s)[length resp := 0] = rx_buffer s"
    using split by simp
  have w: "wr (rx_buffer s) (length resp) 0 = Some (rx_buffer s)"
    using upd assms(1,3) by (simp add: wr_def)
  define Q where "Q \<longleftrightarrow> ee = [] \<or> (\<exists>a. a \<noteq> [] \<and> resp = a @ ee)"
  have rc: "response_complete er ee resp \<longleftrightarrow> find_sub er resp \<noteq> None \<and> Q"
    unfolding response_complete_def Q_def find_sub_iff ..
  have same: "\<And>x. s\<lparr>m_new_uart_data := False, retry_count_atc := 0, timeout_atc_ms := 0,
      rx_buffer := rx_buffer s\<rparr> = s\<lparr>m_new_uart_data := False, retry_count_atc := 0, timeout_atc_ms := 0\<rparr>"
    by simp
  show ?thesis
    using em hit assms(5,7,8) i w same unfolding Q_def [symmetric] rc
    by (cases "find_sub er resp"; cases Q) (simp_all add: at_receive_def Let_def run_callback_def)
qed

lemma at_timeout_early:
  assumes "tick s - current_timeout_atc_ms s < timeout_atc_ms s"
  shows "at_timeout cb s = Some s"
proof -
  have "\<not> timeout_atc_ms s \<le> tick s - current_timeout_atc_ms s" using assms by (simp add: not_le)
  then show ?thesis by (simp add: at_timeout_def)
qed

text \<open>A poll of the engine when the response to a command has arrived in pieces.\<close>

lemma at_response_run:
  assumes s1: "s1 = at_pending cmd er ee timeout retry f s"
    and T: "timeout \<noteq> 0" "retry \<noteq> 0" and m: "mode s = GSM_INTERNET_MODE_AT_STACK"
    and c: "concat cs \<noteq> []" "0 \<notin> set (concat cs)" "length (concat cs) < 256"
    and due: "m_poll_interval s \<le> t - m_last_poll s" and early: "t - tick s < timeout"
  shows "(do { s2 \<leftarrow> deliver cs s1; gsm_hw_layer_run cb (s2\<lparr>tick := t\<rparr>) }) =
    (let resp = concat cs; buf = resp @ replicate (256 - length resp) 0;
         s3 = s1\<lparr>rx_buffer := buf, rx_index := of_nat (length resp), tick := t, m_last_poll := t,
                 m_new_uart_data := False\<rparr>
     in if response_complete er ee resp
        then do { s4 \<leftarrow> cb f GSM_EVENT_OK (Some buf) (s3\<lparr>retry_count_atc := 0, timeout_atc_ms := 0\<rparr>);
                  s5 \<leftarrow> at_timeout cb (s4\<lparr>rx_index := 0, rx_buffer := replicate 256 0\<rparr>);
                  Some (s5\<lparr>m_last_poll := tick s5\<rparr>) }
        else Some s3)"
proof -
  let ?resp = "concat cs" and ?buf = "concat cs @ replicate (256 - length (concat cs)) 0"
  have d: "deliver cs s1 = Some (s1\<lparr>rx_buffer := ?buf, rx_index := of_nat (length ?resp),
      m_new_uart_data := True\<rparr>)"
    using deliver_at [of s1 "[]" cs] m c by (simp add: s1 at_pending_def)
  let ?s2 = "s1\<lparr>rx_buffer := ?buf, rx_index := of_nat (length ?resp), m_new_uart_data := True,
    tick := t, m_last_poll := t\<rparr>"
  have r: "at_receive cb ?s2 =
    (if response_complete er ee ?resp
     then do { s' \<leftarrow> cb f GSM_EVENT_OK (Some ?buf)
                 (?s2\<lparr>m_new_uart_data := False, retry_count_atc := 0, timeout_atc_ms := 0\<rparr>);
               Some (s'\<lparr>rx_index := 0, rx_buffer := replicate 256 0\<rparr>) }
     else Some (?s2\<lparr>m_new_uart_data := False\<rparr>))"
    using at_receive_response [of ?s2 ?resp er ee f cb] c by (simp add: s1 at_pending_def)
  have nt: "at_timeout cb (?s2\<lparr>m_new_uart_data := False\<rparr>) = Some (?s2\<lparr>m_new_uart_data := False\<rparr>)"
    by (rule at_timeout_early) (use early in \<open>simp add: s1 at_pending_def\<close>)
  show ?thesis
    unfolding d using r nt T due
    by (auto simp: gsm_hw_layer_run_def Let_def s1 at_pending_def not_less bind_assoc)
qed

section \<open>A command without a response\<close>

text \<open>Polls every \<open>d\<close> milliseconds in which nothing arrives.\<close>

fun idle_polls ::
  "(at_cb \<Rightarrow> gsm_response_event \<Rightarrow> u8 list option \<Rightarrow> gsm \<Rightarrow> gsm option) \<Rightarrow> u32 \<Rightarrow> nat \<Rightarrow> gsm \<Rightarrow>
   gsm option" where
  "idle_polls cb d 0 s = Some s"
| "idle_polls cb d (Suc n) s = do {
     s \<leftarrow> gsm_hw_layer_run cb (s\<lparr>tick := tick s + d\<rparr>);
     idle_polls cb d n s }"

definition at_abandoned :: "u8 list \<Rightarrow> u32 \<Rightarrow> nat \<Rightarrow> gsm \<Rightarrow> gsm" where
  "at_abandoned cmd d k s =
     s\<lparr>retry_count_atc := 0, timeout_atc_ms := 0,
       current_timeout_atc_ms := (if k = 0 then current_timeout_atc_ms s else tick s + of_nat k * d),
       tick := tick s + of_nat (Suc k) * d, m_last_poll := tick s + of_nat (Suc k) * d,
       uart_tx := uart_tx s @ concat (replicate k cmd)\<rparr>"

lemma idle_poll_resend:
  assumes "at_cmd s = Some cmd" "timeout_atc_ms s \<noteq> 0" "\<not> m_new_uart_data s"
    and "unat (retry_count_atc s) = Suc (Suc k)"
    and "m_poll_interval s \<le> tick s + d - m_last_poll s"
    and "timeout_atc_ms s \<le> tick s + d - current_timeout_atc_ms s"
  shows "gsm_hw_layer_run cb (s\<lparr>tick := tick s + d\<rparr>) =
    Some (s\<lparr>tick := tick s + d, m_last_poll := tick s + d, retry_count_atc := retry_count_atc s - 1,
            current_timeout_atc_ms := tick s + d, uart_tx := uart_tx s @ cmd\<rparr>)"
proof -
  have r: "retry_count_atc s \<noteq> 0" "retry_count_atc s \<noteq> 1" using assms(4) by auto
  have d: "\<not> tick s + d - m_last_poll s < m_poll_interval s" using assms(5) by (simp add: not_less)
  show ?thesis
    using assms(1-3,6) r d
    by (simp add: gsm_hw_layer_run_def Let_def at_receive_def at_timeout_def
        gsm_hw_uart_send_raw_def rd_list_def)
qed

lemma idle_poll_last:
  assumes "timeout_atc_ms s \<noteq> 0" "\<not> m_new_uart_data s" "retry_count_atc s = 1"
    and "m_poll_interval s \<le> tick s + d - m_last_poll s"
    and "timeout_atc_ms s \<le> tick s + d - current_timeout_atc_ms s" "send_at_callback s = Some f"
  shows "gsm_hw_layer_run cb (s\<lparr>tick := tick s + d\<rparr>) =
    do { s' \<leftarrow> cb f GSM_EVENT_TIMEOUT None (s\<lparr>tick := tick s + d, m_last_poll := tick s + d,
              retry_count_atc := 0, timeout_atc_ms := 0\<rparr>);
         buf \<leftarrow> wr (rx_buffer s') 0 0;
         Some (s'\<lparr>rx_index := 0, rx_buffer := buf, m_last_poll := tick s'\<rparr>) }"
proof -
  have d: "\<not> tick s + d - m_last_poll s < m_poll_interval s" using assms(4) by (simp add: not_less)
  show ?thesis
    using assms(1-3,5,6) d
    by (simp add: gsm_hw_layer_run_def Let_def at_receive_def at_timeout_def run_callback_def)
qed

lemma idle_give_up:
  assumes "at_cmd s = Some cmd" "send_at_callback s = Some f" "timeout_atc_ms s \<noteq> 0"
    and "\<not> m_new_uart_data s" "timeout_atc_ms s \<le> d" "m_poll_interval s \<le> d"
    and "m_poll_interval s \<le> tick s + d - m_last_poll s"
    and "timeout_atc_ms s \<le> tick s + d - current_timeout_atc_ms s"
    and "unat (retry_count_atc s) = Suc k"
  shows "idle_polls cb d (Suc k) s =
    do { s' \<leftarrow> cb f GSM_EVENT_TIMEOUT None (at_abandoned cmd d k s);
         buf \<leftarrow> wr (rx_buffer s') 0 0;
         Some (s'\<lparr>rx_index := 0, rx_buffer := buf, m_last_poll := tick s'\<rparr>) }"
  using assms
proof (induction k arbitrary: s)
  case 0
  then have "unat (retry_count_atc s) = unat (1 :: u8)" by simp
  then have r: "retry_count_atc s = 1" by (simp only: word_unat_eq_iff)
  have "at_abandoned cmd d 0 s = s\<lparr>tick := tick s + d, m_last_poll := tick s + d,
      retry_count_atc := 0, timeout_atc_ms := 0\<rparr>"
    by (rule gsm.equality) (simp_all add: at_abandoned_def)
  then show ?case using idle_poll_last [of s d f cb] 0 r by simp
next
  case (Suc k)
  let ?s = "s\<lparr>tick := tick s + d, m_last_poll := tick s + d, retry_count_atc := retry_count_atc s - 1,
            current_timeout_atc_ms := tick s + d, uart_tx := uart_tx s @ cmd\<rparr>"
  have p: "gsm_hw_layer_run cb (s\<lparr>tick := tick s + d\<rparr>) = Some ?s"
    by (rule idle_poll_resend) (use Suc.prems in auto)
  have "unat (retry_count_atc s - 1) = Suc k"
    using Suc.prems(9) by (simp add: unat_sub word_le_nat_alt)
  then have i: "idle_polls cb d (Suc k) ?s =
    do { s' \<leftarrow> cb f GSM_EVENT_TIMEOUT None (at_abandoned cmd d k ?s);
         buf \<leftarrow> wr (rx_buffer s') 0 0;
         Some (s'\<lparr>rx_index := 0, rx_buffer := buf, m_last_poll := tick s'\<rparr>) }"
    by (intro Suc.IH) (use Suc.prems in simp_all)
  have "at_abandoned cmd d k ?s = at_abandoned cmd d (Suc k) s"
    by (rule gsm.equality) (simp_all add: at_abandoned_def algebra_simps)
  then show ?case using p i by simp
qed

section \<open>Overflow of the AT buffer\<close>

lemma at_overflow_unterminated:
  assumes m: "mode s = GSM_INTERNET_MODE_AT_STACK" and i: "rx_index s = 0"
    and l: "length (rx_buffer s) = 256" and c: "256 \<le> length c1" "0 \<notin> set c1"
    and c2: "c2 \<noteq> []" "length c2 < 256" "0 \<notin> set c2"
  shows "\<exists>buf. deliver [c1, c2] s = Some (s\<lparr>rx_buffer := buf, rx_index := of_nat (length c2),
      m_new_uart_data := True\<rparr>) \<and> length buf = 256 \<and> \<not> terminated buf 0"
proof -
  have "c1 \<noteq> []" using c(1) by auto
  have f1: "at_fill c1 (rx_buffer s, 0) = Some ((take 256 c1)[0 := 0], 0)"
    using at_fill_overflow [OF l, of 0 c1] c by simp
  let ?b = "(take 256 c1)[0 := 0]"
  have "at_fill c2 (?b, 0) = Some (c2 @ drop (length c2) ?b, of_nat (length c2))"
    using at_fill_fit [of ?b 0 c2] c c2 by simp
  moreover have "drop (length c2) ?b = drop (length c2) (take 256 c1)"
    using c2(1) by (simp add: drop_update_cancel)
  ultimately have f2: "at_fill c2 (?b, 0) =
      Some (c2 @ drop (length c2) (take 256 c1), of_nat (length c2))" by simp
  have "0 \<notin> set (c2 @ drop (length c2) (take 256 c1))"
    using c c2 by (auto dest: in_set_dropD in_set_takeD)
  then have "\<not> terminated (c2 @ drop (length c2) (take 256 c1)) 0" by (simp add: terminated_def)
  moreover have "deliver [c1, c2] s = Some (s\<lparr>rx_buffer := c2 @ drop (length c2) (take 256 c1),
      rx_index := of_nat (length c2), m_new_uart_data := True\<rparr>)"
    using f1 f2 m i \<open>c1 \<noteq> []\<close> c2 by (simp add: gsm_hw_layer_uart_fill_rx_def Let_def)
  ultimately show ?thesis using c c2 by (intro exI conjI) (assumption, simp_all)
qed

lemma at_timeout_none: "timeout_atc_ms s = 0 \<Longrightarrow> at_timeout cb s = Some s"
  by (simp add: at_timeout_def)

lemma gsm_boot_fields:
  "mode gsm_boot = GSM_INTERNET_MODE_AT_STACK" "m_poll_interval gsm_boot = 5"
  "m_last_poll gsm_boot = 0" "tick gsm_boot = 0" "m_new_uart_data gsm_boot = False"
  "uart_tx gsm_boot = []" "rx_index gsm_boot = 0" "length (rx_buffer gsm_boot) = 256"
  by (simp_all add: gsm_boot_def)

section \<open>Properties of the modem's serial layer\<close>

text \<open>
  C2. For every interleaving of receive interrupts and reads by the PPP stack in which
  at most 1023 bytes wait in the ring, the bytes read followed by the bytes that still
  wait are exactly the bytes that waited at the start followed by the bytes received:
  nothing is lost, reordered or duplicated, and no access leaves the ring.
\<close>
theorem ppp_rx_in_order:
  assumes "mode s = GSM_INTERNET_MODE_PPP_STACK" and "ring_inv (modem s)"
    and "fits 1023 ops (length (ring_contents (modem s)))"
  shows "\<exists>read s'. fifo_run gsm_hw_layer_uart_fill_rx gsm_hardware_layer_copy_ppp_buffer ops s =
      Some (read, s') \<and> ring_inv (modem s') \<and>
    read @ ring_contents (modem s') = ring_contents (modem s) @ received ops"
  using ppp_ring.in_order [of s ops] assms by (auto simp: ppp_rx_inv_def)

theorem ppp_rx_in_order_witness:
  "\<exists>read s'. fifo_run gsm_hw_layer_uart_fill_rx gsm_hardware_layer_copy_ppp_buffer
      [Put [0x7e, 0xff], Get 1, Put [3], Get 512] (gsm_boot\<lparr>mode := GSM_INTERNET_MODE_PPP_STACK\<rparr>) =
      Some (read, s') \<and> ring_inv (modem s') \<and>
    read @ ring_contents (modem s') =
      ring_contents (modem (gsm_boot\<lparr>mode := GSM_INTERNET_MODE_PPP_STACK\<rparr>)) @
      received [Put [0x7e, 0xff], Get 1, Put [3], Get 512]"
  by (rule ppp_rx_in_order) (simp_all add: gsm_boot_def ring_inv_def ring_contents_def ring_length_def)

text \<open>
  The ring has no full condition: a byte received while 1023 bytes wait makes the
  read and the write index meet, so all 1024 bytes are lost at once.
\<close>
theorem ppp_rx_overrun:
  assumes "mode s = GSM_INTERNET_MODE_PPP_STACK" and "ring_inv (modem s)"
    and "length (ring_contents (modem s)) = 1023"
  shows "\<exists>s'. gsm_hw_layer_uart_fill_rx [b] s = Some s' \<and> ring_contents (modem s') = []"
  using modem_put_full [OF assms(2), of b] assms(1,3)
  by (auto simp: gsm_hw_layer_uart_fill_rx_def Let_def)

theorem ppp_rx_overrun_witness:
  "\<exists>s'. gsm_hw_layer_uart_fill_rx [7] (gsm_boot\<lparr>mode := GSM_INTERNET_MODE_PPP_STACK,
      modem := \<lparr>idx_in = 1023, idx_out = 0, modem_bytes = replicate 1024 1\<rparr>\<rparr>) = Some s' \<and>
    ring_contents (modem s') = []"
  by (rule ppp_rx_overrun) (simp_all add: ring_inv_def ring_length_def)

text \<open>
  C3. A command is answered exactly when its response, received in any number of
  pieces of fewer than 256 bytes in all before the timeout, contains the expected text
  and, where an end is expected, is longer than it and ends with it. Then the callback
  runs once, with \<open>GSM_EVENT_OK\<close> and the whole response, no retry is left, and the
  receive buffer is cleared behind it; otherwise the poll changes nothing but its
  time stamp and the engine goes on waiting.
\<close>
theorem at_response_matching:
  assumes "timeout \<noteq> 0" and "retry \<noteq> 0" and "mode s = GSM_INTERNET_MODE_AT_STACK"
    and "concat cs \<noteq> []" and "0 \<notin> set (concat cs)" and "length (concat cs) < 256"
    and "m_poll_interval s \<le> t - m_last_poll s" and "t - tick s < timeout"
  shows "(do { s1 \<leftarrow> gsm_hw_send_at_cmd cmd er ee timeout retry (Some f) s;
               s2 \<leftarrow> deliver cs s1; gsm_hw_layer_run cb (s2\<lparr>tick := t\<rparr>) }) =
    (let resp = concat cs; buf = resp @ replicate (256 - length resp) 0;
         s3 = (at_pending cmd er ee timeout retry f s)\<lparr>rx_buffer := buf,
                 rx_index := of_nat (length resp), tick := t, m_last_poll := t,
                 m_new_uart_data := False\<rparr>
     in if (\<exists>a b. resp = a @ er @ b) \<and> (ee = [] \<or> (\<exists>a. a \<noteq> [] \<and> resp = a @ ee))
        then do { s4 \<leftarrow> cb f GSM_EVENT_OK (Some buf) (s3\<lparr>retry_count_atc := 0, timeout_atc_ms := 0\<rparr>);
                  s5 \<leftarrow> at_timeout cb (s4\<lparr>rx_index := 0, rx_buffer := replicate 256 0\<rparr>);
                  Some (s5\<lparr>m_last_poll := tick s5\<rparr>) }
        else Some s3)"
  using at_response_run [OF refl assms, of cmd er ee f cb] gsm_hw_send_at_cmd_eq [OF assms(1)]
  by (simp add: response_complete_def)

theorem at_response_matching_witness:
  "map_option (\<lambda>s. (gsm_ready s, retry_count_atc s))
     (do { s1 \<leftarrow> gsm_hw_send_at_cmd (str ''ATV1'' @ crlf) (str ''OK'' @ crlf) [] 1000 30
             (Some CB_gsm_config_module) gsm_boot;
           s2 \<leftarrow> deliver [crlf @ str ''O'', str ''K'' @ crlf] s1;
           gsm_hw_layer_run (\<lambda>f e r s. Some (s\<lparr>gsm_ready := 7\<rparr>)) (s2\<lparr>tick := 6\<rparr>) }) = Some (7, 0)"
proof -
  let ?cb = "\<lambda>f e r s. Some (s\<lparr>gsm_ready := 7\<rparr>)"
  have "\<exists>a b. concat [crlf @ str ''O'', str ''K'' @ crlf] = a @ (str ''OK'' @ crlf) @ b"
    by (intro exI [of _ crlf] exI [of _ "[]"]) simp
  then show ?thesis
    using at_response_matching [of 1000 30 gsm_boot "[crlf @ str ''O'', str ''K'' @ crlf]" 6
        "str ''ATV1'' @ crlf" "str ''OK'' @ crlf" "[]" CB_gsm_config_module ?cb] gsm_boot_fields
    by (simp add: Let_def at_timeout_none)
qed

text \<open>
  C6. A command nobody answers does end: polled every \<open>d\<close> milliseconds, with \<open>d\<close> at
  least its timeout, it is transmitted \<open>retry\<close> times in all, and the \<open>retry\<close>-th poll
  calls the callback, once, with \<open>GSM_EVENT_TIMEOUT\<close> and no response.
\<close>
theorem at_command_gives_up:
  assumes "timeout \<noteq> 0" and "retry \<noteq> 0" and "\<not> m_new_uart_data s" and "timeout \<le> d"
    and "m_poll_interval s \<le> d" and "m_poll_interval s \<le> tick s + d - m_last_poll s"
  shows "(do { s1 \<leftarrow> gsm_hw_send_at_cmd cmd er ee timeout retry (Some f) s;
               idle_polls cb d (unat retry) s1 }) =
    do { s' \<leftarrow> cb f GSM_EVENT_TIMEOUT None
           (at_abandoned cmd d (unat retry - 1) (at_pending cmd er ee timeout retry f s));
         buf \<leftarrow> wr (rx_buffer s') 0 0;
         Some (s'\<lparr>rx_index := 0, rx_buffer := buf, m_last_poll := tick s'\<rparr>) }"
proof -
  have "0 < unat retry" using assms(2) by (simp add: unat_gt_0)
  then obtain k where k: "unat retry = Suc k" by (cases "unat retry") auto
  show ?thesis
    using idle_give_up [of "at_pending cmd er ee timeout retry f s" cmd f d k cb] assms k
      gsm_hw_send_at_cmd_eq [OF assms(1)]
    by (simp add: at_pending_def)
qed

theorem at_command_gives_up_witness:
  "map_option (\<lambda>s. (gsm_ready s, uart_tx s))
     (do { s1 \<leftarrow> gsm_hw_send_at_cmd (str ''AT'' @ crlf) (str ''OK'' @ crlf) [] 1000 2
             (Some CB_open_ppp_stack) gsm_boot;
           idle_polls (\<lambda>f e r s. Some (s\<lparr>gsm_ready := 9\<rparr>)) 1000 (unat (2 :: u8)) s1 }) =
   Some (9, str ''AT'' @ crlf @ str ''AT'' @ crlf)"
  using at_command_gives_up [of 1000 2 gsm_boot 1000 "str ''AT'' @ crlf" "str ''OK'' @ crlf" "[]"
      CB_open_ppp_stack "\<lambda>f e r s. Some (s\<lparr>gsm_ready := 9\<rparr>)"]
    gsm_boot_fields
  by (simp add: at_abandoned_def at_pending_def)

text \<open>
  The overflow branch of the AT receive path resets the index but keeps the other
  255 bytes: when 256 bytes have come without a NUL and more follow, no NUL is left in
  the buffer, and the next poll of a pending command runs \<open>strstr\<close> over its end.
\<close>
theorem at_overflow_overruns:
  assumes "mode s = GSM_INTERNET_MODE_AT_STACK" and "rx_index s = 0" and "length (rx_buffer s) = 256"
    and "256 \<le> length c1" and "0 \<notin> set c1" and "c2 \<noteq> []" and "length c2 < 256" and "0 \<notin> set c2"
    and "retry_count_atc s \<noteq> 0" and "m_poll_interval s \<le> t - m_last_poll s"
  shows "\<exists>s'. deliver [c1, c2] s = Some s' \<and> gsm_hw_layer_run cb (s'\<lparr>tick := t\<rparr>) = None"
proof -
  obtain buf where b: "deliver [c1, c2] s = Some (s\<lparr>rx_buffer := buf, rx_index := of_nat (length c2),
      m_new_uart_data := True\<rparr>)" "\<not> terminated buf 0"
    using at_overflow_unterminated [OF assms(1-8)] by blast
  have "\<not> t - m_last_poll s < m_poll_interval s" using assms(10) by (simp add: not_less)
  with b assms(9) show ?thesis
    by (auto simp: gsm_hw_layer_run_def at_receive_def c_strstr_def Let_def
        split: bind_split option.split)
qed

theorem at_overflow_overruns_witness:
  "\<exists>s'. deliver [replicate 256 65, [66]] (gsm_boot\<lparr>retry_count_atc := 5\<rparr>) = Some s' \<and>
    gsm_hw_layer_run (\<lambda>f e r s. Some s) (s'\<lparr>tick := 5\<rparr>) = None"
  by (rule at_overflow_overruns) (simp_all add: gsm_boot_def)

end
