(* ===== verification/Gsm_Utilities.thy ===== *)
theory Gsm_Utilities
  imports Prelude
begin

text \<open>
  The modem response parsers of \<open>gsm/gsm_utilities.c\<close>. Every parser reads a response
  that lies in a memory block \<open>m\<close> (the AT receive buffer) and writes its result into a
  caller's block; both are byte lists, so each parser states exactly which accesses
  are inside its buffers. Loop counters keep the width the source declares.
\<close>

section \<open>Numbers and characters\<close>

definition is_digit :: "u8 \<Rightarrow> bool" where
  "is_digit c \<longleftrightarrow> 48 \<le> c \<and> c \<le> 57"

definition number_step :: "u8 list \<Rightarrow> nat \<Rightarrow> nat \<Rightarrow> u16 \<times> u32 \<Rightarrow> (u16 \<times> u32 + u32) option" where
  "number_step m p len = (\<lambda>(tmp, value). do {
     c \<leftarrow> rd m (p + unat tmp);
     if c \<noteq> 0 \<and> unat tmp < len
     then if is_digit c then Some (Inl (tmp + 1, value * 10 + (ucast c - 48)))
          else Some (Inr value)
     else Some (Inr value) })"

definition gsm_utilities_get_number_from_string :: "u8 list \<Rightarrow> nat \<Rightarrow> u16 \<Rightarrow> u32 option" where
  "gsm_utilities_get_number_from_string m p begin_index = do {
     len \<leftarrow> c_strlen m p;
     loop (number_step m p len) (begin_index, 0) }"

definition index_step :: "u8 \<Rightarrow> u8 list \<Rightarrow> nat \<Rightarrow> nat \<Rightarrow> u32 \<Rightarrow> (u32 + u32) option" where
  "index_step ch m p max_length = (\<lambda>tmp_cnt.
     if unat tmp_cnt < max_length
     then do { c \<leftarrow> rd m (p + unat tmp_cnt);
               if c = ch then Some (Inr tmp_cnt) else Some (Inl (tmp_cnt + 1)) }
     else Some (Inr (- 1)))"

text \<open>The \<open>int32_t\<close> result is the word read as two's complement; \<open>- 1\<close> is "not found".\<close>

definition find_index_of_char :: "u8 \<Rightarrow> u8 list \<Rightarrow> nat \<Rightarrow> u32 option" where
  "find_index_of_char char_to_find m p = do {
     max_length \<leftarrow> c_strlen m p;
     loop (index_step char_to_find m p max_length) 0 }"

text \<open>
  The offsets of a character in a string, stored one after the other in a fixed array:
  the scan both \<open>get_network_access_tech\<close> (commas, 12 places) and
  \<open>get_network_operator\<close> (quotes, 5 places) run. The counters are \<open>uint8_t\<close>.
\<close>

definition collect_step ::
  "u8 \<Rightarrow> u8 list \<Rightarrow> nat \<Rightarrow> u8 \<times> u8 \<times> u8 list \<Rightarrow> (u8 \<times> u8 \<times> u8 list + u8 \<times> u8 list) option" where
  "collect_step ch m t = (\<lambda>(i, index, comma_idx). do {
     len \<leftarrow> c_strlen m t;
     if unat i < len
     then do { c \<leftarrow> rd m (t + unat i);
               if c = ch
               then do { comma_idx \<leftarrow> wr comma_idx (unat index) i;
                         Some (Inl (i + 1, index + 1, comma_idx)) }
               else Some (Inl (i + 1, index, comma_idx)) }
     else Some (Inr (index, comma_idx)) })"

definition collect_idx :: "u8 \<Rightarrow> u8 list \<Rightarrow> nat \<Rightarrow> nat \<Rightarrow> (u8 \<times> u8 list) option" where
  "collect_idx ch m t n = loop (collect_step ch m t) (0, 0, replicate n 0)"

section \<open>The parsers\<close>

definition gsm_utilities_get_signal_strength_from_buffer ::
  "u8 list \<Rightarrow> u8 \<Rightarrow> (bool \<times> u8) option" where
  "gsm_utilities_get_signal_strength_from_buffer m csq = do {
     r \<leftarrow> c_strstr m 0 (str ''+CSQ:'');
     case r of
       None \<Rightarrow> Some (False, csq)
     | Some t \<Rightarrow> do { n \<leftarrow> gsm_utilities_get_number_from_string m t 6; Some (True, ucast n) } }"

text \<open>
  \<open>gsm_utilities_get_imei\<close>: \<open>tmp_count - 1\<close> is an \<open>int\<close>, so a zero limit would write
  in front of the result.
\<close>

definition imei_step ::
  "u8 list \<Rightarrow> u8 \<Rightarrow> u8 \<times> u8 \<times> u8 list \<Rightarrow> (u8 \<times> u8 \<times> u8 list + u8 \<times> u8 list) option" where
  "imei_step m max_lenth = (\<lambda>(count, tmp_count, result). do {
     len \<leftarrow> c_strlen m 0;
     if unat count < len
     then do {
       c \<leftarrow> rd m (unat count);
       (tmp_count, result) \<leftarrow>
         (if is_digit c
          then do { result \<leftarrow> wr result (unat tmp_count) c; Some (tmp_count + 1, result) }
          else Some (tmp_count, result));
       if max_lenth \<le> tmp_count
       then if tmp_count = 0 then None
            else do { result \<leftarrow> wr result (unat tmp_count - 1) 0; Some (Inr (tmp_count, result)) }
       else Some (Inl (count + 1, tmp_count, result)) }
     else Some (Inr (tmp_count, result)) })"

definition gsm_utilities_get_imei :: "u8 list \<Rightarrow> u8 list \<Rightarrow> u8 \<Rightarrow> u8 list option" where
  "gsm_utilities_get_imei imei_buffer result max_lenth = do {
     (tmp_count, result) \<leftarrow> loop (imei_step imei_buffer max_lenth) (0, 0, result);
     wr result (unat tmp_count) 0 }"

definition ccid_step ::
  "u8 list \<Rightarrow> nat \<Rightarrow> u8 \<Rightarrow> u8 \<times> u8 \<times> u8 list \<Rightarrow> (u8 \<times> u8 \<times> u8 list + u8 \<times> u8 list) option" where
  "ccid_step m p max_lenth = (\<lambda>(count, tmp_count, result). do {
     len \<leftarrow> c_strlen m p;
     if unat count < len
     then do {
       c \<leftarrow> rd m (p + unat count);
       if is_digit c
       then do {
         result \<leftarrow> wr result (unat tmp_count) c;
         let tmp_count = tmp_count + 1;
         if max_lenth \<le> tmp_count
         then if tmp_count = 0 then None
              else do { result \<leftarrow> wr result (unat tmp_count - 1) 0; Some (Inr (tmp_count, result)) }
         else Some (Inl (count + 1, tmp_count, result)) }
       else Some (Inr (tmp_count, result)) }
     else Some (Inr (tmp_count, result)) })"

definition gsm_utilities_get_sim_ccid :: "u8 list \<Rightarrow> u8 list \<Rightarrow> u8 \<Rightarrow> u8 list option" where
  "gsm_utilities_get_sim_ccid imei_buffer result max_lenth = do {
     r \<leftarrow> c_strstr imei_buffer 0 (str ''+QCCID: '');
     case r of
       None \<Rightarrow> wr result 0 0
     | Some q \<Rightarrow> do {
         (tmp_count, result) \<leftarrow> loop (ccid_step imei_buffer (q + 8) max_lenth) (0, 0, result);
         wr result (unat tmp_count) 0 } }"

definition gsm_utilities_process_cusd_message :: "u8 list \<Rightarrow> u8 list \<Rightarrow> nat \<Rightarrow> u8 list option" where
  "gsm_utilities_process_cusd_message m money max_len = do {
     r \<leftarrow> c_strstr m 0 (str ''+CUSD: '');
     case r of
       Some cusd \<Rightarrow> do { bs \<leftarrow> rd_list m cusd max_len; wr_list money 0 bs }
     | None \<Rightarrow> if 3 < max_len then wr_list money 0 (str ''NA'' @ [0]) else Some money }"

definition gsm_utilities_get_network_access_tech :: "u8 list \<Rightarrow> u8 \<Rightarrow> (bool \<times> u8) option" where
  "gsm_utilities_get_network_access_tech m access_technology = do {
     r \<leftarrow> c_strstr m 0 (str ''+CGREG:'');
     case r of
       None \<Rightarrow> Some (False, access_technology)
     | Some t \<Rightarrow> do {
         (index, comma_idx) \<leftarrow> collect_idx 44 m t 12;
         if 4 \<le> index
         then do {
           n \<leftarrow> gsm_utilities_get_number_from_string m t (ucast (comma_idx ! 3) + 1);
           let tech = (ucast n :: u8);
           Some (True, if 9 < tech then 9 else tech) }
         else Some (False, access_technology) } }"

text \<open>
  \<open>length - 1\<close> is passed to \<open>memcpy\<close> as a size, so a zero length (a zero limit) is an
  access of the whole address space.
\<close>

definition gsm_utilities_get_network_operator :: "u8 list \<Rightarrow> u8 list \<Rightarrow> u8 \<Rightarrow> u8 list option" where
  "gsm_utilities_get_network_operator m nw_operator max_len = do {
     nw_operator \<leftarrow> wr nw_operator 0 0;
     r \<leftarrow> c_strstr m 0 (str ''+COPS:'');
     case r of
       None \<Rightarrow> Some nw_operator
     | Some t \<Rightarrow> do {
         (index, comma_idx) \<leftarrow> collect_idx 34 m t 5;
         if 2 \<le> index
         then do {
           let len = comma_idx ! 1 - comma_idx ! 0;
           let len = (if max_len < len then max_len else len);
           if len = 0 then None
           else do {
             bs \<leftarrow> rd_list m (t + unat (comma_idx ! 0) + 1) (unat len - 1);
             wr_list nw_operator 0 bs } }
         else Some nw_operator } }"

definition gsm_utilities_parse_http_action_response ::
  "u8 list \<Rightarrow> u32 \<Rightarrow> u32 \<Rightarrow> (bool \<times> u32 \<times> u32) option" where
  "gsm_utilities_parse_http_action_response m error_code content_length = do {
     r \<leftarrow> c_strstr m 0 (str '': 0,'');
     case r of
       None \<Rightarrow> Some (False, error_code, content_length)
     | Some q \<Rightarrow> do {
         code \<leftarrow> gsm_utilities_get_number_from_string m (q + 4) 0;
         r \<leftarrow> c_strstr m (q + 4) (str '','');
         case r of
           None \<Rightarrow> Some (code = 200, code, 0)
         | Some q' \<Rightarrow> do {
             n \<leftarrow> gsm_utilities_get_number_from_string m (q' + 1) 0;
             Some (code = 200, code, n) } } }"

text \<open>
  \<open>atoi\<close> over the part of \<open>tmp\<close> the loop has written: leading white space, a sign, the
  digits. Running into the unwritten part, or over the \<open>int\<close> range, has no defined
  result.
\<close>

definition is_space :: "u8 \<Rightarrow> bool" where
  "is_space c \<longleftrightarrow> c = 32 \<or> (9 \<le> c \<and> c \<le> 13)"

fun atoi_digits :: "int \<Rightarrow> u8 list \<Rightarrow> int option" where
  "atoi_digits v [] = None"
| "atoi_digits v (c # cs) = (if is_digit c then atoi_digits (10 * v + (uint c - 48)) cs else Some v)"

definition c_atoi :: "u8 list \<Rightarrow> int option" where
  "c_atoi s = (case dropWhile is_space s of
     [] \<Rightarrow> None
   | c # cs \<Rightarrow> do {
       n \<leftarrow> (if c = 45 then map_option uminus (atoi_digits 0 cs)
            else if c = 43 then atoi_digits 0 cs else atoi_digits 0 (c # cs));
       if - (2 ^ 31) \<le> n \<and> n < 2 ^ 31 then Some n else None })"

definition httpread_step ::
  "u8 list \<Rightarrow> nat \<times> nat \<times> u8 list \<Rightarrow> (nat \<times> nat \<times> u8 list + nat \<times> u8 list) option" where
  "httpread_step m = (\<lambda>(i, p, tmp).
     if i < 31
     then do { c \<leftarrow> rd m p;
               if c \<noteq> 13 then Some (Inl (i + 1, p + 1, tmp @ [c]))
               else Some (Inr (p, tmp @ [0])) }
     else Some (Inr (p, tmp)))"

text \<open>The result is the data size (\<open>-1\<close> on a malformed message) and the data pointer.\<close>

definition gsm_utilities_parse_httpread_msg :: "u8 list \<Rightarrow> nat \<Rightarrow> (int \<times> nat) option" where
  "gsm_utilities_parse_httpread_msg m begin_data_pointer = do {
     r \<leftarrow> c_strstr m 0 (str ''CONNECT'' @ crlf);
     case r of
       None \<Rightarrow> Some (- 1, begin_data_pointer)
     | Some q \<Rightarrow> do {
         r \<leftarrow> c_strstr m (q + 9) (str ''OK'' @ crlf);
         case r of
           None \<Rightarrow> Some (- 1, begin_data_pointer)
         | Some _ \<Rightarrow> do {
             (p, tmp) \<leftarrow> loop (httpread_step m) (0, q + 9, []);
             n \<leftarrow> c_atoi tmp;
             Some (n, p + 2) } } }"

definition copy_step ::
  "u8 list \<Rightarrow> nat \<Rightarrow> u16 \<Rightarrow> u16 \<times> u16 \<times> u8 list \<Rightarrow> (u16 \<times> u16 \<times> u8 list + u16 \<times> u8 list) option" where
  "copy_step m p end_idx = (\<lambda>(tmp_cnt, i, dst).
     if sint tmp_cnt < sint end_idx
     then if int p + sint tmp_cnt < 0 \<or> sint i < 0 then None
          else do {
            c \<leftarrow> rd m (nat (int p + sint tmp_cnt));
            dst \<leftarrow> wr dst (nat (sint i)) c;
            Some (Inl (tmp_cnt + 1, i + 1, dst)) }
     else Some (Inr (i, dst)))"

definition gsm_utilities_copy_parameters ::
  "u8 list \<Rightarrow> nat \<Rightarrow> u8 list \<Rightarrow> u8 \<Rightarrow> u8 \<Rightarrow> (bool \<times> u8 list) option" where
  "gsm_utilities_copy_parameters m p dst comma_begin comma_end = do {
     b \<leftarrow> find_index_of_char comma_begin m p;
     let begin_idx = (ucast b :: u16);
     end_idx \<leftarrow>
       (if comma_begin = comma_end
        then do { e \<leftarrow> find_index_of_char comma_end m (p + 1);
                  let e = (ucast e :: u16);
                  Some (if e \<noteq> - 1 then e + 1 else e) }
        else do { e \<leftarrow> find_index_of_char comma_end m p; Some (ucast e :: u16) });
     if begin_idx = - 1 \<or> end_idx = - 1 then Some (False, dst)
     else if sint end_idx - sint begin_idx \<le> 1 then Some (False, dst)
     else do {
       (i, dst) \<leftarrow> loop (copy_step m p end_idx) (begin_idx + 1, 0, dst);
       if sint i < 0 then None
       else do { dst \<leftarrow> wr dst (nat (sint i)) 0; Some (True, dst) } } }"

definition gsm_utilities_parse_file_handle :: "u8 list \<Rightarrow> u32 option" where
  "gsm_utilities_parse_file_handle m = do {
     r \<leftarrow> c_strstr m 0 (str ''+QFOPEN: '');
     case r of
       None \<Rightarrow> Some (- 1)
     | Some q \<Rightarrow> gsm_utilities_get_number_from_string m (q + 9) 0 }"

text \<open>
  The content pointer is \<open>None\<close> for NULL. When no line end follows, \<open>strstr\<close> returns
  NULL and the source adds 2 to it: no defined result.
\<close>

definition gsm_utilities_get_qfile_content :: "u8 list \<Rightarrow> (nat option \<times> u32) option" where
  "gsm_utilities_get_qfile_content m = do {
     r \<leftarrow> c_strstr m 0 (str ''CONNECT '');
     case r of
       None \<Rightarrow> Some (None, 0)
     | Some q \<Rightarrow> do {
         size \<leftarrow> gsm_utilities_get_number_from_string m (q + 8) 0;
         r \<leftarrow> c_strstr m (q + 8) crlf;
         case r of None \<Rightarrow> None | Some q' \<Rightarrow> Some (Some (q' + 2), size) } }"

section \<open>What the parsers compute\<close>

subsection \<open>Decimal numbers\<close>

definition dec_value :: "u8 list \<Rightarrow> nat" where
  "dec_value ds = foldl (\<lambda>v d. 10 * v + (unat d - 48)) 0 ds"

lemma is_digit_unat: "is_digit c \<longleftrightarrow> 48 \<le> unat c \<and> unat c \<le> 57"
  by (simp add: is_digit_def word_le_nat_alt)

lemma foldl_dec_word:
  assumes "\<forall>c\<in>set ds. is_digit c"
  shows "foldl (\<lambda>v c. v * 10 + (ucast c - 48)) (of_nat n :: u32) ds =
    of_nat (foldl (\<lambda>v d. 10 * v + (unat d - 48)) n ds)"
  using assms
proof (induction ds arbitrary: n)
  case Nil
  then show ?case by simp
next
  case (Cons c ds)
  then have "48 \<le> unat c" by (simp add: is_digit_unat)
  then have "(of_nat (10 * n + (unat c - 48)) :: u32) = of_nat n * 10 + (of_nat (unat c) - 48)"
    by (simp add: of_nat_diff)
  moreover have "(of_nat (unat c) :: u32) = ucast c"
    by simp
  ultimately have *: "(of_nat n * 10 + (ucast c - 48) :: u32) = of_nat (10 * n + (unat c - 48))"
    by simp
  from Cons show ?case by (simp add: * del: of_nat_add of_nat_mult)
qed

lemma number_loop:
  assumes t: "terminated m p" and n: "n = length (cstr m p)" "n < 65536"
  shows "unat tmp \<le> n \<Longrightarrow>
    loop (number_step m p n) (tmp, v) =
      Some (foldl (\<lambda>v c. v * 10 + (ucast c - 48)) v
        (takeWhile is_digit (drop (unat tmp) (cstr m p))))"
proof (induction "n - unat tmp" arbitrary: tmp v)
  case 0
  then have e: "unat tmp = n" by simp
  then have "rd m (p + unat tmp) = Some 0" using rd_cstr_end [OF t] n by simp
  then show ?case using e n by (simp add: loop_unfold number_step_def)
next
  case (Suc k)
  let ?s = "cstr m p"
  from Suc.hyps(2) have lt: "unat tmp < length ?s" using n by simp
  let ?c = "?s ! unat tmp"
  have r: "rd m (p + unat tmp) = Some ?c" using rd_cstr [OF t lt] .
  have nz: "?c \<noteq> 0" using cstr_nth_nonzero [OF lt] .
  have d: "drop (unat tmp) ?s = ?c # drop (Suc (unat tmp)) ?s"
    using lt by (simp add: Cons_nth_drop_Suc)
  show ?case
  proof (cases "is_digit ?c")
    case True
    have s: "unat (tmp + 1) = Suc (unat tmp)"
      by (rule unat_u16_plus_one) (use lt n in simp)
    have "loop (number_step m p n) (tmp, v) =
        loop (number_step m p n) (tmp + 1, v * 10 + (ucast ?c - 48))"
      by (rule loop_step) (use r nz lt n True in \<open>simp add: number_step_def\<close>)
    also have "\<dots> = Some (foldl (\<lambda>v c. v * 10 + (ucast c - 48)) (v * 10 + (ucast ?c - 48))
        (takeWhile is_digit (drop (unat (tmp + 1)) ?s)))"
      by (rule Suc.hyps(1)) (use s Suc.hyps(2) lt n in simp_all)
    finally show ?thesis using d True s by simp
  next
    case False
    then show ?thesis using r nz lt n d by (simp add: loop_unfold number_step_def)
  qed
qed

lemma number_from_string_value:
  assumes "terminated m p" "length (cstr m p) < 65536" "unat b \<le> length (cstr m p)"
  shows "gsm_utilities_get_number_from_string m p b =
    Some (of_nat (dec_value (takeWhile is_digit (drop (unat b) (cstr m p)))))"
proof -
  have "\<forall>c\<in>set (takeWhile is_digit (drop (unat b) (cstr m p))). is_digit c"
    by (auto dest: set_takeWhileD)
  from foldl_dec_word [OF this, of 0] show ?thesis
    using assms number_loop [OF assms(1) refl assms(2,3), of 0]
    by (simp add: gsm_utilities_get_number_from_string_def c_strlen_def dec_value_def)
qed

subsection \<open>Digit extraction\<close>

lemma imei_loop:
  fixes res0 :: "u8 list" and mx :: u8
  assumes t: "terminated m 0" and n: "length (cstr m 0) \<le> 255"
    and mx: "unat mx \<le> length res0"
  defines "D \<equiv> filter is_digit (cstr m 0)"
  shows "unat count \<le> length (cstr m 0) \<Longrightarrow>
    dk = filter is_digit (take (unat count) (cstr m 0)) \<Longrightarrow> unat tmp = length dk \<Longrightarrow>
    length dk < unat mx \<Longrightarrow>
    loop (imei_step m mx) (count, tmp, dk @ drop (length dk) res0) = Some
      (if length D < unat mx then (of_nat (length D), D @ drop (length D) res0)
       else (mx, take (unat mx - 1) D @ 0 # drop (unat mx) res0))"
proof (induction "length (cstr m 0) - unat count" arbitrary: count tmp dk)
  case 0
  then have e: "unat count = length (cstr m 0)" by simp
  with 0 have dD: "dk = D" by (simp add: D_def)
  have "loop (imei_step m mx) (count, tmp, dk @ drop (length dk) res0)
      = Some (tmp, dk @ drop (length dk) res0)"
    by (rule loop_done) (simp add: imei_step_def c_strlen_def t e)
  moreover have "tmp = of_nat (length dk)" using 0(4) by (simp flip: 0(4))
  ultimately show ?case using dD 0 by simp
next
  case (Suc k)
  let ?s = "cstr m 0"
  from Suc.hyps(2) have lt: "unat count < length ?s" by simp
  let ?c = "?s ! unat count"
  have r: "rd m (unat count) = Some ?c" using rd_cstr [OF t lt] by simp
  have s: "unat (count + 1) = Suc (unat count)"
    by (rule unat_u8_plus_one) (use lt n in simp)
  have tk: "filter is_digit (take (unat (count + 1)) ?s) = dk @ (if is_digit ?c then [?c] else [])"
    using filter_take_Suc [OF lt] Suc.prems(2) s by simp
  have dlen: "length dk < length res0" using Suc.prems(4) mx by simp
  show ?case
  proof (cases "is_digit ?c")
    case False
    have "loop (imei_step m mx) (count, tmp, dk @ drop (length dk) res0)
        = loop (imei_step m mx) (count + 1, tmp, dk @ drop (length dk) res0)"
      by (rule loop_step)
        (use r t lt False Suc.prems in \<open>simp add: imei_step_def c_strlen_def word_le_nat_alt\<close>)
    also have "\<dots> = Some (if length D < unat mx then (of_nat (length D), D @ drop (length D) res0)
        else (mx, take (unat mx - 1) D @ 0 # drop (unat mx) res0))"
      by (rule Suc.hyps(1)) (use s Suc.hyps(2) lt Suc.prems tk False in simp_all)
    finally show ?thesis .
  next
    case True
    have tu: "unat (tmp + 1) = Suc (length dk)"
      using unat_u8_plus_one [of tmp] Suc.prems(3,4) unat_u8_less [of mx] by simp
    have w: "wr (dk @ drop (length dk) res0) (unat tmp) ?c
        = Some ((dk @ [?c]) @ drop (length (dk @ [?c])) res0)"
      using Suc.prems(3) dlen list_update_append_drop [OF dlen] by (simp add: wr_def)
    show ?thesis
    proof (cases "Suc (length dk) < unat mx")
      case more: True
      have "loop (imei_step m mx) (count, tmp, dk @ drop (length dk) res0)
          = loop (imei_step m mx) (count + 1, tmp + 1, (dk @ [?c]) @ drop (length (dk @ [?c])) res0)"
        by (rule loop_step)
          (use r t lt True w tu more in \<open>simp add: imei_step_def c_strlen_def word_le_nat_alt\<close>)
      also have "\<dots> = Some (if length D < unat mx then (of_nat (length D), D @ drop (length D) res0)
          else (mx, take (unat mx - 1) D @ 0 # drop (unat mx) res0))"
        by (rule Suc.hyps(1)) (use s Suc.hyps(2) lt tk True tu more in simp_all)
      finally show ?thesis .
    next
      case full: False
      then have e: "unat mx = Suc (length dk)" using Suc.prems(4) by simp
      then have emx: "tmp + 1 = mx" using tu by (simp add: word_unat_eq_iff)
      have nz: "mx \<noteq> 0" using e by auto
      have pre: "take (Suc (length dk)) D = dk @ [?c]"
        using filter_take_prefix [of is_digit "unat (count + 1)" ?s] tk True by (simp add: D_def)
      then have "Suc (length dk) \<le> length D"
        by (metis length_append_singleton length_take min.cobounded1 min_def nat_le_linear)
      then have nD: "\<not> length D < unat mx" using e by simp
      have tdk: "take (unat mx - 1) D = dk"
        using pre e by (metis butlast_snoc butlast_take diff_Suc_1 \<open>Suc (length dk) \<le> length D\<close>)
      have upd: "(dk @ ?c # drop (Suc (length dk)) res0)[length dk := 0]
          = dk @ 0 # drop (Suc (length dk)) res0"
        by (simp add: list_update_append)
      have "loop (imei_step m mx) (count, tmp, dk @ drop (length dk) res0)
          = Some (mx, dk @ 0 # drop (Suc (length dk)) res0)"
        by (rule loop_done)
          (use r t lt True w tu emx nz e upd dlen in \<open>simp add: imei_step_def c_strlen_def\<close>)
      then show ?thesis using nD tdk e by simp
    qed
  qed
qed

lemma imei_loop_start:
  assumes "terminated m 0" "length (cstr m 0) \<le> 255" "mx \<noteq> 0" "unat mx \<le> length res"
  shows "loop (imei_step m mx) (0, 0, res) = Some
    (let D = filter is_digit (cstr m 0) in
       if length D < unat mx then (of_nat (length D), D @ drop (length D) res)
       else (mx, take (unat mx - 1) D @ 0 # drop (unat mx) res))"
  using imei_loop [OF assms(1,2,4), of 0 "[]" 0] assms(3)
  by (simp add: Let_def unat_gt_0)

lemma imei_digits:
  assumes "terminated m 0" "length (cstr m 0) \<le> 255" "mx \<noteq> 0" "unat mx < length res"
  shows "gsm_utilities_get_imei m res mx = Some
    (let D = filter is_digit (cstr m 0) in
       if length D < unat mx then D @ 0 # drop (Suc (length D)) res
       else take (unat mx - 1) D @ 0 # 0 # drop (Suc (unat mx)) res)"
proof -
  let ?D = "filter is_digit (cstr m 0)"
  have "length ?D \<le> 255" using assms(2) length_filter_le le_trans by blast
  then have u: "unat (of_nat (length ?D) :: u8) = length ?D" by (simp add: unat_of_nat take_bit_eq_mod)
  have mp: "0 < unat mx" using assms(3) by (simp add: unat_gt_0)
  show ?thesis
  proof (cases "length ?D < unat mx")
    case True
    then have l: "length ?D < length res" using assms(4) by simp
    show ?thesis
      using imei_loop_start [of m mx res] assms u True list_update_append_drop [OF l, of 0] l
      by (simp add: gsm_utilities_get_imei_def Let_def wr_def)
  next
    case False
    let ?E = "take (unat mx - 1) ?D"
    have E: "length ?E = unat mx - 1" using False by simp
    have "unat mx = Suc (length ?E)" using E mp by simp
    then have w: "wr (?E @ 0 # drop (unat mx) res) (unat mx) 0
        = Some (?E @ 0 # 0 # drop (Suc (unat mx)) res)"
      using wr_after [of ?E res 0 0] assms(4) by metis
    show ?thesis
      using imei_loop_start [of m mx res] assms False w
      by (simp add: gsm_utilities_get_imei_def Let_def)
  qed
qed

lemma imei_overrun:
  assumes "terminated m 0" "length (cstr m 0) \<le> 255" "mx \<noteq> 0" "unat mx = length res"
    and "unat mx \<le> length (filter is_digit (cstr m 0))"
  shows "gsm_utilities_get_imei m res mx = None"
proof -
  have "0 < unat mx" using assms(3) by (simp add: unat_gt_0)
  then have "Suc (unat mx - 1) = length res" using assms(4) by simp
  then show ?thesis
    using imei_loop_start [of m mx res] assms(1-3,5) assms(4) [symmetric]
    by (simp add: gsm_utilities_get_imei_def Let_def wr_def)
qed

subsection \<open>Scanning for separators\<close>

definition positions :: "'a \<Rightarrow> 'a list \<Rightarrow> nat list" where
  "positions ch s = filter (\<lambda>i. s ! i = ch) [0..<length s]"

lemma positions_less: "i \<in> set (positions ch s) \<Longrightarrow> i < length s"
  by (simp add: positions_def)

lemma positions_sorted: "sorted_wrt (<) (positions ch s)"
  by (simp add: positions_def sorted_wrt_filter)

lemma length_positions_le: "length (positions ch s) \<le> length s"
  unfolding positions_def using length_filter_le [of _ "[0..<length s]"] by simp

lemma upt_filter_Suc:
  "filter P [0..<Suc k] = filter P [0..<k] @ (if P k then [k] else [])"
  by simp

lemma length_upt_filter_mono:
  "k \<le> n \<Longrightarrow> length (filter P [0..<k]) \<le> length (filter P [0..<n])"
  by (metis filter_append le_add1 le_add_diff_inverse length_append plus_nat.add_0 upt_add_eq_append
      zero_le)

lemma collect_loop:
  assumes t: "terminated m p" and n: "length (cstr m p) \<le> 255"
  shows "unat i \<le> length (cstr m p) \<Longrightarrow>
    pk = filter (\<lambda>j. cstr m p ! j = ch) [0..<unat i] \<Longrightarrow> unat idx = length pk \<Longrightarrow>
    length pk \<le> k \<Longrightarrow>
    loop (collect_step ch m p) (i, idx, map of_nat pk @ replicate (k - length pk) 0) =
      (let P = positions ch (cstr m p) in
       if length P \<le> k then Some (of_nat (length P), map of_nat P @ replicate (k - length P) 0)
       else None)"
proof (induction "length (cstr m p) - unat i" arbitrary: i idx pk)
  case 0
  then have e: "unat i = length (cstr m p)" by simp
  with 0 have dD: "pk = positions ch (cstr m p)" by (simp add: positions_def)
  have "idx = of_nat (length pk)" by (simp flip: 0(4))
  then show ?case using dD 0(5) e
    by (simp add: Let_def loop_done collect_step_def c_strlen_def t)
next
  case (Suc d)
  let ?s = "cstr m p" and ?P = "positions ch (cstr m p)"
  from Suc.hyps(2) have lt: "unat i < length ?s" by simp
  let ?c = "?s ! unat i"
  have r: "rd m (p + unat i) = Some ?c" using rd_cstr [OF t lt] .
  have s: "unat (i + 1) = Suc (unat i)"
    by (rule unat_u8_plus_one) (use lt n in simp)
  have fs: "filter (\<lambda>j. ?s ! j = ch) [0..<unat (i + 1)] = pk @ (if ?c = ch then [unat i] else [])"
    using Suc.prems(2) s by simp
  show ?case
  proof (cases "?c = ch")
    case False
    have "loop (collect_step ch m p) (i, idx, map of_nat pk @ replicate (k - length pk) 0)
        = loop (collect_step ch m p) (i + 1, idx, map of_nat pk @ replicate (k - length pk) 0)"
      by (rule loop_step) (use r t lt False in \<open>simp add: collect_step_def c_strlen_def\<close>)
    also have "\<dots> = (let P = ?P in
        if length P \<le> k then Some (of_nat (length P), map of_nat P @ replicate (k - length P) 0)
        else None)"
      by (rule Suc.hyps(1)) (use s Suc.hyps(2) lt Suc.prems fs False in simp_all)
    finally show ?thesis .
  next
    case True
    have lpk: "length pk \<le> unat i"
      using Suc.prems(2) length_filter_le [of _ "[0..<unat i]"] by simp
    have tu: "unat (idx + 1) = Suc (length pk)"
      using unat_u8_plus_one [of idx] Suc.prems(3) lpk lt n by simp
    show ?thesis
    proof (cases "length pk < k")
      case more: True
      have w: "wr (map of_nat pk @ replicate (k - length pk) 0) (unat idx) i
          = Some (map of_nat (pk @ [unat i]) @ replicate (k - length (pk @ [unat i])) 0)"
        using more Suc.prems(3)
        by (cases "k - length pk") (auto simp: wr_def list_update_append Suc_diff_Suc)
      have "loop (collect_step ch m p) (i, idx, map of_nat pk @ replicate (k - length pk) 0)
          = loop (collect_step ch m p)
              (i + 1, idx + 1, map of_nat (pk @ [unat i]) @ replicate (k - length (pk @ [unat i])) 0)"
        by (rule loop_step) (use r t lt True w in \<open>simp add: collect_step_def c_strlen_def\<close>)
      also have "\<dots> = (let P = ?P in
          if length P \<le> k then Some (of_nat (length P), map of_nat P @ replicate (k - length P) 0)
          else None)"
        by (rule Suc.hyps(1)) (use s Suc.hyps(2) lt fs True tu more in simp_all)
      finally show ?thesis .
    next
      case full: False
      then have e: "length pk = k" using Suc.prems(4) by simp
      have "length (pk @ [unat i]) \<le> length ?P"
        using length_upt_filter_mono [of "unat (i + 1)" "length ?s" "\<lambda>j. ?s ! j = ch"] fs s lt True
        by (simp add: positions_def)
      then have "\<not> length ?P \<le> k" using e by simp
      moreover have "loop (collect_step ch m p) (i, idx, map of_nat pk @ replicate (k - length pk) 0) = None"
        by (rule loop_fault)
          (use r t lt True e Suc.prems(3) in \<open>simp add: collect_step_def c_strlen_def wr_def\<close>)
      ultimately show ?thesis by (simp add: Let_def)
    qed
  qed
qed

lemma collect_idx_positions:
  assumes "terminated m p" "length (cstr m p) \<le> 255"
  shows "collect_idx ch m p k =
    (let P = positions ch (cstr m p) in
     if length P \<le> k then Some (of_nat (length P), map of_nat P @ replicate (k - length P) 0)
     else None)"
  using collect_loop [OF assms, of 0 "[]" ch 0 k] by (simp add: collect_idx_def)

lemma unat_of_nat_u8 [simp]: "n < 256 \<Longrightarrow> unat (of_nat n :: u8) = n"
  by (simp add: unat_of_nat take_bit_eq_mod)

lemma unat_of_nat_u16 [simp]: "n < 65536 \<Longrightarrow> unat (of_nat n :: u16) = n"
  by (simp add: unat_of_nat take_bit_eq_mod)

lemma unat_ucast_8_16 [simp]: "unat (ucast (x :: u8) :: u16) = unat x"
  by (simp add: unsigned_ucast_eq take_bit_nat_eq_self_iff less_trans [OF unat_u8_less])

lemma cap_min: "(if b < x then b else x) = min b x" for x :: "'a::linorder"
  by auto

lemma rd_list_cstr:
  assumes "terminated m p" "i + n \<le> length (cstr m p)"
  shows "rd_list m (p + i) n = Some (take n (drop i (cstr m p)))"
proof -
  let ?L = "length (cstr m p)"
  have b: "p + i + n \<le> length m" using terminated_bound(1) [OF assms(1)] assms(2) by simp
  have "cstr m p = take ?L (drop p m)" unfolding cstr_def by (rule takeWhile_eq_take)
  then have "drop i (cstr m p) = take (?L - i) (drop (p + i) m)"
    by (metis add.commute drop_drop drop_take)
  then have "take n (drop i (cstr m p)) = take n (drop (p + i) m)"
    using assms by simp
  then show ?thesis using b by (simp add: rd_list_def)
qed

lemma strstr_found:
  assumes "terminated m 0" "find_sub pat (cstr m 0) = Some k"
  shows "c_strstr m 0 pat = Some (Some k)" and "terminated m k" and "cstr m k = drop k (cstr m 0)"
proof -
  have "k \<le> length (cstr m 0)" using find_sub_Some [OF assms(2)] by simp
  then show "terminated m k" "cstr m k = drop k (cstr m 0)"
    using terminated_add [OF assms(1)] cstr_add [of k m 0] by simp_all
  show "c_strstr m 0 pat = Some (Some k)" using assms by (simp add: c_strstr_def)
qed

lemma network_access_tech_spec:
  assumes t: "terminated m 0" and n: "length (cstr m 0) \<le> 255"
    and f: "find_sub (str ''+CGREG:'') (cstr m 0) = Some k"
  shows "gsm_utilities_get_network_access_tech m a =
    (let s = drop k (cstr m 0); P = positions 44 s in
     if 12 < length P then None
     else if 4 \<le> length P
     then Some (True, min 9 (ucast (of_nat (dec_value
            (takeWhile is_digit (drop (Suc (P ! 3)) s))) :: u32)))
     else Some (False, a))"
proof -
  let ?s = "drop k (cstr m 0)" and ?P = "positions 44 (drop k (cstr m 0))"
  note F = strstr_found [OF t f]
  have ns: "length (cstr m k) \<le> 255" using n F(3) by simp
  have c: "collect_idx 44 m k 12 = (if length ?P \<le> 12
      then Some (of_nat (length ?P), map of_nat ?P @ replicate (12 - length ?P) 0) else None)"
    using collect_idx_positions [OF F(2) ns, of 44 12] F(3) by (simp add: Let_def)
  show ?thesis
  proof (cases "length ?P \<le> 12 \<and> 4 \<le> length ?P")
    case True
    then have p3: "?P ! 3 \<in> set ?P" by simp
    then have lt: "?P ! 3 < length ?s" by (rule positions_less)
    then have lt': "?P ! 3 < 255" using n by simp
    have u: "unat (ucast (of_nat (?P ! 3) :: u8) + 1 :: u16) = Suc (?P ! 3)"
      using lt' unat_u16_plus_one [of "ucast (of_nat (?P ! 3) :: u8)"]
      by simp
    have num: "gsm_utilities_get_number_from_string m k (ucast (of_nat (?P ! 3) :: u8) + 1)
        = Some (of_nat (dec_value (takeWhile is_digit (drop (Suc (?P ! 3)) ?s))))"
      using number_from_string_value [OF F(2), of "ucast (of_nat (?P ! 3) :: u8) + 1"] lt ns F(3) u
      by simp
    have le: "(4 :: u8) \<le> of_nat (length ?P)" using True by (simp add: word_le_nat_alt)
    have nth: "(map of_nat ?P @ replicate (12 - length ?P) 0) ! 3 = (of_nat (?P ! 3) :: u8)"
      using True by (simp add: nth_append)
    show ?thesis
      using True c num le nth F(1)
      by (simp add: gsm_utilities_get_network_access_tech_def Let_def cap_min)
  next
    case False
    have "length ?P \<le> 12 \<Longrightarrow> \<not> (4 :: u8) \<le> of_nat (length ?P)"
      using False by (simp add: word_le_nat_alt)
    then show ?thesis using False c F(1)
      by (auto simp: gsm_utilities_get_network_access_tech_def Let_def)
  qed
qed

lemma operator_copy:
  fixes mx :: u8 and s :: "u8 list"
  assumes t: "terminated m k" and s: "s = cstr m k" "length s \<le> 255"
    and ab: "a < b" "b < length s" and mx: "mx \<noteq> 0" "unat mx \<le> length nw"
  defines "len \<equiv> (if mx < of_nat b - of_nat a then mx else of_nat b - of_nat a)"
    and "name \<equiv> take (unat mx - 1) (take (b - a - 1) (drop (Suc a) s))"
  shows "len \<noteq> 0" and "rd_list m (k + unat (of_nat a :: u8) + 1) (unat len - 1) = Some name"
    and "wr_list nw 0 name = Some (name @ drop (length name) nw)"
proof -
  have mp: "0 < unat mx" using mx(1) by (simp add: unat_gt_0)
  have a256: "a < 256" "b < 256" using ab s(2) by simp_all
  have "unat (of_nat b - of_nat a :: u8) = b - a"
    using ab(1) a256 by (simp add: unat_sub word_le_nat_alt)
  then have ul: "unat len = min (unat mx) (b - a)"
    by (auto simp: len_def word_less_nat_alt)
  then have "0 < unat len" using mp ab(1) by simp
  then show "len \<noteq> 0" by (rule unat_gt_0 [THEN iffD1])
  have ul1: "unat len - 1 = min (unat mx - 1) (b - a - 1)"
    unfolding ul by (simp add: min_diff)
  have nm: "name = take (unat len - 1) (drop (Suc a) s)"
    unfolding name_def ul1 by (rule take_take)
  have "Suc a + (unat len - 1) \<le> length s" using ul ab by simp
  from rd_list_cstr [OF t this [unfolded s(1)]]
  show "rd_list m (k + unat (of_nat a :: u8) + 1) (unat len - 1) = Some name"
    using a256 by (simp add: nm s(1) del: drop_drop)
  have "length name \<le> unat mx" unfolding name_def by simp
  then show "wr_list nw 0 name = Some (name @ drop (length name) nw)"
    using mx(2) by (simp add: wr_list_def)
qed

lemma network_operator_spec:
  assumes t: "terminated m 0" and n: "length (cstr m 0) \<le> 255"
    and f: "find_sub (str ''+COPS:'') (cstr m 0) = Some k"
    and nw: "mx \<noteq> 0" "unat mx \<le> length nw"
  shows "gsm_utilities_get_network_operator m nw mx =
    (let s = drop k (cstr m 0); P = positions 34 s in
     if 5 < length P then None
     else if length P < 2 then Some (nw[0 := 0])
     else let name = take (unat mx - 1) (take (P ! 1 - P ! 0 - 1) (drop (Suc (P ! 0)) s))
          in Some (name @ drop (length name) (nw[0 := 0])))"
proof -
  note F = strstr_found [OF t f]
  define s where "s = cstr m k"
  define P where "P = positions 34 s"
  have sd: "s = drop k (cstr m 0)" by (simp add: s_def F(3))
  have ns: "length s \<le> 255" using n by (simp add: sd)
  have w0: "wr nw 0 0 = Some (nw[0 := 0])" using nw by (auto simp: wr_def unat_0_iff)
  have c: "collect_idx 34 m k 5 = (if length P \<le> 5
      then Some (of_nat (length P), map of_nat P @ replicate (5 - length P) 0) else None)"
    using collect_idx_positions [OF F(2), of 34 5] ns by (simp add: Let_def s_def P_def)
  have le: "length P \<le> 5 \<Longrightarrow> (2 :: u8) \<le> of_nat (length P) \<longleftrightarrow> 2 \<le> length P"
    by (simp add: word_le_nat_alt)
  have "gsm_utilities_get_network_operator m nw mx =
    (if 5 < length P then None
     else if length P < 2 then Some (nw[0 := 0])
     else let name = take (unat mx - 1) (take (P ! 1 - P ! 0 - 1) (drop (Suc (P ! 0)) s))
          in Some (name @ drop (length name) (nw[0 := 0])))"
  proof (cases "length P \<le> 5 \<and> 2 \<le> length P")
    case True
    have "P ! 1 \<in> set P" using True by simp
    then have b: "P ! 1 < length s" unfolding P_def by (rule positions_less)
    have ab: "P ! 0 < P ! 1" using sorted_wrt_nth_less [OF positions_sorted, of 0 1 34 s] True
      by (simp add: P_def)
    have "P \<noteq> []" using True by auto
    have nth: "(map of_nat P @ replicate (5 - length P) 0) ! 0 = (of_nat (P ! 0) :: u8)"
      "(map of_nat P @ replicate (5 - length P) 0) ! 1 = (of_nat (P ! 1) :: u8)"
      using True \<open>P \<noteq> []\<close> by (simp_all add: nth_append)
    have "unat mx \<le> length (nw[0 := 0])" using nw(2) by simp
    note C = operator_copy [OF F(2) s_def ns ab b nw(1) this]
    show ?thesis
      unfolding gsm_utilities_get_network_operator_def
      using True c C le nth F(1) w0
      by (cases "mx < of_nat (P ! 1) - of_nat (P ! 0)")
        (simp_all add: Let_def del: drop_drop take_take)
  next
    case False
    then show ?thesis using c F(1) w0 le
      by (auto simp: gsm_utilities_get_network_operator_def Let_def)
  qed
  then show ?thesis by (simp add: P_def sd Let_def)
qed

subsection \<open>Copying between delimiters\<close>

lemma sint_of_nat_u16: "n < 32768 \<Longrightarrow> sint (of_nat n :: u16) = int n"
  by (simp add: signed_of_nat signed_take_bit_int_eq_self)

lemma of_nat_u16_neq_m1: "n < 32768 \<Longrightarrow> (of_nat n :: u16) \<noteq> - 1"
proof
  assume n: "n < 32768" and e: "(of_nat n :: u16) = - 1"
  from e have "sint (of_nat n :: u16) = - 1" by simp
  with sint_of_nat_u16 [OF n] show False by simp
qed

definition index_of :: "'a \<Rightarrow> 'a list \<Rightarrow> nat" where
  "index_of ch s = length (takeWhile (\<lambda>c. c \<noteq> ch) s)"

lemma index_of_append: "ch \<notin> set a \<Longrightarrow> index_of ch (a @ ch # r) = length a"
  by (induction a) (auto simp: index_of_def)

lemma index_loop:
  assumes t: "terminated m p" and n: "length (cstr m p) < 2 ^ 31"
  shows "k \<le> length (cstr m p) \<Longrightarrow> ch \<notin> set (take k (cstr m p)) \<Longrightarrow>
    loop (index_step ch m p (length (cstr m p))) (of_nat k) = Some
      (if ch \<in> set (cstr m p) then of_nat (index_of ch (cstr m p)) else - 1)"
proof (induction "length (cstr m p) - k" arbitrary: k)
  case 0
  then show ?case using n
    by (simp add: loop_done index_step_def unat_of_nat)
next
  case (Suc d)
  let ?s = "cstr m p"
  from Suc.hyps(2) have lt: "k < length ?s" by simp
  have u: "unat (of_nat k :: u32) = k" using lt n by (simp add: unat_of_nat)
  have r: "rd m (p + k) = Some (?s ! k)" using rd_cstr [OF t lt] .
  have sp: "?s = take k ?s @ ?s ! k # drop (Suc k) ?s"
    using lt by (simp add: id_take_nth_drop)
  show ?case
  proof (cases "?s ! k = ch")
    case True
    have "index_of ch ?s = k"
      using index_of_append [OF Suc.prems(2), of "drop (Suc k) ?s"] sp True lt by simp
    moreover have "ch \<in> set ?s" using True lt by auto
    moreover have "loop (index_step ch m p (length ?s)) (of_nat k) = Some (of_nat k)"
      by (rule loop_done) (use r u lt True in \<open>simp add: index_step_def\<close>)
    ultimately show ?thesis by simp
  next
    case False
    have "loop (index_step ch m p (length ?s)) (of_nat k)
        = loop (index_step ch m p (length ?s)) (of_nat (Suc k))"
      by (rule loop_step) (use r u lt False in \<open>simp add: index_step_def add.commute\<close>)
    also have "\<dots> = Some (if ch \<in> set ?s then of_nat (index_of ch ?s) else - 1)"
      by (rule Suc.hyps(1)) (use Suc lt False in \<open>simp_all add: take_Suc_conv_app_nth\<close>)
    finally show ?thesis .
  qed
qed

lemma find_index_of_char_spec:
  assumes "terminated m p" "length (cstr m p) < 32768"
  shows "find_index_of_char ch m p = Some
    (if ch \<in> set (cstr m p) then of_nat (index_of ch (cstr m p)) else - 1)"
  using index_loop [OF assms(1), of 0 ch] assms
  by (simp add: find_index_of_char_def c_strlen_def)

lemma index_of_less: "ch \<in> set s \<Longrightarrow> index_of ch s < length s"
  using takeWhile_nth_stop [of s "\<lambda>c. c \<noteq> ch"] by (auto simp: index_of_def)

lemma ucast_of_nat_32_16: "n < 32768 \<Longrightarrow> (ucast (of_nat n :: u32) :: u16) = of_nat n"
  by (simp add: word_unat_eq_iff unsigned_ucast_eq unat_of_nat take_bit_eq_mod)

lemma copy_loop:
  assumes t: "terminated m p" and e: "e \<le> length (cstr m p)" "e < 32768"
  shows "k \<le> e \<Longrightarrow> length x = k - b \<Longrightarrow> b \<le> k \<Longrightarrow> e - b \<le> length dst \<Longrightarrow>
    loop (copy_step m p (of_nat e)) (of_nat k, of_nat (length x), x @ drop (length x) dst) = Some
      (of_nat (length (x @ take (e - k) (drop k (cstr m p)))),
       (x @ take (e - k) (drop k (cstr m p))) @ drop (length x + (e - k)) dst)"
proof (induction "e - k" arbitrary: k x)
  case 0
  then show ?case using e by (simp add: loop_done copy_step_def sint_of_nat_u16)
next
  case (Suc d)
  let ?s = "cstr m p"
  from Suc.hyps(2) have lt: "k < e" by simp
  then have ls: "k < length ?s" using e by simp
  have sk: "sint (of_nat k :: u16) = int k" "sint (of_nat e :: u16) = int e"
    "sint (of_nat (length x) :: u16) = int (length x)"
    by (rule sint_of_nat_u16, use lt e Suc.prems(2) in linarith)+
  have r: "rd m (p + k) = Some (?s ! k)" using rd_cstr [OF t ls] .
  have xl: "length x < length dst" using Suc.prems lt by simp
  have w: "wr (x @ drop (length x) dst) (length x) (?s ! k)
      = Some ((x @ [?s ! k]) @ drop (length (x @ [?s ! k])) dst)"
    using xl list_update_append_drop [OF xl, of "?s ! k"] by (simp add: wr_def)
  have na: "nat (int p + int k) = p + k" by simp
  have tk: "take (e - k) (drop k ?s) = ?s ! k # take (e - Suc k) (drop (Suc k) ?s)"
    using lt ls by (simp add: Cons_nth_drop_Suc [symmetric] Suc_diff_Suc [symmetric])
  have "loop (copy_step m p (of_nat e)) (of_nat k, of_nat (length x), x @ drop (length x) dst)
      = loop (copy_step m p (of_nat e))
          (of_nat (Suc k), of_nat (length (x @ [?s ! k])), (x @ [?s ! k]) @ drop (length (x @ [?s ! k])) dst)"
    by (rule loop_step) (use r w sk lt na in \<open>simp add: copy_step_def add.commute\<close>)
  also have "\<dots> = Some
      (of_nat (length ((x @ [?s ! k]) @ take (e - Suc k) (drop (Suc k) ?s))),
       ((x @ [?s ! k]) @ take (e - Suc k) (drop (Suc k) ?s)) @ drop (length (x @ [?s ! k]) + (e - Suc k)) dst)"
    by (rule Suc.hyps(1)) (use Suc lt in simp_all)
  finally show ?case using tk lt by (simp add: Suc_diff_Suc)
qed

lemma copy_parameters_between:
  assumes t: "terminated m p" and s: "cstr m p = a @ b # x @ e # r"
    and len: "length (cstr m p) < 32768" and ne: "b \<noteq> e"
    and no: "b \<notin> set a" "e \<notin> set a" "e \<notin> set x" and x: "x \<noteq> []" "length x < length dst"
  shows "gsm_utilities_copy_parameters m p dst b e =
    Some (True, x @ 0 # drop (Suc (length x)) dst)"
proof -
  have ib: "index_of b (cstr m p) = length a" using index_of_append [OF no(1)] s by simp
  have "e \<notin> set (a @ b # x)" using no ne by auto
  from index_of_append [OF this, of r] have ie: "index_of e (cstr m p) = length a + Suc (length x)"
    using s by simp
  have b32: "length a + Suc (length x) < 32768" using len s by simp
  have fb: "find_index_of_char b m p = Some (of_nat (length a))"
    using find_index_of_char_spec [OF t len, of b] ib s by simp
  have fe: "find_index_of_char e m p = Some (of_nat (length a + Suc (length x)))"
    using find_index_of_char_spec [OF t len, of e] ie s by simp
  let ?n = "length a + Suc (length x)"
  have tk: "take (?n - Suc (length a)) (drop (Suc (length a)) (cstr m p)) = x" using s by simp
  have l: "loop (copy_step m p (of_nat ?n)) (of_nat (Suc (length a)), 0, dst)
      = Some (of_nat (length x), x @ drop (length x) dst)"
    using copy_loop [OF t, of ?n "Suc (length a)" "[]" "Suc (length a)" dst] s b32 x(2) tk by simp
  have si: "sint (of_nat (length x) :: u16) = int (length x)"
    using b32 by (simp add: sint_of_nat_u16)
  have c1: "(ucast (of_nat (length a) :: u32) :: u16) = of_nat (length a)"
    "(ucast (of_nat ?n :: u32) :: u16) = of_nat ?n"
    using b32 by (simp_all only: ucast_of_nat_32_16)
  have m1: "(of_nat (length a) :: u16) \<noteq> - 1" "(of_nat ?n :: u16) \<noteq> - 1"
    by (rule of_nat_u16_neq_m1, use b32 in simp)+
  have ss: "sint (of_nat (length a) :: u16) = int (length a)" "sint (of_nat ?n :: u16) = int ?n"
    using b32 by (simp_all only: sint_of_nat_u16)
  have xn: "1 < int ?n - int (length a)" using x(1) by (cases x) auto
  have a1: "(of_nat (length a) + 1 :: u16) = of_nat (Suc (length a))" by (simp add: add.commute)
  show ?thesis
    unfolding gsm_utilities_copy_parameters_def fb fe
    using ne m1 xn l si x(2) list_update_append_drop [OF x(2), of 0]
    by (simp only: Let_def c1 ss a1 if_False bind.bind_lunit simp_thms not_le prod.case nat_int
        wr_def list.size not_less) simp
qed

section \<open>Properties of the parsers\<close>

lemmas mem_eval = terminated_def cstr_def c_strlen_def c_strstr_def is_digit_def

text \<open>
  \<open>gsm_utilities_get_number_from_string\<close> returns the decimal value, modulo
  \<open>2 ^ 32\<close>, of the maximal digit run that starts at the given index of the string; it
  reads nothing outside the string, and returns.
\<close>
theorem number_from_string_correct:
  assumes "terminated m p" and "cstr m p = a @ ds @ r"
    and "\<forall>c\<in>set ds. is_digit c" and "r = [] \<or> \<not> is_digit (hd r)"
    and "length (cstr m p) < 65536" and "unat b = length a"
  shows "\<exists>v. gsm_utilities_get_number_from_string m p b = Some v \<and>
    unat v = dec_value ds mod 2 ^ 32"
proof -
  have "takeWhile is_digit (drop (unat b) (cstr m p)) = ds"
    using assms(2-4,6) by (cases r) (simp_all add: takeWhile_append1)
  then show ?thesis
    using number_from_string_value [OF assms(1,5), of b] assms(2,6) by (simp add: unat_of_nat)
qed

theorem number_from_string_correct_witness:
  "\<exists>v. gsm_utilities_get_number_from_string (str ''abc124mff'' @ [0]) 0 3 = Some v \<and>
    unat v = dec_value (str ''124'') mod 2 ^ 32"
  by (rule number_from_string_correct [where a = "str ''abc''" and r = "str ''mff''"])
    (simp_all add: mem_eval)

text \<open>
  \<open>gsm_utilities_get_imei\<close> with a result buffer longer than the limit keeps the
  digits of the response in their order, drops everything else, cuts them to
  \<open>max_lenth - 1\<close>, terminates the result and leaves the rest of the buffer alone.
\<close>
theorem get_imei_correct:
  assumes "terminated m 0" "length (cstr m 0) \<le> 255" "mx \<noteq> 0" "unat mx < length res"
  shows "\<exists>res'. gsm_utilities_get_imei m res mx = Some res' \<and> length res' = length res \<and>
    terminated res' 0 \<and> cstr res' 0 = take (unat mx - 1) (filter is_digit (cstr m 0))"
proof -
  let ?D = "filter is_digit (cstr m 0)"
  have nz: "0 \<notin> set ?D" by simp
  have mp: "0 < unat mx" using assms(3) by (simp add: unat_gt_0)
  have nz': "\<And>k. 0 \<notin> set (take k ?D)" using nz in_set_takeD by metis
  have tw: "\<And>xs ys. 0 \<notin> set xs \<Longrightarrow> takeWhile (\<lambda>c. c \<noteq> 0) (xs @ (0 :: u8) # ys) = xs"
    by (simp add: takeWhile_append2 takeWhile_append)
  show ?thesis
    using imei_digits [OF assms] assms nz nz' tw mp
    by (auto simp: Let_def terminated_def cstr_def not_less)
qed

theorem get_imei_correct_witness:
  "\<exists>res'. gsm_utilities_get_imei (crlf @ str ''861234567890123'' @ crlf @ [0]) (replicate 17 0) 16 = Some res' \<and>
    length res' = length (replicate 17 (0 :: u8)) \<and> terminated res' 0 \<and>
    cstr res' 0 = take (unat (16 :: u8) - 1) (filter is_digit (cstr (crlf @ str ''861234567890123'' @ crlf @ [0]) 0))"
  by (rule get_imei_correct) (simp_all add: mem_eval)

text \<open>
  With a result buffer exactly as long as the limit (16 bytes and limit 16, as the
  configuration sequence calls it for \<open>m_gsm_imei\<close> and \<open>m_sim_imei\<close>), a response that
  holds at least that many digits makes \<open>gsm_utilities_get_imei\<close> write its terminator
  one byte behind the buffer.
\<close>
theorem get_imei_overrun:
  assumes "terminated m 0" "length (cstr m 0) \<le> 255" "mx \<noteq> 0" "unat mx = length res"
    and "unat mx \<le> length (filter is_digit (cstr m 0))"
  shows "gsm_utilities_get_imei m res mx = None"
  by (rule imei_overrun [OF assms])

theorem get_imei_overrun_witness:
  "gsm_utilities_get_imei (str ''8612345678901234'' @ crlf @ [0]) (replicate 16 0) 16 = None"
  by (rule get_imei_overrun) (simp_all add: mem_eval)

text \<open>
  \<open>gsm_utilities_copy_parameters\<close> with two different delimiters copies exactly the
  text between their first occurrences, terminates it and reports success.
\<close>
theorem copy_parameters_correct:
  assumes "terminated m p" "cstr m p = a @ b # x @ e # r"
    and "length (cstr m p) < 32768" "b \<noteq> e"
    and "b \<notin> set a" "e \<notin> set a" "e \<notin> set x" "x \<noteq> []" "length x < length dst"
  shows "gsm_utilities_copy_parameters m p dst b e =
    Some (True, x @ 0 # drop (Suc (length x)) dst)"
  by (rule copy_parameters_between [OF assms])

theorem copy_parameters_correct_witness:
  "gsm_utilities_copy_parameters (str ''ID=(ab;c)'' @ [0]) 0 (replicate 5 7) 40 59 =
    Some (True, str ''ab'' @ 0 # drop (Suc (length (str ''ab''))) (replicate 5 7))"
  by (rule copy_parameters_correct [where a = "str ''ID=''" and r = "str ''c)''"])
    (simp_all add: mem_eval)

text \<open>
  With one and the same delimiter on both sides \<open>gsm_utilities_copy_parameters\<close> only
  works when the string starts with it: after any other prefix the search for the end,
  which starts one character into the string, finds the opening delimiter again, and the
  call fails although the text is there.
\<close>
theorem copy_parameters_same_delimiter:
  assumes t: "terminated m p" and s: "cstr m p = a @ b # r" and len: "length (cstr m p) < 32768"
    and a: "b \<notin> set a" "a \<noteq> []"
  shows "gsm_utilities_copy_parameters m p dst b b = Some (False, dst)"
proof -
  obtain c a' where ac: "a = c # a'" using a(2) by (cases a) auto
  have le: "1 \<le> length (cstr m p)" using s by simp
  have t1: "terminated m (p + 1)" and s1: "cstr m (p + 1) = a' @ b # r"
    using terminated_add [OF t le] cstr_add [OF le] s ac by simp_all
  have na: "b \<notin> set a'" using a(1) ac by simp
  have n: "length a < 32768" using len s by simp
  have fb: "find_index_of_char b m p = Some (of_nat (length a))"
    using find_index_of_char_spec [OF t len, of b] index_of_append [OF a(1), of r] s by simp
  have "length (cstr m (p + 1)) < 32768" using len s s1 ac by simp
  then have fe: "find_index_of_char b m (p + 1) = Some (of_nat (length a'))"
    using find_index_of_char_spec [OF t1, of b] index_of_append [OF na, of r] s1 by simp
  have c: "(ucast (of_nat (length a) :: u32) :: u16) = of_nat (length a)"
    by (rule ucast_of_nat_32_16 [OF n])
  have c': "(ucast (of_nat (length a') :: u32) :: u16) = of_nat (length a')"
    by (rule ucast_of_nat_32_16) (use n ac in simp)
  have m1: "(of_nat (length a') :: u16) \<noteq> - 1" by (rule of_nat_u16_neq_m1) (use n ac in simp)
  have e: "(of_nat (length a') + 1 :: u16) = of_nat (length a)" by (simp add: ac add.commute)
  show ?thesis
    unfolding gsm_utilities_copy_parameters_def fb fe
    by (simp add: Let_def c c' m1 e)
qed

theorem copy_parameters_same_delimiter_witness:
  "gsm_utilities_copy_parameters (str ''+COPS: \"Viettel\"'' @ [0]) 0 (replicate 32 0) 34 34 =
    Some (False, replicate 32 0)"
  by (rule copy_parameters_same_delimiter [where a = "str ''+COPS: ''" and r = "str ''Viettel\"''"])
    (simp_all add: mem_eval)

text \<open>
  \<open>gsm_utilities_get_network_access_tech\<close> on a \<open>+CGREG:\<close> response of at most 255
  bytes: with four to twelve commas it succeeds with the number after the fourth comma,
  read as \<open>uint8_t\<close> and capped at 9; with fewer it fails and leaves the output; with more
  than twelve it writes behind its array of comma positions.
\<close>
theorem network_access_tech_correct:
  assumes "terminated m 0" "length (cstr m 0) \<le> 255"
    and "find_sub (str ''+CGREG:'') (cstr m 0) = Some k"
  shows "gsm_utilities_get_network_access_tech m a =
    (let s = drop k (cstr m 0); P = positions 44 s in
     if 12 < length P then None
     else if 4 \<le> length P
     then Some (True, min 9 (ucast (of_nat (dec_value
            (takeWhile is_digit (drop (Suc (P ! 3)) s))) :: u32)))
     else Some (False, a))"
  by (rule network_access_tech_spec [OF assms])

theorem network_access_tech_correct_witness:
  "gsm_utilities_get_network_access_tech (str ''+CGREG: 2,1,\"3279\",\"487BD01\",7'' @ [0]) 0 = Some (True, 7)"
  using network_access_tech_correct [of "str ''+CGREG: 2,1,\"3279\",\"487BD01\",7'' @ [0]" 0 0]
  by (simp add: mem_eval positions_def upt_conv_Cons dec_value_def)

text \<open>
  \<open>gsm_utilities_get_network_operator\<close> on a \<open>+COPS:\<close> response of at most 255 bytes
  copies the text between the first two quotes, cut to the limit less one, over the
  start of the buffer, and does not terminate it: what stood behind the copied bytes
  stays, so a shorter name is read with the tail of the previous one. More than five
  quotes overrun the array of quote positions.
\<close>
theorem network_operator_correct:
  assumes "terminated m 0" "length (cstr m 0) \<le> 255"
    and "find_sub (str ''+COPS:'') (cstr m 0) = Some k"
    and "mx \<noteq> 0" "unat mx \<le> length nw"
  shows "gsm_utilities_get_network_operator m nw mx =
    (let s = drop k (cstr m 0); P = positions 34 s in
     if 5 < length P then None
     else if length P < 2 then Some (nw[0 := 0])
     else let name = take (unat mx - 1) (take (P ! 1 - P ! 0 - 1) (drop (Suc (P ! 0)) s))
          in Some (name @ drop (length name) (nw[0 := 0])))"
  by (rule network_operator_spec [OF assms])

theorem network_operator_correct_witness:
  "gsm_utilities_get_network_operator (str ''+COPS: 0,0,\"Mobi\",7'' @ [0])
     (str ''Viettel'' @ replicate 25 0) 32 = Some (str ''Mobitel'' @ replicate 25 0)"
  using network_operator_correct [of "str ''+COPS: 0,0,\"Mobi\",7'' @ [0]" 0 32 "str ''Viettel'' @ replicate 25 0"]
  by (simp add: mem_eval positions_def upt_conv_Cons)

end
