(* ===== verification/Gsm_Data_Layer.thy ===== *)
theory Gsm_Data_Layer
  imports Gsm_Hardware Gsm_Utilities
begin

text \<open>
  The modem manager of \<open>gsm/gsm_data_layer.c\<close>: the power-on sequence, the configuration
  dialogue (\<open>gsm_config_module\<close>, both the Quectel and the MC60 variant), dialling and
  the PPP session (\<open>open_ppp_stack\<close>, the two PPP callbacks), and the tasks that drive
  them. The two dialogues are coroutines over \<open>m_gsm_manager.step\<close>: each call handles
  the answer to the command the previous call has sent.

  The PPP stack underneath is the session layer of \<open>Ppp_Core\<close>; the reactions of LCP, of
  the PPP timers and of the PPPoS decoder to received bytes are components of the
  argument \<open>E\<close>. The callbacks they cause are run in the order they were made.
\<close>

section \<open>Commands and control flow\<close>

abbreviation (input) line :: "string \<Rightarrow> u8 list" where
  "line s \<equiv> str s @ crlf"

abbreviation (input) ok :: "u8 list" where
  "ok \<equiv> str ''OK'' @ crlf"

abbreviation (input) send_config ::
  "u8 list \<Rightarrow> u8 list \<Rightarrow> u8 list \<Rightarrow> u32 \<Rightarrow> u8 \<Rightarrow> gsm \<Rightarrow> gsm option" where
  "send_config cmd er ee timeout retry s \<equiv>
     gsm_hw_send_at_cmd cmd er ee timeout retry (Some CB_gsm_config_module) s"

abbreviation (input) send_ppp ::
  "u8 list \<Rightarrow> u8 list \<Rightarrow> u8 list \<Rightarrow> u32 \<Rightarrow> u8 \<Rightarrow> gsm \<Rightarrow> gsm option" where
  "send_ppp cmd er ee timeout retry s \<equiv>
     gsm_hw_send_at_cmd cmd er ee timeout retry (Some CB_open_ppp_stack) s"

text \<open>How a case of the dialogue is left: \<open>break\<close>, behind which the step is counted up, or \<open>return\<close>.\<close>

datatype flow = Break gsm | Return gsm

definition next_step :: "flow \<Rightarrow> gsm" where
  "next_step r = (case r of Break s \<Rightarrow> s\<lparr>step := step s + 1\<rparr> | Return s \<Rightarrow> s)"

definition brk :: "gsm option \<Rightarrow> flow option" where
  "brk r = map_option Break r"

definition ret :: "gsm option \<Rightarrow> flow option" where
  "ret r = map_option Return r"

section \<open>States\<close>

definition gsm_change_state :: "gsm_state_t \<Rightarrow> gsm \<Rightarrow> gsm option" where
  "gsm_change_state new_state s =
     (let s = (if new_state = GSM_STATE_OK then s\<lparr>gsm_ready := 2\<rparr> else s);
          s = s\<lparr>state := new_state, step := 0\<rparr>
      in case new_state of
           GSM_STATE_RESET \<Rightarrow>
             Some ((gsm_hw_layer_reset_rx_buffer s)\<lparr>pwr_en := False, pwr_reset := True, pwr_key := False\<rparr>)
         | GSM_STATE_POWER_ON \<Rightarrow> Some (gsm_hw_layer_reset_rx_buffer s)
         | GSM_STATE_REOPEN_PPP \<Rightarrow>
             if step s = 0
             then send_ppp (line ''ATV1'') ok [] 1000 5 (s\<lparr>step := 1, m_ppp_connected := False\<rparr>)
             else Some s
         | _ \<Rightarrow> Some s)"

definition gsm_power_on_sequence :: "gsm \<Rightarrow> gsm option" where
  "gsm_power_on_sequence s =
     (if power_step s = 0
      then Some (s\<lparr>gsm_ready := 0, pwr_en := False, pwr_reset := True, pwr_key := False,
                   power_step := power_step s + 1\<rparr>)
      else if power_step s = 1
      then Some (s\<lparr>pwr_reset := False, pwr_en := True, power_step := power_step s + 1\<rparr>)
      else if power_step s = 2 then Some (s\<lparr>power_step := power_step s + 1\<rparr>)
      else if power_step s = 3
      then Some (s\<lparr>uart_enabled := True, pwr_key := True, power_step := power_step s + 1\<rparr>)
      else if power_step s = 4
      then Some (s\<lparr>pwr_key := False, pwr_reset := False, power_step := power_step s + 1\<rparr>)
      else if power_step s = 5 \<or> power_step s = 6 then Some (s\<lparr>power_step := power_step s + 1\<rparr>)
      else if power_step s = 7 then gsm_change_state GSM_STATE_POWER_ON (s\<lparr>power_step := 0\<rparr>)
      else Some s)"

definition gsm_state_machine_polling :: "gsm \<Rightarrow> gsm option" where
  "gsm_state_machine_polling s =
     (if 1000 \<le> tick s - m_last_tick s
      then
        let s = s\<lparr>m_last_tick := tick s\<rparr>
        in case state s of
             GSM_STATE_POWER_ON \<Rightarrow>
               if step s = 0 then send_config (line ''ATV1'') ok [] 1000 30 (s\<lparr>step := 1\<rparr>) else Some s
           | GSM_STATE_OK \<Rightarrow> Some s
           | GSM_STATE_RESET \<Rightarrow> gsm_power_on_sequence (s\<lparr>gsm_ready := 0\<rparr>)
           | _ \<Rightarrow> Some s
      else Some s)"

definition gsm_data_layer_is_module_sleeping :: "gsm \<Rightarrow> bool" where
  "gsm_data_layer_is_module_sleeping s \<longleftrightarrow> state s = GSM_STATE_SLEEP"

definition gsm_is_in_ppp_mode :: "gsm \<Rightarrow> bool" where
  "gsm_is_in_ppp_mode s \<longleftrightarrow> mode s = GSM_INTERNET_MODE_PPP_STACK"

definition gsm_data_layer_is_ppp_connected :: "gsm \<Rightarrow> bool" where
  "gsm_data_layer_is_ppp_connected s = m_ppp_connected s"

text \<open>\<open>gsm_init_hw\<close>; the USART is already on, so \<open>usart1_control(true)\<close> returns at once.\<close>

definition gsm_init_hw :: "gsm \<Rightarrow> gsm option" where
  "gsm_init_hw s = do {
     let s = s\<lparr>pwr_en := False, pwr_reset := True, pwr_key := False, uart_enabled := True\<rparr>;
     s \<leftarrow> gsm_change_state GSM_STATE_RESET s;
     Some (gsm_change_hw_polling_interval 5 s) }"

section \<open>The configuration dialogue, Quectel\<close>

definition config_steps_1_9 :: "gsm_response_event \<Rightarrow> gsm \<Rightarrow> flow option" where
  "config_steps_1_9 event s =
     (if step s = 1
      then if event \<noteq> GSM_EVENT_OK then brk (gsm_change_state GSM_STATE_RESET s)
           else brk (send_config (line ''ATE0'') ok [] 1000 10 s)
      else if step s = 2 then brk (send_config (line ''AT+CMEE=2'') ok [] 1000 10 s)
      else if step s = 3 then brk (send_config (line ''ATI'') ok [] 1000 10 s)
      else if step s = 4 then brk (send_config (line ''AT'') ok [] 1000 10 s)
      else if step s = 5
      then brk (send_config (line ''AT+QCFG=\"urc/ri/smsincoming\",\"pulse\",2000'') ok [] 1000 10 s)
      else if step s = 6 then brk (send_config (line ''AT+CNMI=2,1,0,0,0'') [] ok 1000 10 s)
      else if step s = 7 then brk (send_config (line ''AT+CMGF=1'') [] ok 1000 10 s)
      else if step s = 8 then brk (send_config (line ''AT'') ok [] 1000 5 s)
      else brk (send_config (line ''AT+CGSN'') [] ok 1000 5 s))"

definition config_steps_10_13 :: "u8 list option \<Rightarrow> gsm \<Rightarrow> flow option" where
  "config_steps_10_13 resp s =
     (if step s = 10
      then do {
        n \<leftarrow> c_strlen (m_gsm_imei s) 0;
        if n < 14
        then do {
          r \<leftarrow> resp;
          imei \<leftarrow> gsm_utilities_get_imei r (m_gsm_imei s) 16;
          let s = s\<lparr>m_gsm_imei := imei\<rparr>;
          n \<leftarrow> c_strlen (m_gsm_imei s) 0;
          if n < 15 then ret (gsm_change_state GSM_STATE_RESET s)
          else brk (send_config (line ''AT+CIMI'') ok [] 1000 5 s) }
        else brk (send_config (line ''AT+CIMI'') ok [] 1000 5 s) }
      else if step s = 11
      then do {
        r \<leftarrow> resp;
        imei \<leftarrow> gsm_utilities_get_imei r (m_sim_imei s) 16;
        let s = s\<lparr>m_sim_imei := imei\<rparr>;
        n \<leftarrow> c_strlen (m_sim_imei s) 0;
        if n < 15 then brk (send_config (line ''AT+CGSN'') [] ok 1000 5 (s\<lparr>step := 10\<rparr>))
        else brk (send_config (line ''AT+QCCID'') (str ''QCCID'') ok 1000 3 s) }
      else if step s = 12
      then do {
        let s = gsm_change_hw_polling_interval 5 s;
        n \<leftarrow> c_strlen (m_sim_ccid s) 0;
        ccid \<leftarrow> (if n < 10 then do { r \<leftarrow> resp; gsm_utilities_get_sim_ccid r (m_sim_ccid s) 20 }
                else Some (m_sim_ccid s));
        let s = s\<lparr>m_sim_ccid := ccid\<rparr>;
        n \<leftarrow> c_strlen (m_sim_ccid s) 0;
        if n < 10 \<and> ccid_retry s < 2
        then do {
          s \<leftarrow> send_config (line ''AT+QCCID'') (str ''QCCID'') ok 1000 3
                 (s\<lparr>ccid_retry := ccid_retry s + 1\<rparr>);
          brk (Some (s\<lparr>step := 11\<rparr>)) }
        else brk (send_config (line ''AT+CPIN?'') (line ''READY'') [] 3000 3 s) }
      else brk (send_config (line ''AT+QIDEACT=1'') ok [] 3000 1 (gsm_change_hw_polling_interval 5 s)))"

definition config_steps_14_18 :: "gsm \<Rightarrow> flow option" where
  "config_steps_14_18 s =
     (if step s = 14 then brk (send_config (line ''AT+QCFG=\"nwscanmode\",0'') ok [] 5000 2 s)
      else if step s = 15
      then brk (send_config (line ''AT+CGDCONT=1,\"IP\",\"v-internet\"'') [] ok 1000 2 s)
      else if step s = 16 then brk (send_config (line ''AT+QIACT=1'') ok [] 5000 5 s)
      else if step s = 17 then brk (send_config (line ''AT+CGREG=2'') ok [] 1000 3 s)
      else brk (send_config (line ''AT+CGREG?'') ok [] 1000 2 s))"

text \<open>The operator query, shared by the two variants (steps 20 and 14).\<close>

definition config_operator :: "gsm_response_event \<Rightarrow> u8 list option \<Rightarrow> gsm \<Rightarrow> flow option" where
  "config_operator event resp s = do {
     r \<leftarrow> (if event = GSM_EVENT_OK
          then do {
            m \<leftarrow> resp;
            nw \<leftarrow> gsm_utilities_get_network_operator m (m_nw_operator s) 32;
            let s = s\<lparr>m_nw_operator := nw\<rparr>;
            n \<leftarrow> c_strlen (m_nw_operator s) 0;
            Some (n < 5, s) }
          else Some (False, s));
     case r of (again, s) \<Rightarrow>
       if again
       then do {
         s \<leftarrow> send_config (line ''AT+COPS?'') ok [] 1000 3 s;
         ret (Some (gsm_change_hw_polling_interval 1000 s)) }
       else brk (send_config (line ''AT'') ok [] 1000 3 (gsm_change_hw_polling_interval 5 s)) }"

definition config_registration :: "gsm_response_event \<Rightarrow> u8 list option \<Rightarrow> gsm \<Rightarrow> flow option" where
  "config_registration event resp s = do {
     retval \<leftarrow> (if event = GSM_EVENT_OK
               then do { m \<leftarrow> resp; (ok, _) \<leftarrow> gsm_utilities_get_network_access_tech m 0; Some ok }
               else Some True);
     if \<not> retval
     then do {
       s \<leftarrow> send_config (line ''AT+CGREG?'') ok [] 1000 2 s;
       ret (Some (gsm_change_hw_polling_interval 1000 s)) }
     else brk (send_config (line ''AT+COPS?'') ok [] 2000 2 s) }"

text \<open>The signal strength, shared by the two variants (steps 23 and 17); \<open>back\<close> is the step it returns to.\<close>

definition config_csq :: "u8 \<Rightarrow> gsm_response_event \<Rightarrow> u8 list option \<Rightarrow> gsm \<Rightarrow> flow option" where
  "config_csq back event resp s =
     (if event \<noteq> GSM_EVENT_OK then ret (gsm_change_state GSM_STATE_RESET (s\<lparr>step := 0\<rparr>))
      else do {
        m \<leftarrow> resp;
        (_, csq) \<leftarrow> gsm_utilities_get_signal_strength_from_buffer m 99;
        if csq = 99
        then do {
          s \<leftarrow> send_config (line ''AT+CSQ'') ok [] 1000 3 (s\<lparr>step := back\<rparr>);
          brk (Some (gsm_change_hw_polling_interval 500 s)) }
        else brk (send_config (line ''AT'') ok [] 2000 1 s) })"

definition config_done :: "gsm \<Rightarrow> flow option" where
  "config_done s =
     brk (send_ppp (line ''AT'') ok [] 2000 1
       ((gsm_change_hw_polling_interval 5 s)\<lparr>gsm_ready := 1, step := 0\<rparr>))"

definition config_case :: "gsm_response_event \<Rightarrow> u8 list option \<Rightarrow> gsm \<Rightarrow> flow option" where
  "config_case event resp s =
         (if 1 \<le> step s \<and> step s \<le> 9 then config_steps_1_9 event s
          else if 10 \<le> step s \<and> step s \<le> 13 then config_steps_10_13 resp s
          else if 14 \<le> step s \<and> step s \<le> 18 then config_steps_14_18 s
          else if step s = 19 then config_registration event resp s
          else if step s = 20 then config_operator event resp s
          else if step s = 21 then brk (send_config (line ''AT+CCLK?'') (str ''+CCLK:'') ok 1000 5 s)
          else if step s = 22 then brk (send_config (line ''AT+CSQ'') [] ok 1000 2 s)
          else if step s = 23 then config_csq 21 event resp s
          else if step s = 24 then config_done s
          else brk (Some s))"

definition gsm_config_module :: "gsm_response_event \<Rightarrow> u8 list option \<Rightarrow> gsm \<Rightarrow> gsm option" where
  "gsm_config_module event resp s = map_option next_step (config_case event resp s)"

section \<open>The configuration dialogue, MC60\<close>

definition mc60_steps_1_9 :: "gsm_response_event \<Rightarrow> u8 list option \<Rightarrow> gsm \<Rightarrow> flow option" where
  "mc60_steps_1_9 event resp s =
     (if step s = 1
      then if event \<noteq> GSM_EVENT_OK then brk (gsm_change_state GSM_STATE_RESET s)
           else brk (send_config (line ''ATE0'') ok [] 1000 10 s)
      else if step s = 2 then brk (send_config (line ''AT+CMEE=2'') ok [] 1000 10 s)
      else if step s = 3 then brk (send_config (line ''ATI'') ok [] 1000 10 s)
      else if step s = 4 then brk (send_config (line ''AT'') ok [] 1000 10 s)
      else if step s = 5 then brk (send_config (line ''AT+CNMI=2,1,0,0,0'') [] ok 1000 10 s)
      else if step s = 6 then brk (send_config (line ''AT+CMGF=1'') [] ok 1000 10 s)
      else if step s = 7 then brk (send_config (line ''AT+GSN'') [] ok 1000 5 s)
      else if step s = 8
      then do {
        n \<leftarrow> c_strlen (m_gsm_imei s) 0;
        if n < 14
        then do {
          r \<leftarrow> resp;
          imei \<leftarrow> gsm_utilities_get_imei r (m_gsm_imei s) 16;
          let s = s\<lparr>m_gsm_imei := imei\<rparr>;
          n \<leftarrow> c_strlen (m_gsm_imei s) 0;
          if n < 15 then ret (gsm_change_state GSM_STATE_RESET s)
          else brk (send_config (line ''AT+CFUN=1'') ok [] 1000 5 s) }
        else brk (send_config (line ''AT+CFUN=1'') ok [] 1000 5 s) }
      else brk (send_config (line ''AT+CMGF=1'') ok [] 1000 5 s))"

definition mc60_steps_10_13 :: "gsm \<Rightarrow> flow option" where
  "mc60_steps_10_13 s =
     (if step s = 10
      then brk (send_config (line ''AT+CGDCONT=1,\"IP\",\"v-internet\"'') [] ok 1000 5 s)
      else if step s = 11 then brk (send_config (line ''AT+CGREG=1'') ok [] 1000 3 s)
      else if step s = 12 then brk (send_config (line ''AT+CGREG?'') ok [] 1000 2 s)
      else brk (send_config (line ''AT+COPS?'') ok [] 2000 2 s))"

definition config_case_mc60 :: "gsm_response_event \<Rightarrow> u8 list option \<Rightarrow> gsm \<Rightarrow> flow option" where
  "config_case_mc60 event resp s =
         (if 1 \<le> step s \<and> step s \<le> 9 then mc60_steps_1_9 event resp s
          else if 10 \<le> step s \<and> step s \<le> 13 then mc60_steps_10_13 s
          else if step s = 14 then config_operator event resp s
          else if step s = 15 then brk (send_config (line ''AT+CCLK?'') (str ''+CCLK:'') ok 1000 5 s)
          else if step s = 16 then brk (send_config (line ''AT+CSQ'') [] ok 1000 2 s)
          else if step s = 17 then config_csq 16 event resp s
          else if step s = 18 then config_done s
          else brk (Some s))"

definition gsm_config_module_mc60 :: "gsm_response_event \<Rightarrow> u8 list option \<Rightarrow> gsm \<Rightarrow> gsm option" where
  "gsm_config_module_mc60 event resp s = map_option next_step (config_case_mc60 event resp s)"

section \<open>The PPP session\<close>

text \<open>
  The build: which modem it is for, and the PPP stack below: LCP's reactions to the session
  layer, and what an expiry of the PPP timers and a run of received bytes do to the
  control block.
\<close>

record ppp_stack =
  mc60 :: bool                 \<comment> \<open>\<open>MC60\<close> is defined\<close>
  lcp :: "ppp_pcb lcp_ops"
  timers :: "ppp_pcb \<Rightarrow> ppp_pcb"
  input :: "u8 list \<Rightarrow> ppp_pcb \<Rightarrow> ppp_pcb"

text \<open>An operation on \<open>m_ppp_control_block\<close>, and the callbacks it has made. NULL and a released
  block have no defined result.\<close>

definition on_pcb :: "(ppp_pcb \<Rightarrow> ppp_pcb) \<Rightarrow> gsm \<Rightarrow> (ppp_event list \<times> gsm) option" where
  "on_pcb f s =
     (case m_ppp_control_block s of
        Pcb_Live pcb \<Rightarrow>
          let pcb = f pcb
          in Some (out pcb, s\<lparr>m_ppp_control_block := Pcb_Live (pcb\<lparr>out := []\<rparr>)\<rparr>)
      | _ \<Rightarrow> None)"

definition ppp_notify_phase_cb :: "u8 \<Rightarrow> gsm \<Rightarrow> gsm" where
  "ppp_notify_phase_cb p s =
     (if p = PPP_PHASE_DEAD \<or> p = PPP_PHASE_HOLDOFF \<or> p = PPP_PHASE_INITIALIZE
      then s\<lparr>ppp_phase := p\<rparr>
      else if p = PPP_PHASE_RUNNING then s\<lparr>ppp_phase := p, m_ppp_connected := True\<rparr>
      else s)"

text \<open>The status callback, and the callbacks it causes itself.\<close>

definition ppp_link_status_cb :: "ppp_stack \<Rightarrow> u8 \<Rightarrow> gsm \<Rightarrow> (ppp_event list \<times> gsm) option" where
  "ppp_link_status_cb E err s =
     (if err = PPPERR_USER
      then (case m_ppp_control_block s of
              Pcb_Live pcb \<Rightarrow> do {
                let s = (case snd (ppp_free pcb) of
                           None \<Rightarrow> s\<lparr>m_ppp_control_block := Pcb_Freed\<rparr>
                         | Some pcb \<Rightarrow> s\<lparr>m_ppp_control_block := Pcb_Live pcb\<rparr>);
                s \<leftarrow> gsm_change_state GSM_STATE_REOPEN_PPP s;
                Some ([], s) }
            | _ \<Rightarrow> None)
      else if err = PPPERR_CONNECT
      then on_pcb (\<lambda>pcb. snd (ppp_close (lcp E) True pcb)) (s\<lparr>m_ppp_connected := False\<rparr>)
      else Some ([], s))"

definition ppp_event_step ::
  "ppp_stack \<Rightarrow> ppp_event list \<times> gsm \<Rightarrow> (ppp_event list \<times> gsm + gsm) option" where
  "ppp_event_step E = (\<lambda>(es, s).
     case es of
       [] \<Rightarrow> Some (Inr s)
     | e # es \<Rightarrow>
         (case e of
            Notify_Phase p \<Rightarrow> Some (Inl (es, ppp_notify_phase_cb p s))
          | Link_Status err \<Rightarrow> do {
              (new, s) \<leftarrow> ppp_link_status_cb E err s;
              Some (Inl (new @ es, s)) }
          | _ \<Rightarrow> Some (Inl (es, s))))"

definition ppp_run_events :: "ppp_stack \<Rightarrow> ppp_event list \<times> gsm \<Rightarrow> gsm option" where
  "ppp_run_events E = loop (ppp_event_step E)"

definition ppp_call :: "ppp_stack \<Rightarrow> (ppp_pcb \<Rightarrow> ppp_pcb) \<Rightarrow> gsm \<Rightarrow> gsm option" where
  "ppp_call E f s = do { r \<leftarrow> on_pcb f s; ppp_run_events E r }"

text \<open>
  \<open>pppos_create\<close>: the pools of control blocks hold one element each
  (\<open>MEMP_NUM_PPP_PCB\<close>), so it fails while a block is live.
\<close>

definition pppos_create :: "pcb_ref \<Rightarrow> pcb_ref" where
  "pppos_create r = (case r of Pcb_Live _ \<Rightarrow> Pcb_Null | _ \<Rightarrow> Pcb_Live ppp_new)"

definition open_ppp_session :: "ppp_stack \<Rightarrow> gsm \<Rightarrow> gsm option" where
  "open_ppp_session E s = do {
     s \<leftarrow> gsm_change_state GSM_STATE_OK s;
     let s = s\<lparr>m_ppp_control_block := pppos_create (m_ppp_control_block s)\<rparr>;
     if m_ppp_control_block s = Pcb_Null then Some (s\<lparr>sys_reset := True\<rparr>)
     else do {
       s \<leftarrow> ppp_call E ppp_set_notify_phase_callback s;
       case m_ppp_control_block s of
         Pcb_Live pcb \<Rightarrow> do {
           (_, pcb) \<leftarrow> ppp_connect (lcp E) 0 pcb;
           ppp_call E (\<lambda>_. pcb) s }
       | _ \<Rightarrow> None } }"

definition open_ppp_stack ::
  "ppp_stack \<Rightarrow> gsm_response_event \<Rightarrow> u8 list option \<Rightarrow> gsm \<Rightarrow> gsm option" where
  "open_ppp_stack E event resp s =
     (if step s = 1
      then do { s \<leftarrow> send_ppp (line ''AT+CSQ'') ok [] 1000 2 s; Some (s\<lparr>step := 2\<rparr>) }
      else if step s = 2
      then do { s \<leftarrow> send_ppp (line ''AT+CPIN?'') ok [] 1000 5 s; Some (s\<lparr>step := 3\<rparr>) }
      else if step s = 3
      then if event = GSM_EVENT_OK
           then do {
             m \<leftarrow> resp;
             r \<leftarrow> c_strstr m 0 (str ''+CPIN: NOT INSERTED'');
             if r \<noteq> None then gsm_change_state GSM_STATE_RESET s
             else do {
               s \<leftarrow> send_ppp (line ''ATD*99***1#'') (str ''CONNECT'') [] 1000 10 s;
               Some (s\<lparr>step := 4\<rparr>) } }
           else gsm_change_state GSM_STATE_RESET s
      else if step s = 4
      then
        let s = s\<lparr>mode := GSM_INTERNET_MODE_PPP_STACK\<rparr>
        in if event \<noteq> GSM_EVENT_OK
           then
             let s = s\<lparr>ppp_retry_count := ppp_retry_count s + 1\<rparr>
             in if 4 < ppp_retry_count s
                then do {
                  s \<leftarrow> ppp_call E (\<lambda>pcb. snd (ppp_close (lcp E) False pcb)) (s\<lparr>ppp_retry_count := 0\<rparr>);
                  gsm_change_state GSM_STATE_RESET s }
                else do {
                  s \<leftarrow> ppp_call E (\<lambda>pcb. snd (ppp_close (lcp E) False pcb)) (s\<lparr>step := 3\<rparr>);
                  send_ppp (line ''ATV1'') ok [] 1000 5 s }
           else open_ppp_session E s
      else Some s)"

text \<open>The functions behind the callback pointers.\<close>

definition gsm_cb ::
  "ppp_stack \<Rightarrow> at_cb \<Rightarrow> gsm_response_event \<Rightarrow> u8 list option \<Rightarrow> gsm \<Rightarrow> gsm option" where
  "gsm_cb E f event resp s =
     (case f of
        CB_gsm_config_module \<Rightarrow>
          if mc60 E then gsm_config_module_mc60 event resp s else gsm_config_module event resp s
      | CB_open_ppp_stack \<Rightarrow> open_ppp_stack E event resp s)"

definition ppp_output_callback :: "u8 list \<Rightarrow> gsm \<Rightarrow> u32 \<times> gsm" where
  "ppp_output_callback data s = (of_nat (length data), s\<lparr>uart_tx := uart_tx s @ data\<rparr>)"

section \<open>The tasks\<close>

definition sio_read :: "u32 \<Rightarrow> gsm \<Rightarrow> (u8 list \<times> gsm) option" where
  "sio_read len s = gsm_hardware_layer_copy_ppp_buffer len s"

text \<open>\<open>sys_check_timeouts\<close> acts on a live session only: a release cancels its timers.\<close>

definition gsm_hw_pppos_polling :: "ppp_stack \<Rightarrow> gsm \<Rightarrow> gsm option" where
  "gsm_hw_pppos_polling E s = do {
     s \<leftarrow> (case m_ppp_control_block s of Pcb_Live _ \<Rightarrow> ppp_call E (timers E) s | _ \<Rightarrow> Some s);
     (bs, s) \<leftarrow> sio_read 512 s;
     if bs \<noteq> [] then ppp_call E (input E bs) s else Some s }"

definition gsm_mnr_task :: "ppp_stack \<Rightarrow> gsm \<Rightarrow> gsm option" where
  "gsm_mnr_task E s = do {
     s \<leftarrow> gsm_hw_layer_run (gsm_cb E) s;
     s \<leftarrow> gsm_state_machine_polling s;
     gsm_hw_pppos_polling E s }"

text \<open>
  Everything that can happen to the driver: a receive interrupt, the passing of time,
  and the three parts of the task, in any order.
\<close>

inductive gsm_step :: "ppp_stack \<Rightarrow> gsm \<Rightarrow> gsm \<Rightarrow> bool" for E where
  rx: "gsm_hw_layer_uart_fill_rx bs s = Some s' \<Longrightarrow> gsm_step E s s'"
| time: "gsm_step E s (s\<lparr>tick := t\<rparr>)"
| run: "gsm_hw_layer_run (gsm_cb E) s = Some s' \<Longrightarrow> gsm_step E s s'"
| poll: "gsm_state_machine_polling s = Some s' \<Longrightarrow> gsm_step E s s'"
| ppp: "gsm_hw_pppos_polling E s = Some s' \<Longrightarrow> gsm_step E s s'"

inductive_cases gsm_stepE: "gsm_step E s s'"

section \<open>Buffers and indices stay well formed\<close>

text \<open>The engine waits, for an answer or for its timer, only once a command is in place.\<close>

definition armed :: "gsm \<Rightarrow> bool" where
  "armed s \<longleftrightarrow> retry_count_atc s = 0 \<and> timeout_atc_ms s = 0 \<or> at_cmd s \<noteq> None \<and> expect_resp s \<noteq> None"

definition gsm_wf :: "gsm \<Rightarrow> bool" where
  "gsm_wf s \<longleftrightarrow> length (rx_buffer s) = 256 \<and> unat (rx_index s) < 256 \<and> ring_inv (modem s) \<and> armed s \<and>
     length (m_gsm_imei s) = 16 \<and> length (m_sim_imei s) = 16 \<and> length (m_nw_operator s) = 32 \<and>
     length (m_sim_ccid s) = 21"

lemma length_wr: "wr m p c = Some m' \<Longrightarrow> length m' = length m"
  by (auto simp: wr_eq_Some)

lemma length_get_imei:
  assumes "gsm_utilities_get_imei m res mx = Some res'"
  shows "length res' = length res"
proof -
  from assms obtain tc r where l: "loop (imei_step m mx) (0, 0, res) = Some (tc, r)"
    and w: "wr r (unat tc) 0 = Some res'"
    by (auto simp: gsm_utilities_get_imei_def split: bind_splits)
  have "length (snd (tc, r)) = length res"
    by (rule loop_partial [where I = "\<lambda>(c, t, r). length r = length res"
          and Q = "\<lambda>x. length (snd x) = length res", OF l])
      (auto simp: imei_step_def dest!: length_wr split: bind_splits if_splits)
  then show ?thesis using length_wr [OF w] by simp
qed

lemma length_get_ccid:
  assumes "gsm_utilities_get_sim_ccid m res mx = Some res'"
  shows "length res' = length res"
proof -
  have L: "length (snd x) = length res" if "loop (ccid_step m p mx) (0, 0, res) = Some x" for p x
    by (rule loop_partial [where I = "\<lambda>(c, t, r). length r = length res"
          and Q = "\<lambda>x. length (snd x) = length res", OF that])
      (auto simp: ccid_step_def Let_def dest!: length_wr split: bind_splits if_splits)
  show ?thesis
    using assms by (auto simp: gsm_utilities_get_sim_ccid_def dest!: length_wr dest: L
        split: bind_splits option.splits)
qed

lemma length_get_operator:
  "gsm_utilities_get_network_operator m nw mx = Some nw' \<Longrightarrow> length nw' = length nw"
  by (auto simp: gsm_utilities_get_network_operator_def Let_def dest!: length_wr length_wr_list
      split: bind_splits option.splits if_splits prod.splits)

lemma uart_send_fields:
  "gsm_hw_uart_send_raw raw n s = Some s' \<Longrightarrow> \<exists>t. s' = s\<lparr>uart_tx := t\<rparr>"
  by (auto simp: gsm_hw_uart_send_raw_def split: bind_splits)

lemma send_at_cmd_fields:
  assumes "gsm_hw_send_at_cmd cmd er ee t r (Some f) s = Some s'" "t \<noteq> 0"
  shows "s' = at_pending cmd er ee t r f s"
  using assms gsm_hw_send_at_cmd_eq [OF assms(2)] by simp

lemma wf_at_pending: "gsm_wf s \<Longrightarrow> gsm_wf (at_pending cmd er ee t r f s)"
  by (simp add: gsm_wf_def at_pending_def armed_def)

section \<open>What the dialogue leaves alone\<close>

text \<open>
  What every handler of the dialogue keeps: the mode, the ring, the session, the sizes
  of the buffers; the state changes to RESET only; the receive buffer is kept or
  cleared; and a new command always expects some text.
\<close>

definition expects_text :: "gsm \<Rightarrow> bool" where
  "expects_text s \<longleftrightarrow> (\<exists>er ee. expect_resp s = Some er \<and> expect_end s = Some ee \<and> (er \<noteq> [] \<or> ee \<noteq> []))"

definition rx_cleared :: "gsm \<Rightarrow> bool" where
  "rx_cleared s \<longleftrightarrow> rx_buffer s = replicate 256 0 \<and> rx_index s = 0"

definition dialogue_frame :: "gsm \<Rightarrow> gsm \<Rightarrow> bool" where
  "dialogue_frame s s' \<longleftrightarrow>
     mode s' = mode s \<and> modem s' = modem s \<and> m_ppp_control_block s' = m_ppp_control_block s \<and>
     m_ppp_connected s' = m_ppp_connected s \<and> sys_reset s' = sys_reset s \<and>
     length (m_gsm_imei s') = length (m_gsm_imei s) \<and> length (m_sim_imei s') = length (m_sim_imei s) \<and>
     length (m_nw_operator s') = length (m_nw_operator s) \<and>
     length (m_sim_ccid s') = length (m_sim_ccid s) \<and>
     (state s' = state s \<or> state s' = GSM_STATE_RESET) \<and>
     (rx_buffer s' = rx_buffer s \<and> rx_index s' = rx_index s \<or> rx_cleared s') \<and>
     (retry_count_atc s' = retry_count_atc s \<and> expect_resp s' = expect_resp s \<and>
        expect_end s' = expect_end s \<or> retry_count_atc s' = 0 \<or> expects_text s') \<and>
     (armed s \<longrightarrow> armed s')"

lemmas frame_defs = dialogue_frame_def expects_text_def rx_cleared_def at_pending_def armed_def
  gsm_change_hw_polling_interval_def gsm_hw_layer_reset_rx_buffer_def

lemma frame_refl: "dialogue_frame s s"
  by (simp add: dialogue_frame_def)

lemma frame_reset: "gsm_change_state GSM_STATE_RESET s = Some s' \<Longrightarrow> dialogue_frame s s'"
  by (auto simp: gsm_change_state_def Let_def frame_defs)

lemma brk_Some [simp]: "brk r = Some x \<longleftrightarrow> (\<exists>s. r = Some s \<and> x = Break s)"
  by (auto simp: brk_def)

lemma ret_Some [simp]: "ret r = Some x \<longleftrightarrow> (\<exists>s. r = Some s \<and> x = Return s)"
  by (auto simp: ret_def)

definition flow_state :: "flow \<Rightarrow> gsm" where
  "flow_state r = (case r of Break s \<Rightarrow> s | Return s \<Rightarrow> s)"

lemma flow_state_simps [simp]: "flow_state (Break s) = s" "flow_state (Return s) = s"
  by (simp_all add: flow_state_def)

lemma frame_steps_1_9: "config_steps_1_9 ev s = Some r \<Longrightarrow> dialogue_frame s (flow_state r)"
  by (auto simp: config_steps_1_9_def gsm_hw_send_at_cmd_eq frame_defs dest!: frame_reset split: if_splits)

lemma frame_steps_14_18: "config_steps_14_18 s = Some r \<Longrightarrow> dialogue_frame s (flow_state r)"
  by (auto simp: config_steps_14_18_def gsm_hw_send_at_cmd_eq frame_defs split: if_splits)

lemma frame_steps_10_13: "config_steps_10_13 resp s = Some r \<Longrightarrow> dialogue_frame s (flow_state r)"
  by (auto simp: config_steps_10_13_def gsm_hw_send_at_cmd_eq Let_def frame_defs
      gsm_change_state_def
      dest!: length_get_imei length_get_ccid split: if_splits bind_splits)

lemma frame_operator: "config_operator ev resp s = Some r \<Longrightarrow> dialogue_frame s (flow_state r)"
  by (auto simp: config_operator_def gsm_hw_send_at_cmd_eq Let_def frame_defs
      dest!: length_get_operator split: if_splits bind_splits)

lemma frame_registration: "config_registration ev resp s = Some r \<Longrightarrow> dialogue_frame s (flow_state r)"
  by (auto simp: config_registration_def gsm_hw_send_at_cmd_eq Let_def frame_defs
      split: if_splits bind_splits)

lemma frame_csq: "config_csq b ev resp s = Some r \<Longrightarrow> dialogue_frame s (flow_state r)"
  by (auto simp: config_csq_def gsm_hw_send_at_cmd_eq Let_def frame_defs gsm_change_state_def
      split: if_splits bind_splits)

lemma frame_done: "config_done s = Some r \<Longrightarrow> dialogue_frame s (flow_state r)"
  by (auto simp: config_done_def gsm_hw_send_at_cmd_eq frame_defs)

lemma frame_mc60_1_9: "mc60_steps_1_9 ev resp s = Some r \<Longrightarrow> dialogue_frame s (flow_state r)"
  by (auto simp: mc60_steps_1_9_def gsm_hw_send_at_cmd_eq Let_def frame_defs gsm_change_state_def
      dest!: length_get_imei split: if_splits bind_splits)

lemma frame_mc60_10_13: "mc60_steps_10_13 s = Some r \<Longrightarrow> dialogue_frame s (flow_state r)"
  by (auto simp: mc60_steps_10_13_def gsm_hw_send_at_cmd_eq frame_defs split: if_splits)

lemma frame_query: "brk (gsm_hw_send_at_cmd cmd er ee t n (Some f) s) = Some r \<Longrightarrow> t \<noteq> 0 \<Longrightarrow>
    er \<noteq> [] \<or> ee \<noteq> [] \<Longrightarrow> dialogue_frame s (flow_state r)"
  by (auto simp: gsm_hw_send_at_cmd_eq frame_defs)

lemma frame_stay: "brk (Some s) = Some r \<Longrightarrow> dialogue_frame s (flow_state r)"
  by (auto simp: frame_refl)

lemma frame_step: "dialogue_frame s (s'\<lparr>step := k\<rparr>) = dialogue_frame s s'"
  by (simp add: dialogue_frame_def expects_text_def rx_cleared_def armed_def)

lemmas frame_parts = frame_steps_1_9 frame_steps_10_13 frame_steps_14_18 frame_operator
  frame_registration frame_csq frame_done frame_mc60_1_9 frame_mc60_10_13

lemma frame_case: "config_case ev resp s = Some r \<Longrightarrow> dialogue_frame s (flow_state r)"
  unfolding config_case_def
  by (auto simp del: brk_Some split: if_splits dest: frame_parts frame_query frame_stay)

lemma frame_case_mc60: "config_case_mc60 ev resp s = Some r \<Longrightarrow> dialogue_frame s (flow_state r)"
  unfolding config_case_mc60_def
  by (auto simp del: brk_Some split: if_splits dest: frame_parts frame_query frame_stay)

lemma frame_next_step: "dialogue_frame s (next_step r) = dialogue_frame s (flow_state r)"
  by (cases r) (simp_all add: next_step_def frame_step)

lemma frame_config_module: "gsm_config_module ev resp s = Some s' \<Longrightarrow> dialogue_frame s s'"
  using frame_case by (auto simp: gsm_config_module_def frame_next_step)

lemma frame_config_module_mc60: "gsm_config_module_mc60 ev resp s = Some s' \<Longrightarrow> dialogue_frame s s'"
  using frame_case_mc60 by (auto simp: gsm_config_module_mc60_def frame_next_step)

section \<open>The invariants over all steps\<close>

lemma wf_frame: "dialogue_frame s s' \<Longrightarrow> gsm_wf s \<Longrightarrow> gsm_wf s'"
proof -
  assume f: "dialogue_frame s s'" and w: "gsm_wf s"
  have "rx_buffer s' = rx_buffer s \<and> rx_index s' = rx_index s \<or> rx_cleared s'"
    using f unfolding dialogue_frame_def by blast
  then have "length (rx_buffer s') = 256 \<and> unat (rx_index s') < 256"
    using w by (auto simp: gsm_wf_def rx_cleared_def)
  then show "gsm_wf s'" using f w unfolding gsm_wf_def dialogue_frame_def by simp
qed

lemma wf_states:
  "gsm_wf (s\<lparr>state := ns\<rparr>) = gsm_wf s" "gsm_wf (s\<lparr>step := k\<rparr>) = gsm_wf s" "gsm_wf (s\<lparr>gsm_ready := k\<rparr>) = gsm_wf s"
  "gsm_wf (s\<lparr>m_ppp_connected := b\<rparr>) = gsm_wf s"
  "gsm_wf (s\<lparr>pwr_en := b, pwr_reset := b', pwr_key := b''\<rparr>) = gsm_wf s"
  "gsm_wf s \<Longrightarrow> gsm_wf (gsm_hw_layer_reset_rx_buffer s)"
  by (auto simp: gsm_wf_def armed_def gsm_hw_layer_reset_rx_buffer_def)

lemma wf_change_state: "gsm_change_state ns s = Some s' \<Longrightarrow> gsm_wf s \<Longrightarrow> gsm_wf s'"
  by (cases ns) (auto simp: gsm_change_state_def Let_def gsm_hw_send_at_cmd_eq wf_at_pending wf_states)

lemma mode_change_state: "gsm_change_state ns s = Some s' \<Longrightarrow> mode s' = mode s"
  by (cases ns) (auto simp: gsm_change_state_def Let_def gsm_hw_send_at_cmd_eq at_pending_def
      gsm_hw_layer_reset_rx_buffer_def)

text \<open>Well-formed, and in PPP mode if \<open>p\<close> is set.\<close>

definition wf_mode :: "bool \<Rightarrow> gsm \<Rightarrow> bool" where
  "wf_mode p s \<longleftrightarrow> gsm_wf s \<and> (p \<longrightarrow> mode s = GSM_INTERNET_MODE_PPP_STACK)"

lemma wf_mode_frame: "dialogue_frame s s' \<Longrightarrow> wf_mode p s \<Longrightarrow> wf_mode p s'"
  by (auto simp: wf_mode_def dialogue_frame_def intro: wf_frame [unfolded dialogue_frame_def])

lemma wf_mode_change_state: "gsm_change_state ns s = Some s' \<Longrightarrow> wf_mode p s \<Longrightarrow> wf_mode p s'"
  by (auto simp: wf_mode_def mode_change_state wf_change_state)

lemma wf_mode_updates [simp]:
  "wf_mode p (s\<lparr>m_ppp_control_block := r\<rparr>) = wf_mode p s"
  "wf_mode p (s\<lparr>m_ppp_connected := b\<rparr>) = wf_mode p s"
  "wf_mode p (s\<lparr>ppp_phase := k\<rparr>) = wf_mode p s"
  "wf_mode p (s\<lparr>step := k\<rparr>) = wf_mode p s"
  "wf_mode p (s\<lparr>sys_reset := b\<rparr>) = wf_mode p s"
  "wf_mode p (s\<lparr>tick := t\<rparr>) = wf_mode p s"
  "wf_mode p (s\<lparr>m_last_poll := t\<rparr>) = wf_mode p s"
  "wf_mode p (s\<lparr>m_last_tick := t\<rparr>) = wf_mode p s"
  "wf_mode p (s\<lparr>gsm_ready := k\<rparr>) = wf_mode p s"
  "wf_mode p (s\<lparr>ppp_retry_count := k\<rparr>) = wf_mode p s"
  "wf_mode p (s\<lparr>m_new_uart_data := b\<rparr>) = wf_mode p s"
  "wf_mode p (s\<lparr>current_timeout_atc_ms := t\<rparr>) = wf_mode p s"
  "wf_mode p (s\<lparr>uart_tx := bs\<rparr>) = wf_mode p s"
  by (simp_all add: wf_mode_def gsm_wf_def armed_def)

text \<open>The counters of the engine: both off, or changed while a command is in place.\<close>

lemma wf_mode_counters:
  "wf_mode p s \<Longrightarrow> wf_mode p (s\<lparr>retry_count_atc := 0, timeout_atc_ms := 0\<rparr>)"
  "wf_mode p s \<Longrightarrow> wf_mode p (s\<lparr>timeout_atc_ms := 0\<rparr>)"
  "wf_mode p s \<Longrightarrow> timeout_atc_ms s \<noteq> 0 \<Longrightarrow> wf_mode p (s\<lparr>retry_count_atc := k\<rparr>)"
  "wf_mode p s \<Longrightarrow> timeout_atc_ms s \<noteq> 0 \<Longrightarrow> wf_mode p (s\<lparr>retry_count_atc := k, timeout_atc_ms := t\<rparr>)"
  "wf_mode p s \<Longrightarrow> timeout_atc_ms s \<noteq> 0 \<Longrightarrow> wf_mode p (s\<lparr>retry_count_atc := k, current_timeout_atc_ms := t\<rparr>)"
  by (auto simp: wf_mode_def gsm_wf_def armed_def)

lemma wf_mode_send:
  "gsm_hw_send_at_cmd cmd er ee t r (Some f) s = Some s' \<Longrightarrow> t \<noteq> 0 \<Longrightarrow> wf_mode p s \<Longrightarrow> wf_mode p s'"
proof -
  have "mode (at_pending cmd er ee t r f s) = mode s" by (simp add: at_pending_def)
  then show "gsm_hw_send_at_cmd cmd er ee t r (Some f) s = Some s' \<Longrightarrow> t \<noteq> 0 \<Longrightarrow> wf_mode p s \<Longrightarrow> wf_mode p s'"
    by (auto simp: gsm_hw_send_at_cmd_eq wf_mode_def wf_at_pending)
qed

lemma wf_mode_on_pcb: "on_pcb f s = Some (es, s') \<Longrightarrow> wf_mode p s \<Longrightarrow> wf_mode p s'"
  by (auto simp: on_pcb_def Let_def split: pcb_ref.splits)

lemma wf_mode_status_cb:
  "ppp_link_status_cb E err s = Some (es, s') \<Longrightarrow> wf_mode p s \<Longrightarrow> wf_mode p s'"
  by (auto simp: ppp_link_status_cb_def Let_def dest: wf_mode_on_pcb wf_mode_change_state
      split: if_splits pcb_ref.splits bind_splits option.splits)

lemma wf_mode_notify: "wf_mode p s \<Longrightarrow> wf_mode p (ppp_notify_phase_cb k s)"
  by (simp add: ppp_notify_phase_cb_def wf_mode_def gsm_wf_def armed_def)

lemma wf_mode_run_events:
  assumes "ppp_run_events E (es, s) = Some s'" "wf_mode p s"
  shows "wf_mode p s'"
  using assms(1) unfolding ppp_run_events_def
  by (rule loop_partial [where I = "\<lambda>(es, s). wf_mode p s" and Q = "wf_mode p"])
    (use assms(2) in \<open>auto simp: ppp_event_step_def wf_mode_notify dest: wf_mode_status_cb
        split: list.splits ppp_event.splits bind_splits\<close>)

lemma wf_mode_call: "ppp_call E f s = Some s' \<Longrightarrow> wf_mode p s \<Longrightarrow> wf_mode p s'"
  by (auto simp: ppp_call_def dest: wf_mode_on_pcb wf_mode_run_events split: bind_splits)

lemma wf_mode_open_session: "open_ppp_session E s = Some s' \<Longrightarrow> wf_mode p s \<Longrightarrow> wf_mode p s'"
  by (auto simp: open_ppp_session_def Let_def dest!: wf_mode_change_state wf_mode_call
      split: bind_splits if_splits pcb_ref.splits)

lemma wf_mode_ppp: "wf_mode p s \<Longrightarrow> wf_mode True (s\<lparr>mode := GSM_INTERNET_MODE_PPP_STACK\<rparr>)"
  by (simp add: wf_mode_def gsm_wf_def armed_def)

lemma wf_mode_True: "wf_mode True s \<Longrightarrow> wf_mode p s"
  by (simp add: wf_mode_def)

lemma wf_mode_open_stack:
  assumes "open_ppp_stack E ev resp s = Some s'" "wf_mode p s"
  shows "wf_mode p s'"
proof -
  have 4: "wf_mode True (s\<lparr>mode := GSM_INTERNET_MODE_PPP_STACK\<rparr>)" using wf_mode_ppp [OF assms(2)] .
  show ?thesis
    using assms 4 unfolding open_ppp_stack_def
    by (auto simp: Let_def split: if_splits bind_splits
        dest!: wf_mode_send wf_mode_change_state wf_mode_open_session wf_mode_call
        intro: wf_mode_True)
qed

lemma wf_mode_cb: "gsm_cb E f ev resp s = Some s' \<Longrightarrow> wf_mode p s \<Longrightarrow> wf_mode p s'"
  by (auto simp: gsm_cb_def split: at_cb.splits if_splits
      dest: frame_config_module frame_config_module_mc60 wf_mode_open_stack intro: wf_mode_frame)

lemma wf_mode_callback:
  "run_callback (gsm_cb E) ev resp s = Some s' \<Longrightarrow> wf_mode p s \<Longrightarrow> wf_mode p s'"
  by (auto simp: run_callback_def dest: wf_mode_cb split: option.splits)

lemma wf_mode_rx:
  "wf_mode p s \<Longrightarrow> length buf = 256 \<Longrightarrow> wf_mode p (s\<lparr>rx_buffer := buf\<rparr>)"
  "wf_mode p s \<Longrightarrow> length buf = 256 \<Longrightarrow> wf_mode p (s\<lparr>rx_index := 0, rx_buffer := buf\<rparr>)"
  by (simp_all add: wf_mode_def gsm_wf_def armed_def)

lemma wf_mode_buffer: "wf_mode p s \<Longrightarrow> length (rx_buffer s) = 256"
  by (simp add: wf_mode_def gsm_wf_def)

lemma wf_mode_receive: "at_receive (gsm_cb E) s = Some s' \<Longrightarrow> wf_mode p s \<Longrightarrow> wf_mode p s'"
  by (auto simp: at_receive_def Let_def wf_mode_buffer split: if_splits bind_splits
      dest!: length_wr wf_mode_callback intro!: wf_mode_rx wf_mode_counters(1))

lemma wf_mode_timeout:
  assumes "at_timeout (gsm_cb E) s = Some s'" "wf_mode p s"
  shows "wf_mode p s'"
proof -
  have send: "wf_mode p s'" if "gsm_hw_uart_send_raw raw n s1 = Some s'" "wf_mode p s1" for raw n s1 s'
    using uart_send_fields [OF that(1)] that(2) by auto
  have cb: "wf_mode p (s2\<lparr>rx_index := 0, rx_buffer := buf\<rparr>)"
    if "run_callback (gsm_cb E) ev resp s1 = Some s2" "wf_mode p s1" "wr (rx_buffer s2) k c = Some buf"
    for ev resp s1 s2 k c buf
    using wf_mode_callback [OF that(1,2)] length_wr [OF that(3)] by (simp add: wf_mode_rx wf_mode_buffer)
  show ?thesis
    using assms unfolding at_timeout_def Let_def
    by (auto split: if_splits bind_splits intro: cb send wf_mode_counters)
qed

lemma wf_mode_run: "gsm_hw_layer_run (gsm_cb E) s = Some s' \<Longrightarrow> wf_mode p s \<Longrightarrow> wf_mode p s'"
  by (auto simp: gsm_hw_layer_run_def Let_def dest!: wf_mode_receive wf_mode_timeout
      split: if_splits bind_splits)

lemma modem_put_all_inv: "ring_inv q \<Longrightarrow> modem_put_all bs q = Some q' \<Longrightarrow> ring_inv q'"
proof (induction bs arbitrary: q)
  case (Cons b bs)
  then show ?case using modem_put_eq [OF Cons.prems(1), of b] by (auto split: bind_splits)
qed simp

lemma wf_mode_serial:
  "wf_mode p s \<Longrightarrow> ring_inv q \<Longrightarrow> wf_mode p (s\<lparr>modem := q\<rparr>)"
  "wf_mode p s \<Longrightarrow> length buf = 256 \<Longrightarrow> unat i < 256 \<Longrightarrow> wf_mode p (s\<lparr>rx_buffer := buf, rx_index := i\<rparr>)"
  by (simp_all add: wf_mode_def gsm_wf_def armed_def)

lemma wf_mode_fields: "wf_mode p s \<Longrightarrow> length (rx_buffer s) = 256 \<and> unat (rx_index s) < 256 \<and> ring_inv (modem s)"
  by (simp add: wf_mode_def gsm_wf_def)

lemma wf_mode_fill:
  assumes "gsm_hw_layer_uart_fill_rx bs s = Some s'" "wf_mode p s"
  shows "wf_mode p s'"
proof -
  note f = wf_mode_fields [OF assms(2)]
  obtain buf i where "at_fill bs (rx_buffer s, rx_index s) = Some (buf, i)" "length buf = 256" "unat i < 256"
    using at_fill_inv [of "rx_buffer s" "rx_index s" bs] f by blast
  then show ?thesis using assms modem_put_all_inv [of "modem s" bs] f
    by (auto simp: gsm_hw_layer_uart_fill_rx_def Let_def wf_mode_serial split: if_splits bind_splits)
qed

lemma wf_mode_copy: "gsm_hardware_layer_copy_ppp_buffer n s = Some (bs, s') \<Longrightarrow> wf_mode p s \<Longrightarrow> wf_mode p s'"
  using modem_copy_ok [of "modem s" "unat n"]
  by (auto simp: gsm_hardware_layer_copy_ppp_buffer_def wf_mode_def gsm_wf_def armed_def split: bind_splits)

lemma wf_mode_pins [simp]:
  "wf_mode p (s\<lparr>power_step := k\<rparr>) = wf_mode p s"
  "wf_mode p (s\<lparr>pwr_en := b\<rparr>) = wf_mode p s"
  "wf_mode p (s\<lparr>pwr_reset := b\<rparr>) = wf_mode p s"
  "wf_mode p (s\<lparr>pwr_key := b\<rparr>) = wf_mode p s"
  "wf_mode p (s\<lparr>uart_enabled := b\<rparr>) = wf_mode p s"
  by (simp_all add: wf_mode_def gsm_wf_def armed_def)

lemma wf_mode_power: "gsm_power_on_sequence s = Some s' \<Longrightarrow> wf_mode p s \<Longrightarrow> wf_mode p s'"
  by (auto simp: gsm_power_on_sequence_def split: if_splits dest: wf_mode_change_state)

lemma wf_mode_poll: "gsm_state_machine_polling s = Some s' \<Longrightarrow> wf_mode p s \<Longrightarrow> wf_mode p s'"
  by (auto simp: gsm_state_machine_polling_def Let_def split: if_splits gsm_state_t.splits
      dest!: wf_mode_power wf_mode_send)

lemma wf_mode_ppp_poll: "gsm_hw_pppos_polling E s = Some s' \<Longrightarrow> wf_mode p s \<Longrightarrow> wf_mode p s'"
  by (auto simp: gsm_hw_pppos_polling_def sio_read_def split: pcb_ref.splits bind_splits if_splits
      dest!: wf_mode_call wf_mode_copy)

lemmas wf_mode_steps = wf_mode_fill wf_mode_run wf_mode_poll wf_mode_ppp_poll

interpretation gsm_wf: step_invariant "gsm_step E" "wf_mode p" for E p
  by unfold_locales (auto elim!: gsm_stepE dest: wf_mode_steps)

section \<open>After the session has ended\<close>

text \<open>
  The driver after its first PPP session was closed by \<open>PPPERR_USER\<close>: still in PPP mode, so
  the AT buffer gets nothing; no control block; a command is waited for in vain.
\<close>

definition session_lost :: "gsm \<Rightarrow> bool" where
  "session_lost s \<longleftrightarrow>
     mode s = GSM_INTERNET_MODE_PPP_STACK \<and> length (rx_buffer s) = 256 \<and> rx_buffer s ! 0 = 0 \<and>
     rx_index s = 0 \<and> (\<forall>pcb. m_ppp_control_block s \<noteq> Pcb_Live pcb) \<and>
     state s \<noteq> GSM_STATE_OK \<and> \<not> m_ppp_connected s \<and> \<not> sys_reset s \<and>
     (retry_count_atc s \<noteq> 0 \<longrightarrow> expects_text s)"

lemma lost_frame: "dialogue_frame s s' \<Longrightarrow> session_lost s \<Longrightarrow> session_lost s'"
proof -
  assume f: "dialogue_frame s s'" and l: "session_lost s"
  have "rx_buffer s' = rx_buffer s \<and> rx_index s' = rx_index s \<or> rx_cleared s'"
    using f unfolding dialogue_frame_def by blast
  then have "length (rx_buffer s') = 256 \<and> rx_buffer s' ! 0 = 0 \<and> rx_index s' = 0"
    using l by (auto simp: session_lost_def rx_cleared_def)
  moreover have "retry_count_atc s' \<noteq> 0 \<longrightarrow> expects_text s'"
    using f l unfolding dialogue_frame_def session_lost_def expects_text_def by metis
  moreover have "state s' \<noteq> GSM_STATE_OK"
    using f l unfolding dialogue_frame_def session_lost_def by auto
  ultimately show "session_lost s'" using f l unfolding session_lost_def dialogue_frame_def by simp
qed

lemma lost_updates [simp]:
  "session_lost (s\<lparr>tick := t\<rparr>) = session_lost s"
  "session_lost (s\<lparr>m_last_poll := t\<rparr>) = session_lost s"
  "session_lost (s\<lparr>m_last_tick := t\<rparr>) = session_lost s"
  "session_lost (s\<lparr>step := k\<rparr>) = session_lost s"
  "session_lost (s\<lparr>gsm_ready := k\<rparr>) = session_lost s"
  "session_lost (s\<lparr>m_new_uart_data := b\<rparr>) = session_lost s"
  "session_lost (s\<lparr>modem := q\<rparr>) = session_lost s"
  "session_lost (s\<lparr>uart_tx := bs\<rparr>) = session_lost s"
  "session_lost (s\<lparr>timeout_atc_ms := t\<rparr>) = session_lost s"
  "session_lost (s\<lparr>current_timeout_atc_ms := t\<rparr>) = session_lost s"
  "session_lost (s\<lparr>power_step := k\<rparr>) = session_lost s"
  "session_lost (s\<lparr>pwr_en := b\<rparr>) = session_lost s"
  "session_lost (s\<lparr>pwr_reset := b\<rparr>) = session_lost s"
  "session_lost (s\<lparr>pwr_key := b\<rparr>) = session_lost s"
  "session_lost (s\<lparr>uart_enabled := b\<rparr>) = session_lost s"
  "session_lost (s\<lparr>ppp_retry_count := k\<rparr>) = session_lost s"
  by (simp_all add: session_lost_def expects_text_def)

lemma lost_retry: "session_lost s \<Longrightarrow> retry_count_atc s \<noteq> 0 \<Longrightarrow> session_lost (s\<lparr>retry_count_atc := k\<rparr>)"
  by (simp add: session_lost_def expects_text_def)

lemma lost_retry_0: "session_lost s \<Longrightarrow> session_lost (s\<lparr>retry_count_atc := 0\<rparr>)"
  by (simp add: session_lost_def expects_text_def)

lemma lost_send:
  "gsm_hw_send_at_cmd cmd er ee t r (Some f) s = Some s' \<Longrightarrow> t \<noteq> 0 \<Longrightarrow> er \<noteq> [] \<or> ee \<noteq> [] \<Longrightarrow>
     session_lost s \<Longrightarrow> session_lost s'"
proof -
  assume "er \<noteq> [] \<or> ee \<noteq> []" "session_lost s"
  then have "session_lost (at_pending cmd er ee t r f s)"
    by (simp add: session_lost_def at_pending_def expects_text_def)
  then show "gsm_hw_send_at_cmd cmd er ee t r (Some f) s = Some s' \<Longrightarrow> t \<noteq> 0 \<Longrightarrow> session_lost s'"
    by (simp add: gsm_hw_send_at_cmd_eq)
qed

lemma lost_states:
  "session_lost s \<Longrightarrow> ns \<noteq> GSM_STATE_OK \<Longrightarrow> session_lost (s\<lparr>state := ns\<rparr>)"
  "session_lost s \<Longrightarrow> session_lost (s\<lparr>m_ppp_connected := False\<rparr>)"
  "session_lost s \<Longrightarrow> session_lost (gsm_hw_layer_reset_rx_buffer s)"
  by (simp_all add: session_lost_def expects_text_def gsm_hw_layer_reset_rx_buffer_def)

lemma lost_change_state:
  "gsm_change_state ns s = Some s' \<Longrightarrow> ns \<noteq> GSM_STATE_OK \<Longrightarrow> session_lost s \<Longrightarrow> session_lost s'"
  by (cases ns) (auto simp: gsm_change_state_def Let_def lost_states dest!: lost_send)

lemma lost_call: "session_lost s \<Longrightarrow> ppp_call E f s = None"
  by (auto simp: session_lost_def ppp_call_def on_pcb_def split: pcb_ref.splits)

lemma lost_updates_mode: "session_lost s \<Longrightarrow> s\<lparr>mode := GSM_INTERNET_MODE_PPP_STACK\<rparr> = s"
  by (simp add: session_lost_def)

lemma lost_open_stack:
  assumes "open_ppp_stack E GSM_EVENT_TIMEOUT None s = Some s'" "session_lost s"
  shows "session_lost s'"
  using assms unfolding open_ppp_stack_def
  by (auto simp: Let_def lost_call lost_updates_mode split: if_splits bind_splits
      dest!: lost_send lost_change_state)

lemma lost_cb: "gsm_cb E f GSM_EVENT_TIMEOUT None s = Some s' \<Longrightarrow> session_lost s \<Longrightarrow> session_lost s'"
  by (auto simp: gsm_cb_def split: at_cb.splits if_splits
      dest: frame_config_module frame_config_module_mc60 lost_open_stack intro: lost_frame)

text \<open>An empty AT buffer answers no command that expects some text.\<close>

lemma lost_empty: "session_lost s \<Longrightarrow> cstr (rx_buffer s) 0 = []"
  by (cases "rx_buffer s") (auto simp: session_lost_def cstr_def)

lemma find_sub_empty: "pat \<noteq> [] \<Longrightarrow> find_sub pat [] = None"
  by simp

lemma lost_receive:
  assumes "session_lost s" "retry_count_atc s \<noteq> 0" "at_receive cb s = Some s'"
  shows "s' = s\<lparr>m_new_uart_data := False\<rparr> \<or> s' = s"
proof -
  from assms(1,2) obtain er ee where e: "expect_resp s = Some er" "expect_end s = Some ee"
    "er \<noteq> [] \<or> ee \<noteq> []" by (auto simp: session_lost_def expects_text_def)
  have "rx_index s = 0" using assms(1) by (simp add: session_lost_def)
  then have "end_matches (s\<lparr>m_new_uart_data := False\<rparr>) = Some (ee = [])"
    using e(2) by (simp add: end_matches_def)
  moreover have "c_strstr (rx_buffer s) 0 er = Some r \<Longrightarrow> er \<noteq> [] \<Longrightarrow> r = None" for r
    using lost_empty [OF assms(1)] by (auto simp: c_strstr_def split: if_splits)
  ultimately show ?thesis
    using assms(3) e unfolding at_receive_def Let_def
    by (auto split: if_splits bind_splits)
qed

lemma lost_timeout:
  assumes "at_timeout (gsm_cb E) s = Some s'" "session_lost s"
  shows "session_lost s'"
proof -
  have send: "session_lost s'" if "gsm_hw_uart_send_raw raw n s1 = Some s'" "session_lost s1" for raw n s1 s'
    using uart_send_fields [OF that(1)] that(2) by auto
  have cb: "session_lost (s2\<lparr>rx_index := 0, rx_buffer := buf\<rparr>)"
    if "run_callback (gsm_cb E) GSM_EVENT_TIMEOUT None s1 = Some s2" "session_lost s1"
      "wr (rx_buffer s2) 0 0 = Some buf" for s1 s2 buf
  proof -
    have "session_lost s2"
      using that(1,2) by (auto simp: run_callback_def dest: lost_cb split: option.splits)
    then show ?thesis using that(3) by (auto simp: session_lost_def wr_eq_Some expects_text_def)
  qed
  show ?thesis
    using assms unfolding at_timeout_def Let_def
    by (auto simp: lost_retry lost_retry_0 split: if_splits bind_splits dest!: cb send)
qed

lemma lost_receive_keeps:
  "at_receive cb s = Some s' \<Longrightarrow> retry_count_atc s \<noteq> 0 \<Longrightarrow> session_lost s \<Longrightarrow> session_lost s'"
  using lost_receive by fastforce

lemma lost_run:
  assumes "gsm_hw_layer_run (gsm_cb E) s = Some s'" "session_lost s"
  shows "session_lost s'"
proof (cases "tick s - m_last_poll s < m_poll_interval s")
  case True
  then show ?thesis using assms by (simp add: gsm_hw_layer_run_def)
next
  case False
  let ?s = "s\<lparr>m_last_poll := tick s\<rparr>"
  from False assms(1) obtain s1 s2 where
    1: "(if retry_count_atc s \<noteq> 0 then at_receive (gsm_cb E) ?s else Some ?s) = Some s1"
    and 2: "at_timeout (gsm_cb E) s1 = Some s2" and 3: "s' = s2\<lparr>m_last_poll := tick s2\<rparr>"
    by (auto simp: gsm_hw_layer_run_def Let_def split: bind_splits)
  have "session_lost s1"
    using 1 assms(2) lost_receive_keeps [of "gsm_cb E" ?s s1] by (auto split: if_splits)
  then show ?thesis using lost_timeout [OF 2] 3 by simp
qed

lemma lost_fill: "gsm_hw_layer_uart_fill_rx bs s = Some s' \<Longrightarrow> session_lost s \<Longrightarrow> session_lost s'"
  by (auto simp: gsm_hw_layer_uart_fill_rx_def Let_def split: if_splits bind_splits)
    (auto simp: session_lost_def)

lemma lost_power: "gsm_power_on_sequence s = Some s' \<Longrightarrow> session_lost s \<Longrightarrow> session_lost s'"
  by (auto simp: gsm_power_on_sequence_def split: if_splits dest: lost_change_state)

lemma lost_poll: "gsm_state_machine_polling s = Some s' \<Longrightarrow> session_lost s \<Longrightarrow> session_lost s'"
  by (auto simp: gsm_state_machine_polling_def Let_def split: if_splits gsm_state_t.splits
      dest!: lost_power lost_send)

lemma lost_ppp_poll: "gsm_hw_pppos_polling E s = Some s' \<Longrightarrow> session_lost s \<Longrightarrow> session_lost s'"
  by (auto simp: gsm_hw_pppos_polling_def sio_read_def gsm_hardware_layer_copy_ppp_buffer_def lost_call
      split: pcb_ref.splits bind_splits if_splits)

lemmas lost_steps = lost_fill lost_run lost_poll lost_ppp_poll

interpretation gsm_lost: step_invariant "gsm_step E" session_lost for E
  by unfold_locales (auto elim!: gsm_stepE dest: lost_steps)

section \<open>Runs of the dialogue\<close>

text \<open>Polls of the state machine every \<open>d\<close> milliseconds; the states after each.\<close>

fun poll_trace :: "u32 \<Rightarrow> nat \<Rightarrow> gsm \<Rightarrow> gsm list option" where
  "poll_trace d 0 s = Some []"
| "poll_trace d (Suc n) s = do {
     s \<leftarrow> gsm_state_machine_polling (s\<lparr>tick := tick s + d\<rparr>);
     ss \<leftarrow> poll_trace d n s;
     Some (s # ss) }"

definition pins :: "gsm \<Rightarrow> bool \<times> bool \<times> bool" where
  "pins s = (pwr_en s, pwr_reset s, pwr_key s)"

text \<open>The configuration dialogue when every command is answered.\<close>

fun answered :: "u8 list list \<Rightarrow> gsm \<Rightarrow> gsm option" where
  "answered [] s = Some s"
| "answered (r # rs) s = do {
     s \<leftarrow> gsm_config_module GSM_EVENT_OK (Some r) s;
     answered rs s }"

definition config_commands :: "u8 list list" where
  "config_commands =
     [line ''ATE0'', line ''AT+CMEE=2'', line ''ATI'', line ''AT'',
      line ''AT+QCFG=\"urc/ri/smsincoming\",\"pulse\",2000'', line ''AT+CNMI=2,1,0,0,0'',
      line ''AT+CMGF=1'', line ''AT'', line ''AT+CGSN'', line ''AT+CIMI'', line ''AT+QCCID'',
      line ''AT+CPIN?'', line ''AT+QIDEACT=1'', line ''AT+QCFG=\"nwscanmode\",0'',
      line ''AT+CGDCONT=1,\"IP\",\"v-internet\"'', line ''AT+QIACT=1'', line ''AT+CGREG=2'',
      line ''AT+CGREG?'', line ''AT+COPS?'', line ''AT'', line ''AT+CCLK?'', line ''AT+CSQ'',
      line ''AT'', line ''AT'']"

lemma power_poll:
  assumes "state s = GSM_STATE_RESET" "1000 \<le> tick s + d - m_last_tick s"
  shows "gsm_state_machine_polling (s\<lparr>tick := tick s + d\<rparr>) =
    gsm_power_on_sequence (s\<lparr>tick := tick s + d, m_last_tick := tick s + d, gsm_ready := 0\<rparr>)"
  using assms by (simp add: gsm_state_machine_polling_def Let_def)

lemma power_on_run:
  assumes "state s = GSM_STATE_RESET" "power_step s = 0" "1000 \<le> tick s + d - m_last_tick s" "1000 \<le> d"
  shows "\<exists>ss. poll_trace d 9 s = Some ss \<and>
    map pins ss = [(False, True, False), (True, False, False), (True, False, False),
      (True, False, True), (True, False, False), (True, False, False), (True, False, False),
      (True, False, False), (True, False, False)] \<and>
    map state ss = [GSM_STATE_RESET, GSM_STATE_RESET, GSM_STATE_RESET, GSM_STATE_RESET,
      GSM_STATE_RESET, GSM_STATE_RESET, GSM_STATE_RESET, GSM_STATE_POWER_ON, GSM_STATE_POWER_ON] \<and>
    uart_tx (last ss) = uart_tx s @ line ''ATV1'' \<and> step (last ss) = 1 \<and>
    retry_count_atc (last ss) = 30 \<and> send_at_callback (last ss) = Some CB_gsm_config_module"
proof -
  have n: "(9 :: nat) = Suc (Suc (Suc (Suc (Suc (Suc (Suc (Suc (Suc 0))))))))" by simp
  show ?thesis
    unfolding n using assms
    by (simp add: power_poll gsm_power_on_sequence_def gsm_change_state_def Let_def pins_def
        gsm_hw_layer_reset_rx_buffer_def gsm_state_machine_polling_def gsm_hw_send_at_cmd_eq
        at_pending_def)
qed

lemmas config_case_defs = gsm_config_module_def config_case_def next_step_def brk_def ret_def
  config_steps_1_9_def config_steps_10_13_def config_steps_14_18_def config_registration_def
  config_operator_def config_csq_def config_done_def gsm_change_hw_polling_interval_def

lemma dialogue_part_1:
  assumes "step s = 1"
  shows "\<exists>s'. answered [r1, r2, r3, r4, r5, r6, r7, r8, r9] s = Some s' \<and> step s' = 10 \<and>
    uart_tx s' = uart_tx s @ concat (take 9 config_commands) \<and>
    state s' = state s \<and> m_gsm_imei s' = m_gsm_imei s \<and> m_sim_imei s' = m_sim_imei s \<and>
    m_sim_ccid s' = m_sim_ccid s \<and> m_nw_operator s' = m_nw_operator s"
  using assms
  by (simp add: config_case_defs gsm_hw_send_at_cmd_eq at_pending_def config_commands_def)

lemma dialogue_part_2:
  assumes "step s = 10" "c_strlen (m_gsm_imei s) 0 = Some n0" "n0 < 14"
    and "gsm_utilities_get_imei r10 (m_gsm_imei s) 16 = Some gi" "c_strlen gi 0 = Some 15"
    and "gsm_utilities_get_imei r11 (m_sim_imei s) 16 = Some si" "c_strlen si 0 = Some 15"
    and "c_strlen (m_sim_ccid s) 0 = Some n1" "n1 < 10"
    and "gsm_utilities_get_sim_ccid r12 (m_sim_ccid s) 20 = Some cc" "c_strlen cc 0 = Some n2" "10 \<le> n2"
  shows "\<exists>s'. answered [r10, r11, r12, r13] s = Some s' \<and> step s' = 14 \<and>
    uart_tx s' = uart_tx s @ concat (take 4 (drop 9 config_commands)) \<and>
    state s' = state s \<and> m_gsm_imei s' = gi \<and> m_sim_imei s' = si \<and> m_sim_ccid s' = cc \<and>
    m_nw_operator s' = m_nw_operator s"
  using assms
  by (simp add: config_case_defs gsm_hw_send_at_cmd_eq at_pending_def config_commands_def Let_def)

lemma dialogue_part_3:
  assumes "step s = 14"
  shows "\<exists>s'. answered [r14, r15, r16, r17, r18] s = Some s' \<and> step s' = 19 \<and>
    uart_tx s' = uart_tx s @ concat (take 5 (drop 13 config_commands)) \<and>
    state s' = state s \<and> m_gsm_imei s' = m_gsm_imei s \<and> m_sim_imei s' = m_sim_imei s \<and>
    m_sim_ccid s' = m_sim_ccid s \<and> m_nw_operator s' = m_nw_operator s"
  using assms
  by (simp add: config_case_defs gsm_hw_send_at_cmd_eq at_pending_def config_commands_def)

lemma dialogue_part_4:
  assumes "step s = 19" "gsm_utilities_get_network_access_tech r19 0 = Some (True, tech)"
    and "gsm_utilities_get_network_operator r20 (m_nw_operator s) 32 = Some nw"
    and "c_strlen nw 0 = Some n3" "5 \<le> n3"
    and "gsm_utilities_get_signal_strength_from_buffer r23 99 = Some (b, csq)" "csq \<noteq> 99"
  shows "\<exists>s'. answered [r19, r20, r21, r22, r23, r24] s = Some s' \<and> step s' = 1 \<and>
    uart_tx s' = uart_tx s @ concat (drop 18 config_commands) \<and>
    state s' = state s \<and> m_gsm_imei s' = m_gsm_imei s \<and> m_sim_imei s' = m_sim_imei s \<and>
    m_sim_ccid s' = m_sim_ccid s \<and> m_nw_operator s' = nw \<and> gsm_ready s' = 1 \<and>
    send_at_callback s' = Some CB_open_ppp_stack"
  using assms
  by (simp add: config_case_defs gsm_hw_send_at_cmd_eq at_pending_def config_commands_def Let_def)

lemma answered_append: "answered (rs @ qs) s = do { s \<leftarrow> answered rs s; answered qs s }"
proof (induction rs arbitrary: s)
  case (Cons r rs)
  then show ?case by (cases "gsm_config_module GSM_EVENT_OK (Some r) s") simp_all
qed simp

lemma config_commands_split:
  "config_commands = take 9 config_commands @ take 4 (drop 9 config_commands) @
     take 5 (drop 13 config_commands) @ drop 18 config_commands"
  by (simp add: config_commands_def)

lemma dialogue:
  assumes "step s = 1" "c_strlen (m_gsm_imei s) 0 = Some n0" "n0 < 14"
    and "gsm_utilities_get_imei r10 (m_gsm_imei s) 16 = Some gi" "c_strlen gi 0 = Some 15"
    and "gsm_utilities_get_imei r11 (m_sim_imei s) 16 = Some si" "c_strlen si 0 = Some 15"
    and "c_strlen (m_sim_ccid s) 0 = Some n1" "n1 < 10"
    and "gsm_utilities_get_sim_ccid r12 (m_sim_ccid s) 20 = Some cc" "c_strlen cc 0 = Some n2" "10 \<le> n2"
    and "gsm_utilities_get_network_access_tech r19 0 = Some (True, tech)"
    and "gsm_utilities_get_network_operator r20 (m_nw_operator s) 32 = Some nw"
    and "c_strlen nw 0 = Some n3" "5 \<le> n3"
    and "gsm_utilities_get_signal_strength_from_buffer r23 99 = Some (b, csq)" "csq \<noteq> 99"
  shows "\<exists>s'. answered ([r1, r2, r3, r4, r5, r6, r7, r8, r9] @ [r10, r11, r12, r13] @
      [r14, r15, r16, r17, r18] @ [r19, r20, r21, r22, r23, r24]) s = Some s' \<and>
    uart_tx s' = uart_tx s @ concat config_commands \<and> step s' = 1 \<and> gsm_ready s' = 1 \<and>
    send_at_callback s' = Some CB_open_ppp_stack \<and> m_gsm_imei s' = gi \<and> m_sim_imei s' = si \<and>
    m_sim_ccid s' = cc \<and> m_nw_operator s' = nw"
proof -
  from dialogue_part_1 [OF assms(1), of r1 r2 r3 r4 r5 r6 r7 r8 r9] obtain s1 where
    1: "answered [r1, r2, r3, r4, r5, r6, r7, r8, r9] s = Some s1" "step s1 = 10"
      "uart_tx s1 = uart_tx s @ concat (take 9 config_commands)"
      "m_gsm_imei s1 = m_gsm_imei s" "m_sim_imei s1 = m_sim_imei s" "m_sim_ccid s1 = m_sim_ccid s"
      "m_nw_operator s1 = m_nw_operator s" by blast
  have "\<exists>s2. answered [r10, r11, r12, r13] s1 = Some s2 \<and> step s2 = 14 \<and>
      uart_tx s2 = uart_tx s1 @ concat (take 4 (drop 9 config_commands)) \<and>
      state s2 = state s1 \<and> m_gsm_imei s2 = gi \<and> m_sim_imei s2 = si \<and> m_sim_ccid s2 = cc \<and>
      m_nw_operator s2 = m_nw_operator s1"
    by (rule dialogue_part_2) (use 1 assms(2-12) in simp_all)
  then obtain s2 where
    2: "answered [r10, r11, r12, r13] s1 = Some s2" "step s2 = 14"
      "uart_tx s2 = uart_tx s1 @ concat (take 4 (drop 9 config_commands))"
      "m_gsm_imei s2 = gi" "m_sim_imei s2 = si" "m_sim_ccid s2 = cc"
      "m_nw_operator s2 = m_nw_operator s1" by blast
  from dialogue_part_3 [OF 2(2), of r14 r15 r16 r17 r18] obtain s3 where
    3: "answered [r14, r15, r16, r17, r18] s2 = Some s3" "step s3 = 19"
      "uart_tx s3 = uart_tx s2 @ concat (take 5 (drop 13 config_commands))"
      "m_gsm_imei s3 = gi" "m_sim_imei s3 = si" "m_sim_ccid s3 = cc"
      "m_nw_operator s3 = m_nw_operator s" using 1(7) 2 by auto
  have "gsm_utilities_get_network_operator r20 (m_nw_operator s3) 32 = Some nw"
    using 3(7) assms(14) by simp
  from dialogue_part_4 [OF 3(2) assms(13) this assms(15-18), of r21 r22 r24] obtain s4 where
    4: "answered [r19, r20, r21, r22, r23, r24] s3 = Some s4" "step s4 = 1"
      "uart_tx s4 = uart_tx s3 @ concat (drop 18 config_commands)"
      "m_gsm_imei s4 = gi" "m_sim_imei s4 = si" "m_sim_ccid s4 = cc" "m_nw_operator s4 = nw"
      "gsm_ready s4 = 1" "send_at_callback s4 = Some CB_open_ppp_stack" using 3 by auto
  have "concat config_commands = concat (take 9 config_commands) @
      concat (take 4 (drop 9 config_commands)) @ concat (take 5 (drop 13 config_commands)) @
      concat (drop 18 config_commands)"
    by (subst config_commands_split) simp
  then have "uart_tx s4 = uart_tx s @ concat config_commands" using 1(3) 2(3) 3(3) 4(3) by simp
  moreover have "answered ([r1, r2, r3, r4, r5, r6, r7, r8, r9] @ [r10, r11, r12, r13] @
      [r14, r15, r16, r17, r18] @ [r19, r20, r21, r22, r23, r24]) s = Some s4"
    unfolding answered_append 1(1) 2(1) 3(1) 4(1) by (simp add: 2(1) 3(1) 4(1) del: answered.simps)
  ultimately show ?thesis using 4 by blast
qed

section \<open>Properties of the modem manager\<close>

text \<open>A PPP stack that never reacts, for the examples.\<close>

definition quiet_stack :: ppp_stack where
  "quiet_stack = \<lparr>mc60 = False,
     lcp = \<lparr>call_open = id, call_lowerup = id, call_lowerdown = id, call_close = id\<rparr>,
     timers = id, input = \<lambda>_. id\<rparr>"

text \<open>
  C1. Once the driver is in PPP mode it stays there, and the end of the session is final:
  when the stack reports a lost connection on a dead control block, the callbacks
  release the block, send \<open>ATV1\<close> and ask for REOPEN_PPP, but from then on no execution,
  whatever the modem answers and for both builds, reaches \<open>GSM_STATE_OK\<close> or a connected
  PPP session again: the mode is never set back, so the answers go to the PPP ring and no
  AT command can succeed, not even after the power cycle the retries lead to.
\<close>
theorem lost_session_never_recovers:
  assumes "mode s = GSM_INTERNET_MODE_PPP_STACK" and "\<not> sys_reset s"
    and "m_ppp_control_block s = Pcb_Live pcb" and "phase pcb = PPP_PHASE_DEAD" and "out pcb = []"
  shows "\<exists>s1. ppp_run_events E ([Link_Status PPPERR_CONNECT], s) = Some s1 \<and>
    state s1 = GSM_STATE_REOPEN_PPP \<and> uart_tx s1 = uart_tx s @ str ''ATV1'' @ crlf \<and>
    (\<forall>s2. (gsm_step E)\<^sup>*\<^sup>* s1 s2 \<longrightarrow>
       state s2 \<noteq> GSM_STATE_OK \<and> \<not> m_ppp_connected s2 \<and> mode s2 = GSM_INTERNET_MODE_PPP_STACK)"
proof -
  let ?s1 = "at_pending (line ''ATV1'') ok [] 1000 5 CB_open_ppp_stack
    (s\<lparr>m_ppp_connected := False, m_ppp_control_block := Pcb_Freed, state := GSM_STATE_REOPEN_PPP,
       step := 1\<rparr>)"
  have r: "ppp_run_events E ([Link_Status PPPERR_CONNECT], s) = Some ?s1"
    unfolding ppp_run_events_def using assms
    by (simp add: loop_unfold ppp_event_step_def ppp_link_status_cb_def on_pcb_def ppp_close_dead
        Let_def emit_def ppp_free_def gsm_change_state_def gsm_hw_send_at_cmd_eq at_pending_def)
  have "session_lost ?s1" using assms(1,2) by (simp add: session_lost_def at_pending_def expects_text_def)
  then have "\<And>s2. (gsm_step E)\<^sup>*\<^sup>* ?s1 s2 \<Longrightarrow> session_lost s2"
    using gsm_lost.reachable by blast
  then show ?thesis using r by (intro exI [of _ ?s1]) (auto simp: session_lost_def at_pending_def)
qed

theorem lost_session_never_recovers_witness:
  "\<exists>s1. ppp_run_events quiet_stack ([Link_Status PPPERR_CONNECT],
        gsm_boot\<lparr>mode := GSM_INTERNET_MODE_PPP_STACK, m_ppp_control_block := Pcb_Live ppp_new,
          m_ppp_connected := True\<rparr>) = Some s1 \<and>
    state s1 = GSM_STATE_REOPEN_PPP \<and>
    (\<forall>s2. (gsm_step quiet_stack)\<^sup>*\<^sup>* s1 s2 \<longrightarrow> state s2 \<noteq> GSM_STATE_OK)"
  using lost_session_never_recovers [of "gsm_boot\<lparr>mode := GSM_INTERNET_MODE_PPP_STACK,
      m_ppp_control_block := Pcb_Live ppp_new, m_ppp_connected := True\<rparr>" ppp_new quiet_stack]
  by (auto simp: gsm_boot_def ppp_new_def new_phase_def)

text \<open>What the driver's own accesses to its serial buffers need is what the invariant has.\<close>

lemma fill_total:
  assumes "gsm_wf s"
  shows "\<exists>s'. gsm_hw_layer_uart_fill_rx bs s = Some s'"
proof (cases "mode s = GSM_INTERNET_MODE_PPP_STACK")
  case True
  have "ring_inv q \<Longrightarrow> \<exists>q'. modem_put_all bs q = Some q'" for q
  proof (induction bs arbitrary: q)
    case (Cons b bs)
    then show ?case using modem_put_eq [OF Cons.prems, of b] by auto
  qed simp
  then have "\<exists>q'. modem_put_all bs (modem s) = Some q'" using assms by (simp add: gsm_wf_def)
  with True show ?thesis by (auto simp: gsm_hw_layer_uart_fill_rx_def Let_def)
next
  case False
  then show ?thesis using at_fill_inv [of "rx_buffer s" "rx_index s" bs] assms
    by (auto simp: gsm_hw_layer_uart_fill_rx_def gsm_wf_def Let_def)
qed

lemma poll_total: "\<exists>s'. gsm_state_machine_polling s = Some s'"
  by (simp add: gsm_state_machine_polling_def gsm_power_on_sequence_def gsm_change_state_def gsm_hw_send_at_cmd_eq Let_def
      split: gsm_state_t.split)

text \<open>The command engine by itself, its callbacks left out.\<close>

abbreviation (input) no_callback :: "at_cb \<Rightarrow> gsm_response_event \<Rightarrow> u8 list option \<Rightarrow> gsm \<Rightarrow> gsm option" where
  "no_callback \<equiv> \<lambda>_ _ _ s. Some s"

lemma end_matches_total:
  assumes "length (rx_buffer s) = 256" "unat (rx_index s) < 256"
  shows "\<exists>b. end_matches s = Some b"
  using assms by (auto simp: end_matches_def rd_list_def split: option.split)

lemma callback_none [simp]: "run_callback no_callback ev resp s = Some s"
  by (simp add: run_callback_def split: option.split)

lemma receive_faults:
  assumes "gsm_wf s" "retry_count_atc s \<noteq> 0"
  shows "at_receive no_callback s = None \<longleftrightarrow> m_new_uart_data s \<and> 0 \<notin> set (rx_buffer s)"
    "at_receive no_callback s = Some s' \<Longrightarrow> gsm_wf s'"
proof -
  from assms obtain er where e: "expect_resp s = Some er" by (auto simp: gsm_wf_def armed_def)
  obtain b where b: "end_matches (s\<lparr>m_new_uart_data := False\<rparr>) = Some b"
    using end_matches_total [of "s\<lparr>m_new_uart_data := False\<rparr>"] assms(1) by (auto simp: gsm_wf_def)
  have w: "wr (rx_buffer s) (unat (rx_index s)) 0 = Some ((rx_buffer s)[unat (rx_index s) := 0])"
    using assms(1) by (simp add: wr_def gsm_wf_def)
  show "at_receive no_callback s = None \<longleftrightarrow> m_new_uart_data s \<and> 0 \<notin> set (rx_buffer s)"
    by (simp add: at_receive_def e b w c_strstr_def terminated_def Let_def split: option.split)
  show "gsm_wf s'" if r: "at_receive no_callback s = Some s'"
  proof (cases "m_new_uart_data s")
    case True
    then show ?thesis using r assms(1)
      by (auto simp: at_receive_def e b w Let_def gsm_wf_def armed_def split: if_splits bind_splits)
  next
    case False
    then show ?thesis using r assms(1) by (simp add: at_receive_def)
  qed
qed

lemma timeout_total:
  assumes "gsm_wf s"
  shows "\<exists>s'. at_timeout no_callback s = Some s'"
proof -
  have w: "wr (rx_buffer s) 0 0 = Some ((rx_buffer s)[0 := 0])" using assms by (simp add: wr_def gsm_wf_def)
  show ?thesis
  proof (cases "timeout_atc_ms s = 0")
    case False
    then obtain c where "at_cmd s = Some c" using assms by (auto simp: gsm_wf_def armed_def)
    then show ?thesis by (simp add: at_timeout_def Let_def w gsm_hw_uart_send_raw_def rd_list_def)
  qed (simp add: at_timeout_def)
qed

lemma engine_faults:
  assumes "gsm_wf s"
  shows "gsm_hw_layer_run no_callback s = None \<longleftrightarrow>
    m_poll_interval s \<le> tick s - m_last_poll s \<and> retry_count_atc s \<noteq> 0 \<and> m_new_uart_data s \<and> 0 \<notin> set (rx_buffer s)"
proof -
  let ?s = "s\<lparr>m_last_poll := tick s\<rparr>"
  have wf: "gsm_wf ?s" using assms by (simp add: gsm_wf_def armed_def)
  show ?thesis
  proof (cases "retry_count_atc s = 0")
    case True
    then show ?thesis using timeout_total [OF wf] by (auto simp: gsm_hw_layer_run_def Let_def)
  next
    case False
    note r = receive_faults [OF wf]
    show ?thesis
    proof (cases "at_receive no_callback ?s")
      case None
      then show ?thesis using r(1) False
        by (cases "m_poll_interval s \<le> tick s - m_last_poll s") (auto simp: gsm_hw_layer_run_def Let_def not_le dest: leD)
    next
      case (Some s')
      then have "gsm_wf s'" using r(2) False by simp
      then show ?thesis using timeout_total [of s'] r(1) False Some by (auto simp: gsm_hw_layer_run_def Let_def)
    qed
  qed
qed

lemma gsm_reachable:
  assumes "gsm_init_hw gsm_boot = Some s0" and "(gsm_step E)\<^sup>*\<^sup>* s0 s"
  shows "wf_mode False s"
proof -
  have "wf_mode False gsm_boot"
    by (simp add: wf_mode_def gsm_wf_def gsm_boot_def ring_inv_def armed_def)
  then have "wf_mode False s0"
    using assms(1) by (auto simp: gsm_init_hw_def gsm_change_hw_polling_interval_def
        wf_mode_def gsm_wf_def armed_def dest!: wf_mode_change_state [where p = False] split: bind_splits)
  then show ?thesis by (rule gsm_wf.reachable [OF assms(2)])
qed

text \<open>
  C5. The driver's own accesses to its serial buffers stay inside them. In every state that is
  reached without an overrun, however interrupts, polls and the passing of time interleaved, and
  for every behaviour of LCP, the PPP timers and the PPPoS decoder: receiving any bytes, in either
  mode, does not overrun the AT buffer or the PPP ring, and leaves their indices inside; nor does
  reading any number of bytes from the ring, nor a poll of the state machine. A poll of the command
  engine, not counting what its callback does, overruns exactly when it is due while a command is
  pending, new bytes have come, and the AT buffer holds no NUL any more: then \<open>strstr\<close> runs over its
  end. That state can be reached (\<open>Gsm_Hardware.at_overflow_overruns\<close>), and the parsers the callbacks
  run on a response have overruns of their own, in \<open>Gsm_Utilities\<close>.
\<close>
theorem serial_buffers_never_overrun:
  assumes "gsm_init_hw gsm_boot = Some s0" and "(gsm_step E)\<^sup>*\<^sup>* s0 s"
  shows "(\<forall>bs. \<exists>s'. gsm_hw_layer_uart_fill_rx bs s = Some s' \<and> unat (rx_index s') < 256 \<and> ring_inv (modem s')) \<and>
    (\<forall>n. \<exists>bs s'. gsm_hardware_layer_copy_ppp_buffer n s = Some (bs, s') \<and> ring_inv (modem s')) \<and>
    (\<exists>s'. gsm_state_machine_polling s = Some s') \<and>
    (gsm_hw_layer_run (\<lambda>_ _ _ s. Some s) s = None \<longleftrightarrow>
      m_poll_interval s \<le> tick s - m_last_poll s \<and> retry_count_atc s \<noteq> 0 \<and> m_new_uart_data s \<and> 0 \<notin> set (rx_buffer s))"
proof -
  have m: "wf_mode False s" by (rule gsm_reachable [OF assms])
  then have wf: "gsm_wf s" by (simp add: wf_mode_def)
  have "\<exists>s'. gsm_hw_layer_uart_fill_rx bs s = Some s' \<and> unat (rx_index s') < 256 \<and> ring_inv (modem s')" for bs
    using fill_total [OF wf, of bs] wf_mode_fill [OF _ m, of bs] by (auto simp: wf_mode_def gsm_wf_def)
  moreover have "\<exists>bs s'. gsm_hardware_layer_copy_ppp_buffer n s = Some (bs, s') \<and> ring_inv (modem s')" for n
    using modem_copy_ok [of "modem s" "unat n"] wf by (auto simp: gsm_hardware_layer_copy_ppp_buffer_def gsm_wf_def)
  ultimately show ?thesis using poll_total [of s] engine_faults [OF wf] by blast
qed

theorem serial_buffers_never_overrun_witness:
  "\<exists>s0 s. gsm_init_hw gsm_boot = Some s0 \<and> gsm_hw_layer_uart_fill_rx (replicate 300 79) s0 = Some s \<and>
     (\<exists>s'. gsm_hw_layer_uart_fill_rx (replicate 256 75) s = Some s' \<and> unat (rx_index s') < 256)"
proof -
  let ?s0 = "gsm_boot\<lparr>state := GSM_STATE_RESET, pwr_reset := True\<rparr>"
  have 0: "gsm_init_hw gsm_boot = Some ?s0"
    by (simp add: gsm_init_hw_def gsm_change_state_def Let_def gsm_boot_def
        gsm_hw_layer_reset_rx_buffer_def gsm_change_hw_polling_interval_def)
  obtain s where s: "gsm_hw_layer_uart_fill_rx (replicate 300 79) ?s0 = Some s"
    using serial_buffers_never_overrun [OF 0 rtranclp.rtrancl_refl] by blast
  then have r: "(gsm_step quiet_stack)\<^sup>*\<^sup>* ?s0 s" by (blast intro: gsm_step.rx)
  from serial_buffers_never_overrun [OF 0 r] 0 s show ?thesis by blast
qed

text \<open>
  After the session was released, the first byte the modem sends makes the next
  \<open>gsm_hw_pppos_polling\<close> hand the released control block to \<open>pppos_input\<close>: the pointer
  \<open>m_ppp_control_block\<close> is not cleared.
\<close>
theorem released_block_is_used:
  assumes "m_ppp_control_block s = Pcb_Freed" and "mode s = GSM_INTERNET_MODE_PPP_STACK"
    and "ring_inv (modem s)" and "ring_contents (modem s) = []"
  shows "\<exists>s'. gsm_hw_layer_uart_fill_rx [b] s = Some s' \<and> gsm_hw_pppos_polling E s' = None"
proof -
  have e: "ring_length (modem s) = 0" using assms(4) by (metis length_ring_contents list.size(3))
  with modem_put_ok [OF assms(3), of b] obtain q where
    q: "modem_put b (modem s) = Some q" "ring_inv q" "ring_contents q = [b]" using assms(4) by auto
  from modem_copy_ok [OF q(2), of "unat (512 :: u32)"] q(3) obtain q' where
    c: "modem_copy (unat (512 :: u32)) q = Some ([b], q')" by auto
  have n: "unat (512 :: u32) = 512" by simp
  show ?thesis
    using assms(1,2) q(1) c
    by (simp add: gsm_hw_layer_uart_fill_rx_def Let_def gsm_hw_pppos_polling_def sio_read_def
        gsm_hardware_layer_copy_ppp_buffer_def ppp_call_def on_pcb_def del: modem_copy.simps)
qed

theorem released_block_is_used_witness:
  "\<exists>s'. gsm_hw_layer_uart_fill_rx [79] (gsm_boot\<lparr>mode := GSM_INTERNET_MODE_PPP_STACK,
      m_ppp_control_block := Pcb_Freed\<rparr>) = Some s' \<and> gsm_hw_pppos_polling quiet_stack s' = None"
  by (rule released_block_is_used)
    (simp_all add: gsm_boot_def ring_inv_def ring_contents_def ring_length_def)

text \<open>
  When the first dial attempt of a session is not answered with \<open>CONNECT\<close>, the failure
  branch of \<open>open_ppp_stack\<close> closes a PPP session that does not exist: \<open>ppp_close\<close> gets
  NULL, or a released block, so none of its five retries can be taken.
\<close>
theorem failed_dial_dereferences_null:
  assumes "step s = 4" and "event \<noteq> GSM_EVENT_OK"
    and "m_ppp_control_block s = Pcb_Null \<or> m_ppp_control_block s = Pcb_Freed"
  shows "open_ppp_stack E event resp s = None"
  using assms by (auto simp: open_ppp_stack_def Let_def ppp_call_def on_pcb_def)

theorem failed_dial_dereferences_null_witness:
  "open_ppp_stack quiet_stack GSM_EVENT_TIMEOUT None (gsm_boot\<lparr>step := 4\<rparr>) = None"
  by (rule failed_dial_dereferences_null) (simp_all add: gsm_boot_def)

text \<open>
  From the RESET state, polled at least once a second, the driver runs the modem's
  power-on sequence in eight polls: off, power on, wait, power key pressed, released,
  two waits, POWER_ON; the ninth poll sends \<open>ATV1\<close> with 30 tries, whose answer goes to
  the configuration dialogue. The trace gives the three pins after every poll.
\<close>
theorem power_on_sequence_trace:
  assumes "state s = GSM_STATE_RESET" and "power_step s = 0"
    and "1000 \<le> tick s + d - m_last_tick s" and "1000 \<le> d"
  shows "\<exists>ss. poll_trace d 9 s = Some ss \<and>
    map (\<lambda>s. (pwr_en s, pwr_reset s, pwr_key s)) ss =
      [(False, True, False), (True, False, False), (True, False, False),
       (True, False, True), (True, False, False), (True, False, False), (True, False, False),
       (True, False, False), (True, False, False)] \<and>
    map state ss = [GSM_STATE_RESET, GSM_STATE_RESET, GSM_STATE_RESET, GSM_STATE_RESET,
      GSM_STATE_RESET, GSM_STATE_RESET, GSM_STATE_RESET, GSM_STATE_POWER_ON, GSM_STATE_POWER_ON] \<and>
    uart_tx (last ss) = uart_tx s @ str ''ATV1'' @ crlf \<and> step (last ss) = 1 \<and>
    retry_count_atc (last ss) = 30 \<and> send_at_callback (last ss) = Some CB_gsm_config_module"
  using power_on_run [OF assms] by (simp add: pins_def [abs_def])

theorem power_on_sequence_trace_witness:
  "\<exists>ss. poll_trace 1000 9 (gsm_boot\<lparr>state := GSM_STATE_RESET\<rparr>) = Some ss \<and> length ss = 9 \<and>
     state (last ss) = GSM_STATE_POWER_ON"
proof -
  have "\<exists>ss. poll_trace 1000 9 (gsm_boot\<lparr>state := GSM_STATE_RESET\<rparr>) = Some ss \<and>
    map (\<lambda>s. (pwr_en s, pwr_reset s, pwr_key s)) ss =
      [(False, True, False), (True, False, False), (True, False, False),
       (True, False, True), (True, False, False), (True, False, False), (True, False, False),
       (True, False, False), (True, False, False)] \<and>
    map state ss = [GSM_STATE_RESET, GSM_STATE_RESET, GSM_STATE_RESET, GSM_STATE_RESET,
      GSM_STATE_RESET, GSM_STATE_RESET, GSM_STATE_RESET, GSM_STATE_POWER_ON, GSM_STATE_POWER_ON] \<and>
    uart_tx (last ss) = uart_tx (gsm_boot\<lparr>state := GSM_STATE_RESET\<rparr>) @ str ''ATV1'' @ crlf \<and>
    step (last ss) = 1 \<and>
    retry_count_atc (last ss) = 30 \<and> send_at_callback (last ss) = Some CB_gsm_config_module"
    by (rule power_on_sequence_trace) (simp_all add: gsm_boot_def)
  then obtain ss where ss: "poll_trace 1000 9 (gsm_boot\<lparr>state := GSM_STATE_RESET\<rparr>) = Some ss"
    "map state ss = [GSM_STATE_RESET, GSM_STATE_RESET, GSM_STATE_RESET, GSM_STATE_RESET,
      GSM_STATE_RESET, GSM_STATE_RESET, GSM_STATE_RESET, GSM_STATE_POWER_ON, GSM_STATE_POWER_ON]"
    by (elim exE conjE) (rule that)
  have l: "length ss = 9" using arg_cong [OF ss(2), of length] by simp
  have "last (map state ss) = GSM_STATE_POWER_ON" using ss(2) by simp
  moreover have "ss \<noteq> []" using l by auto
  ultimately show ?thesis using ss(1) l by (auto simp: last_map)
qed

text \<open>
  C4. When the modem answers every command, the configuration dialogue sends exactly the
  24 commands of \<open>config_commands\<close> in their order, stores the IMEI, the IMSI, the CCID and
  the operator the parsers extract from their answers, and hands over to
  \<open>open_ppp_stack\<close>; the other answers do not matter.
\<close>
theorem config_dialogue_transcript:
  assumes "step s = 1" and "c_strlen (m_gsm_imei s) 0 = Some n0" and "n0 < 14"
    and "gsm_utilities_get_imei r10 (m_gsm_imei s) 16 = Some gi" and "c_strlen gi 0 = Some 15"
    and "gsm_utilities_get_imei r11 (m_sim_imei s) 16 = Some si" and "c_strlen si 0 = Some 15"
    and "c_strlen (m_sim_ccid s) 0 = Some n1" and "n1 < 10"
    and "gsm_utilities_get_sim_ccid r12 (m_sim_ccid s) 20 = Some cc"
    and "c_strlen cc 0 = Some n2" and "10 \<le> n2"
    and "gsm_utilities_get_network_access_tech r19 0 = Some (True, tech)"
    and "gsm_utilities_get_network_operator r20 (m_nw_operator s) 32 = Some nw"
    and "c_strlen nw 0 = Some n3" and "5 \<le> n3"
    and "gsm_utilities_get_signal_strength_from_buffer r23 99 = Some (b, csq)" and "csq \<noteq> 99"
  shows "\<exists>s'. answered ([r1, r2, r3, r4, r5, r6, r7, r8, r9] @ [r10, r11, r12, r13] @
      [r14, r15, r16, r17, r18] @ [r19, r20, r21, r22, r23, r24]) s = Some s' \<and>
    uart_tx s' = uart_tx s @ concat config_commands \<and> step s' = 1 \<and> gsm_ready s' = 1 \<and>
    send_at_callback s' = Some CB_open_ppp_stack \<and> m_gsm_imei s' = gi \<and> m_sim_imei s' = si \<and>
    m_sim_ccid s' = cc \<and> m_nw_operator s' = nw"
  by (rule dialogue [OF assms])

theorem config_dialogue_transcript_witness:
  "\<exists>s'. answered ([[0], [0], [0], [0], [0], [0], [0], [0], [0]] @
      [str ''861234567890123'' @ [0], str ''452040000000001'' @ [0],
       str ''+QCCID: 8984048000'' @ [0], [0]] @ [[0], [0], [0], [0], [0]] @
      [str ''+CGREG: 2,1,3,4,7'' @ [0], str ''+COPS: 0,0,\"Viettel\",7'' @ [0], [0], [0],
       str ''+CSQ: 21,99'' @ [0], [0]]) (gsm_boot\<lparr>step := 1\<rparr>) = Some s' \<and>
    uart_tx s' = uart_tx (gsm_boot\<lparr>step := 1\<rparr>) @ concat config_commands \<and> step s' = 1 \<and>
    gsm_ready s' = 1 \<and> send_at_callback s' = Some CB_open_ppp_stack \<and>
    m_gsm_imei s' = str ''861234567890123'' @ [0] \<and> m_sim_imei s' = str ''452040000000001'' @ [0] \<and>
    m_sim_ccid s' = str ''8984048000'' @ replicate 11 0 \<and>
    m_nw_operator s' = str ''Viettel'' @ replicate 25 0"
proof (rule config_dialogue_transcript)
  show "gsm_utilities_get_imei (str ''861234567890123'' @ [0]) (m_gsm_imei (gsm_boot\<lparr>step := 1\<rparr>)) 16 =
      Some (str ''861234567890123'' @ [0])"
    using imei_loop_start [of "str ''861234567890123'' @ [0]" 16 "replicate 16 0"]
    by (simp add: gsm_boot_def gsm_utilities_get_imei_def mem_eval Let_def)
  show "gsm_utilities_get_imei (str ''452040000000001'' @ [0]) (m_sim_imei (gsm_boot\<lparr>step := 1\<rparr>)) 16 =
      Some (str ''452040000000001'' @ [0])"
    using imei_loop_start [of "str ''452040000000001'' @ [0]" 16 "replicate 16 0"]
    by (simp add: gsm_boot_def gsm_utilities_get_imei_def mem_eval Let_def)
  show "gsm_utilities_get_sim_ccid (str ''+QCCID: 8984048000'' @ [0])
      (m_sim_ccid (gsm_boot\<lparr>step := 1\<rparr>)) 20 = Some (str ''8984048000'' @ replicate 11 0)"
    by (simp add: gsm_boot_def gsm_utilities_get_sim_ccid_def loop_unfold ccid_step_def mem_eval
        word_le_nat_alt)
      (simp add: numeral_eq_Suc)
  show "gsm_utilities_get_network_access_tech (str ''+CGREG: 2,1,3,4,7'' @ [0]) 0 = Some (True, 7)"
    by (simp add: gsm_utilities_get_network_access_tech_def gsm_utilities_get_number_from_string_def
        mem_eval loop_unfold number_step_def collect_idx_def collect_step_def)
  show "gsm_utilities_get_network_operator (str ''+COPS: 0,0,\"Viettel\",7'' @ [0])
      (m_nw_operator (gsm_boot\<lparr>step := 1\<rparr>)) 32 = Some (str ''Viettel'' @ replicate 25 0)"
    by (simp add: gsm_boot_def gsm_utilities_get_network_operator_def
        mem_eval loop_unfold collect_idx_def collect_step_def rd_list_def wr_list_def)
  show "gsm_utilities_get_signal_strength_from_buffer (str ''+CSQ: 21,99'' @ [0]) 99 = Some (True, 21)"
    by (simp add: gsm_utilities_get_signal_strength_from_buffer_def
        gsm_utilities_get_number_from_string_def mem_eval loop_unfold number_step_def)
qed (simp_all add: gsm_boot_def mem_eval, simp_all)

text \<open>
  The identification steps do not look at the event: when \<open>AT+CGSN\<close> is not answered
  (and no IMEI is known), the timeout calls \<open>gsm_config_module\<close> with a NULL response, which
  is passed to \<open>gsm_utilities_get_imei\<close> and read.
\<close>
theorem unanswered_identification_reads_null:
  assumes "step s = 10" and "c_strlen (m_gsm_imei s) 0 = Some n" and "n < 14"
    and "timeout_atc_ms s \<noteq> 0" and "timeout_atc_ms s \<le> tick s - current_timeout_atc_ms s"
    and "retry_count_atc s \<le> 1" and "send_at_callback s = Some CB_gsm_config_module" and "\<not> mc60 E"
  shows "at_timeout (gsm_cb E) s = None"
proof -
  have r: "retry_count_atc s = 0 \<or> retry_count_atc s = 1"
    using assms(6) by (auto simp: word_le_nat_alt word_unat_eq_iff le_Suc_eq)
  have "config_case GSM_EVENT_TIMEOUT None s' = None"
    if "step s' = 10" "m_gsm_imei s' = m_gsm_imei s" for s'
    using that assms(2,3) by (simp add: config_case_def config_steps_10_13_def)
  then show ?thesis
    using r assms by (auto simp: at_timeout_def Let_def run_callback_def gsm_cb_def gsm_config_module_def)
qed

theorem unanswered_identification_reads_null_witness:
  "at_timeout (gsm_cb quiet_stack) (gsm_boot\<lparr>step := 10, timeout_atc_ms := 1000, retry_count_atc := 1,
     send_at_callback := Some CB_gsm_config_module, tick := 1000\<rparr>) = None"
  by (rule unanswered_identification_reads_null [where n = 0])
    (simp_all add: gsm_boot_def quiet_stack_def c_strlen_def terminated_def cstr_def)

end
