(* ===== verification/Usart.thy ===== *)
theory Usart
  imports Gsm_Hardware
begin

text \<open>
  The serial port of the modem, \<open>Core/Src/usart.c\<close>, with the interrupt handlers of
  \<open>Core/Src/stm32l0xx_it.c\<close> that drive it.

  The DMA controller writes received bytes into a circular buffer of 768 bytes without the
  program's help; what the program reads of it is the number of transfers left before the
  buffer wraps, so \<open>dma_pos\<close>, 768 minus that number, is the next position it writes. It
  raises an interrupt at the middle and at the end of the buffer, and the serial port
  raises one when the line falls idle. Each of them hands the new bytes to
  \<open>gsm_hw_layer_uart_fill_rx\<close>.
\<close>

section \<open>The driver\<close>

abbreviation (input) "UART1_RX_BUFFER_SIZE \<equiv> 768 :: nat"

record usart =
  m_usart1_rx_buffer :: "u8 list"
  m_usart1_is_enabled :: bool
  m_old_usart1_dma_rx_pos :: nat
  m_uart_rx_ongoing :: bool
  dma_pos :: nat

text \<open>Starting the reception; a reception that is going on is left alone.\<close>

definition usart1_hw_uart_rx_raw :: "usart \<Rightarrow> usart" where
  "usart1_hw_uart_rx_raw u =
     (if \<not> m_uart_rx_ongoing u then u\<lparr>m_uart_rx_ongoing := True, dma_pos := 0\<rparr> else u)"

definition usart1_start_dma_rx :: "usart \<Rightarrow> usart" where
  "usart1_start_dma_rx u = usart1_hw_uart_rx_raw u"

text \<open>Of the initialisation, what concerns the received data.\<close>

definition MX_USART1_UART_Init :: "usart \<Rightarrow> usart" where
  "MX_USART1_UART_Init u = usart1_hw_uart_rx_raw u"

definition usart1_control :: "bool \<Rightarrow> usart \<Rightarrow> usart" where
  "usart1_control enable u =
     (if m_usart1_is_enabled u = enable then u
      else if \<not> enable
      then u\<lparr>m_usart1_is_enabled := enable, m_old_usart1_dma_rx_pos := 0,
             m_usart1_rx_buffer := replicate UART1_RX_BUFFER_SIZE 0\<rparr>
      else MX_USART1_UART_Init (u\<lparr>m_usart1_is_enabled := enable\<rparr>))"

definition usart1_rx_complete_callback :: "bool \<Rightarrow> usart \<times> gsm \<Rightarrow> (usart \<times> gsm) option" where
  "usart1_rx_complete_callback status = (\<lambda>(u, g).
     if status
     then
       let pos = dma_pos u; old = m_old_usart1_dma_rx_pos u
       in if pos \<noteq> old
          then do {
            g \<leftarrow> (if old < pos
                  then do { c \<leftarrow> rd_list (m_usart1_rx_buffer u) old (pos - old);
                            gsm_hw_layer_uart_fill_rx c g }
                  else do { c \<leftarrow> rd_list (m_usart1_rx_buffer u) old (UART1_RX_BUFFER_SIZE - old);
                            g \<leftarrow> gsm_hw_layer_uart_fill_rx c g;
                            if 0 < pos
                            then do { c \<leftarrow> rd_list (m_usart1_rx_buffer u) 0 pos;
                                      gsm_hw_layer_uart_fill_rx c g }
                            else Some g });
            Some (u\<lparr>m_old_usart1_dma_rx_pos := pos\<rparr>, g) }
          else Some (u, g)
     else Some (u\<lparr>m_uart_rx_ongoing := False\<rparr>, g))"

text \<open>The interrupt flags of the two channels: 2 sends, 3 receives.\<close>

record dma_flags =
  TC2 :: bool
  HT3 :: bool
  TC3 :: bool
  TE3 :: bool

definition DMA1_Channel2_3_IRQHandler :: "dma_flags \<Rightarrow> usart \<times> gsm \<Rightarrow> (usart \<times> gsm) option" where
  "DMA1_Channel2_3_IRQHandler fl s = do {
     let s = (if TC2 fl then (usart1_start_dma_rx (fst s), snd s) else s);
     s \<leftarrow> (if HT3 fl then usart1_rx_complete_callback True s else Some s);
     if TC3 fl then usart1_rx_complete_callback True s
     else if TE3 fl then usart1_rx_complete_callback False s
     else Some s }"

definition USART1_IRQHandler :: "bool \<Rightarrow> usart \<times> gsm \<Rightarrow> (usart \<times> gsm) option" where
  "USART1_IRQHandler idle s = (if idle then usart1_rx_complete_callback True s else Some s)"

section \<open>The hardware\<close>

text \<open>One received byte, and the interrupt it raises.\<close>

definition dma_byte :: "u8 \<Rightarrow> usart \<Rightarrow> usart" where
  "dma_byte c u =
     u\<lparr>m_usart1_rx_buffer := (m_usart1_rx_buffer u)[dma_pos u := c],
       dma_pos := (if Suc (dma_pos u) = UART1_RX_BUFFER_SIZE then 0 else Suc (dma_pos u))\<rparr>"

definition dma_irq :: "usart \<Rightarrow> dma_flags" where
  "dma_irq u = \<lparr>TC2 = False, HT3 = (dma_pos u = 384), TC3 = (dma_pos u = 0), TE3 = False\<rparr>"

fun line_bytes :: "u8 list \<Rightarrow> usart \<times> gsm \<Rightarrow> (usart \<times> gsm) option" where
  "line_bytes [] s = Some s"
| "line_bytes (c # cs) s = do {
     let u = dma_byte c (fst s);
     s \<leftarrow> DMA1_Channel2_3_IRQHandler (dma_irq u) (u, snd s);
     line_bytes cs s }"

text \<open>A burst on the line, which falls idle after it.\<close>

definition line_burst :: "u8 list \<Rightarrow> usart \<times> gsm \<Rightarrow> (usart \<times> gsm) option" where
  "line_burst cs s = do { s \<leftarrow> line_bytes cs s; USART1_IRQHandler True s }"

definition serial_read :: "u32 \<Rightarrow> usart \<times> gsm \<Rightarrow> (u8 list \<times> usart \<times> gsm) option" where
  "serial_read n s = do { (r, g) \<leftarrow> gsm_hardware_layer_copy_ppp_buffer n (snd s); Some (r, fst s, g) }"

section \<open>What the driver still owes\<close>

definition usart_inv :: "usart \<Rightarrow> bool" where
  "usart_inv u \<longleftrightarrow> length (m_usart1_rx_buffer u) = UART1_RX_BUFFER_SIZE \<and>
     dma_pos u < UART1_RX_BUFFER_SIZE \<and> m_old_usart1_dma_rx_pos u < UART1_RX_BUFFER_SIZE"

definition pending :: "usart \<Rightarrow> u8 list" where
  "pending u =
     (if m_old_usart1_dma_rx_pos u \<le> dma_pos u
      then take (dma_pos u - m_old_usart1_dma_rx_pos u) (drop (m_old_usart1_dma_rx_pos u) (m_usart1_rx_buffer u))
      else drop (m_old_usart1_dma_rx_pos u) (m_usart1_rx_buffer u) @ take (dma_pos u) (m_usart1_rx_buffer u))"

lemma length_pending:
  "usart_inv u \<Longrightarrow> length (pending u) =
     (if m_old_usart1_dma_rx_pos u \<le> dma_pos u then dma_pos u - m_old_usart1_dma_rx_pos u
      else UART1_RX_BUFFER_SIZE - m_old_usart1_dma_rx_pos u + dma_pos u)"
  by (auto simp: usart_inv_def pending_def)

lemma dma_byte_pending:
  assumes "usart_inv u" "length (pending u) < 767"
  shows "usart_inv (dma_byte c u) \<and> pending (dma_byte c u) = pending u @ [c]"
proof -
  let ?b = "m_usart1_rx_buffer u" and ?p = "dma_pos u" and ?o = "m_old_usart1_dma_rx_pos u"
  have l: "length ?b = 768" "?p < 768" "?o < 768" using assms(1) by (simp_all add: usart_inv_def)
  have t: "take (Suc ?p) (?b[?p := c]) = take ?p ?b @ [c]" using l by (simp add: take_Suc_conv_app_nth)
  have d: "drop ?o (?b[?p := c]) = drop ?o ?b" if "?p < ?o" using that by simp
  have td: "take (Suc ?p - ?o) (drop ?o (?b[?p := c])) = take (?p - ?o) (drop ?o ?b) @ [c]" if "?o \<le> ?p"
  proof -
    have "take (Suc ?p - ?o) (drop ?o (?b[?p := c])) = drop ?o (take (Suc ?p) (?b[?p := c]))"
      using that by (simp add: drop_take)
    also have "\<dots> = take (?p - ?o) (drop ?o ?b) @ [c]" using that l by (simp add: t drop_take)
    finally show ?thesis .
  qed
  show ?thesis
  proof (cases "Suc ?p = 768")
    case True
    then have "?o \<le> ?p" using l by simp
    moreover have "0 < ?o" using assms True \<open>?o \<le> ?p\<close> by (simp add: length_pending)
    moreover have "drop ?o (?b[?p := c]) = take (?p - ?o) (drop ?o ?b) @ [c]"
      using td [OF \<open>?o \<le> ?p\<close>] True l by simp
    ultimately show ?thesis using True l by (simp add: dma_byte_def usart_inv_def pending_def)
  next
    case False
    have "?o \<noteq> Suc ?p" using assms(2) l by (auto simp: length_pending [OF assms(1)])
    then show ?thesis using False l t d td
      by (auto simp: dma_byte_def usart_inv_def pending_def)
  qed
qed

text \<open>The callback hands over exactly the pending bytes.\<close>

lemma fill_rx_append:
  assumes "ppp_rx_inv g" "length (ring_contents (modem g)) + length a + length b \<le> 1023"
  shows "\<exists>g1 g2. gsm_hw_layer_uart_fill_rx a g = Some g1 \<and> gsm_hw_layer_uart_fill_rx b g1 = Some g2 \<and>
    ppp_rx_inv g2 \<and> ring_contents (modem g2) = ring_contents (modem g) @ a @ b"
proof -
  from ppp_ring.put_ok [OF assms(1), of a] assms(2) obtain g1 where
    g1: "gsm_hw_layer_uart_fill_rx a g = Some g1" "ppp_rx_inv g1"
      "ring_contents (modem g1) = ring_contents (modem g) @ a" by auto
  from ppp_ring.put_ok [OF g1(2), of b] assms(2) g1(3) obtain g2 where
    "gsm_hw_layer_uart_fill_rx b g1 = Some g2" "ppp_rx_inv g2"
      "ring_contents (modem g2) = ring_contents (modem g1) @ b" by auto
  with g1 show ?thesis by auto
qed

lemma callback_delivers:
  assumes "usart_inv u" "ppp_rx_inv g"
    and "length (ring_contents (modem g)) + length (pending u) \<le> 1023"
  shows "\<exists>g'. usart1_rx_complete_callback True (u, g) = Some (u\<lparr>m_old_usart1_dma_rx_pos := dma_pos u\<rparr>, g') \<and>
    ppp_rx_inv g' \<and> ring_contents (modem g') = ring_contents (modem g) @ pending u"
proof -
  let ?b = "m_usart1_rx_buffer u" and ?p = "dma_pos u" and ?o = "m_old_usart1_dma_rx_pos u"
  have l: "length ?b = 768" "?p < 768" "?o < 768" using assms(1) by (simp_all add: usart_inv_def)
  consider "?p = ?o" | "?o < ?p" | "?p < ?o" by linarith
  then show ?thesis
  proof cases
    case 1
    then have "u\<lparr>m_old_usart1_dma_rx_pos := ?p\<rparr> = u" by simp
    with 1 assms(2) show ?thesis by (simp add: usart1_rx_complete_callback_def pending_def)
  next
    case 2
    then have "pending u = take (?p - ?o) (drop ?o ?b)" by (simp add: pending_def)
    with 2 l ppp_ring.put_ok [OF assms(2), of "pending u"] assms(3) show ?thesis
      by (auto simp: usart1_rx_complete_callback_def rd_list_def Let_def)
  next
    case 3
    then have p: "pending u = drop ?o ?b @ take ?p ?b" by (simp add: pending_def)
    have "length (ring_contents (modem g)) + length (drop ?o ?b) + length (take ?p ?b) \<le> 1023"
      using assms(3) by (simp add: p)
    from fill_rx_append [OF assms(2) this] obtain g1 g2 where
      g: "gsm_hw_layer_uart_fill_rx (drop ?o ?b) g = Some g1" "gsm_hw_layer_uart_fill_rx (take ?p ?b) g1 = Some g2"
      "ppp_rx_inv g2" "ring_contents (modem g2) = ring_contents (modem g) @ pending u" by (auto simp: p)
    have "g2 = g1" if "?p = 0" using g(2) that by (simp add: gsm_hw_layer_uart_fill_rx_def)
    with g 3 l show ?thesis by (auto simp: usart1_rx_complete_callback_def rd_list_def Let_def)
  qed
qed

section \<open>From the line to the reader\<close>

text \<open>While the interrupts are served, never more than half the buffer is pending.\<close>

definition served :: "usart \<times> gsm \<Rightarrow> bool" where
  "served s \<longleftrightarrow> usart_inv (fst s) \<and> ppp_rx_inv (snd s) \<and>
     m_old_usart1_dma_rx_pos (fst s) \<le> dma_pos (fst s) \<and>
     (384 \<le> dma_pos (fst s) \<longrightarrow> 384 \<le> m_old_usart1_dma_rx_pos (fst s))"

definition serial_contents :: "usart \<times> gsm \<Rightarrow> u8 list" where
  "serial_contents s = ring_contents (modem (snd s)) @ pending (fst s)"

definition serial_inv :: "usart \<times> gsm \<Rightarrow> bool" where
  "serial_inv s \<longleftrightarrow> served s \<and> pending (fst s) = []"

lemma served_callback:
  assumes "usart_inv u" "ppp_rx_inv g" "length (serial_contents (u, g)) \<le> 1023"
  shows "\<exists>s'. usart1_rx_complete_callback True (u, g) = Some s' \<and> serial_inv s' \<and>
    serial_contents s' = serial_contents (u, g)"
proof -
  from callback_delivers [OF assms(1,2)] assms(3) obtain g' where
    "usart1_rx_complete_callback True (u, g) = Some (u\<lparr>m_old_usart1_dma_rx_pos := dma_pos u\<rparr>, g')"
    "ppp_rx_inv g'" "ring_contents (modem g') = ring_contents (modem g) @ pending u"
    by (auto simp: serial_contents_def)
  then show ?thesis using assms(1)
    by (auto simp: serial_inv_def served_def usart_inv_def serial_contents_def pending_def)
qed

lemma line_byte:
  assumes "served s" "length (serial_contents s) < 1023"
  shows "\<exists>s'. DMA1_Channel2_3_IRQHandler (dma_irq (dma_byte c (fst s))) (dma_byte c (fst s), snd s) = Some s' \<and>
    served s' \<and> serial_contents s' = serial_contents s @ [c]"
proof -
  let ?u = "fst s" let ?v = "dma_byte c ?u"
  have i: "usart_inv ?u" "ppp_rx_inv (snd s)" using assms(1) by (simp_all add: served_def)
  have "length (pending ?u) < 767" using assms(1) i(1)
    by (cases "384 \<le> dma_pos ?u") (auto simp: length_pending served_def usart_inv_def)
  from dma_byte_pending [OF i(1) this] have v: "usart_inv ?v" "pending ?v = pending ?u @ [c]" by simp_all
  then have c: "serial_contents (?v, snd s) = serial_contents s @ [c]" by (simp add: serial_contents_def)
  show ?thesis
  proof (cases "dma_pos ?v = 384 \<or> dma_pos ?v = 0")
    case True
    then have "DMA1_Channel2_3_IRQHandler (dma_irq ?v) (?v, snd s) = usart1_rx_complete_callback True (?v, snd s)"
      by (auto simp: DMA1_Channel2_3_IRQHandler_def dma_irq_def Let_def split: bind_splits)
    with served_callback [OF v(1) i(2)] assms(2) c show ?thesis by (auto simp: serial_inv_def)
  next
    case False
    then have "DMA1_Channel2_3_IRQHandler (dma_irq ?v) (?v, snd s) = Some (?v, snd s)"
      by (simp add: DMA1_Channel2_3_IRQHandler_def dma_irq_def Let_def)
    moreover have "served (?v, snd s)"
      using v(1) i(2) False assms(1) by (auto simp: served_def dma_byte_def split: if_splits)
    ultimately show ?thesis using c by auto
  qed
qed

lemma line_bytes_ok:
  "served s \<Longrightarrow> length (serial_contents s) + length cs \<le> 1023 \<Longrightarrow>
    \<exists>s'. line_bytes cs s = Some s' \<and> served s' \<and> serial_contents s' = serial_contents s @ cs"
proof (induction cs arbitrary: s)
  case (Cons c cs)
  from line_byte [of s c] Cons.prems obtain s1 where s1:
    "DMA1_Channel2_3_IRQHandler (dma_irq (dma_byte c (fst s))) (dma_byte c (fst s), snd s) = Some s1"
    "served s1" "serial_contents s1 = serial_contents s @ [c]" by auto
  with Cons.IH [of s1] Cons.prems(2) show ?case by (auto simp: Let_def)
qed simp

interpretation serial_path: bounded_fifo line_burst serial_read serial_inv serial_contents 1023
proof
  fix s and xs :: "u8 list"
  assume "serial_inv s" "length (serial_contents s) + length xs \<le> 1023"
  with line_bytes_ok [of s xs] obtain s1 where s1: "line_bytes xs s = Some s1" "served s1"
    "serial_contents s1 = serial_contents s @ xs" by (auto simp: serial_inv_def)
  with served_callback [of "fst s1" "snd s1"] \<open>length _ + _ \<le> 1023\<close>
  show "\<exists>s'. line_burst xs s = Some s' \<and> serial_inv s' \<and> serial_contents s' = serial_contents s @ xs"
    by (auto simp: line_burst_def USART1_IRQHandler_def served_def)
next
  fix s n
  assume i: "serial_inv s"
  then have "ppp_rx_inv (snd s)" by (simp add: serial_inv_def served_def)
  from ppp_ring.get_ok [OF this, of n] i
  show "\<exists>s'. serial_read n s = Some (take (unat n) (serial_contents s), s') \<and> serial_inv s' \<and>
      serial_contents s' = drop (unat n) (serial_contents s)"
    by (auto simp: serial_read_def serial_contents_def serial_inv_def served_def)
qed

section \<open>Properties of the serial port\<close>

definition usart_boot :: usart where
  "usart_boot = MX_USART1_UART_Init \<lparr>m_usart1_rx_buffer = replicate 768 0, m_usart1_is_enabled = True,
     m_old_usart1_dma_rx_pos = 0, m_uart_rx_ongoing = False, dma_pos = 0\<rparr>"

text \<open>
  C34. From the wire to the PPP stack: bytes that arrive in bursts of any length, are put
  into the circular buffer by the DMA controller, handed over by its half and full
  interrupts and by the idle interrupt, queued in the ring and read by the stack in pieces
  of any size, come out complete and in order, as long as at most 1023 of them wait.
\<close>
theorem serial_path_in_order:
  assumes "u = usart_boot" and "mode g = GSM_INTERNET_MODE_PPP_STACK" and "ring_inv (modem g)"
    and "fits 1023 ops (length (ring_contents (modem g)))"
  shows "\<exists>read s'. fifo_run line_burst serial_read ops (u, g) = Some (read, s') \<and>
    pending (fst s') = [] \<and>
    read @ ring_contents (modem (snd s')) = ring_contents (modem g) @ received ops"
proof -
  have c: "serial_contents (u, g) = ring_contents (modem g)" and i: "serial_inv (u, g)"
    using assms(1-3) by (simp_all add: serial_contents_def serial_inv_def served_def usart_inv_def pending_def
        usart_boot_def MX_USART1_UART_Init_def usart1_hw_uart_rx_raw_def ppp_rx_inv_def)
  from serial_path.in_order [OF i, of ops] assms(4) c show ?thesis
    by (auto simp: serial_contents_def serial_inv_def)
qed

theorem serial_path_in_order_witness:
  "\<exists>read s'. fifo_run line_burst serial_read [Put (replicate 900 0x55), Get 512, Put [0x7e, 1], Get 512]
      (usart_boot, gsm_boot\<lparr>mode := GSM_INTERNET_MODE_PPP_STACK\<rparr>) = Some (read, s') \<and>
    pending (fst s') = [] \<and>
    read @ ring_contents (modem (snd s')) =
      ring_contents (modem (gsm_boot\<lparr>mode := GSM_INTERNET_MODE_PPP_STACK\<rparr>)) @
      received [Put (replicate 900 0x55), Get 512, Put [0x7e, 1], Get 512]"
  by (rule serial_path_in_order [OF refl]) (simp_all add: gsm_boot_def ring_inv_def ring_contents_def ring_length_def)

text \<open>
  Switching the port off and on again breaks the reception: the reader's position is
  reset but the DMA controller, which the driver still believes to be running, is not
  restarted and keeps its own. At the next interrupt the driver passes on, before anything
  was received, one zero byte for every position the controller had reached.
\<close>
theorem usart_restart_delivers_zeros:
  assumes "usart_inv u" and "m_uart_rx_ongoing u" and "m_usart1_is_enabled u" and "ppp_rx_inv g"
    and "length (ring_contents (modem g)) + dma_pos u \<le> 1023"
  shows "\<exists>s'. USART1_IRQHandler True (usart1_control True (usart1_control False u), g) = Some s' \<and>
    ring_contents (modem (snd s')) = ring_contents (modem g) @ replicate (dma_pos u) 0"
proof -
  let ?u = "usart1_control True (usart1_control False u)"
  have u: "usart_inv ?u" "pending ?u = replicate (dma_pos u) 0"
    using assms(1-3) by (auto simp: usart1_control_def MX_USART1_UART_Init_def usart1_hw_uart_rx_raw_def
        usart_inv_def pending_def)
  with callback_delivers [OF u(1) assms(4)] assms(5) show ?thesis
    by (auto simp: USART1_IRQHandler_def)
qed

theorem usart_restart_delivers_zeros_witness:
  "\<exists>s'. USART1_IRQHandler True (usart1_control True (usart1_control False (usart_boot\<lparr>dma_pos := 5\<rparr>)),
      gsm_boot\<lparr>mode := GSM_INTERNET_MODE_PPP_STACK\<rparr>) = Some s' \<and>
    ring_contents (modem (snd s')) = ring_contents (modem (gsm_boot\<lparr>mode := GSM_INTERNET_MODE_PPP_STACK\<rparr>)) @
      replicate (dma_pos (usart_boot\<lparr>dma_pos := 5\<rparr>)) 0"
  by (rule usart_restart_delivers_zeros) (simp_all add: usart_boot_def MX_USART1_UART_Init_def
      usart1_hw_uart_rx_raw_def usart_inv_def ppp_rx_inv_def gsm_boot_def ring_inv_def ring_contents_def ring_length_def)

end
