(* ===== verification/Pppos.thy ===== *)
theory Pppos
  imports Ppp_Core
begin

unbundle bit_operations_syntax

text \<open>
  PPP over a serial line: the asynchronous HDLC framing of
  \<open>lwip-2.1.2/src/netif/ppp/pppos.c\<close> (escaping by character maps, the 16 bit frame check
  sequence, the packet parser state machine and its packet buffers).

  The packet of a receiver is held as the source holds it: the chain that starts at
  \<open>in_head\<close>, and the buffer \<open>in_tail\<close> that is being filled, which is the head itself or a
  buffer not yet appended to it. Three things come from outside and are arguments: whether
  the \<open>n\<close>-th allocation from the buffer pool succeeds, what the upper layers do to the
  control block when a packet is passed to \<open>ppp_input\<close>, and how many bytes the serial
  output callback accepts.
\<close>

section \<open>The frame check sequence\<close>

definition fcstab :: "u16 list" where
  "fcstab = [
     0x0, 0x1189, 0x2312, 0x329b, 0x4624, 0x57ad, 0x6536, 0x74bf,
     0x8c48, 0x9dc1, 0xaf5a, 0xbed3, 0xca6c, 0xdbe5, 0xe97e, 0xf8f7,
     0x1081, 0x108, 0x3393, 0x221a, 0x56a5, 0x472c, 0x75b7, 0x643e,
     0x9cc9, 0x8d40, 0xbfdb, 0xae52, 0xdaed, 0xcb64, 0xf9ff, 0xe876,
     0x2102, 0x308b, 0x210, 0x1399, 0x6726, 0x76af, 0x4434, 0x55bd,
     0xad4a, 0xbcc3, 0x8e58, 0x9fd1, 0xeb6e, 0xfae7, 0xc87c, 0xd9f5,
     0x3183, 0x200a, 0x1291, 0x318, 0x77a7, 0x662e, 0x54b5, 0x453c,
     0xbdcb, 0xac42, 0x9ed9, 0x8f50, 0xfbef, 0xea66, 0xd8fd, 0xc974,
     0x4204, 0x538d, 0x6116, 0x709f, 0x420, 0x15a9, 0x2732, 0x36bb,
     0xce4c, 0xdfc5, 0xed5e, 0xfcd7, 0x8868, 0x99e1, 0xab7a, 0xbaf3,
     0x5285, 0x430c, 0x7197, 0x601e, 0x14a1, 0x528, 0x37b3, 0x263a,
     0xdecd, 0xcf44, 0xfddf, 0xec56, 0x98e9, 0x8960, 0xbbfb, 0xaa72,
     0x6306, 0x728f, 0x4014, 0x519d, 0x2522, 0x34ab, 0x630, 0x17b9,
     0xef4e, 0xfec7, 0xcc5c, 0xddd5, 0xa96a, 0xb8e3, 0x8a78, 0x9bf1,
     0x7387, 0x620e, 0x5095, 0x411c, 0x35a3, 0x242a, 0x16b1, 0x738,
     0xffcf, 0xee46, 0xdcdd, 0xcd54, 0xb9eb, 0xa862, 0x9af9, 0x8b70,
     0x8408, 0x9581, 0xa71a, 0xb693, 0xc22c, 0xd3a5, 0xe13e, 0xf0b7,
     0x840, 0x19c9, 0x2b52, 0x3adb, 0x4e64, 0x5fed, 0x6d76, 0x7cff,
     0x9489, 0x8500, 0xb79b, 0xa612, 0xd2ad, 0xc324, 0xf1bf, 0xe036,
     0x18c1, 0x948, 0x3bd3, 0x2a5a, 0x5ee5, 0x4f6c, 0x7df7, 0x6c7e,
     0xa50a, 0xb483, 0x8618, 0x9791, 0xe32e, 0xf2a7, 0xc03c, 0xd1b5,
     0x2942, 0x38cb, 0xa50, 0x1bd9, 0x6f66, 0x7eef, 0x4c74, 0x5dfd,
     0xb58b, 0xa402, 0x9699, 0x8710, 0xf3af, 0xe226, 0xd0bd, 0xc134,
     0x39c3, 0x284a, 0x1ad1, 0xb58, 0x7fe7, 0x6e6e, 0x5cf5, 0x4d7c,
     0xc60c, 0xd785, 0xe51e, 0xf497, 0x8028, 0x91a1, 0xa33a, 0xb2b3,
     0x4a44, 0x5bcd, 0x6956, 0x78df, 0xc60, 0x1de9, 0x2f72, 0x3efb,
     0xd68d, 0xc704, 0xf59f, 0xe416, 0x90a9, 0x8120, 0xb3bb, 0xa232,
     0x5ac5, 0x4b4c, 0x79d7, 0x685e, 0x1ce1, 0xd68, 0x3ff3, 0x2e7a,
     0xe70e, 0xf687, 0xc41c, 0xd595, 0xa12a, 0xb0a3, 0x8238, 0x93b1,
     0x6b46, 0x7acf, 0x4854, 0x59dd, 0x2d62, 0x3ceb, 0xe70, 0x1ff9,
     0xf78f, 0xe606, 0xd49d, 0xc514, 0xb1ab, 0xa022, 0x92b9, 0x8330,
     0x7bc7, 0x6a4e, 0x58d5, 0x495c, 0x3de3, 0x2c6a, 0x1ef1, 0xf78]"

definition PPP_FCS :: "u16 \<Rightarrow> u8 \<Rightarrow> u16" where
  "PPP_FCS fcs c = drop_bit 8 fcs XOR fcstab ! unat (ucast fcs XOR c)"

text \<open>The polynomial version the source keeps for builds without the table.\<close>

fun fcs_bits :: "nat \<Rightarrow> u32 \<Rightarrow> u32" where
  "fcs_bits 0 octet = octet"
| "fcs_bits (Suc n) octet =
     fcs_bits n (if octet AND 1 \<noteq> 0 then drop_bit 1 octet XOR 0x8408 else drop_bit 1 octet)"

definition ppp_get_fcs :: "u8 \<Rightarrow> u16" where
  "ppp_get_fcs byte = ucast (fcs_bits 8 (ucast byte) AND 0xffff)"

abbreviation (input) "PPP_INITFCS \<equiv> 0xffff :: u16"
abbreviation (input) "PPP_GOODFCS \<equiv> 0xf0b8 :: u16"
abbreviation (input) "PPP_FLAG \<equiv> 0x7e :: u8"
abbreviation (input) "PPP_ESCAPE \<equiv> 0x7d :: u8"
abbreviation (input) "PPP_TRANS \<equiv> 0x20 :: u8"
abbreviation (input) "PPP_ALLSTATIONS \<equiv> 0xff :: u8"
abbreviation (input) "PPP_UI \<equiv> 0x03 :: u8"
abbreviation (input) "PBUF_POOL_BUFSIZE \<equiv> 592 :: nat"

text \<open>A character map is 32 bytes, one bit per character.\<close>

definition ESCAPE_P :: "u8 list \<Rightarrow> u8 \<Rightarrow> bool" where
  "ESCAPE_P accm c \<longleftrightarrow> (accm ! unat (drop_bit 3 c)) AND push_bit (unat (c AND 7)) 1 \<noteq> 0"

section \<open>The control block\<close>

datatype parser_state = PDIDLE | PDSTART | PDADDRESS | PDCONTROL | PDPROTOCOL1 | PDPROTOCOL2 | PDDATA

text \<open>The code compares the states as numbers, in the order of their declaration.\<close>

primrec state_number :: "parser_state \<Rightarrow> nat" where
  "state_number PDIDLE = 0"
| "state_number PDSTART = 1"
| "state_number PDADDRESS = 2"
| "state_number PDCONTROL = 3"
| "state_number PDPROTOCOL1 = 4"
| "state_number PDPROTOCOL2 = 5"
| "state_number PDDATA = 6"

lemma state_number_inj: "state_number a = state_number b \<Longrightarrow> a = b"
  by (cases a; cases b; simp)

instantiation parser_state :: linorder
begin

definition less_eq_parser_state :: "parser_state \<Rightarrow> parser_state \<Rightarrow> bool" where
  "less_eq_parser_state a b \<longleftrightarrow> state_number a \<le> state_number b"

definition less_parser_state :: "parser_state \<Rightarrow> parser_state \<Rightarrow> bool" where
  "less_parser_state a b \<longleftrightarrow> state_number a < state_number b"

instance
  by standard (auto simp: less_eq_parser_state_def less_parser_state_def intro: state_number_inj)

end

lemma state_le_PDADDRESS [simp]: "st \<le> PDADDRESS \<longleftrightarrow> st = PDIDLE \<or> st = PDSTART \<or> st = PDADDRESS"
  by (cases st) (simp_all add: less_eq_parser_state_def)

lemma state_less_PDDATA [simp]: "st < PDDATA \<longleftrightarrow> st \<noteq> PDDATA"
  by (cases st) (simp_all add: less_parser_state_def)

datatype tail = Tail_Null | Tail_Head | Tail_Buf "u8 list"

record pppos_pcb =
  last_xmit :: u32
  out_accm :: "u8 list"
  link_open :: bool
  pcomp :: bool
  accomp :: bool
  in_accm :: "u8 list"
  in_head :: "u8 list option"
  in_tail :: tail
  in_protocol :: u16
  in_fcs :: u16
  in_state :: parser_state
  in_escaped :: bool
  allocs :: nat                \<comment> \<open>allocations from the pool so far\<close>
  delivered :: "u8 list list"  \<comment> \<open>packets passed to \<open>ppp_input\<close>\<close>
  sent :: "u8 list"            \<comment> \<open>bytes given to the output callback\<close>

definition default_accm :: "u8 list" where
  "default_accm = (replicate 32 0)[15 := 0x60]"

text \<open>\<open>pppos_connect\<close> up to \<open>ppp_start\<close>: everything from \<open>last_xmit\<close> on is cleared.\<close>

definition pppos_open_link :: "pppos_pcb \<Rightarrow> pppos_pcb" where
  "pppos_open_link s =
     s\<lparr>last_xmit := 0, out_accm := default_accm, link_open := True, pcomp := False, accomp := False,
       in_accm := default_accm, in_head := None, in_tail := Tail_Null, in_protocol := 0, in_fcs := 0,
       in_state := PDIDLE, in_escaped := False\<rparr>"

definition pppos_input_free_current_packet :: "pppos_pcb \<Rightarrow> pppos_pcb" where
  "pppos_input_free_current_packet s = s\<lparr>in_head := None, in_tail := Tail_Null\<rparr>"

text \<open>\<open>pppos_disconnect\<close> up to \<open>ppp_link_end\<close>.\<close>

definition pppos_close_link :: "pppos_pcb \<Rightarrow> pppos_pcb" where
  "pppos_close_link s = pppos_input_free_current_packet (s\<lparr>link_open := False\<rparr>)"

definition pppos_input_drop :: "pppos_pcb \<Rightarrow> pppos_pcb" where
  "pppos_input_drop s = pppos_input_free_current_packet s"

definition accm_bytes :: "u32 \<Rightarrow> u8 list" where
  "accm_bytes accm = map (\<lambda>i. ucast (drop_bit (8 * i) accm)) [0..<4]"

definition pppos_send_config :: "u32 \<Rightarrow> bool \<Rightarrow> bool \<Rightarrow> pppos_pcb \<Rightarrow> pppos_pcb" where
  "pppos_send_config accm pc ac s =
     s\<lparr>pcomp := pc, accomp := ac, out_accm := accm_bytes accm @ drop 4 (out_accm s)\<rparr>"

definition pppos_recv_config :: "u32 \<Rightarrow> pppos_pcb \<Rightarrow> pppos_pcb" where
  "pppos_recv_config accm s = s\<lparr>in_accm := accm_bytes accm @ drop 4 (in_accm s)\<rparr>"

section \<open>Receiving\<close>

text \<open>
  The end of a good frame: the two check bytes are cut off, and the packet goes up. A
  NULL \<open>in_tail\<close> is dereferenced; a packet shorter than its check bytes stops the program
  in \<open>pbuf_realloc\<close>.
\<close>

definition take_packet :: "pppos_pcb \<Rightarrow> u8 list option" where
  "take_packet s = do {
     head \<leftarrow> in_head s;
     case in_tail s of
       Tail_Null \<Rightarrow> None
     | Tail_Head \<Rightarrow>
         if 2 \<le> length head then Some (take (length head - 2) head) else None
     | Tail_Buf t \<Rightarrow>
         if 2 < length t then Some (head @ take (length t - 2) t)
         else if 2 \<le> length (head @ t) then Some (take (length (head @ t) - 2) (head @ t)) else None }"

definition input_flag :: "(u8 list \<Rightarrow> pppos_pcb \<Rightarrow> pppos_pcb) \<Rightarrow> pppos_pcb \<Rightarrow> pppos_pcb option" where
  "input_flag up s = do {
     s \<leftarrow> (if in_state s \<le> PDADDRESS then Some s
          else if in_state s < PDDATA then Some (pppos_input_drop s)
          else if in_fcs s \<noteq> PPP_GOODFCS then Some (pppos_input_drop s)
          else do {
            inp \<leftarrow> take_packet s;
            let s = s\<lparr>in_head := None, in_tail := Tail_Null, delivered := delivered s @ [inp]\<rparr>;
            Some (up inp s) });
     Some (s\<lparr>in_fcs := PPP_INITFCS, in_state := PDADDRESS, in_escaped := False\<rparr>) }"

definition tail_full :: "pppos_pcb \<Rightarrow> bool" where
  "tail_full s =
     (case in_tail s of
        Tail_Null \<Rightarrow> True
      | Tail_Head \<Rightarrow> (case in_head s of None \<Rightarrow> False | Some h \<Rightarrow> length h = PBUF_POOL_BUFSIZE)
      | Tail_Buf t \<Rightarrow> length t = PBUF_POOL_BUFSIZE)"

definition store_byte :: "u8 \<Rightarrow> pppos_pcb \<Rightarrow> pppos_pcb option" where
  "store_byte c s =
     (case in_tail s of
        Tail_Null \<Rightarrow> None
      | Tail_Head \<Rightarrow> do { h \<leftarrow> in_head s; Some (s\<lparr>in_head := Some (h @ [c])\<rparr>) }
      | Tail_Buf t \<Rightarrow> Some (s\<lparr>in_tail := Tail_Buf (t @ [c])\<rparr>))"

definition input_data :: "(nat \<Rightarrow> bool) \<Rightarrow> u8 \<Rightarrow> pppos_pcb \<Rightarrow> pppos_pcb option" where
  "input_data alloc c s =
     (if \<not> tail_full s then store_byte c s
      else
        let s = (case in_tail s of
                   Tail_Buf t \<Rightarrow> s\<lparr>in_head := map_option (\<lambda>h. h @ t) (in_head s), in_tail := Tail_Null\<rparr>
                 | _ \<Rightarrow> s);
            ok = alloc (allocs s);
            s = s\<lparr>allocs := Suc (allocs s)\<rparr>
        in if \<not> ok then Some ((pppos_input_drop s)\<lparr>in_state := PDSTART\<rparr>)
           else store_byte c
             (if in_head s = None
              then s\<lparr>in_head := Some [ucast (drop_bit 8 (in_protocol s)), ucast (in_protocol s)],
                     in_tail := Tail_Head\<rparr>
              else s\<lparr>in_tail := Tail_Buf []\<rparr>))"

text \<open>The fall-through chain of the header states.\<close>

definition input_protocol1 :: "u8 \<Rightarrow> pppos_pcb \<Rightarrow> pppos_pcb" where
  "input_protocol1 c s =
     (if c AND 1 \<noteq> 0 then s\<lparr>in_protocol := ucast c, in_state := PDDATA\<rparr>
      else s\<lparr>in_protocol := push_bit 8 (ucast c), in_state := PDPROTOCOL2\<rparr>)"

definition input_control :: "u8 \<Rightarrow> pppos_pcb \<Rightarrow> pppos_pcb" where
  "input_control c s = (if c = PPP_UI then s\<lparr>in_state := PDPROTOCOL1\<rparr> else input_protocol1 c s)"

definition input_address :: "u8 \<Rightarrow> pppos_pcb \<Rightarrow> pppos_pcb" where
  "input_address c s = (if c = PPP_ALLSTATIONS then s\<lparr>in_state := PDCONTROL\<rparr> else input_control c s)"

definition input_char :: "(nat \<Rightarrow> bool) \<Rightarrow> u8 \<Rightarrow> pppos_pcb \<Rightarrow> pppos_pcb option" where
  "input_char alloc c s =
     (case in_state s of
        PDIDLE \<Rightarrow>
          if c \<noteq> PPP_ALLSTATIONS then Some s else Some (input_address c (s\<lparr>in_fcs := PPP_INITFCS\<rparr>))
      | PDSTART \<Rightarrow> Some (input_address c (s\<lparr>in_fcs := PPP_INITFCS\<rparr>))
      | PDADDRESS \<Rightarrow> Some (input_address c s)
      | PDCONTROL \<Rightarrow> Some (input_control c s)
      | PDPROTOCOL1 \<Rightarrow> Some (input_protocol1 c s)
      | PDPROTOCOL2 \<Rightarrow> Some (s\<lparr>in_protocol := in_protocol s OR ucast c, in_state := PDDATA\<rparr>)
      | PDDATA \<Rightarrow> input_data alloc c s)"

definition pppos_input_byte ::
  "(nat \<Rightarrow> bool) \<Rightarrow> (u8 list \<Rightarrow> pppos_pcb \<Rightarrow> pppos_pcb) \<Rightarrow> u8 \<Rightarrow> pppos_pcb \<Rightarrow> pppos_pcb option" where
  "pppos_input_byte alloc up cur_char s =
     (if ESCAPE_P (in_accm s) cur_char
      then if cur_char = PPP_ESCAPE then Some (s\<lparr>in_escaped := True\<rparr>)
           else if cur_char = PPP_FLAG then input_flag up s
           else Some s
      else do {
        let c = (if in_escaped s then cur_char XOR PPP_TRANS else cur_char);
        s \<leftarrow> input_char alloc c (s\<lparr>in_escaped := False\<rparr>);
        Some (s\<lparr>in_fcs := PPP_FCS (in_fcs s) c\<rparr>) })"

fun pppos_input ::
  "(nat \<Rightarrow> bool) \<Rightarrow> (u8 list \<Rightarrow> pppos_pcb \<Rightarrow> pppos_pcb) \<Rightarrow> u8 list \<Rightarrow> pppos_pcb \<Rightarrow> pppos_pcb option" where
  "pppos_input alloc up [] s = Some s"
| "pppos_input alloc up (c # cs) s =
     (if \<not> link_open s then Some s
      else do { s \<leftarrow> pppos_input_byte alloc up c s; pppos_input alloc up cs s })"

section \<open>Sending\<close>

text \<open>
  The output buffer \<open>nb\<close>, flushed through the callback when fewer than two bytes are left.
  The check sequence is updated where the source passes a pointer to it.
\<close>

definition pppos_output_append ::
  "(u8 list \<Rightarrow> u32) \<Rightarrow> u8 \<Rightarrow> bool \<Rightarrow> bool \<Rightarrow> err \<times> u8 list \<times> u16 \<times> pppos_pcb \<Rightarrow>
   err \<times> u8 list \<times> u16 \<times> pppos_pcb" where
  "pppos_output_append output_cb c accm with_fcs = (\<lambda>(err, nb, fcs, s).
     if err \<noteq> ERR_OK then (err, nb, fcs, s)
     else
       let full = (int PBUF_POOL_BUFSIZE - int (length nb) < 2);
           l = output_cb nb;
           s = (if full then s\<lparr>sent := sent s @ nb\<rparr> else s)
       in if full \<and> l \<noteq> of_nat (length nb) then (ERR_IF, nb, fcs, s)
          else
            let nb = (if full then [] else nb);
                fcs = (if with_fcs then PPP_FCS fcs c else fcs);
                nb = (if accm \<and> ESCAPE_P (out_accm s) c then nb @ [PPP_ESCAPE, c XOR PPP_TRANS]
                      else nb @ [c])
            in (ERR_OK, nb, fcs, s))"

definition pppos_output_last ::
  "(u8 list \<Rightarrow> u32) \<Rightarrow> u32 \<Rightarrow> err \<times> u8 list \<times> u16 \<times> pppos_pcb \<Rightarrow> err \<times> pppos_pcb" where
  "pppos_output_last output_cb now r =
     (let fcs = fst (snd (snd r));
          r = pppos_output_append output_cb (ucast (NOT fcs)) True False r;
          r = pppos_output_append output_cb (ucast (drop_bit 8 (NOT fcs))) True False r;
          r = pppos_output_append output_cb PPP_FLAG False False r
      in case r of (err, nb, _, s) \<Rightarrow>
        if err \<noteq> ERR_OK then (err, s\<lparr>last_xmit := 0\<rparr>)
        else if nb \<noteq> [] then
          (let s = s\<lparr>sent := sent s @ nb\<rparr>
           in if output_cb nb \<noteq> of_nat (length nb) then (ERR_IF, s\<lparr>last_xmit := 0\<rparr>)
              else (ERR_OK, s\<lparr>last_xmit := now\<rparr>))
        else (ERR_OK, s\<lparr>last_xmit := now\<rparr>))"

definition output_bytes ::
  "(u8 list \<Rightarrow> u32) \<Rightarrow> u8 list \<Rightarrow> err \<times> u8 list \<times> u16 \<times> pppos_pcb \<Rightarrow> err \<times> u8 list \<times> u16 \<times> pppos_pcb" where
  "output_bytes output_cb bs r = fold (\<lambda>c. pppos_output_append output_cb c True True) bs r"

definition output_start ::
  "(u8 list \<Rightarrow> u32) \<Rightarrow> u32 \<Rightarrow> pppos_pcb \<Rightarrow> err \<times> u8 list \<times> u16 \<times> pppos_pcb" where
  "output_start output_cb now s =
     (let r = (ERR_OK, [], PPP_INITFCS, s)
      in if 100 \<le> now - last_xmit s then pppos_output_append output_cb PPP_FLAG False False r else r)"

text \<open>The first argument tells whether the output buffer could be allocated.\<close>

definition pppos_write ::
  "bool \<Rightarrow> (u8 list \<Rightarrow> u32) \<Rightarrow> u32 \<Rightarrow> u8 list \<Rightarrow> pppos_pcb \<Rightarrow> err \<times> pppos_pcb" where
  "pppos_write alloc output_cb now p s =
     (if \<not> alloc then (ERR_MEM, s)
      else pppos_output_last output_cb now (output_bytes output_cb p (output_start output_cb now s)))"

definition header_bytes :: "u16 \<Rightarrow> pppos_pcb \<Rightarrow> u8 list" where
  "header_bytes protocol s =
     (if accomp s then [] else [PPP_ALLSTATIONS, PPP_UI]) @
     (if \<not> pcomp s \<or> 0xff < protocol then [ucast (drop_bit 8 protocol)] else []) @
     [ucast protocol]"

definition pppos_netif_output ::
  "bool \<Rightarrow> (u8 list \<Rightarrow> u32) \<Rightarrow> u32 \<Rightarrow> u8 list list \<Rightarrow> u16 \<Rightarrow> pppos_pcb \<Rightarrow> err \<times> pppos_pcb" where
  "pppos_netif_output alloc output_cb now pb protocol s =
     (if \<not> alloc then (ERR_MEM, s)
      else
        let r = output_start output_cb now s;
            r = output_bytes output_cb (header_bytes protocol s) r;
            r = fold (output_bytes output_cb) pb r
        in pppos_output_last output_cb now r)"

end
