(* ===== verification/Pppos_Codec.thy ===== *)
theory Pppos_Codec
  imports Pppos
begin

unbundle bit_operations_syntax

text \<open>
  The arithmetic under the framing of \<open>pppos.c\<close>: the check sequence table against its
  polynomial, the residue a correct frame leaves, and the meaning of the character maps.
\<close>

section \<open>The table is the polynomial\<close>

definition fcs_bit :: "u32 \<Rightarrow> u32" where
  "fcs_bit octet = (if octet AND 1 \<noteq> 0 then drop_bit 1 octet XOR 0x8408 else drop_bit 1 octet)"

lemma ppp_get_fcs_bits:
  "ppp_get_fcs c = ucast (fcs_bit (fcs_bit (fcs_bit (fcs_bit (fcs_bit (fcs_bit (fcs_bit
     (fcs_bit (ucast c)))))))) AND 0xffff)"
  by (simp add: ppp_get_fcs_def fcs_bit_def numeral_eq_Suc)

lemma all_bytes:
  "map of_nat [0..<256] = ([0, 1, 2, 3, 4, 5, 6, 7, 8, 9, 10, 11, 12, 13, 14, 15,
    16, 17, 18, 19, 20, 21, 22, 23, 24, 25, 26, 27, 28, 29, 30, 31,
    32, 33, 34, 35, 36, 37, 38, 39, 40, 41, 42, 43, 44, 45, 46, 47,
    48, 49, 50, 51, 52, 53, 54, 55, 56, 57, 58, 59, 60, 61, 62, 63,
    64, 65, 66, 67, 68, 69, 70, 71, 72, 73, 74, 75, 76, 77, 78, 79,
    80, 81, 82, 83, 84, 85, 86, 87, 88, 89, 90, 91, 92, 93, 94, 95,
    96, 97, 98, 99, 100, 101, 102, 103, 104, 105, 106, 107, 108, 109, 110, 111,
    112, 113, 114, 115, 116, 117, 118, 119, 120, 121, 122, 123, 124, 125, 126, 127,
    128, 129, 130, 131, 132, 133, 134, 135, 136, 137, 138, 139, 140, 141, 142, 143,
    144, 145, 146, 147, 148, 149, 150, 151, 152, 153, 154, 155, 156, 157, 158, 159,
    160, 161, 162, 163, 164, 165, 166, 167, 168, 169, 170, 171, 172, 173, 174, 175,
    176, 177, 178, 179, 180, 181, 182, 183, 184, 185, 186, 187, 188, 189, 190, 191,
    192, 193, 194, 195, 196, 197, 198, 199, 200, 201, 202, 203, 204, 205, 206, 207,
    208, 209, 210, 211, 212, 213, 214, 215, 216, 217, 218, 219, 220, 221, 222, 223,
    224, 225, 226, 227, 228, 229, 230, 231, 232, 233, 234, 235, 236, 237, 238, 239,
    240, 241, 242, 243, 244, 245, 246, 247, 248, 249, 250, 251, 252, 253, 254, 255] :: u8 list)"
  by (simp add: upt_conv_Cons)
lemma fcstab_all:
  "map ppp_get_fcs [0, 1, 2, 3, 4, 5, 6, 7, 8, 9, 10, 11, 12, 13, 14, 15,
    16, 17, 18, 19, 20, 21, 22, 23, 24, 25, 26, 27, 28, 29, 30, 31,
    32, 33, 34, 35, 36, 37, 38, 39, 40, 41, 42, 43, 44, 45, 46, 47,
    48, 49, 50, 51, 52, 53, 54, 55, 56, 57, 58, 59, 60, 61, 62, 63,
    64, 65, 66, 67, 68, 69, 70, 71, 72, 73, 74, 75, 76, 77, 78, 79,
    80, 81, 82, 83, 84, 85, 86, 87, 88, 89, 90, 91, 92, 93, 94, 95,
    96, 97, 98, 99, 100, 101, 102, 103, 104, 105, 106, 107, 108, 109, 110, 111,
    112, 113, 114, 115, 116, 117, 118, 119, 120, 121, 122, 123, 124, 125, 126, 127,
    128, 129, 130, 131, 132, 133, 134, 135, 136, 137, 138, 139, 140, 141, 142, 143,
    144, 145, 146, 147, 148, 149, 150, 151, 152, 153, 154, 155, 156, 157, 158, 159,
    160, 161, 162, 163, 164, 165, 166, 167, 168, 169, 170, 171, 172, 173, 174, 175,
    176, 177, 178, 179, 180, 181, 182, 183, 184, 185, 186, 187, 188, 189, 190, 191,
    192, 193, 194, 195, 196, 197, 198, 199, 200, 201, 202, 203, 204, 205, 206, 207,
    208, 209, 210, 211, 212, 213, 214, 215, 216, 217, 218, 219, 220, 221, 222, 223,
    224, 225, 226, 227, 228, 229, 230, 231, 232, 233, 234, 235, 236, 237, 238, 239,
    240, 241, 242, 243, 244, 245, 246, 247, 248, 249, 250, 251, 252, 253, 254, 255] = fcstab"
  unfolding fcstab_def by (simp add: ppp_get_fcs_bits fcs_bit_def)
lemma fcstab_map: "fcstab = map ppp_get_fcs (map of_nat [0..<256])"
  unfolding all_bytes by (rule fcstab_all [symmetric])

lemma fcstab_nth: "fcstab ! unat c = ppp_get_fcs c"
  unfolding fcstab_map by (subst nth_map, simp, subst nth_map, simp_all)

lemma PPP_FCS_bits: "PPP_FCS fcs c = drop_bit 8 fcs XOR ppp_get_fcs (ucast fcs XOR c)"
  by (simp add: PPP_FCS_def fcstab_nth)

section \<open>The check bytes leave the good residue\<close>

lemma residue_low: "(ucast f :: u8) XOR ucast (NOT f) = 0xff" for f :: u16
proof -
  have "(ucast f :: u8) XOR ucast (NOT f) = - 1"
    by (rule bit_word_eqI) (auto simp: bit_simps)
  then show ?thesis by simp
qed

lemma residue_high:
  "(ucast (drop_bit 8 f XOR 0xf78) :: u8) XOR ucast (drop_bit 8 (NOT f)) = 0x87" for f :: u16
proof -
  have "(ucast (drop_bit 8 f XOR 0xf78) :: u8) XOR ucast (drop_bit 8 (NOT f)) = ucast (0xf78 :: u16) XOR - 1"
    by (rule bit_word_eqI) (auto simp: bit_simps)
  then show ?thesis by simp
qed

lemma residue_rest: "drop_bit 8 (drop_bit 8 f XOR 0xf78) = (0xf :: u16)" for f :: u16
proof -
  have "drop_bit 8 (drop_bit 8 f) = 0" by (rule bit_word_eqI) (auto simp: bit_simps dest: bit_imp_le_length)
  then show ?thesis by (simp add: drop_bit_xor)
qed

lemma good_residue:
  "PPP_FCS (PPP_FCS f (ucast (NOT f))) (ucast (drop_bit 8 (NOT f))) = PPP_GOODFCS"
proof -
  have 1: "PPP_FCS f (ucast (NOT f)) = drop_bit 8 f XOR 0xf78"
    unfolding PPP_FCS_bits residue_low by (simp add: ppp_get_fcs_bits fcs_bit_def)
  show ?thesis unfolding 1 unfolding PPP_FCS_bits residue_high residue_rest
    by (simp add: ppp_get_fcs_bits fcs_bit_def)
qed

section \<open>Character maps\<close>

lemma and_bit_iff: "w AND push_bit n 1 \<noteq> 0 \<longleftrightarrow> bit w n" for w :: "'a::len word"
  by (subst bit_iff_and_push_bit_not_eq_0) (rule refl)

lemma unat_drop_3: "unat (drop_bit 3 c :: u8) = unat c div 8"
  by (simp add: drop_bit_eq_div unat_div_distrib)

lemma unat_and_7: "unat (c AND 7 :: u8) = unat c mod 8"
proof -
  have "(7 :: u8) = mask 3" by (simp add: mask_eq_exp_minus_1)
  then have "c AND 7 = take_bit 3 c" by (simp only: take_bit_eq_mask)
  then show ?thesis by (simp only: unsigned_take_bit_eq) (simp add: take_bit_eq_mod)
qed

lemma ESCAPE_P_bit: "ESCAPE_P m c \<longleftrightarrow> bit (m ! (unat c div 8)) (unat c mod 8)"
  unfolding ESCAPE_P_def and_bit_iff unat_drop_3 unat_and_7 by (rule refl)

lemma accm_bytes_nth: "i < 4 \<Longrightarrow> accm_bytes a ! i = ucast (drop_bit (8 * i) a)"
  by (simp add: accm_bytes_def)

lemma length_accm_bytes: "length (accm_bytes a) = 4"
  by (simp add: accm_bytes_def)

text \<open>A negotiated map: the control characters of \<open>a\<close>, the escape and the flag.\<close>

definition negotiated :: "u32 \<Rightarrow> u8 list" where
  "negotiated a = accm_bytes a @ drop 4 default_accm"

lemma default_negotiated: "default_accm = negotiated 0"
  by (simp add: negotiated_def default_accm_def accm_bytes_def upt_conv_Cons numeral_eq_Suc)

lemma ESCAPE_P_negotiated:
  "ESCAPE_P (negotiated a) c \<longleftrightarrow> unat c < 32 \<and> bit a (unat c) \<or> c = PPP_ESCAPE \<or> c = PPP_FLAG"
proof (cases "unat c < 32")
  case True
  then have l: "unat c div 8 < 4" by simp
  then have "negotiated a ! (unat c div 8) = ucast (drop_bit (8 * (unat c div 8)) a)"
    by (simp add: negotiated_def nth_append length_accm_bytes accm_bytes_nth)
  moreover have "c \<noteq> PPP_ESCAPE" "c \<noteq> PPP_FLAG" using True by auto
  ultimately show ?thesis using True by (simp add: ESCAPE_P_bit bit_simps)
next
  case False
  let ?i = "unat c div 8"
  have i: "4 \<le> ?i" using False by simp
  have "?i < 32" using unat_u8_less [of c] by linarith
  with i have n: "negotiated a ! ?i = (if ?i = 15 then 0x60 else 0)"
    by (simp add: negotiated_def nth_append length_accm_bytes default_accm_def nth_list_update)
  have "(0x60 :: u8) = push_bit 5 1 OR push_bit 6 1" by simp
  then have b: "bit (0x60 :: u8) k \<longleftrightarrow> k = 5 \<or> k = 6" for k
    by (auto simp only: bit_simps) auto
  have "ESCAPE_P (negotiated a) c \<longleftrightarrow> ?i = 15 \<and> (unat c mod 8 = 5 \<or> unat c mod 8 = 6)"
    unfolding ESCAPE_P_bit n using b [of "unat c mod 8"] by auto
  also have "\<dots> \<longleftrightarrow> unat c = 125 \<or> unat c = 126" by presburger
  also have "\<dots> \<longleftrightarrow> c = PPP_ESCAPE \<or> c = PPP_FLAG"
    by (simp add: word_unat_eq_iff)
  finally show ?thesis using False by simp
qed

text \<open>What a receiver needs of a sender's map to decode it.\<close>

definition maps_fit :: "u8 list \<Rightarrow> u8 list \<Rightarrow> bool" where
  "maps_fit om im \<longleftrightarrow>
     ESCAPE_P im PPP_ESCAPE \<and> ESCAPE_P im PPP_FLAG \<and>
     (\<forall>c. ESCAPE_P im c \<longrightarrow> ESCAPE_P om c) \<and>
     (\<forall>c. ESCAPE_P om c \<longrightarrow> \<not> ESCAPE_P im (c XOR PPP_TRANS))"

lemma small_xor_20: "unat c < 32 \<Longrightarrow> 32 \<le> unat (c XOR 0x20 :: u8)"
proof -
  assume "unat c < 32"
  then have "unat (take_bit 5 c) = unat c"
    by (simp only: unsigned_take_bit_eq) (simp add: take_bit_eq_mod)
  then have "take_bit 5 c = c" by (simp only: word_unat_eq_iff)
  then have "\<not> bit c 5" by (metis bit_take_bit_iff less_irrefl)
  then have "bit (c XOR 0x20) 5" by (simp add: bit_simps bit_numeral_rec)
  then have "bit (unat (c XOR 0x20)) 5" by (simp add: bit_unsigned_iff)
  then show ?thesis by (rule contrapos_pp) (simp add: bit_iff_odd)
qed

lemma maps_fit_negotiated:
  assumes "\<And>i. bit b i \<Longrightarrow> bit a i"
  shows "maps_fit (negotiated a) (negotiated b)"
proof -
  have "\<not> ESCAPE_P (negotiated b) (c XOR PPP_TRANS)" if "ESCAPE_P (negotiated a) c" for c
  proof (cases "unat c < 32")
    case True
    have c: "c = (c XOR PPP_TRANS) XOR PPP_TRANS" by (simp add: xor.assoc)
    have "c XOR PPP_TRANS \<noteq> PPP_ESCAPE" "c XOR PPP_TRANS \<noteq> PPP_FLAG"
      using True by (subst (asm) c, auto)+
    then show ?thesis using small_xor_20 [OF True] by (simp add: ESCAPE_P_negotiated)
  next
    case False
    with that have "c = PPP_ESCAPE \<or> c = PPP_FLAG" by (simp add: ESCAPE_P_negotiated)
    then show ?thesis by (auto simp: ESCAPE_P_negotiated)
  qed
  with assms show ?thesis by (auto simp: maps_fit_def ESCAPE_P_negotiated)
qed

end
