(* ===== verification/Pppos_Frames.thy ===== *)
theory Pppos_Frames
  imports Pppos_Codec
begin

unbundle bit_operations_syntax

text \<open>
  The frames of \<open>pppos.c\<close> from end to end: the bytes the sender writes for a packet, the
  packet the receiver takes out of them, the faults and the resynchronisation of the
  receiver on arbitrary bytes.
\<close>

section \<open>What the sender writes\<close>

definition encode :: "u8 list \<Rightarrow> u8 \<Rightarrow> u8 list" where
  "encode m c = (if ESCAPE_P m c then [PPP_ESCAPE, c XOR PPP_TRANS] else [c])"

definition fcs_of :: "u8 list \<Rightarrow> u16" where
  "fcs_of bs = foldl PPP_FCS PPP_INITFCS bs"

definition check_bytes :: "u8 list \<Rightarrow> u8 list" where
  "check_bytes bs = [ucast (NOT (fcs_of bs)), ucast (drop_bit 8 (NOT (fcs_of bs)))]"

text \<open>The frame of a packet: its bytes and check bytes, escaped, and the closing flag.\<close>

definition frame :: "u8 list \<Rightarrow> u8 list \<Rightarrow> u8 list" where
  "frame m bs = concat (map (encode m) (bs @ check_bytes bs)) @ [PPP_FLAG]"

definition lead_in :: "u32 \<Rightarrow> pppos_pcb \<Rightarrow> u8 list" where
  "lead_in now s = (if 100 \<le> now - last_xmit s then [PPP_FLAG] else [])"

definition accepts :: "(u8 list \<Rightarrow> u32) \<Rightarrow> bool" where
  "accepts cb \<longleftrightarrow> (\<forall>bs. cb bs = of_nat (length bs))"

text \<open>The bytes written or buffered so far are \<open>w\<close>, and only \<open>sent\<close> has changed.\<close>

definition writing :: "pppos_pcb \<Rightarrow> u8 list \<Rightarrow> u16 \<Rightarrow> err \<times> u8 list \<times> u16 \<times> pppos_pcb \<Rightarrow> bool" where
  "writing s w f r \<longleftrightarrow> (\<exists>nb x. r = (ERR_OK, nb, f, s\<lparr>sent := x\<rparr>) \<and> x @ nb = w)"

lemma writing_start: "writing s (sent s) f (ERR_OK, [], f, s)"
  by (auto simp: writing_def intro: exI [of _ "sent s"])

lemma writing_append:
  assumes "accepts cb" "writing s w f r"
  shows "writing s (w @ (if accm then encode (out_accm s) c else [c]))
    (if with_fcs then PPP_FCS f c else f) (pppos_output_append cb c accm with_fcs r)"
proof -
  from assms(2) obtain nb x where r: "r = (ERR_OK, nb, f, s\<lparr>sent := x\<rparr>)" "x @ nb = w"
    by (auto simp: writing_def)
  then show ?thesis using assms(1)
    by (auto simp: pppos_output_append_def writing_def encode_def accepts_def Let_def)
qed

lemma writing_bytes:
  assumes "accepts cb"
  shows "writing s w f r \<Longrightarrow>
    writing s (w @ concat (map (encode (out_accm s)) bs)) (foldl PPP_FCS f bs) (output_bytes cb bs r)"
proof (induction bs arbitrary: w f r)
  case Nil
  then show ?case by (simp add: output_bytes_def)
next
  case (Cons b bs)
  from Cons.IH [OF writing_append [OF assms Cons.prems, where accm = True and c = b and with_fcs = True]]
  show ?case by (simp add: output_bytes_def)
qed

lemma fold_output_bytes: "fold (output_bytes cb) pb r = output_bytes cb (concat pb) r"
  by (induction pb arbitrary: r) (simp_all add: output_bytes_def)

lemma writing_last:
  assumes "accepts cb" "writing s w (fcs_of bs) r"
  shows "pppos_output_last cb now r = (ERR_OK,
    s\<lparr>sent := w @ concat (map (encode (out_accm s)) (check_bytes bs)) @ [PPP_FLAG], last_xmit := now\<rparr>)"
proof -
  let ?f = "fcs_of bs"
  let ?r1 = "pppos_output_append cb (ucast (NOT ?f)) True False r"
  let ?r2 = "pppos_output_append cb (ucast (drop_bit 8 (NOT ?f))) True False ?r1"
  let ?r3 = "pppos_output_append cb PPP_FLAG False False ?r2"
  have f: "fst (snd (snd r)) = ?f" using assms(2) by (auto simp: writing_def)
  note w1 = writing_append [OF assms, where accm = True and with_fcs = False and c = "ucast (NOT ?f)"]
  note w2 = writing_append [OF assms(1) w1, where accm = True and with_fcs = False
      and c = "ucast (drop_bit 8 (NOT ?f))"]
  note w3 = writing_append [OF assms(1) w2, where accm = False and with_fcs = False and c = "0x7e"]
  from w3 obtain nb x where r3: "?r3 = (ERR_OK, nb, ?f, s\<lparr>sent := x\<rparr>)"
    and x: "x @ nb = w @ concat (map (encode (out_accm s)) (check_bytes bs)) @ [PPP_FLAG]"
    by (auto simp: writing_def check_bytes_def)
  show ?thesis
    unfolding pppos_output_last_def Let_def f r3 using x assms(1)
    by (auto simp: accepts_def)
qed

lemma pppos_netif_output_frame:
  assumes "accepts cb"
  shows "pppos_netif_output True cb now pb protocol s = (ERR_OK,
    s\<lparr>sent := sent s @ lead_in now s @ frame (out_accm s) (header_bytes protocol s @ concat pb),
      last_xmit := now\<rparr>)"
proof -
  have st: "writing s (sent s @ lead_in now s) PPP_INITFCS (output_start cb now s)"
    using writing_append [OF assms writing_start, where accm = False and with_fcs = False and c = "0x7e"]
      writing_start [of s PPP_INITFCS]
    by (auto simp: output_start_def lead_in_def Let_def)
  have "writing s (sent s @ lead_in now s @ concat (map (encode (out_accm s)) (header_bytes protocol s @ concat pb)))
      (fcs_of (header_bytes protocol s @ concat pb))
      (fold (output_bytes cb) pb (output_bytes cb (header_bytes protocol s) (output_start cb now s)))"
    using writing_bytes [OF assms writing_bytes [OF assms st, of "header_bytes protocol s"], of "concat pb"]
    by (simp add: fold_output_bytes fcs_of_def)
  from writing_last [OF assms this] show ?thesis
    by (simp add: pppos_netif_output_def Let_def frame_def)
qed

section \<open>What the receiver makes of it\<close>

definition rx_open :: "u8 list \<Rightarrow> pppos_pcb \<Rightarrow> bool" where
  "rx_open m s \<longleftrightarrow> link_open s \<and> in_accm s = m \<and> \<not> in_escaped s"

lemma pppos_input_encode:
  assumes "maps_fit om im" "rx_open im s"
  shows "pppos_input alloc up (encode om c @ cs) s =
    do { s' \<leftarrow> input_char alloc c s; pppos_input alloc up cs (s'\<lparr>in_fcs := PPP_FCS (in_fcs s') c\<rparr>) }"
proof -
  have e: "\<not> in_escaped s" "in_accm s = im" "link_open s" using assms(2) by (auto simp: rx_open_def)
  then have i: "s\<lparr>in_escaped := False\<rparr> = s" by simp
  show ?thesis
  proof (cases "ESCAPE_P om c")
    case True
    with assms(1) have n: "\<not> ESCAPE_P im (c XOR PPP_TRANS)" "ESCAPE_P im PPP_ESCAPE"
      by (auto simp: maps_fit_def)
    have j: "s\<lparr>in_escaped := True, in_escaped := False\<rparr> = s" using e by simp
    show ?thesis using True n e j
      by (simp add: i encode_def pppos_input_byte_def Let_def xor.assoc split: bind_splits)
  next
    case False
    with assms(1) have n: "\<not> ESCAPE_P im c" by (auto simp: maps_fit_def)
    show ?thesis using False n e
      by (simp add: i encode_def pppos_input_byte_def Let_def split: bind_splits)
  qed
qed


text \<open>In the data part of a packet of protocol \<open>p\<close>, after the bytes \<open>bs\<close>.\<close>

definition proto_bytes :: "u16 \<Rightarrow> u8 list" where
  "proto_bytes p = [ucast (drop_bit 8 p), ucast p]"

definition rx_data :: "u16 \<Rightarrow> u8 list \<Rightarrow> pppos_pcb \<Rightarrow> bool" where
  "rx_data p bs s \<longleftrightarrow> in_state s = PDDATA \<and> in_protocol s = p \<and>
     (case in_tail s of
        Tail_Null \<Rightarrow> bs = [] \<and> in_head s = None
      | Tail_Head \<Rightarrow> in_head s = Some (proto_bytes p @ bs)
      | Tail_Buf t \<Rightarrow> bs \<noteq> [] \<and> (\<exists>h. in_head s = Some h \<and> h @ t = proto_bytes p @ bs))"

definition rx_at :: "u8 list \<Rightarrow> u16 \<Rightarrow> u8 list list \<Rightarrow> u16 \<Rightarrow> u8 list \<Rightarrow> pppos_pcb \<Rightarrow> bool" where
  "rx_at m f d p bs s \<longleftrightarrow> rx_open m s \<and> in_fcs s = f \<and> delivered s = d \<and> rx_data p bs s"

lemma input_data_ok:
  assumes "\<forall>n. alloc n" "rx_at m f d p bs s"
  shows "\<exists>s'. input_data alloc c s = Some s' \<and> rx_at m f d p (bs @ [c]) s'"
proof (cases "in_tail s")
  case Tail_Null
  with assms show ?thesis
    by (auto simp: input_data_def tail_full_def store_byte_def rx_at_def rx_open_def rx_data_def
        proto_bytes_def Let_def)
next
  case Tail_Head
  with assms show ?thesis
    by (auto simp: input_data_def tail_full_def store_byte_def rx_at_def rx_open_def rx_data_def
        Let_def)
next
  case (Tail_Buf t)
  with assms obtain h where h: "in_head s = Some h" "h @ t = proto_bytes p @ bs"
    by (auto simp: rx_at_def rx_data_def)
  from h(2) have h': "h @ t @ [c] = proto_bytes p @ bs @ [c]" by (metis append.assoc)
  from Tail_Buf assms h h' show ?thesis
    by (auto simp: input_data_def tail_full_def store_byte_def rx_at_def rx_open_def rx_data_def
        Let_def)
qed

lemma pppos_input_data_bytes:
  assumes "\<forall>n. alloc n" "maps_fit om im"
  shows "rx_at im f d p bs s \<Longrightarrow>
    \<exists>s'. pppos_input alloc up (concat (map (encode om) xs) @ cs) s = pppos_input alloc up cs s' \<and>
         rx_at im (foldl PPP_FCS f xs) d p (bs @ xs) s'"
proof (induction xs arbitrary: s f bs)
  case Nil
  then show ?case by auto
next
  case (Cons x xs)
  from input_data_ok [OF assms(1) Cons.prems] obtain s1
    where s1: "input_data alloc x s = Some s1" "rx_at im f d p (bs @ [x]) s1" by blast
  let ?s2 = "s1\<lparr>in_fcs := PPP_FCS (in_fcs s1) x\<rparr>"
  have c: "input_char alloc x s = Some s1" and o: "rx_open im s"
    using s1 Cons.prems by (auto simp: input_char_def rx_at_def rx_data_def)
  have "rx_at im (PPP_FCS f x) d p (bs @ [x]) ?s2"
    using s1(2) by (auto simp: rx_at_def rx_open_def rx_data_def split: tail.splits)
  from Cons.IH [OF this] show ?case
    by (auto simp: pppos_input_encode [OF assms(2) o] c)
qed

definition ready :: "u8 list \<Rightarrow> u8 list list \<Rightarrow> pppos_pcb \<Rightarrow> bool" where
  "ready m d s \<longleftrightarrow> rx_open m s \<and> in_fcs s = PPP_INITFCS \<and> in_state s = PDADDRESS \<and>
     in_head s = None \<and> in_tail s = Tail_Null \<and> delivered s = d"

text \<open>
  A protocol number of PPP: its low byte is odd and its high byte even. With both
  compressions in use a one byte number must not look like an address or control byte.
\<close>

definition protocol_ok :: "bool \<Rightarrow> bool \<Rightarrow> u16 \<Rightarrow> bool" where
  "protocol_ok ac pc p \<longleftrightarrow> bit p 0 \<and> \<not> bit p 8 \<and> (ac \<and> pc \<longrightarrow> p \<noteq> 0x03 \<and> p \<noteq> 0xff)"


lemma u16_join: "push_bit 8 (ucast (ucast (drop_bit 8 p) :: u8)) OR ucast (ucast p :: u8) = p" for p :: u16
  by (rule bit_word_eqI) (auto simp: bit_simps)

lemma u16_small:
  fixes p :: u16
  assumes "\<not> 0xff < p"
  shows "ucast (ucast p :: u8) = p"
proof -
  from assms have "unat p \<le> 255" by (simp add: word_less_nat_alt)
  then show ?thesis by (simp add: word_unat_eq_iff unsigned_ucast_eq take_bit_eq_mod unat_mod_distrib)
qed

lemma and_1_iff: "c AND 1 \<noteq> 0 \<longleftrightarrow> bit c 0" for c :: u8
  using and_bit_iff [of c 0] by simp

lemma low_bit: "bit p 0 \<Longrightarrow> bit (ucast p :: u8) 0" for p :: u16
  by (simp add: bit_simps)

lemma high_bit: "\<not> bit p 8 \<Longrightarrow> \<not> bit (ucast (drop_bit 8 p) :: u8) 0" for p :: u16
  by (simp add: bit_simps)

definition hdr :: "u8 list \<Rightarrow> u16 \<Rightarrow> u8 list list \<Rightarrow> parser_state \<Rightarrow> u16 \<Rightarrow> pppos_pcb \<Rightarrow> bool" where
  "hdr m f d st p s \<longleftrightarrow> rx_open m s \<and> in_fcs s = f \<and> delivered s = d \<and> in_state s = st \<and>
     in_protocol s = p \<and> in_head s = None \<and> in_tail s = Tail_Null"

lemma pppos_input_hdr:
  assumes "maps_fit om im" "hdr im f d st p s"
    and "input_char alloc c s = Some (s\<lparr>in_protocol := p', in_state := st'\<rparr>)"
  shows "\<exists>s'. pppos_input alloc up (encode om c @ cs) s = pppos_input alloc up cs s' \<and>
    hdr im (PPP_FCS f c) d st' p' s'"
proof -
  have o: "rx_open im s" using assms(2) by (simp add: hdr_def)
  show ?thesis using assms(2)
    by (auto simp: pppos_input_encode [OF assms(1) o] assms(3) hdr_def rx_open_def intro!: exI)
qed

lemma hdr_address:
  "hdr m f d PDADDRESS p s \<Longrightarrow>
     input_char alloc 0xff s = Some (s\<lparr>in_protocol := p, in_state := PDCONTROL\<rparr>)"
  by (auto simp: input_char_def input_address_def hdr_def)

lemma hdr_control:
  "hdr m f d PDCONTROL p s \<Longrightarrow>
     input_char alloc 0x03 s = Some (s\<lparr>in_protocol := p, in_state := PDPROTOCOL1\<rparr>)"
  by (auto simp: input_char_def input_control_def hdr_def)

definition at_protocol :: "parser_state \<Rightarrow> u8 \<Rightarrow> bool" where
  "at_protocol st c \<longleftrightarrow> st = PDPROTOCOL1 \<or> st = PDADDRESS \<and> c \<noteq> 0xff \<and> c \<noteq> 0x03"

lemma hdr_protocol1:
  "hdr m f d st p s \<Longrightarrow> at_protocol st c \<Longrightarrow> \<not> bit c 0 \<Longrightarrow>
     input_char alloc c s = Some (s\<lparr>in_protocol := push_bit 8 (ucast c), in_state := PDPROTOCOL2\<rparr>)"
  unfolding at_protocol_def using and_1_iff [of c]
  by (elim disjE) (auto simp: input_char_def input_address_def input_control_def
      input_protocol1_def hdr_def)

lemma hdr_protocol_short:
  "hdr m f d st p s \<Longrightarrow> at_protocol st c \<Longrightarrow> bit c 0 \<Longrightarrow>
     input_char alloc c s = Some (s\<lparr>in_protocol := ucast c, in_state := PDDATA\<rparr>)"
  unfolding at_protocol_def using and_1_iff [of c]
  by (elim disjE) (auto simp: input_char_def input_address_def input_control_def
      input_protocol1_def hdr_def)

lemma hdr_protocol2:
  "hdr m f d PDPROTOCOL2 p s \<Longrightarrow>
     input_char alloc c s = Some (s\<lparr>in_protocol := p OR ucast c, in_state := PDDATA\<rparr>)"
  by (auto simp: input_char_def hdr_def)

lemma hdr_data: "hdr m f d PDDATA p s \<Longrightarrow> rx_at m f d p [] s"
  by (simp add: hdr_def rx_at_def rx_data_def)

text \<open>The protocol field, in one or two bytes.\<close>

lemma pppos_input_protocol:
  assumes fit: "maps_fit om im" and h: "hdr im f d st q s"
    and p: "bit p 0" "\<not> bit p 8" "short \<Longrightarrow> \<not> 0xff < p"
    and st: "at_protocol st (if short then ucast p else ucast (drop_bit 8 p))"
    and bs: "bs = (if short then [] else [ucast (drop_bit 8 p)]) @ [ucast p]"
  shows "\<exists>s'. pppos_input alloc up (concat (map (encode om) bs) @ cs) s = pppos_input alloc up cs s' \<and>
    rx_at im (foldl PPP_FCS f bs) d p [] s'"
proof (cases short)
  case True
  with st have "at_protocol st (ucast p)" by simp
  from pppos_input_hdr [OF fit h hdr_protocol_short [OF h this low_bit [OF p(1)]], where up = up]
  show ?thesis using True p(3) by (auto simp: bs u16_small dest!: hdr_data)
next
  case False
  let ?h = "ucast (drop_bit 8 p) :: u8"
  from False st have "at_protocol st ?h" by simp
  from pppos_input_hdr [OF fit h hdr_protocol1 [OF h this high_bit [OF p(2)]], where up = up]
  obtain s1 where s1: "pppos_input alloc up (encode om ?h @ encode om (ucast p) @ cs) s
      = pppos_input alloc up (encode om (ucast p) @ cs) s1"
    "hdr im (PPP_FCS f ?h) d PDPROTOCOL2 (push_bit 8 (ucast ?h)) s1" by blast
  from pppos_input_hdr [OF fit s1(2) hdr_protocol2 [where c = "ucast p", OF s1(2)], where up = up]
  show ?thesis using False s1(1) by (auto simp: bs u16_join dest!: hdr_data)
qed

text \<open>The whole header the sender puts before a packet.\<close>

lemma pppos_input_header:
  assumes fit: "maps_fit om im" and r: "ready im d s" and p: "protocol_ok (accomp t) (pcomp t) p"
  shows "\<exists>s'. pppos_input alloc up (concat (map (encode om) (header_bytes p t)) @ cs) s
      = pppos_input alloc up cs s' \<and>
    rx_at im (foldl PPP_FCS PPP_INITFCS (header_bytes p t)) d p [] s'"
proof -
  let ?short = "pcomp t \<and> \<not> 0xff < p"
  let ?bs = "(if ?short then [] else [ucast (drop_bit 8 p)]) @ [ucast p :: u8]"
  have bs: "header_bytes p t = (if accomp t then [] else [0xff, 0x03]) @ ?bs"
    by (auto simp: header_bytes_def)
  have b: "bit p 0" "\<not> bit p 8" using p by (simp_all add: protocol_ok_def)
  from r have h: "hdr im PPP_INITFCS d PDADDRESS (in_protocol s) s" by (simp add: ready_def hdr_def)
  show ?thesis
  proof (cases "accomp t")
    case True
    have "at_protocol PDADDRESS (if ?short then ucast p else ucast (drop_bit 8 p))"
      using p True by (auto simp: at_protocol_def protocol_ok_def dest: u16_small high_bit)
    from pppos_input_protocol [OF fit h b _ this refl] show ?thesis using True by (simp add: bs)
  next
    case False
    obtain s1 where s1: "pppos_input alloc up (encode om 0xff @ encode om 3 @ concat (map (encode om) ?bs) @ cs) s
        = pppos_input alloc up (encode om 3 @ concat (map (encode om) ?bs) @ cs) s1"
      "hdr im (PPP_FCS PPP_INITFCS 0xff) d PDCONTROL (in_protocol s) s1"
      using pppos_input_hdr [OF fit h hdr_address [OF h]] by blast
    obtain s2 where s2: "pppos_input alloc up (encode om 3 @ concat (map (encode om) ?bs) @ cs) s1
        = pppos_input alloc up (concat (map (encode om) ?bs) @ cs) s2"
      "hdr im (PPP_FCS (PPP_FCS PPP_INITFCS 0xff) 3) d PDPROTOCOL1 (in_protocol s) s2"
      using pppos_input_hdr [OF fit s1(2) hdr_control [OF s1(2)]] by blast
    have "at_protocol PDPROTOCOL1 (if ?short then ucast p else ucast (drop_bit 8 p))"
      by (simp add: at_protocol_def)
    from pppos_input_protocol [OF fit s2(2) b _ this refl, where up = up and alloc = alloc and cs = cs]
    show ?thesis using False s1(1) s2(1) by (auto simp: bs)
  qed
qed

lemma take_packet_ok:
  assumes "rx_data p (bs @ [a, b]) s"
  shows "take_packet s = Some (proto_bytes p @ bs)"
proof (cases "in_tail s")
  case Tail_Null
  with assms show ?thesis by (simp add: rx_data_def)
next
  case Tail_Head
  with assms show ?thesis by (simp add: rx_data_def take_packet_def)
next
  case (Tail_Buf t)
  with assms obtain h where h: "in_head s = Some h" "h @ t = proto_bytes p @ bs @ [a, b]"
    by (auto simp: rx_data_def)
  have "take (length (h @ t) - 2) (h @ t) = proto_bytes p @ bs" unfolding h(2) by simp
  moreover have "2 \<le> length (h @ t)" unfolding h(2) by simp
  ultimately show ?thesis using Tail_Buf h(1)
    by (auto simp: take_packet_def)
qed

lemma fcs_of_checked: "foldl PPP_FCS PPP_INITFCS (bs @ check_bytes bs) = PPP_GOODFCS"
  by (simp add: check_bytes_def fcs_of_def good_residue)

definition quiet :: "(u8 list \<Rightarrow> pppos_pcb \<Rightarrow> pppos_pcb) \<Rightarrow> bool" where
  "quiet up \<longleftrightarrow> (\<forall>inp s. link_open (up inp s) = link_open s \<and> in_accm (up inp s) = in_accm s \<and>
     in_head (up inp s) = in_head s \<and> in_tail (up inp s) = in_tail s \<and>
     delivered (up inp s) = delivered s)"

lemma flag_idle:
  assumes "maps_fit om im" "link_open s" "in_accm s = im"
    and "in_state s = PDIDLE \<or> in_state s = PDSTART \<or> in_state s = PDADDRESS"
  shows "pppos_input alloc up (PPP_FLAG # cs) s
    = pppos_input alloc up cs (s\<lparr>in_fcs := PPP_INITFCS, in_state := PDADDRESS, in_escaped := False\<rparr>)"
  using assms by (auto simp: pppos_input_byte_def input_flag_def maps_fit_def)

lemma pppos_input_frame:
  assumes al: "\<forall>n. alloc n" and fit: "maps_fit om im" and r: "ready im d s"
    and p: "protocol_ok (accomp t) (pcomp t) p" and q: "quiet up"
  shows "\<exists>s'. pppos_input alloc up (frame om (header_bytes p t @ data) @ cs) s
      = pppos_input alloc up cs s' \<and> ready im (d @ [proto_bytes p @ data]) s'"
proof -
  let ?c = "header_bytes p t @ data"
  let ?rest = "concat (map (encode om) (data @ check_bytes ?c)) @ PPP_FLAG # cs"
  obtain s1 where s1: "pppos_input alloc up (concat (map (encode om) (header_bytes p t)) @ ?rest) s
      = pppos_input alloc up ?rest s1"
    "rx_at im (foldl PPP_FCS PPP_INITFCS (header_bytes p t)) d p [] s1"
    using pppos_input_header [OF fit r p] by blast
  obtain s2 where s2: "pppos_input alloc up ?rest s1 = pppos_input alloc up (PPP_FLAG # cs) s2"
    "rx_at im (foldl PPP_FCS PPP_INITFCS (?c @ check_bytes ?c)) d p (data @ check_bytes ?c) s2"
    using pppos_input_data_bytes [OF al fit s1(2), where xs = "data @ check_bytes ?c" and up = up
        and cs = "PPP_FLAG # cs"] by (auto simp del: pppos_input.simps)
  let ?s3 = "up (proto_bytes p @ data) (s2\<lparr>in_head := None, in_tail := Tail_Null,
    delivered := delivered s2 @ [proto_bytes p @ data]\<rparr>)"
  let ?s4 = "?s3\<lparr>in_fcs := PPP_INITFCS, in_state := PDADDRESS, in_escaped := False\<rparr>"
  note s2' = s2(2) [unfolded fcs_of_checked]
  then have "rx_data p (data @ check_bytes ?c) s2" by (simp add: rx_at_def)
  then have tp: "take_packet s2 = Some (proto_bytes p @ data)"
    unfolding check_bytes_def by (rule take_packet_ok)
  have a: "rx_open im s2" "in_fcs s2 = PPP_GOODFCS" "delivered s2 = d" "in_state s2 = PDDATA"
    "take_packet s2 = Some (proto_bytes p @ data)"
    using s2' tp by (simp_all add: rx_at_def rx_data_def)
  then have "pppos_input alloc up (PPP_FLAG # cs) s2 = pppos_input alloc up cs ?s4"
    using fit by (auto simp: pppos_input_byte_def input_flag_def maps_fit_def rx_open_def Let_def)
  moreover have "ready im (d @ [proto_bytes p @ data]) ?s4"
    using a q by (auto simp: ready_def rx_open_def quiet_def)
  moreover have "frame om ?c @ cs = concat (map (encode om) (header_bytes p t)) @ ?rest"
    by (simp add: frame_def)
  ultimately show ?thesis using s1(1) s2(1) by auto
qed

text \<open>A packet to send: the time, the protocol and the buffers of its data.\<close>

type_synonym packet = "u32 \<times> u16 \<times> u8 list list"

definition packet_up :: "packet \<Rightarrow> u8 list" where
  "packet_up k = (case k of (now, p, pb) \<Rightarrow> proto_bytes p @ concat pb)"

definition send_all :: "(u8 list \<Rightarrow> u32) \<Rightarrow> packet list \<Rightarrow> pppos_pcb \<Rightarrow> pppos_pcb" where
  "send_all cb ks s = fold (\<lambda>(now, p, pb) s. snd (pppos_netif_output True cb now pb p s)) ks s"

fun wire :: "packet list \<Rightarrow> pppos_pcb \<Rightarrow> u8 list" where
  "wire [] s = []"
| "wire ((now, p, pb) # ks) s =
     lead_in now s @ frame (out_accm s) (header_bytes p s @ concat pb) @ wire ks (s\<lparr>last_xmit := now\<rparr>)"

lemma wire_sent: "wire ks (s\<lparr>sent := x, last_xmit := t\<rparr>) = wire ks (s\<lparr>last_xmit := t\<rparr>)"
  by (induction ks s arbitrary: t rule: wire.induct) (simp_all add: lead_in_def header_bytes_def)

lemma send_all_wire:
  "accepts cb \<Longrightarrow> sent (send_all cb ks s) = sent s @ wire ks s"
proof (induction ks arbitrary: s)
  case Nil
  then show ?case by (simp add: send_all_def)
next
  case (Cons k ks)
  obtain now p pb where k: "k = (now, p, pb)" by (cases k) auto
  from Cons.IH [OF Cons.prems] show ?case
    by (simp add: send_all_def k pppos_netif_output_frame [OF Cons.prems] wire_sent)
qed

lemma input_lead_in:
  assumes "maps_fit om im" "ready im d r"
  shows "pppos_input alloc up (lead_in now s @ cs) r = pppos_input alloc up cs r"
proof -
  have "r\<lparr>in_fcs := PPP_INITFCS, in_state := PDADDRESS, in_escaped := False\<rparr> = r"
    using assms(2) by (simp add: ready_def rx_open_def)
  then have "pppos_input alloc up (PPP_FLAG # cs) r = pppos_input alloc up cs r"
    using flag_idle [OF assms(1), of r] assms(2)
    by (simp add: ready_def rx_open_def del: pppos_input.simps)
  then show ?thesis by (simp add: lead_in_def del: pppos_input.simps)
qed

lemma stream_ready:
  assumes al: "\<forall>n. alloc n" and q: "quiet up"
  shows "maps_fit (out_accm s) im \<Longrightarrow> ready im d r \<Longrightarrow>
    \<forall>(now, p, pb)\<in>set ks. protocol_ok (accomp s) (pcomp s) p \<Longrightarrow>
    \<exists>r'. pppos_input alloc up (wire ks s) r = Some r' \<and> ready im (d @ map packet_up ks) r'"
proof (induction ks arbitrary: s r d)
  case Nil
  then show ?case by auto
next
  case (Cons k ks)
  obtain now p pb where k: "k = (now, p, pb)" by (cases k) auto
  have p: "protocol_ok (accomp s) (pcomp s) p" using Cons.prems(3) k by simp
  obtain r2 where r2: "pppos_input alloc up (frame (out_accm s) (header_bytes p s @ concat pb) @
        wire ks (s\<lparr>last_xmit := now\<rparr>)) r = pppos_input alloc up (wire ks (s\<lparr>last_xmit := now\<rparr>)) r2"
    "ready im (d @ [packet_up k]) r2"
    using pppos_input_frame [OF al Cons.prems(1,2) p q] by (auto simp: packet_up_def k)
  have "\<exists>r'. pppos_input alloc up (wire ks (s\<lparr>last_xmit := now\<rparr>)) r2 = Some r' \<and>
      ready im ((d @ [packet_up k]) @ map packet_up ks) r'"
    by (rule Cons.IH [OF _ r2(2)]) (use Cons.prems(1,3) in auto)
  then show ?case by (simp add: k input_lead_in [OF Cons.prems(1,2)] r2(1))
qed

text \<open>
  C12. Round trip of the framing: two ends that connect, negotiate character maps (the
  receiver's map within the sender's) and header compressions, and of which one sends any
  sequence of packets with valid protocol numbers over a lossless line. The other end,
  which has buffers, passes up exactly these packets, in order, each as its two protocol
  bytes and its data, whatever the bytes are and however the senders' buffers cut them.
\<close>
theorem pppos_stream_roundtrip:
  assumes "accepts cb" and "\<forall>n. alloc n" and "quiet up"
    and maps: "b AND NOT a = 0"
    and ks: "\<forall>(now, p, pb)\<in>set ks. protocol_ok ac pc p"
    and first: "\<forall>(now, p, pb)\<in>set (take 1 ks). 100 \<le> now"
  shows "\<exists>r'. pppos_input alloc up
      (drop (length (sent s)) (sent (send_all cb ks (pppos_send_config a pc ac (pppos_open_link s)))))
      (pppos_recv_config b (pppos_open_link r)) = Some r' \<and>
    delivered r' = delivered r @ map packet_up ks"
proof -
  let ?s = "pppos_send_config a pc ac (pppos_open_link s)"
  let ?r = "pppos_recv_config b (pppos_open_link r)"
  let ?r1 = "?r\<lparr>in_fcs := PPP_INITFCS, in_state := PDADDRESS, in_escaped := False\<rparr>"
  have "bit b i \<Longrightarrow> bit a i" for i
    using maps by (metis bit_and_iff bit_not_iff bit_0_eq bot_apply bit_imp_possible_bit bot_bool_def)
  then have fit: "maps_fit (negotiated a) (negotiated b)" by (rule maps_fit_negotiated)
  have s: "out_accm ?s = negotiated a" "sent ?s = sent s" "accomp ?s = ac" "pcomp ?s = pc" "last_xmit ?s = 0"
    by (simp_all add: pppos_send_config_def pppos_open_link_def negotiated_def)
  have r: "ready (negotiated b) (delivered r) ?r1"
    by (simp add: ready_def rx_open_def pppos_recv_config_def pppos_open_link_def negotiated_def)
  have fit': "maps_fit (out_accm ?s) (negotiated b)" using fit s by simp
  have w: "drop (length (sent s)) (sent (send_all cb ks ?s)) = wire ks ?s"
    by (simp add: send_all_wire [OF assms(1)] s)
  show ?thesis
  proof (cases ks)
    case Nil
    have "delivered ?r = delivered r" by (simp add: pppos_recv_config_def pppos_open_link_def)
    then show ?thesis unfolding w by (simp add: Nil)
  next
    case (Cons k ks')
    then obtain now p pb where "k = (now, p, pb)" "100 \<le> now" using first by (cases k) auto
    then have "lead_in now ?s = [PPP_FLAG]" by (simp add: lead_in_def s)
    then obtain cs where cs: "wire ks ?s = PPP_FLAG # cs" using Cons \<open>k = _\<close> by simp
    have "pppos_input alloc up (wire ks ?s) ?r = pppos_input alloc up cs ?r1"
      unfolding cs
      by (rule flag_idle [OF fit]) (simp_all add: pppos_recv_config_def pppos_open_link_def negotiated_def)
    moreover have "pppos_input alloc up (wire ks ?s) ?r1 = pppos_input alloc up cs ?r1"
      unfolding cs by (subst flag_idle [OF fit])
        (simp_all add: pppos_recv_config_def pppos_open_link_def negotiated_def)
    moreover have "\<forall>(now, p, pb)\<in>set ks. protocol_ok (accomp ?s) (pcomp ?s) p"
      using ks unfolding s .
    ultimately show ?thesis unfolding w
      using stream_ready [OF assms(2,3) fit' r, of ks] unfolding ready_def by metis
  qed
qed


definition blank_link :: pppos_pcb where
  "blank_link = \<lparr>last_xmit = 0, out_accm = [], link_open = False, pcomp = False, accomp = False,
     in_accm = [], in_head = None, in_tail = Tail_Null, in_protocol = 0, in_fcs = 0,
     in_state = PDIDLE, in_escaped = False, allocs = 0, delivered = [], sent = []\<rparr>"

definition all_ok :: "u8 list \<Rightarrow> u32" where
  "all_ok bs = of_nat (length bs)"

theorem pppos_stream_roundtrip_witness:
  "\<exists>r'. pppos_input (\<lambda>_. True) (\<lambda>_ s. s)
      (drop (length (sent blank_link)) (sent (send_all all_ok
         [(100, 0x21, [[0x7e, 0x7d], [1]]), (101, 0x57, [[1, 2]])]
         (pppos_send_config 3 True False (pppos_open_link blank_link)))))
      (pppos_recv_config 1 (pppos_open_link blank_link)) = Some r' \<and>
    delivered r' = [[0, 0x21, 0x7e, 0x7d, 1], [0, 0x57, 1, 2]]"
  using pppos_stream_roundtrip [of all_ok "\<lambda>_. True" "\<lambda>_ s. s" 1 3
      "[(100, 0x21, [[0x7e, 0x7d], [1]]), (101, 0x57, [[1, 2]])]" False True blank_link blank_link]
  by (simp add: accepts_def all_ok_def quiet_def protocol_ok_def packet_up_def proto_bytes_def
      blank_link_def bit_numeral_rec)

section \<open>Faults of the receiver\<close>

text \<open>The parser's invariant: where the packet's buffers are, and that they have room.\<close>

definition rx_wf :: "pppos_pcb \<Rightarrow> bool" where
  "rx_wf s \<longleftrightarrow>
     (case in_tail s of
        Tail_Null \<Rightarrow> in_head s = None
      | Tail_Head \<Rightarrow> (\<exists>h. in_head s = Some h \<and> 3 \<le> length h \<and> length h \<le> PBUF_POOL_BUFSIZE)
      | Tail_Buf t \<Rightarrow> (\<exists>h. in_head s = Some h \<and> PBUF_POOL_BUFSIZE \<le> length h) \<and>
          t \<noteq> [] \<and> length t \<le> PBUF_POOL_BUFSIZE) \<and>
     (in_state s \<noteq> PDDATA \<longrightarrow> in_tail s = Tail_Null)"

text \<open>The NULL dereference: a good frame that ends before its first data byte.\<close>

definition header_only :: "pppos_pcb \<Rightarrow> bool" where
  "header_only s \<longleftrightarrow> in_state s = PDDATA \<and> in_fcs s = PPP_GOODFCS \<and> in_tail s = Tail_Null"

lemma rx_wf_drop: "rx_wf (pppos_input_drop s)"
  by (simp add: rx_wf_def pppos_input_drop_def pppos_input_free_current_packet_def)

lemma input_char_wf:
  assumes "rx_wf s"
  shows "\<exists>s'. input_char alloc c s = Some s' \<and> rx_wf s'"
proof (cases "in_state s = PDDATA")
  case False
  with assms show ?thesis
    by (auto simp: input_char_def input_address_def input_control_def input_protocol1_def rx_wf_def
        split: parser_state.splits)
next
  case True
  with assms show ?thesis
    by (auto simp: input_char_def input_data_def tail_full_def store_byte_def rx_wf_def Let_def
        pppos_input_drop_def pppos_input_free_current_packet_def split: tail.splits)
qed

lemma take_packet_wf:
  "rx_wf s \<Longrightarrow> in_tail s \<noteq> Tail_Null \<Longrightarrow> \<exists>p. take_packet s = Some p"
  by (auto simp: rx_wf_def take_packet_def split: tail.splits)

text \<open>
  The upper layers may close, reopen and reconfigure the link while they handle a packet,
  but they do not touch the (empty) packet buffers.
\<close>

definition tame :: "(u8 list \<Rightarrow> pppos_pcb \<Rightarrow> pppos_pcb) \<Rightarrow> bool" where
  "tame up \<longleftrightarrow> (\<forall>inp s. in_head s = None \<longrightarrow> in_tail s = Tail_Null \<longrightarrow>
     in_head (up inp s) = None \<and> in_tail (up inp s) = Tail_Null \<and> delivered (up inp s) = delivered s)"

lemma quiet_tame: "quiet up \<Longrightarrow> tame up"
  by (simp add: quiet_def tame_def)

definition good_frame :: "pppos_pcb \<Rightarrow> bool" where
  "good_frame s \<longleftrightarrow> in_state s = PDDATA \<and> in_fcs s = PPP_GOODFCS"

lemma input_flag_wf:
  assumes "rx_wf s" "tame up" "\<not> header_only s"
  shows "\<exists>s'. input_flag up s = Some s' \<and> rx_wf s' \<and> in_fcs s' = PPP_INITFCS \<and>
    in_state s' = PDADDRESS \<and> \<not> in_escaped s' \<and> in_tail s' = Tail_Null \<and>
    delivered s' = delivered s @ (if good_frame s then [the (take_packet s)] else [])"
proof (cases "good_frame s")
  case True
  with assms(3) have "in_tail s \<noteq> Tail_Null" by (simp add: header_only_def good_frame_def)
  from take_packet_wf [OF assms(1) this] obtain p where "take_packet s = Some p" ..
  then show ?thesis using True assms(2)
    by (auto simp: input_flag_def rx_wf_def tame_def Let_def good_frame_def)
next
  case False
  with assms(1) show ?thesis
    by (cases "in_state s") (auto simp: input_flag_def rx_wf_def pppos_input_drop_def
        pppos_input_free_current_packet_def good_frame_def)
qed

text \<open>The receive path from a link that was opened, with any bytes and buffer failures.\<close>

inductive rx_step :: "(nat \<Rightarrow> bool) \<Rightarrow> (u8 list \<Rightarrow> pppos_pcb \<Rightarrow> pppos_pcb) \<Rightarrow> pppos_pcb \<Rightarrow> pppos_pcb \<Rightarrow> bool"
  for alloc up where
  byte: "link_open s \<Longrightarrow> pppos_input_byte alloc up c s = Some s' \<Longrightarrow> rx_step alloc up s s'"
| config: "rx_step alloc up s (pppos_recv_config a s)"
| close_link: "rx_step alloc up s (pppos_close_link s)"
| open_link: "rx_step alloc up s (pppos_open_link s)"

inductive_cases rx_stepE: "rx_step alloc up s s'"

lemma input_char_delivered:
  "input_char alloc c s = Some s' \<Longrightarrow> delivered s' = delivered s"
  by (auto simp: input_char_def input_address_def input_control_def input_protocol1_def
      input_data_def store_byte_def Let_def pppos_input_drop_def pppos_input_free_current_packet_def
      split: parser_state.splits if_splits tail.splits bind_splits)

lemma input_char_frame:
  "input_char alloc c s = Some s' \<Longrightarrow> link_open s' = link_open s \<and> in_accm s' = in_accm s"
  by (auto simp: input_char_def input_address_def input_control_def input_protocol1_def
      input_data_def store_byte_def Let_def pppos_input_drop_def pppos_input_free_current_packet_def
      split: parser_state.splits if_splits tail.splits bind_splits)

text \<open>The only fault of a byte: the flag that ends a good frame without data.\<close>

lemma pppos_input_byte_wf:
  assumes "rx_wf s" "tame up"
  shows "(pppos_input_byte alloc up c s = None \<longleftrightarrow>
      c = PPP_FLAG \<and> ESCAPE_P (in_accm s) c \<and> header_only s) \<and>
    (\<forall>s'. pppos_input_byte alloc up c s = Some s' \<longrightarrow> rx_wf s' \<and>
      delivered s' = delivered s @
        (if c = PPP_FLAG \<and> ESCAPE_P (in_accm s) c \<and> good_frame s then [the (take_packet s)] else []))"
proof (cases "ESCAPE_P (in_accm s) c")
  case True
  show ?thesis
  proof (cases "c = PPP_FLAG")
    case f: True
    show ?thesis
    proof (cases "header_only s")
      case True
      then have "take_packet s = None"
        by (auto simp: header_only_def take_packet_def split: bind_splits)
      with True f \<open>ESCAPE_P _ _\<close> show ?thesis
        by (simp add: pppos_input_byte_def input_flag_def header_only_def)
    next
      case False
      from input_flag_wf [OF assms False] True f False show ?thesis
        by (auto simp: pppos_input_byte_def)
    qed
  next
    case False
    with True assms(1) show ?thesis
      by (auto simp: pppos_input_byte_def rx_wf_def split: tail.splits)
  qed
next
  case False
  have "rx_wf (s\<lparr>in_escaped := False\<rparr>)"
    using assms(1) by (simp add: rx_wf_def split: tail.splits)
  from input_char_wf [OF this, of alloc "if in_escaped s then c XOR PPP_TRANS else c"]
  obtain s1 where s1: "input_char alloc (if in_escaped s then c XOR PPP_TRANS else c) (s\<lparr>in_escaped := False\<rparr>) = Some s1"
    "rx_wf s1" by blast
  then have "delivered s1 = delivered s" by (auto dest: input_char_delivered)
  with False s1 show ?thesis
    by (auto simp: pppos_input_byte_def Let_def rx_wf_def split: tail.splits)
qed

lemma rx_wf_frame:
  "rx_wf (pppos_recv_config a s) = rx_wf s" "rx_wf (pppos_close_link s)" "rx_wf (pppos_open_link s)"
  by (auto simp: pppos_recv_config_def pppos_close_link_def pppos_input_free_current_packet_def
      pppos_open_link_def rx_wf_def split: tail.splits)

lemma rx_step_wf: "rx_step alloc up s s' \<Longrightarrow> tame up \<longrightarrow> rx_wf s \<Longrightarrow> tame up \<longrightarrow> rx_wf s'"
  by (erule rx_stepE) (auto simp: rx_wf_frame dest: pppos_input_byte_wf)

interpretation rx_packets: step_invariant "rx_step alloc up" "\<lambda>s. tame up \<longrightarrow> rx_wf s" for alloc up
  by unfold_locales (rule rx_step_wf)

lemma rx_reachable_wf:
  "(rx_step alloc up)\<^sup>*\<^sup>* (pppos_open_link s0) s \<Longrightarrow> tame up \<Longrightarrow> rx_wf s"
  using rx_packets.reachable [of alloc up "pppos_open_link s0" s] by (simp add: rx_wf_frame)

text \<open>
  C14. In every state a receiver can be in after its link was opened (any bytes, any buffer
  failures, reconfigurations and reopenings) a further byte is handled without a fault, with
  one exception: the flag that ends a frame with a good check sequence whose data part is
  empty. A packet is passed up exactly at the flag that ends a good frame: a frame that
  fails its check, or is cut off in its header, is dropped. Buffers never overrun.
\<close>
theorem pppos_rx_faults:
  assumes "(rx_step alloc up)\<^sup>*\<^sup>* (pppos_open_link s0) s" and "tame up"
  shows "(pppos_input_byte alloc up c s = None \<longleftrightarrow>
      c = PPP_FLAG \<and> ESCAPE_P (in_accm s) c \<and> header_only s) \<and>
    (\<forall>s'. pppos_input_byte alloc up c s = Some s' \<longrightarrow> rx_wf s' \<and>
      delivered s' = delivered s @
        (if c = PPP_FLAG \<and> ESCAPE_P (in_accm s) c \<and> good_frame s then [the (take_packet s)] else []))"
  by (rule pppos_input_byte_wf [OF rx_reachable_wf [OF assms] assms(2)])

theorem pppos_rx_faults_witness:
  "pppos_input_byte (\<lambda>_. True) (\<lambda>_ s. s) 0x21 (pppos_open_link blank_link) \<noteq> None"
  using pppos_rx_faults [of "\<lambda>_. True" "\<lambda>_ s. s" blank_link "pppos_open_link blank_link" "0x21"]
  by (simp add: tame_def)

text \<open>
  C13. Resynchronisation, in every state a receiver can be in on an open link, after garbage, half a
  frame or a corrupted one: a flag byte makes it ready, the complete frame after it is passed up
  unharmed, and before it at most the one packet the flag has ended. The exception is the state
  after a frame without data whose check sequence is good, as after the bytes 7e 00 00: there
  the flag makes the receiver dereference NULL.
\<close>
theorem pppos_resynchronises:
  assumes "(rx_step alloc up)\<^sup>*\<^sup>* (pppos_open_link s0) s" and "quiet up" and "\<forall>n. alloc n"
    and "link_open s" and "maps_fit om (in_accm s)"
    and "protocol_ok (accomp t) (pcomp t) p"
  shows "if header_only s then pppos_input alloc up (PPP_FLAG # frame om (header_bytes p t @ data)) s = None
    else \<exists>s' junk. pppos_input alloc up (PPP_FLAG # frame om (header_bytes p t @ data)) s = Some s' \<and>
      delivered s' = delivered s @ junk @ [proto_bytes p @ data] \<and>
      junk = (if good_frame s then [the (take_packet s)] else []) \<and> in_state s' = PDADDRESS"
proof (cases "header_only s")
  case True
  have "pppos_input_byte alloc up PPP_FLAG s = None"
    using pppos_input_byte_wf [OF rx_reachable_wf [OF assms(1) quiet_tame [OF assms(2)]] quiet_tame [OF assms(2)]]
      True assms(5) by (auto simp: maps_fit_def)
  then show ?thesis using True assms(4) by simp
next
  case False
  have wf: "rx_wf s" using assms(1,2) by (blast intro: rx_reachable_wf quiet_tame)
  from input_flag_wf [OF wf quiet_tame [OF assms(2)] False] obtain s1 where
    s1: "input_flag up s = Some s1" "rx_wf s1" "in_fcs s1 = PPP_INITFCS" "in_state s1 = PDADDRESS"
    "\<not> in_escaped s1" "in_tail s1 = Tail_Null"
    "delivered s1 = delivered s @ (if good_frame s then [the (take_packet s)] else [])" by blast
  have fr: "link_open s1 = link_open s \<and> in_accm s1 = in_accm s"
    using s1(1) assms(2) by (auto simp: input_flag_def quiet_def Let_def pppos_input_drop_def
        pppos_input_free_current_packet_def split: bind_splits if_splits)
  then have "ready (in_accm s) (delivered s1) s1"
    using s1 assms(4) by (simp add: ready_def rx_open_def rx_wf_def)
  from pppos_input_frame [OF assms(3,5) this assms(6,2), of data "[]"] obtain s2 where
    s2: "pppos_input alloc up (frame om (header_bytes p t @ data)) s1 = Some s2"
    "ready (in_accm s) (delivered s1 @ [proto_bytes p @ data]) s2" by auto
  have "pppos_input alloc up (PPP_FLAG # frame om (header_bytes p t @ data)) s = Some s2"
    using assms(4,5) s1(1) s2(1) by (simp add: pppos_input_byte_def maps_fit_def)
  with s2(2) s1(7) False show ?thesis
    by (auto simp: ready_def)
qed

theorem pppos_resynchronises_witness:
  "\<exists>s'. pppos_input (\<lambda>_. True) (\<lambda>_ s. s)
      (PPP_FLAG # frame default_accm (header_bytes 0x21 blank_link @ [0x7e, 5])) (pppos_open_link blank_link) = Some s' \<and>
    delivered s' = delivered (pppos_open_link blank_link) @ [[0, 0x21, 0x7e, 5]] \<and> in_state s' = PDADDRESS"
  using pppos_resynchronises [of "\<lambda>_. True" "\<lambda>_ s. s" blank_link "pppos_open_link blank_link"
      default_accm blank_link "0x21" "[0x7e, 5]"] maps_fit_negotiated [of 0 0]
  by (simp add: quiet_def protocol_ok_def bit_numeral_rec proto_bytes_def blank_link_def
      pppos_open_link_def header_only_def good_frame_def default_negotiated
      del: pppos_input.simps)

text \<open>
  The four bytes flag, zero, zero, flag make a freshly opened receiver dereference
  NULL: the two zero bytes are taken as a protocol field and are also a correct check
  sequence of nothing, so the frame is good but no buffer was ever allocated for it.
\<close>
theorem empty_frame_dereferences_null:
  "pppos_input alloc up [0x7e, 0, 0, 0x7e] (pppos_open_link s) = None"
  by (simp add: pppos_input_byte_def pppos_open_link_def default_negotiated ESCAPE_P_negotiated
      input_flag_def input_char_def input_address_def input_control_def input_protocol1_def
      PPP_FCS_bits ppp_get_fcs_bits fcs_bit_def take_packet_def Let_def)

text \<open>
  C15. The check sequence table is the CCITT polynomial: each of its 256 entries is the
  value of the bit by bit computation the source keeps for builds without the table.
\<close>
theorem fcs_table_is_polynomial:
  "fcstab ! unat c = ppp_get_fcs c \<and> length fcstab = 256"
  using fcstab_nth [of c] by (simp add: fcstab_map)

end
