(* ===== verification/Ppp_Fsm.thy ===== *)
theory Ppp_Fsm
  imports Prelude
begin

unbundle bit_operations_syntax

text \<open>
  The option negotiation automaton of the PPP control protocols,
  \<open>lwip-2.1.2/src/netif/ppp/fsm.c\<close> (RFC 1661 section 4).

  The automaton is generic in the protocol that uses it, as in the source: the callbacks
  that decide on options are a record of functions over the protocol's private state \<open>'ci\<close>
  (\<open>None\<close> a NULL pointer), and the callbacks that only report (\<open>up\<close>, \<open>down\<close>, \<open>starting\<close>,
  \<open>finished\<close>, \<open>retransmit\<close>) are written to the log \<open>events\<close>. These are the last thing a
  handler does wherever they call back into the automaton, so that such a call is a further
  step. Sent packets are logged with the PPP header. Whether the \<open>n\<close>-th packet buffer can be
  allocated is an argument. The retransmission timer is one-shot and \<open>TIMEOUT\<close> replaces a
  pending one, so it is a flag.
\<close>

datatype fsm_state =
    PPP_FSM_INITIAL | PPP_FSM_STARTING | PPP_FSM_CLOSED | PPP_FSM_STOPPED | PPP_FSM_CLOSING
  | PPP_FSM_STOPPING | PPP_FSM_REQSENT | PPP_FSM_ACKRCVD | PPP_FSM_ACKSENT | PPP_FSM_OPENED

datatype fsm_event = Up | Down | Starting | Finished | Retransmit

abbreviation (input) "CONFREQ \<equiv> 1 :: u8"
abbreviation (input) "CONFACK \<equiv> 2 :: u8"
abbreviation (input) "CONFNAK \<equiv> 3 :: u8"
abbreviation (input) "CONFREJ \<equiv> 4 :: u8"
abbreviation (input) "TERMREQ \<equiv> 5 :: u8"
abbreviation (input) "TERMACK \<equiv> 6 :: u8"
abbreviation (input) "CODEREJ \<equiv> 7 :: u8"
abbreviation (input) "OPT_PASSIVE \<equiv> 1 :: u8"
abbreviation (input) "OPT_RESTART \<equiv> 2 :: u8"
abbreviation (input) "OPT_SILENT \<equiv> 4 :: u8"
abbreviation (input) "HEADERLEN \<equiv> 4 :: nat"

text \<open>
  The callbacks of a protocol. They read and change its private state, and \<open>nakci\<close> and \<open>rejci\<close>,
  whose results are C truth values, also look at the state of the automaton. A \<open>nakci\<close> may
  close the automaton while it runs; then it gives the reason. What an extension handler sends
  is the list of packets (code, identifier, data) of its result.
\<close>

record 'ci fsm_callbacks =
  resetci :: "('ci \<Rightarrow> 'ci) option"
  cilen :: "('ci \<Rightarrow> nat \<times> 'ci) option"
  addci :: "('ci \<Rightarrow> nat \<Rightarrow> u8 list \<times> 'ci) option"
  ackci :: "('ci \<Rightarrow> u8 list \<Rightarrow> bool) option"
  nakci :: "(fsm_state \<Rightarrow> 'ci \<Rightarrow> u8 list \<Rightarrow> bool \<Rightarrow> int \<times> 'ci \<times> u8 list option) option"
  rejci :: "(fsm_state \<Rightarrow> 'ci \<Rightarrow> u8 list \<Rightarrow> int \<times> 'ci) option"
  reqci :: "('ci \<Rightarrow> u8 list \<Rightarrow> bool \<Rightarrow> u8 \<times> u8 list \<times> 'ci) option"
  extcode :: "(fsm_state \<Rightarrow> 'ci \<Rightarrow> u8 \<Rightarrow> u8 \<Rightarrow> u8 list \<Rightarrow> bool \<times> (u8 \<times> u8 \<times> u8 list) list \<times> 'ci) option"
  reports :: "fsm_event \<Rightarrow> bool"     \<comment> \<open>the reporting callbacks that are not NULL\<close>

text \<open>
  What the automaton uses of the control block: the settings, and the peer's receive unit,
  which the link control protocol never lets fall below 128.
\<close>

record fsm_pcb =
  fsm_max_conf_req_transmits :: u8
  fsm_max_term_transmits :: u8
  fsm_max_nak_loops :: u8
  peer_mru :: nat
  fsm_protocol :: u16

record 'ci fsm =
  fstate :: fsm_state
  flags :: u8
  seen_ack :: bool
  id_no :: u8
  reqid :: u8
  retransmits :: u8
  nakloops :: u8
  rnakloops :: u8
  maxnakloops :: u8
  term_reason :: "u8 list"
  ci :: 'ci
  timer :: bool
  fsm_allocs :: nat
  packets :: "u8 list list"    \<comment> \<open>given to \<open>ppp_write\<close>\<close>
  events :: "fsm_event list"

section \<open>Sending\<close>

definition notify :: "'ci fsm_callbacks \<Rightarrow> fsm_event \<Rightarrow> 'ci fsm \<Rightarrow> 'ci fsm" where
  "notify cb e f = (if reports cb e then f\<lparr>events := events f @ [e]\<rparr> else f)"

definition start_timer :: "'ci fsm \<Rightarrow> 'ci fsm" where
  "start_timer f = f\<lparr>timer := True\<rparr>"

definition stop_timer :: "'ci fsm \<Rightarrow> 'ci fsm" where
  "stop_timer f = f\<lparr>timer := False\<rparr>"

definition short_bytes :: "u16 \<Rightarrow> u8 list" where
  "short_bytes w = [ucast (drop_bit 8 w), ucast w]"

text \<open>The packet with the PPP header in front: code, id and length, then the data.\<close>

definition fsm_packet :: "fsm_pcb \<Rightarrow> u8 \<Rightarrow> u8 \<Rightarrow> u8 list \<Rightarrow> u8 list" where
  "fsm_packet pcb code i d =
     [0xff, 0x03] @ short_bytes (fsm_protocol pcb) @ [code, i] @
     short_bytes (of_nat (length d + HEADERLEN)) @ d"

definition fsm_sdata ::
  "(nat \<Rightarrow> bool) \<Rightarrow> fsm_pcb \<Rightarrow> u8 \<Rightarrow> u8 \<Rightarrow> u8 list \<Rightarrow> 'ci fsm \<Rightarrow> 'ci fsm" where
  "fsm_sdata alloc pcb code i d f =
     (let ok = alloc (fsm_allocs f);
          f = f\<lparr>fsm_allocs := Suc (fsm_allocs f)\<rparr>
      in if \<not> ok then f
         else f\<lparr>packets := packets f @ [fsm_packet pcb code i (take (peer_mru pcb - HEADERLEN) d)]\<rparr>)"

text \<open>The options of a request: their length is asked for before a buffer is allocated.\<close>

definition request_length :: "'ci fsm_callbacks \<Rightarrow> fsm_pcb \<Rightarrow> 'ci \<Rightarrow> nat \<times> 'ci" where
  "request_length cb pcb c =
     (case (cilen cb, addci cb) of
        (Some l, Some a) \<Rightarrow> (let (n, c) = l c in (min n (peer_mru pcb - HEADERLEN), c))
      | _ \<Rightarrow> (0, c))"

definition request_options :: "'ci fsm_callbacks \<Rightarrow> nat \<Rightarrow> 'ci \<Rightarrow> u8 list \<times> 'ci" where
  "request_options cb n c =
     (case addci cb of Some a \<Rightarrow> if n \<noteq> 0 then a c n else ([], c) | None \<Rightarrow> ([], c))"

definition request_data :: "'ci fsm_callbacks \<Rightarrow> fsm_pcb \<Rightarrow> 'ci \<Rightarrow> u8 list" where
  "request_data cb pcb c = (let (n, c) = request_length cb pcb c in fst (request_options cb n c))"

definition request_ci :: "'ci fsm_callbacks \<Rightarrow> fsm_pcb \<Rightarrow> 'ci \<Rightarrow> 'ci" where
  "request_ci cb pcb c = (let (n, c) = request_length cb pcb c in snd (request_options cb n c))"

definition negotiating :: "fsm_state \<Rightarrow> bool" where
  "negotiating st \<longleftrightarrow> st = PPP_FSM_REQSENT \<or> st = PPP_FSM_ACKRCVD \<or> st = PPP_FSM_ACKSENT"

definition fsm_sconfreq ::
  "(nat \<Rightarrow> bool) \<Rightarrow> 'ci fsm_callbacks \<Rightarrow> fsm_pcb \<Rightarrow> bool \<Rightarrow> 'ci fsm \<Rightarrow> 'ci fsm" where
  "fsm_sconfreq alloc cb pcb retransmit f =
     (let f = (if \<not> negotiating (fstate f)
               then f\<lparr>nakloops := 0, rnakloops := 0,
                      ci := (case resetci cb of Some r \<Rightarrow> r (ci f) | None \<Rightarrow> ci f)\<rparr>
               else f);
          f = (if \<not> retransmit
               then f\<lparr>id_no := id_no f + 1, reqid := id_no f + 1,
                      retransmits := fsm_max_conf_req_transmits pcb\<rparr>
               else f);
          f = f\<lparr>seen_ack := False\<rparr>;
          (n, c) = request_length cb pcb (ci f);
          ok = alloc (fsm_allocs f);
          f = f\<lparr>ci := c, fsm_allocs := Suc (fsm_allocs f)\<rparr>
      in if \<not> ok then f
         else let (d, c) = request_options cb n c
              in start_timer (f\<lparr>ci := c, retransmits := retransmits f - 1,
                   packets := packets f @ [fsm_packet pcb CONFREQ (reqid f) d]\<rparr>))"

section \<open>The lower layer and the administrator\<close>

text \<open>The automaton in a control block that was just cleared.\<close>

definition cleared_fsm :: "'ci \<Rightarrow> 'ci fsm" where
  "cleared_fsm c = \<lparr>fstate = PPP_FSM_INITIAL, flags = 0, seen_ack = False, id_no = 0, reqid = 0,
     retransmits = 0, nakloops = 0, rnakloops = 0, maxnakloops = 0, term_reason = [], ci = c,
     timer = False, fsm_allocs = 0, packets = [], events = []\<rparr>"

definition fsm_init :: "fsm_pcb \<Rightarrow> 'ci fsm \<Rightarrow> 'ci fsm" where
  "fsm_init pcb f =
     f\<lparr>fstate := PPP_FSM_INITIAL, flags := 0, id_no := 0,
       maxnakloops := fsm_max_nak_loops pcb, term_reason := []\<rparr>"

definition fsm_lowerup ::
  "(nat \<Rightarrow> bool) \<Rightarrow> 'ci fsm_callbacks \<Rightarrow> fsm_pcb \<Rightarrow> 'ci fsm \<Rightarrow> 'ci fsm" where
  "fsm_lowerup alloc cb pcb f =
     (case fstate f of
        PPP_FSM_INITIAL \<Rightarrow> f\<lparr>fstate := PPP_FSM_CLOSED\<rparr>
      | PPP_FSM_STARTING \<Rightarrow>
          if flags f AND OPT_SILENT \<noteq> 0 then f\<lparr>fstate := PPP_FSM_STOPPED\<rparr>
          else (fsm_sconfreq alloc cb pcb False f)\<lparr>fstate := PPP_FSM_REQSENT\<rparr>
      | _ \<Rightarrow> f)"

definition fsm_lowerdown :: "'ci fsm_callbacks \<Rightarrow> 'ci fsm \<Rightarrow> 'ci fsm" where
  "fsm_lowerdown cb f =
     (case fstate f of
        PPP_FSM_CLOSED \<Rightarrow> f\<lparr>fstate := PPP_FSM_INITIAL\<rparr>
      | PPP_FSM_STOPPED \<Rightarrow> notify cb Starting (f\<lparr>fstate := PPP_FSM_STARTING\<rparr>)
      | PPP_FSM_CLOSING \<Rightarrow> stop_timer (f\<lparr>fstate := PPP_FSM_INITIAL\<rparr>)
      | PPP_FSM_STOPPING \<Rightarrow> stop_timer (f\<lparr>fstate := PPP_FSM_STARTING\<rparr>)
      | PPP_FSM_REQSENT \<Rightarrow> stop_timer (f\<lparr>fstate := PPP_FSM_STARTING\<rparr>)
      | PPP_FSM_ACKRCVD \<Rightarrow> stop_timer (f\<lparr>fstate := PPP_FSM_STARTING\<rparr>)
      | PPP_FSM_ACKSENT \<Rightarrow> stop_timer (f\<lparr>fstate := PPP_FSM_STARTING\<rparr>)
      | PPP_FSM_OPENED \<Rightarrow> (notify cb Down f)\<lparr>fstate := PPP_FSM_STARTING\<rparr>
      | _ \<Rightarrow> f)"

definition fsm_restart ::
  "(nat \<Rightarrow> bool) \<Rightarrow> 'ci fsm_callbacks \<Rightarrow> fsm_pcb \<Rightarrow> 'ci fsm \<Rightarrow> 'ci fsm" where
  "fsm_restart alloc cb pcb f =
     (if flags f AND OPT_RESTART \<noteq> 0 then fsm_lowerup alloc cb pcb (fsm_lowerdown cb f) else f)"

definition fsm_open ::
  "(nat \<Rightarrow> bool) \<Rightarrow> 'ci fsm_callbacks \<Rightarrow> fsm_pcb \<Rightarrow> 'ci fsm \<Rightarrow> 'ci fsm" where
  "fsm_open alloc cb pcb f =
     (case fstate f of
        PPP_FSM_INITIAL \<Rightarrow> notify cb Starting (f\<lparr>fstate := PPP_FSM_STARTING\<rparr>)
      | PPP_FSM_CLOSED \<Rightarrow>
          if flags f AND OPT_SILENT \<noteq> 0 then f\<lparr>fstate := PPP_FSM_STOPPED\<rparr>
          else (fsm_sconfreq alloc cb pcb False f)\<lparr>fstate := PPP_FSM_REQSENT\<rparr>
      | PPP_FSM_CLOSING \<Rightarrow> fsm_restart alloc cb pcb (f\<lparr>fstate := PPP_FSM_STOPPING\<rparr>)
      | PPP_FSM_STOPPED \<Rightarrow> fsm_restart alloc cb pcb f
      | PPP_FSM_OPENED \<Rightarrow> fsm_restart alloc cb pcb f
      | _ \<Rightarrow> f)"

definition send_termreq ::
  "(nat \<Rightarrow> bool) \<Rightarrow> fsm_pcb \<Rightarrow> 'ci fsm \<Rightarrow> 'ci fsm" where
  "send_termreq alloc pcb f =
     (let f = f\<lparr>id_no := id_no f + 1, reqid := id_no f + 1\<rparr>
      in fsm_sdata alloc pcb TERMREQ (reqid f) (term_reason f) f)"

definition terminate_layer ::
  "(nat \<Rightarrow> bool) \<Rightarrow> 'ci fsm_callbacks \<Rightarrow> fsm_pcb \<Rightarrow> fsm_state \<Rightarrow> 'ci fsm \<Rightarrow> 'ci fsm" where
  "terminate_layer alloc cb pcb nextstate f =
     (let f = (if fstate f \<noteq> PPP_FSM_OPENED then stop_timer f else notify cb Down f);
          f = send_termreq alloc pcb (f\<lparr>retransmits := fsm_max_term_transmits pcb\<rparr>)
      in if retransmits f = 0
         then notify cb Finished
           (f\<lparr>fstate := (if nextstate = PPP_FSM_CLOSING then PPP_FSM_CLOSED else PPP_FSM_STOPPED)\<rparr>)
         else (start_timer f)\<lparr>retransmits := retransmits f - 1, fstate := nextstate\<rparr>)"

definition fsm_close ::
  "(nat \<Rightarrow> bool) \<Rightarrow> 'ci fsm_callbacks \<Rightarrow> fsm_pcb \<Rightarrow> u8 list \<Rightarrow> 'ci fsm \<Rightarrow> 'ci fsm" where
  "fsm_close alloc cb pcb reason f =
     (let f = f\<lparr>term_reason := take 255 reason\<rparr>
      in case fstate f of
           PPP_FSM_STARTING \<Rightarrow> f\<lparr>fstate := PPP_FSM_INITIAL\<rparr>
         | PPP_FSM_STOPPED \<Rightarrow> f\<lparr>fstate := PPP_FSM_CLOSED\<rparr>
         | PPP_FSM_STOPPING \<Rightarrow> f\<lparr>fstate := PPP_FSM_CLOSING\<rparr>
         | PPP_FSM_REQSENT \<Rightarrow> terminate_layer alloc cb pcb PPP_FSM_CLOSING f
         | PPP_FSM_ACKRCVD \<Rightarrow> terminate_layer alloc cb pcb PPP_FSM_CLOSING f
         | PPP_FSM_ACKSENT \<Rightarrow> terminate_layer alloc cb pcb PPP_FSM_CLOSING f
         | PPP_FSM_OPENED \<Rightarrow> terminate_layer alloc cb pcb PPP_FSM_CLOSING f
         | _ \<Rightarrow> f)"

definition fsm_protreject ::
  "(nat \<Rightarrow> bool) \<Rightarrow> 'ci fsm_callbacks \<Rightarrow> fsm_pcb \<Rightarrow> 'ci fsm \<Rightarrow> 'ci fsm" where
  "fsm_protreject alloc cb pcb f =
     (let finish = (\<lambda>st f. notify cb Finished (f\<lparr>fstate := st\<rparr>))
      in case fstate f of
           PPP_FSM_CLOSING \<Rightarrow> finish PPP_FSM_CLOSED (stop_timer f)
         | PPP_FSM_CLOSED \<Rightarrow> finish PPP_FSM_CLOSED f
         | PPP_FSM_STOPPING \<Rightarrow> finish PPP_FSM_STOPPED (stop_timer f)
         | PPP_FSM_REQSENT \<Rightarrow> finish PPP_FSM_STOPPED (stop_timer f)
         | PPP_FSM_ACKRCVD \<Rightarrow> finish PPP_FSM_STOPPED (stop_timer f)
         | PPP_FSM_ACKSENT \<Rightarrow> finish PPP_FSM_STOPPED (stop_timer f)
         | PPP_FSM_STOPPED \<Rightarrow> finish PPP_FSM_STOPPED f
         | PPP_FSM_OPENED \<Rightarrow> terminate_layer alloc cb pcb PPP_FSM_STOPPING f
         | _ \<Rightarrow> f)"

section \<open>The timer\<close>

text \<open>The one-shot timer has been taken off the list when the handler runs.\<close>

definition fsm_timeout ::
  "(nat \<Rightarrow> bool) \<Rightarrow> 'ci fsm_callbacks \<Rightarrow> fsm_pcb \<Rightarrow> 'ci fsm \<Rightarrow> 'ci fsm" where
  "fsm_timeout alloc cb pcb f =
     (let f = f\<lparr>timer := False\<rparr>
      in if fstate f = PPP_FSM_CLOSING \<or> fstate f = PPP_FSM_STOPPING
         then if retransmits f = 0
              then notify cb Finished
                (f\<lparr>fstate := (if fstate f = PPP_FSM_CLOSING then PPP_FSM_CLOSED else PPP_FSM_STOPPED)\<rparr>)
              else (let f = start_timer (send_termreq alloc pcb f)
                    in f\<lparr>retransmits := retransmits f - 1\<rparr>)
         else if negotiating (fstate f)
         then if retransmits f = 0
              then (let f = f\<lparr>fstate := PPP_FSM_STOPPED\<rparr>
                    in if flags f AND OPT_PASSIVE = 0 then notify cb Finished f else f)
              else (let f = fsm_sconfreq alloc cb pcb True (notify cb Retransmit f)
                    in if fstate f = PPP_FSM_ACKRCVD then f\<lparr>fstate := PPP_FSM_REQSENT\<rparr> else f)
         else f)"

section \<open>Received packets\<close>

text \<open>Going down from OPENED and negotiating anew.\<close>

definition renegotiate ::
  "(nat \<Rightarrow> bool) \<Rightarrow> 'ci fsm_callbacks \<Rightarrow> fsm_pcb \<Rightarrow> 'ci fsm \<Rightarrow> 'ci fsm" where
  "renegotiate alloc cb pcb f =
     (fsm_sconfreq alloc cb pcb False (notify cb Down f))\<lparr>fstate := PPP_FSM_REQSENT\<rparr>"

text \<open>What the protocol answers to a request: a code and the options sent back.\<close>

definition fsm_reqci :: "'ci fsm_callbacks \<Rightarrow> u8 list \<Rightarrow> 'ci fsm \<Rightarrow> u8 \<times> u8 list \<times> 'ci" where
  "fsm_reqci cb inp f =
     (case reqci cb of
        Some r \<Rightarrow> r (ci f) inp (maxnakloops f \<le> nakloops f)
      | None \<Rightarrow> (if inp \<noteq> [] then CONFREJ else CONFACK, inp, ci f))"

definition answered :: "'ci fsm_callbacks \<Rightarrow> u8 \<Rightarrow> 'ci fsm \<Rightarrow> 'ci fsm" where
  "answered cb code f =
     (if code = CONFACK
      then let f = (if fstate f = PPP_FSM_ACKRCVD
                    then notify cb Up ((stop_timer f)\<lparr>fstate := PPP_FSM_OPENED\<rparr>)
                    else f\<lparr>fstate := PPP_FSM_ACKSENT\<rparr>)
           in f\<lparr>nakloops := 0\<rparr>
      else let f = (if fstate f \<noteq> PPP_FSM_ACKRCVD then f\<lparr>fstate := PPP_FSM_REQSENT\<rparr> else f)
           in if code = CONFNAK then f\<lparr>nakloops := nakloops f + 1\<rparr> else f)"

definition enter_negotiation ::
  "(nat \<Rightarrow> bool) \<Rightarrow> 'ci fsm_callbacks \<Rightarrow> fsm_pcb \<Rightarrow> 'ci fsm \<Rightarrow> 'ci fsm" where
  "enter_negotiation alloc cb pcb f =
     (case fstate f of
        PPP_FSM_OPENED \<Rightarrow> renegotiate alloc cb pcb f
      | PPP_FSM_STOPPED \<Rightarrow> (fsm_sconfreq alloc cb pcb False f)\<lparr>fstate := PPP_FSM_REQSENT\<rparr>
      | _ \<Rightarrow> f)"

definition fsm_rconfreq ::
  "(nat \<Rightarrow> bool) \<Rightarrow> 'ci fsm_callbacks \<Rightarrow> fsm_pcb \<Rightarrow> u8 \<Rightarrow> u8 list \<Rightarrow> 'ci fsm \<Rightarrow> 'ci fsm" where
  "fsm_rconfreq alloc cb pcb i inp f =
     (if fstate f = PPP_FSM_CLOSED then fsm_sdata alloc pcb TERMACK i [] f
      else if fstate f = PPP_FSM_CLOSING \<or> fstate f = PPP_FSM_STOPPING then f
      else
        let f = enter_negotiation alloc cb pcb f;
            (code, reply, ci') = fsm_reqci cb inp f
        in answered cb code (fsm_sdata alloc pcb code i reply (f\<lparr>ci := ci'\<rparr>)))"

definition fsm_rconfack ::
  "(nat \<Rightarrow> bool) \<Rightarrow> 'ci fsm_callbacks \<Rightarrow> fsm_pcb \<Rightarrow> u8 \<Rightarrow> u8 list \<Rightarrow> 'ci fsm \<Rightarrow> 'ci fsm" where
  "fsm_rconfack alloc cb pcb i inp f =
     (if i \<noteq> reqid f \<or> seen_ack f then f
      else if \<not> (case ackci cb of Some a \<Rightarrow> a (ci f) inp | None \<Rightarrow> inp = []) then f
      else
        let f = f\<lparr>seen_ack := True, rnakloops := 0\<rparr>
        in case fstate f of
             PPP_FSM_CLOSED \<Rightarrow> fsm_sdata alloc pcb TERMACK i [] f
           | PPP_FSM_STOPPED \<Rightarrow> fsm_sdata alloc pcb TERMACK i [] f
           | PPP_FSM_REQSENT \<Rightarrow>
               f\<lparr>fstate := PPP_FSM_ACKRCVD, retransmits := fsm_max_conf_req_transmits pcb\<rparr>
           | PPP_FSM_ACKRCVD \<Rightarrow>
               (fsm_sconfreq alloc cb pcb False (stop_timer f))\<lparr>fstate := PPP_FSM_REQSENT\<rparr>
           | PPP_FSM_ACKSENT \<Rightarrow>
               notify cb Up ((stop_timer f)\<lparr>fstate := PPP_FSM_OPENED,
                 retransmits := fsm_max_conf_req_transmits pcb\<rparr>)
           | PPP_FSM_OPENED \<Rightarrow> renegotiate alloc cb pcb f
           | _ \<Rightarrow> f)"

text \<open>The callback for a Configure-Nak or Configure-Reject, with what it does to the automaton.\<close>

definition fsm_nakrej_callback ::
  "(nat \<Rightarrow> bool) \<Rightarrow> 'ci fsm_callbacks \<Rightarrow> fsm_pcb \<Rightarrow> u8 \<Rightarrow> u8 list \<Rightarrow> 'ci fsm \<Rightarrow> int \<times> 'ci fsm" where
  "fsm_nakrej_callback alloc cb pcb code inp f =
     (if code = CONFNAK
      then (case nakci cb of
              Some n \<Rightarrow>
                (let (ret, ci', reason) = n (fstate f) (ci f) inp (maxnakloops f \<le> rnakloops f);
                     f = f\<lparr>ci := ci'\<rparr>
                 in (ret, case reason of Some r \<Rightarrow> fsm_close alloc cb pcb r f | None \<Rightarrow> f))
            | None \<Rightarrow> (0, f))
      else (case rejci cb of
              Some r \<Rightarrow> (let (ret, ci') = r (fstate f) (ci f) inp in (ret, f\<lparr>ci := ci'\<rparr>))
            | None \<Rightarrow> (0, f)))"

definition nakrej_next ::
  "(nat \<Rightarrow> bool) \<Rightarrow> 'ci fsm_callbacks \<Rightarrow> fsm_pcb \<Rightarrow> u8 \<Rightarrow> int \<Rightarrow> 'ci fsm \<Rightarrow> 'ci fsm" where
  "nakrej_next alloc cb pcb i ret f =
     (let again = (\<lambda>f. if ret < 0 then f\<lparr>fstate := PPP_FSM_STOPPED\<rparr> else fsm_sconfreq alloc cb pcb False f)
      in case fstate f of
           PPP_FSM_CLOSED \<Rightarrow> fsm_sdata alloc pcb TERMACK i [] f
         | PPP_FSM_STOPPED \<Rightarrow> fsm_sdata alloc pcb TERMACK i [] f
         | PPP_FSM_REQSENT \<Rightarrow> again (stop_timer f)
         | PPP_FSM_ACKSENT \<Rightarrow> again (stop_timer f)
         | PPP_FSM_ACKRCVD \<Rightarrow>
             (fsm_sconfreq alloc cb pcb False (stop_timer f))\<lparr>fstate := PPP_FSM_REQSENT\<rparr>
         | PPP_FSM_OPENED \<Rightarrow> renegotiate alloc cb pcb f
         | _ \<Rightarrow> f)"

definition fsm_rconfnakrej ::
  "(nat \<Rightarrow> bool) \<Rightarrow> 'ci fsm_callbacks \<Rightarrow> fsm_pcb \<Rightarrow> u8 \<Rightarrow> u8 \<Rightarrow> u8 list \<Rightarrow> 'ci fsm \<Rightarrow> 'ci fsm" where
  "fsm_rconfnakrej alloc cb pcb code i inp f =
     (if i \<noteq> reqid f \<or> seen_ack f then f
      else
        let (ret, f) = fsm_nakrej_callback alloc cb pcb code inp
                         (f\<lparr>rnakloops := (if code = CONFNAK then rnakloops f + 1 else 0)\<rparr>)
        in if ret = 0 then f else nakrej_next alloc cb pcb i ret (f\<lparr>seen_ack := True\<rparr>))"

definition fsm_rtermreq ::
  "(nat \<Rightarrow> bool) \<Rightarrow> 'ci fsm_callbacks \<Rightarrow> fsm_pcb \<Rightarrow> u8 \<Rightarrow> 'ci fsm \<Rightarrow> 'ci fsm" where
  "fsm_rtermreq alloc cb pcb i f =
     (let f = (case fstate f of
                 PPP_FSM_ACKRCVD \<Rightarrow> f\<lparr>fstate := PPP_FSM_REQSENT\<rparr>
               | PPP_FSM_ACKSENT \<Rightarrow> f\<lparr>fstate := PPP_FSM_REQSENT\<rparr>
               | PPP_FSM_OPENED \<Rightarrow>
                   start_timer (notify cb Down (f\<lparr>retransmits := 0, fstate := PPP_FSM_STOPPING\<rparr>))
               | _ \<Rightarrow> f)
      in fsm_sdata alloc pcb TERMACK i [] f)"

definition fsm_rtermack ::
  "(nat \<Rightarrow> bool) \<Rightarrow> 'ci fsm_callbacks \<Rightarrow> fsm_pcb \<Rightarrow> 'ci fsm \<Rightarrow> 'ci fsm" where
  "fsm_rtermack alloc cb pcb f =
     (case fstate f of
        PPP_FSM_CLOSING \<Rightarrow> notify cb Finished ((stop_timer f)\<lparr>fstate := PPP_FSM_CLOSED\<rparr>)
      | PPP_FSM_STOPPING \<Rightarrow> notify cb Finished ((stop_timer f)\<lparr>fstate := PPP_FSM_STOPPED\<rparr>)
      | PPP_FSM_ACKRCVD \<Rightarrow> f\<lparr>fstate := PPP_FSM_REQSENT\<rparr>
      | PPP_FSM_OPENED \<Rightarrow> renegotiate alloc cb pcb f
      | _ \<Rightarrow> f)"

definition fsm_rcoderej :: "u8 list \<Rightarrow> 'ci fsm \<Rightarrow> 'ci fsm" where
  "fsm_rcoderej inp f =
     (if length inp < HEADERLEN then f
      else if fstate f = PPP_FSM_ACKRCVD then f\<lparr>fstate := PPP_FSM_REQSENT\<rparr> else f)"

definition fsm_code ::
  "(nat \<Rightarrow> bool) \<Rightarrow> 'ci fsm_callbacks \<Rightarrow> fsm_pcb \<Rightarrow> u8 \<Rightarrow> u8 \<Rightarrow> u8 list \<Rightarrow> u8 list \<Rightarrow> 'ci fsm \<Rightarrow> 'ci fsm" where
  "fsm_code alloc cb pcb code i inp whole f =
     (if code = CONFREQ then fsm_rconfreq alloc cb pcb i inp f
      else if code = CONFACK then fsm_rconfack alloc cb pcb i inp f
      else if code = CONFNAK \<or> code = CONFREJ then fsm_rconfnakrej alloc cb pcb code i inp f
      else if code = TERMREQ then fsm_rtermreq alloc cb pcb i f
      else if code = TERMACK then fsm_rtermack alloc cb pcb f
      else if code = CODEREJ then fsm_rcoderej inp f
      else
        let (known, replies, ci') =
              (case extcode cb of Some x \<Rightarrow> x (fstate f) (ci f) code i inp | None \<Rightarrow> (False, [], ci f));
            f = fold (\<lambda>(code, i, d). fsm_sdata alloc pcb code i d) replies (f\<lparr>ci := ci'\<rparr>)
        in if known then f
           else (let f = f\<lparr>id_no := id_no f + 1\<rparr>
                 in fsm_sdata alloc pcb CODEREJ (id_no f) whole f))"

definition fsm_input ::
  "(nat \<Rightarrow> bool) \<Rightarrow> 'ci fsm_callbacks \<Rightarrow> fsm_pcb \<Rightarrow> u8 list \<Rightarrow> 'ci fsm \<Rightarrow> 'ci fsm" where
  "fsm_input alloc cb pcb p f =
     (if length p < HEADERLEN then f
      else
        let len = unat (word_cat (p ! 2) (p ! 3) :: u16)
        in if len < HEADERLEN then f
           else if length p < len then f
           else if fstate f = PPP_FSM_INITIAL \<or> fstate f = PPP_FSM_STARTING then f
           else fsm_code alloc cb pcb (p ! 0) (p ! 1) (take (len - HEADERLEN) (drop HEADERLEN p)) (take len p) f)"

section \<open>Frames of the helpers\<close>

lemma notify_frame [simp]:
  "fstate (notify cb e f) = fstate f" "timer (notify cb e f) = timer f" "flags (notify cb e f) = flags f"
  "retransmits (notify cb e f) = retransmits f" "reqid (notify cb e f) = reqid f"
  "seen_ack (notify cb e f) = seen_ack f" "packets (notify cb e f) = packets f" "ci (notify cb e f) = ci f"
  "id_no (notify cb e f) = id_no f" "fsm_allocs (notify cb e f) = fsm_allocs f"
  "events (notify cb e f) = events f @ (if reports cb e then [e] else [])"
  by (simp_all add: notify_def)

lemma timer_frame [simp]:
  "timer (start_timer f)" "\<not> timer (stop_timer f)"
  "fstate (start_timer f) = fstate f" "fstate (stop_timer f) = fstate f"
  "events (start_timer f) = events f" "events (stop_timer f) = events f"
  "retransmits (start_timer f) = retransmits f" "retransmits (stop_timer f) = retransmits f"
  "reqid (start_timer f) = reqid f" "reqid (stop_timer f) = reqid f"
  "packets (start_timer f) = packets f" "packets (stop_timer f) = packets f"
  "flags (start_timer f) = flags f" "flags (stop_timer f) = flags f"
  "seen_ack (start_timer f) = seen_ack f" "seen_ack (stop_timer f) = seen_ack f"
  by (simp_all add: start_timer_def stop_timer_def)

lemma sdata_frame [simp]:
  "fstate (fsm_sdata alloc pcb c i d f) = fstate f" "timer (fsm_sdata alloc pcb c i d f) = timer f"
  "events (fsm_sdata alloc pcb c i d f) = events f" "retransmits (fsm_sdata alloc pcb c i d f) = retransmits f"
  "flags (fsm_sdata alloc pcb c i d f) = flags f" "reqid (fsm_sdata alloc pcb c i d f) = reqid f"
  by (simp_all add: fsm_sdata_def Let_def)

lemma replies_frame [simp]:
  "fstate (fold (\<lambda>(c, i, d). fsm_sdata alloc pcb c i d) rs f) = fstate f"
  "timer (fold (\<lambda>(c, i, d). fsm_sdata alloc pcb c i d) rs f) = timer f"
  "events (fold (\<lambda>(c, i, d). fsm_sdata alloc pcb c i d) rs f) = events f"
  by (induction rs arbitrary: f) (simp_all add: case_prod_unfold)

lemma termreq_frame [simp]:
  "fstate (send_termreq alloc pcb f) = fstate f" "timer (send_termreq alloc pcb f) = timer f"
  "events (send_termreq alloc pcb f) = events f" "retransmits (send_termreq alloc pcb f) = retransmits f"
  "flags (send_termreq alloc pcb f) = flags f"
  by (simp_all add: send_termreq_def Let_def)

lemma sconfreq_frame [simp]:
  "fstate (fsm_sconfreq alloc cb pcb r f) = fstate f" "events (fsm_sconfreq alloc cb pcb r f) = events f"
  "timer (fsm_sconfreq alloc cb pcb r f) \<longleftrightarrow> timer f \<or> alloc (fsm_allocs f)"
  "flags (fsm_sconfreq alloc cb pcb r f) = flags f"
  by (simp_all add: fsm_sconfreq_def Let_def start_timer_def case_prod_unfold)

lemma renegotiate_frame [simp]:
  "fstate (renegotiate alloc cb pcb f) = PPP_FSM_REQSENT"
  "events (renegotiate alloc cb pcb f) = events f @ (if reports cb Down then [Down] else [])"
  "timer (renegotiate alloc cb pcb f) \<longleftrightarrow> timer f \<or> alloc (fsm_allocs f)"
  by (simp_all add: renegotiate_def)

section \<open>The invariant of the automaton\<close>

text \<open>
  The contract with the upper layers: \<open>up\<close> and \<open>down\<close> alternate, beginning with \<open>up\<close>.
  The value is whether the layer is up after the events.
\<close>

fun layer_up :: "bool \<Rightarrow> fsm_event list \<Rightarrow> bool option" where
  "layer_up b [] = Some b"
| "layer_up b (Up # es) = (if b then None else layer_up True es)"
| "layer_up b (Down # es) = (if b then layer_up False es else None)"
| "layer_up b (_ # es) = layer_up b es"

lemma layer_up_append:
  "layer_up b (es @ es') = (case layer_up b es of None \<Rightarrow> None | Some b' \<Rightarrow> layer_up b' es')"
  by (induction b es rule: layer_up.induct) auto

definition waiting :: "fsm_state \<Rightarrow> bool" where
  "waiting st \<longleftrightarrow> negotiating st \<or> st = PPP_FSM_CLOSING \<or> st = PPP_FSM_STOPPING"

definition fsm_inv :: "(nat \<Rightarrow> bool) \<Rightarrow> 'ci fsm_callbacks \<Rightarrow> 'ci fsm \<Rightarrow> bool" where
  "fsm_inv alloc cb f \<longleftrightarrow>
     (timer f \<longrightarrow> waiting (fstate f)) \<and>
     (fstate f = PPP_FSM_CLOSING \<or> fstate f = PPP_FSM_STOPPING \<longrightarrow> timer f) \<and>
     ((\<forall>n. alloc n) \<longrightarrow> waiting (fstate f) \<longrightarrow> timer f) \<and>
     (reports cb Up \<and> reports cb Down \<longrightarrow> layer_up False (events f) = Some (fstate f = PPP_FSM_OPENED))"

lemmas waiting_defs = fsm_inv_def waiting_def negotiating_def layer_up_append

lemma fsm_lowerup_inv: "fsm_inv alloc cb f \<Longrightarrow> fsm_inv alloc cb (fsm_lowerup alloc cb pcb f)"
  by (cases "fstate f") (auto simp: fsm_lowerup_def waiting_defs)

lemma fsm_lowerdown_inv: "fsm_inv alloc cb f \<Longrightarrow> fsm_inv alloc cb (fsm_lowerdown cb f)"
  by (cases "fstate f") (auto simp: fsm_lowerdown_def waiting_defs)

lemma fsm_restart_inv: "fsm_inv alloc cb f \<Longrightarrow> fsm_inv alloc cb (fsm_restart alloc cb pcb f)"
  by (simp add: fsm_restart_def fsm_lowerup_inv fsm_lowerdown_inv)

lemma fsm_open_inv: "fsm_inv alloc cb f \<Longrightarrow> fsm_inv alloc cb (fsm_open alloc cb pcb f)"
proof (cases "fstate f = PPP_FSM_CLOSING")
  case True
  assume "fsm_inv alloc cb f"
  with True have "fsm_inv alloc cb (f\<lparr>fstate := PPP_FSM_STOPPING\<rparr>)" by (auto simp: waiting_defs)
  with True show ?thesis by (simp add: fsm_open_def fsm_restart_inv)
next
  case False
  assume "fsm_inv alloc cb f"
  with False show ?thesis
    by (cases "fstate f") (auto simp: fsm_open_def fsm_restart_inv, auto simp: waiting_defs)
qed

lemma terminate_layer_inv:
  assumes "fsm_inv alloc cb f" "negotiating (fstate f) \<or> fstate f = PPP_FSM_OPENED"
    "st = PPP_FSM_CLOSING \<or> st = PPP_FSM_STOPPING"
  shows "fsm_inv alloc cb (terminate_layer alloc cb pcb st f)"
proof (cases "fstate f = PPP_FSM_OPENED")
  case True
  with assms(1,3) show ?thesis by (auto simp: terminate_layer_def Let_def fsm_inv_def layer_up_append waiting_def negotiating_def)
next
  case False
  with assms show ?thesis by (auto simp: terminate_layer_def Let_def fsm_inv_def layer_up_append waiting_def negotiating_def)
qed

lemma fsm_close_inv:
  assumes "fsm_inv alloc cb f"
  shows "fsm_inv alloc cb (fsm_close alloc cb pcb reason f)"
proof -
  have "fsm_inv alloc cb (f\<lparr>term_reason := r\<rparr>)" for r using assms by (simp add: fsm_inv_def)
  then show ?thesis using assms
    by (cases "fstate f") (auto simp: fsm_close_def Let_def negotiating_def intro!: terminate_layer_inv,
        auto simp: waiting_defs)
qed

lemma fsm_protreject_inv: "fsm_inv alloc cb f \<Longrightarrow> fsm_inv alloc cb (fsm_protreject alloc cb pcb f)"
  by (cases "fstate f") (auto simp: fsm_protreject_def Let_def intro!: terminate_layer_inv,
      auto simp: waiting_defs)

lemma fsm_timeout_inv: "fsm_inv alloc cb f \<Longrightarrow> fsm_inv alloc cb (fsm_timeout alloc cb pcb f)"
  by (cases "fstate f") (auto simp: fsm_timeout_def Let_def waiting_defs)

lemma fsm_ci_inv: "fsm_inv alloc cb f \<Longrightarrow> fsm_inv alloc cb (f\<lparr>ci := c\<rparr>)"
  by (simp add: fsm_inv_def)

lemma fsm_sdata_inv: "fsm_inv alloc cb f \<Longrightarrow> fsm_inv alloc cb (fsm_sdata alloc pcb c i d f)"
  by (simp add: fsm_inv_def)

lemma answered_inv:
  "fsm_inv alloc cb f \<Longrightarrow> negotiating (fstate f) \<Longrightarrow> fsm_inv alloc cb (answered cb code f)"
  by (auto simp: answered_def Let_def waiting_defs)

lemma renegotiate_inv:
  "fsm_inv alloc cb f \<Longrightarrow> fstate f = PPP_FSM_OPENED \<Longrightarrow> fsm_inv alloc cb (renegotiate alloc cb pcb f)"
  by (auto simp: waiting_defs)

lemma sconfreq_inv:
  "fsm_inv alloc cb f \<Longrightarrow> fstate f \<noteq> PPP_FSM_OPENED \<Longrightarrow>
     fsm_inv alloc cb ((fsm_sconfreq alloc cb pcb r f)\<lparr>fstate := PPP_FSM_REQSENT\<rparr>)"
  by (auto simp: waiting_defs)

lemma enter_negotiation_inv:
  "fsm_inv alloc cb f \<Longrightarrow> fsm_inv alloc cb (enter_negotiation alloc cb pcb f)"
  by (cases "fstate f") (simp_all add: enter_negotiation_def renegotiate_inv sconfreq_inv)

definition listening :: "fsm_state \<Rightarrow> bool" where
  "listening st \<longleftrightarrow> st = PPP_FSM_STOPPED \<or> st = PPP_FSM_OPENED \<or> negotiating st"

lemma enter_negotiation_state:
  "listening (fstate f) \<Longrightarrow> negotiating (fstate (enter_negotiation alloc cb pcb f))"
  by (cases "fstate f") (simp_all add: enter_negotiation_def listening_def negotiating_def)

lemma fsm_rconfreq_inv:
  assumes "fsm_inv alloc cb f" "fstate f \<noteq> PPP_FSM_INITIAL" "fstate f \<noteq> PPP_FSM_STARTING"
  shows "fsm_inv alloc cb (fsm_rconfreq alloc cb pcb i inp f)"
proof (cases "listening (fstate f)")
  case True
  from enter_negotiation_state [OF this] enter_negotiation_inv [OF assms(1)] show ?thesis
    using assms(1) by (simp add: fsm_rconfreq_def Let_def fsm_sdata_inv fsm_ci_inv answered_inv split: prod.split)
next
  case False
  with assms show ?thesis
    by (cases "fstate f") (simp_all add: fsm_rconfreq_def listening_def negotiating_def fsm_sdata_inv)
qed

lemma fsm_rconfack_inv: "fsm_inv alloc cb f \<Longrightarrow> fsm_inv alloc cb (fsm_rconfack alloc cb pcb i inp f)"
  by (cases "fstate f") (auto simp: fsm_rconfack_def Let_def waiting_defs)

lemma nakrej_callback_inv:
  "fsm_inv alloc cb f \<Longrightarrow> fsm_nakrej_callback alloc cb pcb code inp f = (ret, g) \<Longrightarrow> fsm_inv alloc cb g"
  by (auto simp: fsm_nakrej_callback_def Let_def fsm_ci_inv fsm_close_inv split: if_split_asm option.splits prod.splits)

lemma nakrej_next_inv: "fsm_inv alloc cb f \<Longrightarrow> fsm_inv alloc cb (nakrej_next alloc cb pcb i ret f)"
  by (cases "fstate f") (auto simp: nakrej_next_def waiting_defs)

lemma fsm_rconfnakrej_inv:
  assumes "fsm_inv alloc cb f"
  shows "fsm_inv alloc cb (fsm_rconfnakrej alloc cb pcb code i inp f)"
proof -
  have 1: "fsm_inv alloc cb (f\<lparr>rnakloops := n\<rparr>)" for n using assms by (simp add: fsm_inv_def)
  have 2: "fsm_inv alloc cb g \<Longrightarrow> fsm_inv alloc cb (g\<lparr>seen_ack := b\<rparr>)" for g b by (simp add: fsm_inv_def)
  obtain ret g where g: "fsm_nakrej_callback alloc cb pcb code inp
      (f\<lparr>rnakloops := (if code = CONFNAK then rnakloops f + 1 else 0)\<rparr>) = (ret, g)" by fastforce
  have "fsm_inv alloc cb g" by (rule nakrej_callback_inv [OF 1 g])
  then show ?thesis by (simp add: fsm_rconfnakrej_def g assms nakrej_next_inv 2)
qed

lemma fsm_rtermreq_inv: "fsm_inv alloc cb f \<Longrightarrow> fsm_inv alloc cb (fsm_rtermreq alloc cb pcb i f)"
  by (cases "fstate f") (auto simp: fsm_rtermreq_def Let_def waiting_defs)

lemma fsm_rtermack_inv: "fsm_inv alloc cb f \<Longrightarrow> fsm_inv alloc cb (fsm_rtermack alloc cb pcb f)"
  by (cases "fstate f") (auto simp: fsm_rtermack_def Let_def waiting_defs)

lemma fsm_rcoderej_inv: "fsm_inv alloc cb f \<Longrightarrow> fsm_inv alloc cb (fsm_rcoderej inp f)"
  by (auto simp: fsm_rcoderej_def waiting_defs)

lemma fsm_code_inv:
  "fsm_inv alloc cb f \<Longrightarrow> fstate f \<noteq> PPP_FSM_INITIAL \<Longrightarrow> fstate f \<noteq> PPP_FSM_STARTING \<Longrightarrow>
     fsm_inv alloc cb (fsm_code alloc cb pcb code i inp whole f)"
  by (simp add: fsm_code_def Let_def fsm_rconfreq_inv fsm_rconfack_inv fsm_rconfnakrej_inv
      fsm_rtermreq_inv fsm_rtermack_inv fsm_rcoderej_inv split: prod.split)
    (simp add: fsm_inv_def)

lemma fsm_input_inv: "fsm_inv alloc cb f \<Longrightarrow> fsm_inv alloc cb (fsm_input alloc cb pcb p f)"
  by (simp add: fsm_input_def Let_def fsm_code_inv)

section \<open>Executions\<close>

text \<open>
  What can happen to an automaton: calls of its owner, its timer, packets, and changes the
  owner makes to the options and to the protocol's state.
\<close>

datatype 'ci fsm_op =
    Op_Lowerup | Op_Lowerdown | Op_Open | Op_Close "u8 list" | Op_Protreject | Op_Timeout
  | Op_Input "u8 list" | Op_Flags u8 | Op_Ci 'ci

fun fsm_do ::
  "(nat \<Rightarrow> bool) \<Rightarrow> 'ci fsm_callbacks \<Rightarrow> fsm_pcb \<Rightarrow> 'ci fsm_op \<Rightarrow> 'ci fsm \<Rightarrow> 'ci fsm" where
  "fsm_do alloc cb pcb Op_Lowerup f = fsm_lowerup alloc cb pcb f"
| "fsm_do alloc cb pcb Op_Lowerdown f = fsm_lowerdown cb f"
| "fsm_do alloc cb pcb Op_Open f = fsm_open alloc cb pcb f"
| "fsm_do alloc cb pcb (Op_Close r) f = fsm_close alloc cb pcb r f"
| "fsm_do alloc cb pcb Op_Protreject f = fsm_protreject alloc cb pcb f"
| "fsm_do alloc cb pcb Op_Timeout f = (if timer f then fsm_timeout alloc cb pcb f else f)"
| "fsm_do alloc cb pcb (Op_Input p) f = fsm_input alloc cb pcb p f"
| "fsm_do alloc cb pcb (Op_Flags x) f = f\<lparr>flags := x\<rparr>"
| "fsm_do alloc cb pcb (Op_Ci c) f = f\<lparr>ci := c\<rparr>"

inductive fsm_step :: "(nat \<Rightarrow> bool) \<Rightarrow> 'ci fsm_callbacks \<Rightarrow> 'ci fsm \<Rightarrow> 'ci fsm \<Rightarrow> bool"
  for alloc cb where
  op: "fsm_step alloc cb f (fsm_do alloc cb pcb op f)"

inductive_cases fsm_stepE: "fsm_step alloc cb f f'"

lemma fsm_do_inv: "fsm_inv alloc cb f \<Longrightarrow> fsm_inv alloc cb (fsm_do alloc cb pcb op f)"
  by (cases op) (simp_all add: fsm_lowerup_inv fsm_lowerdown_inv fsm_open_inv fsm_close_inv
      fsm_protreject_inv fsm_timeout_inv fsm_input_inv fsm_ci_inv, simp add: fsm_inv_def)

interpretation fsm_run: step_invariant "fsm_step alloc cb" "fsm_inv alloc cb" for alloc cb
  by unfold_locales (auto elim!: fsm_stepE intro: fsm_do_inv)

lemma fsm_init_inv: "\<not> timer f \<Longrightarrow> events f = [] \<Longrightarrow> fsm_inv alloc cb (fsm_init pcb f)"
  by (simp add: waiting_defs fsm_init_def)

text \<open>
  C17. The contract of the negotiation automaton with the layers above it, in every execution
  from \<open>fsm_init\<close>: \<open>up\<close> and \<open>down\<close> are reported alternately, beginning with \<open>up\<close>, and the
  layer is up exactly in the state OPENED, whatever packets, timeouts and calls come in
  whatever order, and whether or not buffers can be had. The retransmission timer runs only
  while an answer is awaited, and always then if no allocation fails; while the layer is being
  closed it runs in any case.
\<close>
theorem fsm_contract:
  assumes "(fsm_step alloc cb)\<^sup>*\<^sup>* (fsm_init pcb f0) f" and "\<not> timer f0" and "events f0 = []"
  shows "(reports cb Up \<and> reports cb Down \<longrightarrow>
      layer_up False (events f) = Some (fstate f = PPP_FSM_OPENED)) \<and>
    (timer f \<longrightarrow> waiting (fstate f)) \<and>
    (fstate f = PPP_FSM_CLOSING \<or> fstate f = PPP_FSM_STOPPING \<longrightarrow> timer f) \<and>
    ((\<forall>n. alloc n) \<longrightarrow> timer f = waiting (fstate f))"
  using fsm_run.reachable [OF assms(1) fsm_init_inv [OF assms(2,3)]] by (auto simp: fsm_inv_def)

definition quiet_callbacks :: "nat fsm_callbacks" where
  "quiet_callbacks = \<lparr>resetci = None, cilen = Some (\<lambda>c. (4, c)), addci = Some (\<lambda>c n. (replicate n (of_nat c), c)),
     ackci = Some (\<lambda>c d. d = replicate 4 (of_nat c)), nakci = None, rejci = None,
     reqci = Some (\<lambda>c d rej. (CONFACK, d, c)), extcode = None, reports = (\<lambda>_. True)\<rparr>"

definition default_pcb :: fsm_pcb where
  "default_pcb = \<lparr>fsm_max_conf_req_transmits = 10, fsm_max_term_transmits = 2, fsm_max_nak_loops = 5,
     peer_mru = 1500, fsm_protocol = 0xc021\<rparr>"

definition blank_fsm :: "nat \<Rightarrow> nat fsm" where
  "blank_fsm c = \<lparr>fstate = PPP_FSM_INITIAL, flags = 0, seen_ack = False, id_no = 0, reqid = 0,
     retransmits = 0, nakloops = 0, rnakloops = 0, maxnakloops = 0, term_reason = [], ci = c,
     timer = False, fsm_allocs = 0, packets = [], events = []\<rparr>"

theorem fsm_contract_witness:
  "layer_up False (events (fsm_init default_pcb (blank_fsm 7))) = Some False"
  using fsm_contract [of "\<lambda>_. True" quiet_callbacks default_pcb "blank_fsm 7" "fsm_init default_pcb (blank_fsm 7)"]
  by (simp add: blank_fsm_def quiet_callbacks_def fsm_init_def)

section \<open>What opens the layer\<close>

definition packet_data :: "u8 list \<Rightarrow> u8 list" where
  "packet_data p = take (unat (word_cat (p ! 2) (p ! 3) :: u16) - HEADERLEN) (drop HEADERLEN p)"

text \<open>An acknowledgement of the request that is waiting for one.\<close>

definition acknowledges :: "'ci fsm_callbacks \<Rightarrow> 'ci fsm \<Rightarrow> u8 list \<Rightarrow> bool" where
  "acknowledges cb f p \<longleftrightarrow> p ! 0 = CONFACK \<and> p ! 1 = reqid f \<and> \<not> seen_ack f \<and>
     (case ackci cb of Some a \<Rightarrow> a (ci f) (packet_data p) | None \<Rightarrow> packet_data p = [])"

text \<open>A request of the peer that we acknowledge.\<close>

definition acceptable ::
  "(nat \<Rightarrow> bool) \<Rightarrow> 'ci fsm_callbacks \<Rightarrow> fsm_pcb \<Rightarrow> 'ci fsm \<Rightarrow> u8 list \<Rightarrow> bool" where
  "acceptable alloc cb pcb f p \<longleftrightarrow> p ! 0 = CONFREQ \<and>
     fst (fsm_reqci cb (packet_data p) (enter_negotiation alloc cb pcb f)) = CONFACK"

definition agreed_states :: "fsm_state set" where
  "agreed_states = {PPP_FSM_ACKRCVD, PPP_FSM_ACKSENT, PPP_FSM_OPENED}"

lemma restart_not_agreed:
  "fstate f \<notin> agreed_states - {PPP_FSM_OPENED} \<Longrightarrow> fstate (fsm_restart alloc cb pcb f) = fstate f \<or>
     fstate (fsm_restart alloc cb pcb f) \<notin> agreed_states"
  by (cases "fstate f") (auto simp: fsm_restart_def fsm_lowerup_def fsm_lowerdown_def agreed_states_def)

lemma open_not_agreed:
  "fstate (fsm_open alloc cb pcb f) = fstate f \<or> fstate (fsm_open alloc cb pcb f) \<notin> agreed_states"
  by (cases "fstate f")
    (use restart_not_agreed [of f alloc cb pcb]
      restart_not_agreed [of "f\<lparr>fstate := PPP_FSM_STOPPING\<rparr>" alloc cb pcb] in
      \<open>auto simp: fsm_open_def agreed_states_def\<close>)

lemma terminate_state:
  "st = PPP_FSM_CLOSING \<or> st = PPP_FSM_STOPPING \<Longrightarrow>
     fstate (terminate_layer alloc cb pcb st f) \<notin> agreed_states"
  by (auto simp: terminate_layer_def Let_def agreed_states_def)

lemma calls_not_agreed:
  assumes "\<And>p. op \<noteq> Op_Input p"
  shows "fstate (fsm_do alloc cb pcb op f) = fstate f \<or> fstate (fsm_do alloc cb pcb op f) \<notin> agreed_states"
proof (cases op)
  case Op_Lowerup
  then show ?thesis by (cases "fstate f") (auto simp: fsm_lowerup_def agreed_states_def)
next
  case Op_Lowerdown
  then show ?thesis by (cases "fstate f") (auto simp: fsm_lowerdown_def agreed_states_def)
next
  case (Op_Close r)
  then show ?thesis using terminate_state [of PPP_FSM_CLOSING alloc cb pcb "f\<lparr>term_reason := take 255 r\<rparr>"]
    by (cases "fstate f") (auto simp: fsm_close_def Let_def, auto simp: agreed_states_def)
next
  case Op_Protreject
  then show ?thesis using terminate_state [of PPP_FSM_STOPPING alloc cb pcb f]
    by (cases "fstate f") (auto simp: fsm_protreject_def Let_def, auto simp: agreed_states_def)
next
  case Op_Timeout
  then show ?thesis
    by (cases "fstate f") (auto simp: fsm_timeout_def Let_def agreed_states_def negotiating_def)
qed (use assms open_not_agreed in auto)

text \<open>The input cases, one handler at a time.\<close>

lemma fstate_answered:
  "fstate (answered cb code f) =
     (if code = CONFACK then if fstate f = PPP_FSM_ACKRCVD then PPP_FSM_OPENED else PPP_FSM_ACKSENT
      else if fstate f \<noteq> PPP_FSM_ACKRCVD then PPP_FSM_REQSENT else PPP_FSM_ACKRCVD)"
  by (simp add: answered_def Let_def)

lemma fstate_enter_negotiation:
  "fstate (enter_negotiation alloc cb pcb f) =
     (if fstate f = PPP_FSM_OPENED \<or> fstate f = PPP_FSM_STOPPED then PPP_FSM_REQSENT else fstate f)"
  by (cases "fstate f") (simp_all add: enter_negotiation_def)

lemma rconfreq_enters:
  assumes "fstate (fsm_rconfreq alloc cb pcb i inp f) \<in> agreed_states"
    and "fstate (fsm_rconfreq alloc cb pcb i inp f) \<noteq> fstate f"
  shows "fst (fsm_reqci cb inp (enter_negotiation alloc cb pcb f)) = CONFACK \<and>
    fstate (fsm_rconfreq alloc cb pcb i inp f)
      = (if fstate f = PPP_FSM_ACKRCVD then PPP_FSM_OPENED else PPP_FSM_ACKSENT)"
proof (cases "fsm_reqci cb inp (enter_negotiation alloc cb pcb f)")
  case f: (fields code reply c)
  show ?thesis
    using assms by (auto simp: fsm_rconfreq_def Let_def f fstate_answered fstate_enter_negotiation
        agreed_states_def split: if_splits)
qed

lemma rconfack_enters:
  assumes "fstate (fsm_rconfack alloc cb pcb i inp f) \<in> agreed_states"
    and "fstate (fsm_rconfack alloc cb pcb i inp f) \<noteq> fstate f"
  shows "i = reqid f \<and> \<not> seen_ack f \<and> (case ackci cb of Some a \<Rightarrow> a (ci f) inp | None \<Rightarrow> inp = []) \<and>
    (fstate f = PPP_FSM_REQSENT \<and> fstate (fsm_rconfack alloc cb pcb i inp f) = PPP_FSM_ACKRCVD \<or>
     fstate f = PPP_FSM_ACKSENT \<and> fstate (fsm_rconfack alloc cb pcb i inp f) = PPP_FSM_OPENED)"
  using assms by (cases "fstate f")
    (auto simp: fsm_rconfack_def Let_def agreed_states_def split: if_splits option.splits)

lemma close_enters:
  "fstate (fsm_close alloc cb pcb r f) = fstate f \<or> fstate (fsm_close alloc cb pcb r f) \<notin> agreed_states"
  by (cases "fstate f") (auto simp: fsm_close_def terminate_layer_def Let_def agreed_states_def)

lemma nakrej_callback_enters:
  "fsm_nakrej_callback alloc cb pcb code inp f = (ret, g) \<Longrightarrow> fstate g = fstate f \<or> fstate g \<notin> agreed_states"
  using close_enters [of alloc cb pcb _ "f\<lparr>ci := c\<rparr>" for c]
  by (auto simp: fsm_nakrej_callback_def Let_def split: if_split_asm option.split_asm prod.split_asm)

lemma nakrej_next_enters:
  "fstate (nakrej_next alloc cb pcb i ret f) = fstate f \<or> fstate (nakrej_next alloc cb pcb i ret f) \<notin> agreed_states"
  by (cases "fstate f") (simp_all add: nakrej_next_def agreed_states_def)

lemma rconfnakrej_enters:
  "fstate (fsm_rconfnakrej alloc cb pcb code i inp f) = fstate f \<or>
   fstate (fsm_rconfnakrej alloc cb pcb code i inp f) \<notin> agreed_states"
proof -
  obtain ret g where g: "fsm_nakrej_callback alloc cb pcb code inp
      (f\<lparr>rnakloops := (if code = CONFNAK then rnakloops f + 1 else 0)\<rparr>) = (ret, g)" by fastforce
  show ?thesis using nakrej_callback_enters [OF g] nakrej_next_enters [of alloc cb pcb i ret "g\<lparr>seen_ack := True\<rparr>"]
    by (auto simp: fsm_rconfnakrej_def g)
qed

lemma other_codes_enter:
  "fstate (fsm_rtermreq alloc cb pcb i f) = fstate f \<or> fstate (fsm_rtermreq alloc cb pcb i f) \<notin> agreed_states"
  "fstate (fsm_rtermack alloc cb pcb f) = fstate f \<or> fstate (fsm_rtermack alloc cb pcb f) \<notin> agreed_states"
  "fstate (fsm_rcoderej inp f) = fstate f \<or> fstate (fsm_rcoderej inp f) \<notin> agreed_states"
  by (cases "fstate f"; auto simp: fsm_rtermreq_def fsm_rtermack_def fsm_rcoderej_def Let_def agreed_states_def)+

lemma fsm_code_enters:
  assumes "fstate (fsm_code alloc cb pcb code i inp whole f) \<in> agreed_states"
    and "fstate (fsm_code alloc cb pcb code i inp whole f) \<noteq> fstate f"
  shows "code = CONFREQ \<and> fst (fsm_reqci cb inp (enter_negotiation alloc cb pcb f)) = CONFACK \<and>
      fstate (fsm_code alloc cb pcb code i inp whole f)
        = (if fstate f = PPP_FSM_ACKRCVD then PPP_FSM_OPENED else PPP_FSM_ACKSENT) \<or>
    code = CONFACK \<and> i = reqid f \<and> \<not> seen_ack f \<and>
      (case ackci cb of Some a \<Rightarrow> a (ci f) inp | None \<Rightarrow> inp = []) \<and>
      (fstate f = PPP_FSM_REQSENT \<and> fstate (fsm_code alloc cb pcb code i inp whole f) = PPP_FSM_ACKRCVD \<or>
       fstate f = PPP_FSM_ACKSENT \<and> fstate (fsm_code alloc cb pcb code i inp whole f) = PPP_FSM_OPENED)"
proof -
  consider "code = CONFREQ" | "code = CONFACK" | "code = CONFNAK \<or> code = CONFREJ" | "code = TERMREQ"
    | "code = TERMACK" | "code = CODEREJ" | "code \<notin> {CONFREQ, CONFACK, CONFNAK, CONFREJ, TERMREQ, TERMACK, CODEREJ}"
    by blast
  then show ?thesis
  proof cases
    case 1
    then show ?thesis using assms rconfreq_enters [of alloc cb pcb i inp f] by (simp add: fsm_code_def)
  next
    case 2
    then show ?thesis using assms rconfack_enters [of alloc cb pcb i inp f] by (auto simp: fsm_code_def)
  next
    case 3
    then show ?thesis using assms rconfnakrej_enters [of alloc cb pcb code i inp f]
      by (auto simp: fsm_code_def)
  next
    case 7
    then show ?thesis using assms by (auto simp: fsm_code_def Let_def split: prod.splits if_splits)
  qed (use assms other_codes_enter(1) [of alloc cb pcb i f] other_codes_enter(2) [of alloc cb pcb f]
      other_codes_enter(3) [of inp f] in
      \<open>auto simp: fsm_code_def\<close>)
qed

text \<open>
  C18. The layer opens only by agreement in both directions. A step that enters OPENED is a
  packet: either our request was acknowledged before and this is a request of the peer that
  we acknowledge, or we had acknowledged the peer's request and this acknowledges ours. The
  state ACKRCVD is entered only from REQSENT, by an acknowledgement with the identifier of
  our last request, not seen before, that our protocol accepts; ACKSENT only by a request
  of the peer that we acknowledge.
\<close>
theorem fsm_opens_by_agreement:
  assumes "f' = fsm_do alloc cb pcb op f" and "fstate f' \<noteq> fstate f"
    and "fstate f' \<in> {PPP_FSM_ACKRCVD, PPP_FSM_ACKSENT, PPP_FSM_OPENED}"
  shows "\<exists>p. op = Op_Input p \<and>
    (fstate f' = PPP_FSM_OPENED \<and> fstate f = PPP_FSM_ACKRCVD \<and> acceptable alloc cb pcb f p \<or>
     fstate f' = PPP_FSM_OPENED \<and> fstate f = PPP_FSM_ACKSENT \<and> acknowledges cb f p \<or>
     fstate f' = PPP_FSM_ACKRCVD \<and> fstate f = PPP_FSM_REQSENT \<and> acknowledges cb f p \<or>
     fstate f' = PPP_FSM_ACKSENT \<and> fstate f \<noteq> PPP_FSM_ACKRCVD \<and> acceptable alloc cb pcb f p)"
proof (cases "\<exists>p. op = Op_Input p")
  case False
  with calls_not_agreed [of op alloc cb pcb f] assms show ?thesis by (auto simp: agreed_states_def)
next
  case True
  then obtain p where p: "op = Op_Input p" ..
  let ?len = "unat (word_cat (p ! 2) (p ! 3) :: u16)"
  have f': "f' = fsm_code alloc cb pcb (p ! 0) (p ! 1) (packet_data p) (take ?len p) f"
    using assms by (auto simp: p fsm_input_def Let_def packet_data_def split: if_splits)
  from fsm_code_enters [of alloc cb pcb "p ! 0" "p ! 1" "packet_data p" "take ?len p" f] assms(2,3) f'
  show ?thesis by (auto simp: p acceptable_def acknowledges_def agreed_states_def split: if_splits)
qed

theorem fsm_opens_by_agreement_witness:
  "\<exists>p. Op_Input [2, 0, 0, 4] = (Op_Input p :: nat fsm_op) \<and> acknowledges (quiet_callbacks\<lparr>ackci := None\<rparr>)
     ((blank_fsm 7)\<lparr>fstate := PPP_FSM_REQSENT\<rparr>) p"
  using fsm_opens_by_agreement [of "(blank_fsm 7)\<lparr>fstate := PPP_FSM_ACKRCVD, seen_ack := True, retransmits := 10\<rparr>"
      "\<lambda>_. True" "quiet_callbacks\<lparr>ackci := None\<rparr>" default_pcb "Op_Input [2, 0, 0, 4]"
      "(blank_fsm 7)\<lparr>fstate := PPP_FSM_REQSENT\<rparr>"]
  by (simp add: blank_fsm_def quiet_callbacks_def fsm_input_def fsm_code_def fsm_rconfack_def Let_def
      default_pcb_def unat_word_cat_8)

section \<open>Giving up\<close>

fun timeouts :: "nat \<Rightarrow> (nat \<Rightarrow> bool) \<Rightarrow> 'ci fsm_callbacks \<Rightarrow> fsm_pcb \<Rightarrow> 'ci fsm \<Rightarrow> 'ci fsm" where
  "timeouts 0 alloc cb pcb f = f"
| "timeouts (Suc n) alloc cb pcb f = timeouts n alloc cb pcb (fsm_do alloc cb pcb Op_Timeout f)"

lemma sconfreq_retry:
  assumes "\<forall>n. alloc n" "negotiating (fstate f)" "request_ci cb pcb (ci f) = ci f"
  shows "fsm_sconfreq alloc cb pcb True f =
    f\<lparr>seen_ack := False, fsm_allocs := Suc (fsm_allocs f), retransmits := retransmits f - 1, timer := True,
      packets := packets f @ [fsm_packet pcb CONFREQ (reqid f) (request_data cb pcb (ci f))]\<rparr>"
  using assms by (simp add: fsm_sconfreq_def Let_def start_timer_def request_ci_def request_data_def case_prod_unfold)

lemma unat_dec: "x \<noteq> 0 \<Longrightarrow> unat (x - 1) = unat x - 1" for x :: u8
  by (simp add: unat_minus_one)

lemma timeouts_negotiation:
  assumes "\<forall>n. alloc n"
  shows "negotiating (fstate f) \<Longrightarrow> timer f \<Longrightarrow> unat (retransmits f) = n \<Longrightarrow>
    request_ci cb pcb (ci f) = ci f \<Longrightarrow>
    \<exists>f'. timeouts (Suc n) alloc cb pcb f = f' \<and> fstate f' = PPP_FSM_STOPPED \<and> \<not> timer f' \<and>
      packets f' = packets f @ replicate n (fsm_packet pcb CONFREQ (reqid f) (request_data cb pcb (ci f))) \<and>
      events f' = events f @ (if reports cb Retransmit then replicate n Retransmit else []) @
        (if flags f AND OPT_PASSIVE = 0 \<and> reports cb Finished then [Finished] else [])"
proof (induction n arbitrary: f)
  case 0
  then have "retransmits f = 0" by (simp add: unat_eq_0)
  with 0 show ?case by (auto simp: fsm_timeout_def Let_def negotiating_def)
next
  case (Suc n)
  then have r: "retransmits f \<noteq> 0" by auto
  let ?f1 = "fsm_timeout alloc cb pcb f"
  have st: "fstate f \<noteq> PPP_FSM_CLOSING" "fstate f \<noteq> PPP_FSM_STOPPING"
    using Suc.prems(1) by (auto simp: negotiating_def)
  let ?g = "notify cb Retransmit (f\<lparr>timer := False\<rparr>)"
  have g: "negotiating (fstate ?g)" "request_ci cb pcb (ci ?g) = ci ?g" using Suc.prems(1,4) by simp_all
  have f1: "negotiating (fstate ?f1)" "timer ?f1" "retransmits ?f1 = retransmits f - 1" "reqid ?f1 = reqid f"
    "flags ?f1 = flags f" "ci ?f1 = ci f"
    "packets ?f1 = packets f @ [fsm_packet pcb CONFREQ (reqid f) (request_data cb pcb (ci f))]"
    "events ?f1 = events f @ (if reports cb Retransmit then [Retransmit] else [])"
    using Suc.prems(1) st r
    by (auto simp: fsm_timeout_def Let_def sconfreq_retry [OF assms g], auto simp: negotiating_def)
  have "unat (retransmits ?f1) = n" using f1(3) Suc.prems(3) r by (simp add: unat_dec)
  from Suc.IH [OF f1(1,2) this] show ?case using Suc.prems(2,4) f1
    by (auto simp del: timeouts.simps simp: timeouts.simps(2) [of "Suc n"])
qed

text \<open>
  C19. Negotiation with a peer that does not answer ends. With \<open>n\<close> transmissions left the
  timer fires \<open>n + 1\<close> times: the same request (same identifier, same options, as building a
  request a second time changes nothing more) is sent \<open>n\<close> more times, then the automaton stops in STOPPED with no timer running, and reports
  \<open>finished\<close> once unless it is passive.
\<close>
theorem fsm_negotiation_gives_up:
  assumes "\<forall>n. alloc n" and "negotiating (fstate f)" and "timer f"
    and "request_ci cb pcb (ci f) = ci f"
    and "f' = timeouts (Suc (unat (retransmits f))) alloc cb pcb f"
  shows "fstate f' = PPP_FSM_STOPPED \<and> \<not> timer f' \<and>
    packets f' = packets f @ replicate (unat (retransmits f))
      (fsm_packet pcb CONFREQ (reqid f) (request_data cb pcb (ci f))) \<and>
    events f' = events f @ (if reports cb Retransmit then replicate (unat (retransmits f)) Retransmit else []) @
      (if flags f AND OPT_PASSIVE = 0 \<and> reports cb Finished then [Finished] else [])"
  using timeouts_negotiation [OF assms(1-3) refl assms(4)] assms(5) by simp

theorem fsm_negotiation_gives_up_witness:
  "fstate (timeouts 11 (\<lambda>_. True) quiet_callbacks default_pcb
     ((blank_fsm 7)\<lparr>fstate := PPP_FSM_REQSENT, timer := True, retransmits := 10\<rparr>)) = PPP_FSM_STOPPED"
  using fsm_negotiation_gives_up [of "\<lambda>_. True" "(blank_fsm 7)\<lparr>fstate := PPP_FSM_REQSENT, timer := True, retransmits := 10\<rparr>"
      quiet_callbacks default_pcb, OF _ _ _ _ refl]
  by (simp add: negotiating_def request_ci_def request_length_def request_options_def quiet_callbacks_def)

definition closed_from :: "fsm_state \<Rightarrow> fsm_state" where
  "closed_from st = (if st = PPP_FSM_CLOSING then PPP_FSM_CLOSED else PPP_FSM_STOPPED)"

lemma timeouts_closing:
  "fstate f = PPP_FSM_CLOSING \<or> fstate f = PPP_FSM_STOPPING \<Longrightarrow> timer f \<Longrightarrow> unat (retransmits f) = n \<Longrightarrow>
    \<exists>f'. timeouts (Suc n) alloc cb pcb f = f' \<and> fstate f' = closed_from (fstate f) \<and> \<not> timer f' \<and>
      events f' = events f @ (if reports cb Finished then [Finished] else [])"
proof (induction n arbitrary: f)
  case 0
  then have "retransmits f = 0" by (simp add: unat_eq_0)
  with 0 show ?case by (auto simp: fsm_timeout_def Let_def closed_from_def)
next
  case (Suc n)
  then have r: "retransmits f \<noteq> 0" by auto
  let ?f1 = "fsm_timeout alloc cb pcb f"
  have f1: "fstate ?f1 = fstate f" "timer ?f1" "retransmits ?f1 = retransmits f - 1" "events ?f1 = events f"
    using Suc.prems(1) r by (auto simp: fsm_timeout_def Let_def)
  have "unat (retransmits ?f1) = n" using f1(3) Suc.prems(3) r by (simp add: unat_dec)
  from Suc.IH [OF _ f1(2) this] Suc.prems(1,2) f1 show ?case
    by (auto simp del: timeouts.simps simp: timeouts.simps(2) [of "Suc n"])
qed

text \<open>
  C20. Closing ends, whatever the peer does not do and whether or not buffers can be had.
  From any state in which the automaton negotiates or is open, \<open>fsm_close\<close> followed by as
  many timeouts as Terminate-Requests are allowed reaches CLOSED with no timer running;
  \<open>down\<close> is reported first if the layer was up, and \<open>finished\<close> is reported exactly once.
\<close>
theorem fsm_close_completes:
  assumes "negotiating (fstate f) \<or> fstate f = PPP_FSM_OPENED" and "\<not> timer f \<or> fstate f \<noteq> PPP_FSM_OPENED"
    and "f' = timeouts (unat (fsm_max_term_transmits pcb)) alloc cb pcb (fsm_close alloc cb pcb reason f)"
  shows "fstate f' = PPP_FSM_CLOSED \<and> \<not> timer f' \<and>
    events f' = events f @ (if fstate f = PPP_FSM_OPENED \<and> reports cb Down then [Down] else []) @
      (if reports cb Finished then [Finished] else [])"
proof -
  let ?g = "f\<lparr>term_reason := take 255 reason\<rparr>"
  let ?c = "terminate_layer alloc cb pcb PPP_FSM_CLOSING ?g"
  have c: "fsm_close alloc cb pcb reason f = ?c"
    using assms(1) by (auto simp: fsm_close_def Let_def negotiating_def)
  show ?thesis
  proof (cases "fsm_max_term_transmits pcb = 0")
    case True
    with assms show ?thesis by (auto simp: c terminate_layer_def Let_def)
  next
    case False
    then obtain n where n: "unat (fsm_max_term_transmits pcb) = Suc n"
      by (metis not0_implies_Suc unat_eq_0)
    have *: "fstate ?c = PPP_FSM_CLOSING" "timer ?c" "retransmits ?c = fsm_max_term_transmits pcb - 1"
      "events ?c = events f @ (if fstate f = PPP_FSM_OPENED \<and> reports cb Down then [Down] else [])"
      using False by (auto simp: terminate_layer_def Let_def)
    have "unat (retransmits ?c) = n" using n False by (simp add: * unat_dec)
    from timeouts_closing [OF _ *(2) this, of alloc cb pcb] * show ?thesis
      by (simp add: assms(3) c n closed_from_def del: timeouts.simps)
  qed
qed

theorem fsm_close_completes_witness:
  "fstate (timeouts 2 (\<lambda>_. False) quiet_callbacks default_pcb (fsm_close (\<lambda>_. False) quiet_callbacks default_pcb []
     ((blank_fsm 7)\<lparr>fstate := PPP_FSM_OPENED\<rparr>))) = PPP_FSM_CLOSED"
  using fsm_close_completes [of "(blank_fsm 7)\<lparr>fstate := PPP_FSM_OPENED\<rparr>" _ default_pcb "\<lambda>_. False" quiet_callbacks "[]",
      OF _ _ refl]
  by (simp add: default_pcb_def blank_fsm_def)

text \<open>
  Without a buffer the automaton stalls. When the packet buffer for the first request
  cannot be allocated the automaton is in REQSENT with nothing sent and no timer running,
  so that no timeout will ever retry: it waits for the peer or its owner forever.
\<close>
theorem fsm_stalls_without_buffer:
  assumes "fstate f = PPP_FSM_STARTING" and "flags f AND OPT_SILENT = 0" and "\<not> timer f"
    and "\<not> alloc (fsm_allocs f)" and "f' = fsm_lowerup alloc cb pcb f"
  shows "fstate f' = PPP_FSM_REQSENT \<and> packets f' = packets f \<and>
    fsm_do alloc cb pcb Op_Timeout f' = f'"
  using assms by (auto simp: fsm_lowerup_def fsm_sconfreq_def Let_def case_prod_unfold)

theorem fsm_stalls_without_buffer_witness:
  "fstate (fsm_lowerup (\<lambda>_. False) quiet_callbacks default_pcb ((blank_fsm 7)\<lparr>fstate := PPP_FSM_STARTING\<rparr>))
    = PPP_FSM_REQSENT"
  using fsm_stalls_without_buffer [of "(blank_fsm 7)\<lparr>fstate := PPP_FSM_STARTING\<rparr>" "\<lambda>_. False" _ quiet_callbacks
      default_pcb, OF _ _ _ _ refl]
  by (simp add: blank_fsm_def)

section \<open>Two automata\<close>

text \<open>The last packet written, as the other end's automaton gets it: without the PPP header.\<close>

definition wire_packet :: "'ci fsm \<Rightarrow> u8 list" where
  "wire_packet f = drop 4 (last (packets f))"

definition bring_up :: "'ci fsm_callbacks \<Rightarrow> fsm_pcb \<Rightarrow> 'ci fsm \<Rightarrow> 'ci fsm" where
  "bring_up cb pcb f = fsm_lowerup (\<lambda>_. True) cb pcb (fsm_open (\<lambda>_. True) cb pcb f)"

definition fresh_ci :: "'ci fsm_callbacks \<Rightarrow> 'ci fsm \<Rightarrow> 'ci" where
  "fresh_ci cb f = (case resetci cb of Some r \<Rightarrow> r (ci f) | None \<Rightarrow> ci f)"

text \<open>
  \<open>d\<close> is acceptable to a protocol with the private state \<open>c\<close>, and taking it leaves a state
  that still recognises the acknowledgement of its \<open>own\<close> request.
\<close>

definition agrees :: "'ci fsm_callbacks \<Rightarrow> u8 list \<Rightarrow> 'ci \<Rightarrow> u8 list \<Rightarrow> bool" where
  "agrees cb own c d \<longleftrightarrow>
     (case reqci cb of None \<Rightarrow> d = [] \<and> (case ackci cb of None \<Rightarrow> own = [] | Some a \<Rightarrow> a c own)
      | Some r \<Rightarrow> (case r c d False of (code, reply, c') \<Rightarrow> code = CONFACK \<and> reply = d \<and>
          (case ackci cb of None \<Rightarrow> own = [] | Some a \<Rightarrow> a c' own)))"

lemma short_bytes_cat: "word_cat (short_bytes w ! 0) (short_bytes w ! Suc 0) = w"
  by (rule bit_word_eqI) (auto simp: short_bytes_def bit_simps bit_word_cat_iff)

lemma wire_packet_fields:
  assumes "packets f = ps @ [fsm_packet pcb code i d]" "length d + 4 < 65536"
  shows "wire_packet f ! 0 = code" "wire_packet f ! 1 = i"
    "unat (word_cat (wire_packet f ! 2) (wire_packet f ! 3) :: u16) = length d + 4"
    "length (wire_packet f) = length d + 4" "drop 4 (wire_packet f) = d"
proof -
  have w: "wire_packet f = [code, i] @ short_bytes (of_nat (length d + 4)) @ d"
    using assms(1) by (simp add: wire_packet_def fsm_packet_def short_bytes_def)
  show "wire_packet f ! 0 = code" "wire_packet f ! 1 = i" by (simp_all add: w)
  have "word_cat (wire_packet f ! 2) (wire_packet f ! 3) = (of_nat (length d + 4) :: u16)"
    using short_bytes_cat [of "of_nat (length d + 4)"] by (simp add: w short_bytes_def)
  moreover have "unat (of_nat (length d + 4) :: u16) = length d + 4"
    using assms(2) by (simp only: unat_of_nat) simp
  ultimately show "unat (word_cat (wire_packet f ! 2) (wire_packet f ! 3) :: u16) = length d + 4" by simp
  show "length (wire_packet f) = length d + 4" "drop 4 (wire_packet f) = d"
    by (simp_all add: w short_bytes_def)
qed

lemma fsm_input_wire:
  assumes "packets g = ps @ [fsm_packet pcb' code i d]" "length d + 4 < 65536"
    and "fstate f \<noteq> PPP_FSM_INITIAL" "fstate f \<noteq> PPP_FSM_STARTING"
  shows "fsm_input alloc cb pcb (wire_packet g) f = fsm_code alloc cb pcb code i d (wire_packet g) f"
  using wire_packet_fields [OF assms(1,2)] assms(3,4) by (simp add: fsm_input_def)

text \<open>The three stations of a side: request sent, peer's request acknowledged, opened.\<close>

lemma bring_up_request:
  assumes "fstate f = PPP_FSM_INITIAL" "flags f AND OPT_SILENT = 0"
  shows "\<exists>ps i. fstate (bring_up cb pcb f) = PPP_FSM_REQSENT \<and> ci (bring_up cb pcb f) = request_ci cb pcb (fresh_ci cb f) \<and>
    packets (bring_up cb pcb f) = ps @ [fsm_packet pcb CONFREQ i (request_data cb pcb (fresh_ci cb f))] \<and>
    reqid (bring_up cb pcb f) = i \<and> \<not> seen_ack (bring_up cb pcb f) \<and> nakloops (bring_up cb pcb f) = 0 \<and>
    maxnakloops (bring_up cb pcb f) = maxnakloops f \<and> timer (bring_up cb pcb f)"
  using assms by (auto simp: bring_up_def fsm_open_def fsm_lowerup_def notify_def fsm_sconfreq_def
      negotiating_def start_timer_def fresh_ci_def Let_def request_ci_def request_data_def case_prod_unfold
      split: option.splits)

lemma agrees_reqci:
  assumes "agrees cb own (ci f) d" "0 < maxnakloops f" "nakloops f = 0"
  shows "\<exists>c. fsm_reqci cb d f = (CONFACK, d, c) \<and>
    (case ackci cb of None \<Rightarrow> own = [] | Some a \<Rightarrow> a c (own))"
proof -
  have "\<not> maxnakloops f \<le> nakloops f" using assms(2,3) by (simp add: not_le)
  then show ?thesis using assms(1)
    by (cases "reqci cb") (auto simp: agrees_def fsm_reqci_def split: prod.splits)
qed

lemma request_acked:
  assumes "fstate f = PPP_FSM_REQSENT" "0 < maxnakloops f" "nakloops f = 0"
    and "agrees cb own (ci f) d" "length d \<le> peer_mru pcb - 4"
  shows "\<exists>c. fsm_rconfreq (\<lambda>_. True) cb pcb i d f = f\<lparr>ci := c, fsm_allocs := Suc (fsm_allocs f),
      packets := packets f @ [fsm_packet pcb CONFACK i d], fstate := PPP_FSM_ACKSENT, nakloops := 0\<rparr> \<and>
    (case ackci cb of None \<Rightarrow> own = [] | Some a \<Rightarrow> a c (own))"
proof -
  from agrees_reqci [OF assms(4,2,3)] obtain c where c: "fsm_reqci cb d f = (CONFACK, d, c)"
    "case ackci cb of None \<Rightarrow> own = [] | Some a \<Rightarrow> a c (own)"
    by blast
  have "fsm_rconfreq (\<lambda>_. True) cb pcb i d f = f\<lparr>ci := c, fsm_allocs := Suc (fsm_allocs f),
      packets := packets f @ [fsm_packet pcb CONFACK i d], fstate := PPP_FSM_ACKSENT, nakloops := 0\<rparr>"
    using assms(1,5) c(1) by (simp add: fsm_rconfreq_def enter_negotiation_def answered_def fsm_sdata_def Let_def)
  with c(2) show ?thesis by blast
qed

lemma ack_opens:
  assumes "fstate f = PPP_FSM_ACKSENT" "i = reqid f" "\<not> seen_ack f"
    and "case ackci cb of None \<Rightarrow> d = [] | Some a \<Rightarrow> a (ci f) d"
  shows "fstate (fsm_rconfack alloc cb pcb i d f) = PPP_FSM_OPENED \<and>
    \<not> timer (fsm_rconfack alloc cb pcb i d f) \<and>
    events (fsm_rconfack alloc cb pcb i d f) = events f @ (if reports cb Up then [Up] else [])"
  using assms by (auto simp: fsm_rconfack_def Let_def stop_timer_def split: option.splits)

text \<open>
  C16. Two ends that start together and whose protocols accept each other's request open in
  one exchange: each sends its request, acknowledges the other's, and is opened by the
  acknowledgement it gets, through the packets as they are built and parsed.
\<close>
theorem fsm_handshake:
  assumes "fstate f = PPP_FSM_INITIAL" "flags f AND OPT_SILENT = 0" "0 < maxnakloops f"
    and "fstate g = PPP_FSM_INITIAL" "flags g AND OPT_SILENT = 0" "0 < maxnakloops g"
    and df: "df = request_data cbf pf (fresh_ci cbf f)" "length df \<le> peer_mru pg - 4" "length df + 4 < 65536"
    and dg: "dg = request_data cbg pg (fresh_ci cbg g)" "length dg \<le> peer_mru pf - 4" "length dg + 4 < 65536"
    and "agrees cbf df (request_ci cbf pf (fresh_ci cbf f)) dg"
    and "agrees cbg dg (request_ci cbg pg (fresh_ci cbg g)) df"
    and f1: "f1 = bring_up cbf pf f" and g1: "g1 = bring_up cbg pg g"
    and f2: "f2 = fsm_input (\<lambda>_. True) cbf pf (wire_packet g1) f1"
    and g2: "g2 = fsm_input (\<lambda>_. True) cbg pg (wire_packet f1) g1"
    and f3: "f3 = fsm_input (\<lambda>_. True) cbf pf (wire_packet g2) f2"
    and g3: "g3 = fsm_input (\<lambda>_. True) cbg pg (wire_packet f2) g2"
  shows "fstate f3 = PPP_FSM_OPENED \<and> fstate g3 = PPP_FSM_OPENED \<and> \<not> timer f3 \<and> \<not> timer g3 \<and>
    events f3 = events f2 @ (if reports cbf Up then [Up] else []) \<and>
    events g3 = events g2 @ (if reports cbg Up then [Up] else [])"
proof -
  from bring_up_request [OF assms(1,2), of cbf pf] obtain pf1 i where F1:
    "fstate f1 = PPP_FSM_REQSENT" "ci f1 = request_ci cbf pf (fresh_ci cbf f)" "packets f1 = pf1 @ [fsm_packet pf CONFREQ i df]"
    "reqid f1 = i" "\<not> seen_ack f1" "nakloops f1 = 0" "maxnakloops f1 = maxnakloops f"
    by (auto simp: f1 df(1))
  from bring_up_request [OF assms(4,5), of cbg pg] obtain pg1 j where G1:
    "fstate g1 = PPP_FSM_REQSENT" "ci g1 = request_ci cbg pg (fresh_ci cbg g)" "packets g1 = pg1 @ [fsm_packet pg CONFREQ j dg]"
    "reqid g1 = j" "\<not> seen_ack g1" "nakloops g1 = 0" "maxnakloops g1 = maxnakloops g"
    by (auto simp: g1 dg(1))
  have f2': "f2 = fsm_rconfreq (\<lambda>_. True) cbf pf j dg f1"
    using fsm_input_wire [OF G1(3) dg(3), of f1] F1(1) by (simp add: f2 fsm_code_def)
  have g2': "g2 = fsm_rconfreq (\<lambda>_. True) cbg pg i df g1"
    using fsm_input_wire [OF F1(3) df(3), of g1] G1(1) by (simp add: g2 fsm_code_def)
  have "\<exists>c. fsm_rconfreq (\<lambda>_. True) cbf pf j dg f1 = f1\<lparr>ci := c, fsm_allocs := Suc (fsm_allocs f1),
      packets := packets f1 @ [fsm_packet pf CONFACK j dg], fstate := PPP_FSM_ACKSENT, nakloops := 0\<rparr> \<and>
    (case ackci cbf of None \<Rightarrow> df = [] | Some a \<Rightarrow> a c df)"
    by (rule request_acked) (use F1 assms(3,13) dg(2) in auto)
  then obtain cf where F2:
    "fstate f2 = PPP_FSM_ACKSENT" "ci f2 = cf" "reqid f2 = i" "\<not> seen_ack f2"
    "\<exists>ps. packets f2 = ps @ [fsm_packet pf CONFACK j dg]"
    "case ackci cbf of None \<Rightarrow> df = [] | Some a \<Rightarrow> a cf df"
    using F1 by (auto simp: f2' df(1) split: option.splits)
  have "\<exists>c. fsm_rconfreq (\<lambda>_. True) cbg pg i df g1 = g1\<lparr>ci := c, fsm_allocs := Suc (fsm_allocs g1),
      packets := packets g1 @ [fsm_packet pg CONFACK i df], fstate := PPP_FSM_ACKSENT, nakloops := 0\<rparr> \<and>
    (case ackci cbg of None \<Rightarrow> dg = [] | Some a \<Rightarrow> a c dg)"
    by (rule request_acked) (use G1 assms(6,14) df(2) in auto)
  then obtain cg where G2:
    "fstate g2 = PPP_FSM_ACKSENT" "ci g2 = cg" "reqid g2 = j" "\<not> seen_ack g2"
    "\<exists>ps. packets g2 = ps @ [fsm_packet pg CONFACK i df]"
    "case ackci cbg of None \<Rightarrow> dg = [] | Some a \<Rightarrow> a cg dg"
    using G1 by (auto simp: g2' dg(1) split: option.splits)
  have "f3 = fsm_rconfack (\<lambda>_. True) cbf pf i df f2"
    using G2(5) fsm_input_wire [OF _ df(3), of g2 _ pg CONFACK i f2] F2(1) by (auto simp: f3 fsm_code_def)
  moreover have "g3 = fsm_rconfack (\<lambda>_. True) cbg pg j dg g2"
    using F2(5) fsm_input_wire [OF _ dg(3), of f2 _ pf CONFACK j g2] G2(1) by (auto simp: g3 fsm_code_def)
  ultimately show ?thesis
    using ack_opens [of f2 i df cbf] ack_opens [of g2 j dg cbg] F2 G2 by (simp split: option.splits)
qed

theorem fsm_handshake_witness:
  "let f = fsm_init default_pcb (blank_fsm 7); g = fsm_init default_pcb (blank_fsm 9);
       f1 = bring_up quiet_callbacks default_pcb f; g1 = bring_up quiet_callbacks default_pcb g;
       f2 = fsm_input (\<lambda>_. True) quiet_callbacks default_pcb (wire_packet g1) f1;
       g2 = fsm_input (\<lambda>_. True) quiet_callbacks default_pcb (wire_packet f1) g1
   in fstate (fsm_input (\<lambda>_. True) quiet_callbacks default_pcb (wire_packet g2) f2) = PPP_FSM_OPENED \<and>
      fstate (fsm_input (\<lambda>_. True) quiet_callbacks default_pcb (wire_packet f2) g2) = PPP_FSM_OPENED"
  using fsm_handshake [of "fsm_init default_pcb (blank_fsm 7)" "fsm_init default_pcb (blank_fsm 9)"
      _ quiet_callbacks default_pcb default_pcb _ quiet_callbacks, OF _ _ _ _ _ _ refl _ _ refl _ _ _ _ refl refl refl refl refl refl]
  by (simp add: Let_def) (simp add: blank_fsm_def fsm_init_def default_pcb_def quiet_callbacks_def
      agrees_def request_data_def request_ci_def request_length_def request_options_def fresh_ci_def)

end
