(* ===== verification/Ppp_Options.thy ===== *)
theory Ppp_Options
  imports Ppp_Fsm "HOL-Library.Sublist"
begin

unbundle bit_operations_syntax

text \<open>
  Configuration options of the PPP control protocols: the macros of
  \<open>include/netif/ppp/ppp_impl.h\<close> that read and write them, sequences of options (type, length,
  value), and the part of the answer to a Configure-Request that IPCP and LCP share.

  A pointer into a packet with the number of bytes left is the list of these bytes. Addresses
  are kept as the code keeps them, in network byte order on a little-endian processor.
\<close>

section \<open>Numbers in packets\<close>

definition put_long :: "u32 \<Rightarrow> u8 list" where
  "put_long l = [ucast (drop_bit 24 l), ucast (drop_bit 16 l), ucast (drop_bit 8 l), ucast l]"

definition get_long :: "u8 list \<Rightarrow> u32" where
  "get_long p =
     (let l = push_bit 8 (ucast (p ! 0)) OR ucast (p ! 1);
          l = push_bit 8 l OR ucast (p ! 2)
      in push_bit 8 l OR ucast (p ! 3))"

definition get_short :: "u8 list \<Rightarrow> u16" where
  "get_short p = push_bit 8 (ucast (p ! 0)) OR ucast (p ! 1)"

definition lwip_htonl :: "u32 \<Rightarrow> u32" where
  "lwip_htonl x = push_bit 24 (x AND 0xff) OR push_bit 8 (x AND 0xff00) OR
     drop_bit 8 (x AND 0xff0000) OR drop_bit 24 (x AND 0xff000000)"

abbreviation (input) lwip_ntohl :: "u32 \<Rightarrow> u32" where
  "lwip_ntohl \<equiv> lwip_htonl"

lemma length_put_long [simp]: "length (put_long l) = 4"
  by (simp add: put_long_def)

lemma length_short_bytes [simp]: "length (short_bytes w) = 2"
  by (simp add: short_bytes_def)

lemma bit_u8_high: "bit (x :: u8) k \<Longrightarrow> k < 8"
  by (drule bit_imp_le_length) simp

lemma byte_position: "n < 8 \<or> 8 \<le> n \<and> n < 16 \<or> 16 \<le> n \<and> n < 24 \<or> 24 \<le> n" for n :: nat
  by arith

lemma get_put_long: "get_long (put_long l @ r) = l"
proof (rule bit_word_eqI)
  fix n assume "n < LENGTH(32)"
  then have n: "n < 32" by simp
  show "bit (get_long (put_long l @ r)) n = bit l n"
    using byte_position [of n] n by (auto simp: get_long_def put_long_def bit_simps Let_def)
qed

lemma put_get_long:
  assumes "length p = 4"
  shows "put_long (get_long p) = p"
proof -
  from assms obtain a b c d where p: "p = [a, b, c, d]"
    by (auto simp: length_Suc_conv numeral_eq_Suc)
  show ?thesis
    by (auto simp: p put_long_def get_long_def Let_def intro!: bit_word_eqI)
      (auto simp: bit_simps dest!: bit_u8_high)
qed

lemma get_put_short: "get_short (short_bytes w @ r) = w"
proof (rule bit_word_eqI)
  fix n assume "n < LENGTH(16)"
  then have n: "n < 16" by simp
  show "bit (get_short (short_bytes w @ r)) n = bit w n"
    using byte_position [of n] n by (auto simp: get_short_def short_bytes_def bit_simps)
qed

lemma put_get_short:
  assumes "length p = 2"
  shows "short_bytes (get_short p) = p"
proof -
  from assms obtain a b where p: "p = [a, b]"
    by (auto simp: length_Suc_conv numeral_eq_Suc)
  show ?thesis
    by (auto simp: p short_bytes_def get_short_def intro!: bit_word_eqI)
      (auto simp: bit_simps dest!: bit_u8_high)
qed

lemma lwip_htonl_masks:
  "lwip_htonl x = push_bit 24 (x AND mask 8) OR push_bit 8 (x AND push_bit 8 (mask 8)) OR
     drop_bit 8 (x AND push_bit 16 (mask 8)) OR drop_bit 24 (x AND push_bit 24 (mask 8))"
  by (simp add: lwip_htonl_def mask_eq_exp_minus_1 push_bit_eq_mult)

lemma bit_lwip_htonl:
  assumes "n < 32"
  shows "bit (lwip_htonl x) n \<longleftrightarrow>
    (if n < 8 then bit x (n + 24) else if n < 16 then bit x (n + 8)
     else if n < 24 then bit x (n - 8) else bit x (n - 24))"
proof -
  consider "n < 8" | "8 \<le> n" "n < 16" | "16 \<le> n" "n < 24" | "24 \<le> n" by linarith
  then show ?thesis
    by cases (use assms in \<open>auto simp: lwip_htonl_masks bit_simps ac_simps\<close>)
qed

lemma lwip_htonl_htonl [simp]: "lwip_htonl (lwip_htonl x) = x"
proof (rule bit_word_eqI)
  fix n assume "n < LENGTH(32)"
  then have n: "n < 32" by simp
  consider "n < 8" | "8 \<le> n" "n < 16" | "16 \<le> n" "n < 24" | "24 \<le> n" by linarith
  then show "bit (lwip_htonl (lwip_htonl x)) n = bit x n"
    by cases (use n in \<open>auto simp: bit_lwip_htonl dest!: le_Suc_ex\<close>)
qed

section \<open>Addresses\<close>

definition put_addr :: "u32 \<Rightarrow> u8 list" where
  "put_addr a = put_long (lwip_ntohl a)"

definition get_addr :: "u8 list \<Rightarrow> u32" where
  "get_addr p = lwip_htonl (get_long p)"

lemma length_put_addr [simp]: "length (put_addr a) = 4"
  by (simp add: put_addr_def)

lemma get_put_addr [simp]: "get_addr (put_addr a @ r) = a" "get_addr (put_addr a) = a"
  using get_put_long [of _ "[]"] by (simp_all add: get_addr_def put_addr_def get_put_long)

lemma get_long_take: "get_long (take 4 p) = get_long p" if "4 \<le> length p"
  using that by (simp add: get_long_def)

lemma get_short_take: "get_short (take 2 p) = get_short p" if "2 \<le> length p"
  using that by (simp add: get_short_def)

text \<open>A field has a value exactly if its bytes are those that are written for the value.\<close>

lemma get_addr_iff: "4 \<le> length p \<Longrightarrow> get_addr p = a \<longleftrightarrow> take 4 p = put_addr a"
  by (metis get_addr_def put_addr_def get_long_take get_put_addr(2) length_take lwip_htonl_htonl
      min_absorb2 put_get_long)

lemma get_long_iff: "4 \<le> length p \<Longrightarrow> get_long p = l \<longleftrightarrow> take 4 p = put_long l"
  by (metis append_Nil2 get_long_take get_put_long length_take min_absorb2 put_get_long)

lemma get_short_iff: "2 \<le> length p \<Longrightarrow> get_short p = w \<longleftrightarrow> take 2 p = short_bytes w"
  by (metis append_Nil2 get_short_take get_put_short length_take min_absorb2 put_get_short)

section \<open>Options\<close>

text \<open>
  Adding an option to a request: if it is wanted and fits it is written, if it does not fit
  it is given up. The state is what is written, the room left, and the options.
\<close>

definition addci_option ::
  "('o \<Rightarrow> bool) \<Rightarrow> ('o \<Rightarrow> u8 list) \<Rightarrow> ('o \<Rightarrow> 'o) \<Rightarrow> u8 list \<times> nat \<times> 'o \<Rightarrow> u8 list \<times> nat \<times> 'o" where
  "addci_option neg option clear = (\<lambda>(ucp, len, go).
     if neg go
     then if length (option go) \<le> len then (ucp @ option go, len - length (option go), go)
          else (ucp, len, clear go)
     else (ucp, len, go))"

text \<open>
  The first option is of this type and length and within what is left. The code reads the
  length byte before it knows that the packet has one.
\<close>

definition option_at :: "u8 \<Rightarrow> nat \<Rightarrow> nat \<Rightarrow> u8 list \<Rightarrow> bool" where
  "option_at opt n len p \<longleftrightarrow> n \<le> len \<and> unat (p ! 1) = n \<and> p ! 0 = opt"

text \<open>Sequences of options: type, length of the whole, value.\<close>

fun option_sequence :: "nat \<Rightarrow> u8 list \<Rightarrow> (u8 \<times> u8 list) list option" where
  "option_sequence 0 p = (if p = [] then Some [] else None)"
| "option_sequence (Suc n) p =
     (case p of
        [] \<Rightarrow> Some []
      | [t] \<Rightarrow> None
      | t # l # v \<Rightarrow>
          if unat l < 2 \<or> length p < unat l then None
          else map_option ((#) (t, take (unat l - 2) v)) (option_sequence n (drop (unat l - 2) v)))"

definition parse_options :: "u8 list \<Rightarrow> (u8 \<times> u8 list) list option" where
  "parse_options p = option_sequence (length p) p"

definition print_option :: "u8 \<times> u8 list \<Rightarrow> u8 list" where
  "print_option = (\<lambda>(t, v). t # of_nat (length v + 2) # v)"

lemma option_sequence_print:
  assumes "\<forall>(t, v) \<in> set opts. length v < 254" "length (concat (map print_option opts)) \<le> n"
  shows "option_sequence n (concat (map print_option opts)) = Some opts"
  using assms
proof (induction opts arbitrary: n)
  case Nil
  show ?case by (cases n) simp_all
next
  case (Cons tv opts)
  obtain t v where tv: "tv = (t, v)" by fastforce
  have l: "unat (of_nat (length v + 2) :: u8) = length v + 2"
    using Cons.prems(1) by (simp only: unat_of_nat) (simp add: tv)
  obtain m where n: "n = Suc m" using Cons.prems(2) by (cases n) (auto simp: tv print_option_def)
  have "option_sequence m (concat (map print_option opts)) = Some opts"
    by (rule Cons.IH) (use Cons.prems in \<open>auto simp: tv n print_option_def\<close>)
  with l show ?case by (simp add: tv n print_option_def)
qed

lemma parse_options_print:
  "\<forall>(t, v) \<in> set opts. length v < 254 \<Longrightarrow> parse_options (concat (map print_option opts)) = Some opts"
  by (simp add: parse_options_def option_sequence_print)

section \<open>Our options and the packets that repeat them\<close>

definition option_bytes :: "(u8 \<times> u8 list) list \<Rightarrow> u8 list" where
  "option_bytes opts = concat (map print_option opts)"

lemma option_bytes_simps [simp]:
  "option_bytes [] = []" "option_bytes (opt # opts) = print_option opt @ option_bytes opts"
  "option_bytes (os @ os') = option_bytes os @ option_bytes os'"
  by (simp_all add: option_bytes_def)

lemma unat_u8_eq: "n < 256 \<Longrightarrow> unat (x :: u8) = n \<longleftrightarrow> x = of_nat n"
  by (auto simp: word_unat_eq_iff unat_of_nat)

lemma two_bytes: "2 \<le> length p \<Longrightarrow> \<exists>t l q. p = t # l # q"
  by (cases p; cases "tl p") auto

text \<open>A field in front of the rest of the packet.\<close>

lemma addr_field: "length u = 4 \<Longrightarrow> get_addr (u @ r) = a \<longleftrightarrow> u = put_addr a"
  using get_addr_iff [of "u @ r" a] by simp

lemma short_field: "2 \<le> length p \<Longrightarrow> get_short p = w \<longleftrightarrow> p = short_bytes w @ drop 2 p"
  by (metis append_eq_conv_conj append_take_drop_id get_short_iff length_short_bytes)

lemma bytes_front:
  assumes "n \<le> length p" shows "\<exists>u r. p = u @ r \<and> length u = n"
  using assms by (intro exI [of _ "take n p"] exI [of _ "drop n p"]) simp

lemma short_field_bytes: "get_short (h # g # r) = v \<longleftrightarrow> [h, g] = short_bytes v"
  using short_field [of "h # g # r" v] by (auto simp: short_bytes_def)

lemma too_short: "p = v @ r \<Longrightarrow> length v \<le> length p"
  by simp

lemma front_drop:
  "length v = n \<Longrightarrow> (if p = v @ drop n p then Some (drop n p) else None) = Some r \<longleftrightarrow> p = v @ r"
  by auto

definition off_front :: "u8 list \<Rightarrow> bool \<Rightarrow> u8 list \<Rightarrow> u8 list" where
  "off_front v b p = (if b then v else []) @ p"

text \<open>Whether a packet begins with an option of a type.\<close>

definition leads :: "u8 \<Rightarrow> u8 list \<Rightarrow> bool" where
  "leads opt p \<longleftrightarrow> p \<noteq> [] \<and> p ! 0 = opt"

lemma off_front_iff: "off_front v (b \<and> x) p = off_front v x p" if "x \<longrightarrow> b"
  using that by (auto simp: off_front_def)

lemma ball_if_single: "(\<forall>x \<in> set (if b then [y] else []). Q x) \<longleftrightarrow> (b \<longrightarrow> Q y)"
  by simp

lemma filter_if_single: "filter Q (if b then [x] else []) = (if b \<and> Q x then [x] else [])"
  by (cases b) simp_all

section \<open>The options of a request\<close>

text \<open>The options of the request, the last of them everything behind a bad length.\<close>

function request_chunks :: "u8 list \<Rightarrow> u8 list list" where
  "request_chunks p =
     (if p = [] then []
      else if length p < 2 \<or> unat (p ! 1) < 2 \<or> length p < unat (p ! 1) then [p]
      else take (unat (p ! 1)) p # request_chunks (drop (unat (p ! 1)) p))"
  by pat_completeness auto
termination by (relation "measure length") auto

declare request_chunks.simps [simp del]

lemma concat_request_chunks: "concat (request_chunks p) = p"
proof (induction p rule: request_chunks.induct)
  case (1 p)
  then show ?case by (subst request_chunks.simps) simp
qed

lemma subseq_snoc: "subseq S xs \<Longrightarrow> subseq (S @ [x]) (xs @ [x])"
  by simp

lemma subseq_weaken: "subseq S xs \<Longrightarrow> subseq S (xs @ ys)"
  by (metis append_Nil2 list_emb_append_mono list_emb_Nil)

lemma request_chunks_step:
  "p \<noteq> [] \<Longrightarrow> \<not> (length p < 2 \<or> unat (p ! 1) < 2 \<or> length p < unat (p ! 1)) \<Longrightarrow>
    request_chunks p = take (unat (p ! 1)) p # request_chunks (drop (unat (p ! 1)) p)"
  by (subst request_chunks.simps) simp

end
