(* ===== verification/Ipcp.thy ===== *)
theory Ipcp
  imports Ppp_Options
begin

unbundle bit_operations_syntax

text \<open>
  The options of the IP control protocol, \<open>lwip-2.1.2/src/netif/ppp/ipcp.c\<close>: the callbacks it
  gives to the negotiation automaton, with VJ compression and DNS addresses, as this firmware
  is built (no WINS, no server mode, no dial on demand).

  A request received is processed in its buffer by the code: accepted options stay, others are
  moved to the front. The reply is here the list of the bytes in front of the output pointer,
  which never passes the option being read; a changed option is changed in the list of its
  bytes. The one option that may be appended behind the end of the buffer makes the reply
  longer than the request.
\<close>

section \<open>Options\<close>

abbreviation (input) "CI_ADDRS \<equiv> 1 :: u8"
abbreviation (input) "CI_COMPRESSTYPE \<equiv> 2 :: u8"
abbreviation (input) "CI_ADDR \<equiv> 3 :: u8"
abbreviation (input) "CI_MS_DNS1 \<equiv> 129 :: u8"
abbreviation (input) "CI_MS_DNS2 \<equiv> 131 :: u8"
abbreviation (input) "CILEN_VOID \<equiv> 2 :: nat"
abbreviation (input) "CILEN_COMPRESS \<equiv> 4 :: nat"
abbreviation (input) "CILEN_VJ \<equiv> 6 :: nat"
abbreviation (input) "CILEN_ADDR \<equiv> 6 :: nat"
abbreviation (input) "CILEN_ADDRS \<equiv> 10 :: nat"
abbreviation (input) "IPCP_VJ_COMP \<equiv> 0x2d :: u16"
abbreviation (input) "IPCP_VJ_COMP_OLD \<equiv> 0x37 :: u16"
abbreviation (input) "MAX_STATES \<equiv> 16 :: u8"

record ipcp_options =
  neg_addr :: bool
  old_addrs :: bool
  req_addr :: bool
  neg_vj :: bool
  old_vj :: bool
  cflag :: bool
  accept_local :: bool
  accept_remote :: bool
  req_dns1 :: bool
  req_dns2 :: bool
  ouraddr :: u32        \<comment> \<open>addresses in network byte order\<close>
  hisaddr :: u32
  dnsaddr0 :: u32       \<comment> \<open>\<open>dnsaddr[0]\<close>, \<open>dnsaddr[1]\<close>\<close>
  dnsaddr1 :: u32
  vj_protocol :: u16
  maxslotindex :: u8

definition zero_options :: ipcp_options where
  "zero_options = \<lparr>neg_addr = False, old_addrs = False, req_addr = False, neg_vj = False, old_vj = False,
     cflag = False, accept_local = False, accept_remote = False, req_dns1 = False, req_dns2 = False,
     ouraddr = 0, hisaddr = 0, dnsaddr0 = 0, dnsaddr1 = 0, vj_protocol = 0, maxslotindex = 0\<rparr>"

record ipcp =
  wantoptions :: ipcp_options    \<comment> \<open>what we want to request\<close>
  gotoptions :: ipcp_options     \<comment> \<open>what the peer acknowledged or we request next\<close>
  allowoptions :: ipcp_options   \<comment> \<open>what the peer may request\<close>
  hisoptions :: ipcp_options     \<comment> \<open>what we acknowledged of the peer's request\<close>
  ask_for_local :: bool
  usepeerdns :: bool
  noremoteip :: bool

text \<open>A new control block is cleared; the user's settings are macros of \<open>ppp.h\<close>.\<close>

definition new_ipcp :: ipcp where
  "new_ipcp = \<lparr>wantoptions = zero_options, gotoptions = zero_options, allowoptions = zero_options,
     hisoptions = zero_options, ask_for_local = False, usepeerdns = False, noremoteip = False\<rparr>"

definition ppp_set_ipcp_ouraddr :: "u32 \<Rightarrow> ipcp \<Rightarrow> ipcp" where
  "ppp_set_ipcp_ouraddr addr c = c\<lparr>wantoptions := (wantoptions c)\<lparr>ouraddr := addr\<rparr>, ask_for_local := addr \<noteq> 0\<rparr>"

definition ppp_set_ipcp_hisaddr :: "u32 \<Rightarrow> ipcp \<Rightarrow> ipcp" where
  "ppp_set_ipcp_hisaddr addr c = c\<lparr>wantoptions := (wantoptions c)\<lparr>hisaddr := addr\<rparr>\<rparr>"

definition ppp_set_ipcp_dnsaddr :: "nat \<Rightarrow> u32 \<Rightarrow> ipcp \<Rightarrow> ipcp" where
  "ppp_set_ipcp_dnsaddr index addr c =
     (let ao = allowoptions c
      in c\<lparr>allowoptions := (if index = 0 then ao\<lparr>dnsaddr0 := addr\<rparr> else ao\<lparr>dnsaddr1 := addr\<rparr>)\<rparr>)"

definition ppp_set_usepeerdns :: "bool \<Rightarrow> ipcp \<Rightarrow> ipcp" where
  "ppp_set_usepeerdns x c = c\<lparr>usepeerdns := x\<rparr>"

definition ipcp_pcb :: fsm_pcb where
  "ipcp_pcb = default_pcb\<lparr>fsm_protocol := 0x8021\<rparr>"

definition ipcp_init :: "fsm_pcb \<Rightarrow> ipcp fsm \<Rightarrow> ipcp fsm" where
  "ipcp_init pcb f =
     (let f = (fsm_init pcb f)\<lparr>maxnakloops := 100\<rparr>; c = ci f
      in f\<lparr>ci := c\<lparr>wantoptions := (wantoptions c)\<lparr>neg_addr := True, old_addrs := True, neg_vj := True,
             vj_protocol := IPCP_VJ_COMP, maxslotindex := MAX_STATES - 1, cflag := True\<rparr>,
           allowoptions := (allowoptions c)\<lparr>neg_addr := True, old_addrs := True, neg_vj := True,
             maxslotindex := MAX_STATES - 1, cflag := True\<rparr>\<rparr>\<rparr>)"

definition ipcp_resetci :: "ipcp \<Rightarrow> ipcp" where
  "ipcp_resetci c =
     (let wo = wantoptions c; ao = allowoptions c;
          wo = wo\<lparr>req_addr := (neg_addr wo \<or> old_addrs wo) \<and> (neg_addr ao \<or> old_addrs ao)\<rparr>;
          wo = (if ouraddr wo = 0 then wo\<lparr>accept_local := True\<rparr> else wo);
          wo = (if hisaddr wo = 0 then wo\<lparr>accept_remote := True\<rparr> else wo);
          wo = wo\<lparr>req_dns1 := usepeerdns c, req_dns2 := usepeerdns c\<rparr>;
          go = (if ask_for_local c then wo else wo\<lparr>ouraddr := 0\<rparr>)
      in c\<lparr>wantoptions := wo, gotoptions := go, hisoptions := zero_options\<rparr>)"

section \<open>Our request\<close>

definition wants_addrs :: "ipcp_options \<Rightarrow> bool" where
  "wants_addrs go \<longleftrightarrow> \<not> neg_addr go \<and> old_addrs go"

definition addrs_option :: "u8 \<Rightarrow> u32 \<Rightarrow> u32 \<Rightarrow> u8 list" where
  "addrs_option opt val1 val2 = [opt, of_nat CILEN_ADDRS] @ put_addr val1 @ put_addr val2"

definition vj_option :: "u8 \<Rightarrow> u16 \<Rightarrow> bool \<Rightarrow> u8 \<Rightarrow> bool \<Rightarrow> u8 list" where
  "vj_option opt val old slots slotid =
     (if old then [opt, of_nat CILEN_COMPRESS] @ short_bytes val
      else [opt, of_nat CILEN_VJ] @ short_bytes val @ [slots, of_bool slotid])"

definition addr_option :: "u8 \<Rightarrow> u32 \<Rightarrow> u8 list" where
  "addr_option opt val = [opt, of_nat CILEN_ADDR] @ put_addr val"

text \<open>The length of the request; the options may change to the old forms the peer used.\<close>

definition ipcp_old_forms :: "ipcp \<Rightarrow> ipcp" where
  "ipcp_old_forms c =
     (let go = gotoptions c; wo = wantoptions c; ho = hisoptions c;
          go = (if neg_addr go \<and> old_addrs go \<and> \<not> neg_addr ho \<and> old_addrs ho
                then go\<lparr>neg_addr := False\<rparr> else go);
          go = (if neg_vj wo \<and> \<not> neg_vj go \<and> \<not> old_vj go \<and> neg_vj ho \<and> old_vj ho
                then go\<lparr>neg_vj := True, old_vj := True, vj_protocol := vj_protocol ho\<rparr> else go)
      in c\<lparr>gotoptions := go\<rparr>)"

definition ipcp_cilen :: "ipcp \<Rightarrow> nat \<times> ipcp" where
  "ipcp_cilen c =
     (let c = ipcp_old_forms c; go = gotoptions c
      in ((if wants_addrs go then CILEN_ADDRS else 0) +
          (if neg_vj go then if old_vj go then CILEN_COMPRESS else CILEN_VJ else 0) +
          (if neg_addr go then CILEN_ADDR else 0) +
          (if req_dns1 go then CILEN_ADDR else 0) +
          (if req_dns2 go then CILEN_ADDR else 0), c))"

definition ipcp_add_options :: "u8 list \<times> nat \<times> ipcp_options \<Rightarrow> u8 list \<times> nat \<times> ipcp_options" where
  "ipcp_add_options s =
     (let s = addci_option wants_addrs (\<lambda>go. addrs_option CI_ADDRS (ouraddr go) (hisaddr go))
                (\<lambda>go. go\<lparr>old_addrs := False\<rparr>) s;
          s = addci_option neg_vj
                (\<lambda>go. vj_option CI_COMPRESSTYPE (vj_protocol go) (old_vj go) (maxslotindex go) (cflag go))
                (\<lambda>go. go\<lparr>neg_vj := False\<rparr>) s;
          s = addci_option neg_addr (\<lambda>go. addr_option CI_ADDR (ouraddr go)) (\<lambda>go. go\<lparr>neg_addr := False\<rparr>) s;
          s = addci_option req_dns1 (\<lambda>go. addr_option CI_MS_DNS1 (dnsaddr0 go)) (\<lambda>go. go\<lparr>req_dns1 := False\<rparr>) s
      in addci_option req_dns2 (\<lambda>go. addr_option CI_MS_DNS2 (dnsaddr1 go)) (\<lambda>go. go\<lparr>req_dns2 := False\<rparr>) s)"

definition ipcp_addci :: "ipcp \<Rightarrow> nat \<Rightarrow> u8 list \<times> ipcp" where
  "ipcp_addci c len =
     (case ipcp_add_options ([], len, gotoptions c) of (ucp, _, go) \<Rightarrow> (ucp, c\<lparr>gotoptions := go\<rparr>))"

section \<open>The peer's acknowledgement\<close>

text \<open>Each check takes its option off the packet; \<open>None\<close> is the jump to \<open>bad\<close>.\<close>

definition ackci_addrs :: "u8 \<Rightarrow> bool \<Rightarrow> u32 \<Rightarrow> u32 \<Rightarrow> u8 list \<Rightarrow> u8 list option" where
  "ackci_addrs opt neg val1 val2 p =
     (if neg
      then if length p < CILEN_ADDRS then None
           else if unat (p ! 1) \<noteq> CILEN_ADDRS \<or> p ! 0 \<noteq> opt then None
           else if val1 \<noteq> get_addr (drop 2 p) then None
           else if val2 \<noteq> get_addr (drop 6 p) then None
           else Some (drop CILEN_ADDRS p)
      else Some p)"

definition ackci_vj :: "u8 \<Rightarrow> bool \<Rightarrow> u16 \<Rightarrow> bool \<Rightarrow> u8 \<Rightarrow> bool \<Rightarrow> u8 list \<Rightarrow> u8 list option" where
  "ackci_vj opt neg val old slots slotid p =
     (if neg
      then let vjlen = (if old then CILEN_COMPRESS else CILEN_VJ)
           in if length p < vjlen then None
              else if unat (p ! 1) \<noteq> vjlen \<or> p ! 0 \<noteq> opt then None
              else if get_short (drop 2 p) \<noteq> val then None
              else if \<not> old \<and> (p ! 4 \<noteq> slots \<or> p ! 5 \<noteq> of_bool slotid) then None
              else Some (drop vjlen p)
      else Some p)"

definition ackci_addr :: "u8 \<Rightarrow> bool \<Rightarrow> u32 \<Rightarrow> u8 list \<Rightarrow> u8 list option" where
  "ackci_addr opt neg val p =
     (if neg
      then if length p < CILEN_ADDR then None
           else if unat (p ! 1) \<noteq> CILEN_ADDR \<or> p ! 0 \<noteq> opt then None
           else if val \<noteq> get_addr (drop 2 p) then None
           else Some (drop CILEN_ADDR p)
      else Some p)"

definition ipcp_ackci :: "ipcp \<Rightarrow> u8 list \<Rightarrow> bool" where
  "ipcp_ackci c p =
     (let go = gotoptions c
      in (do { p \<leftarrow> ackci_addrs CI_ADDRS (wants_addrs go) (ouraddr go) (hisaddr go) p;
               p \<leftarrow> ackci_vj CI_COMPRESSTYPE (neg_vj go) (vj_protocol go) (old_vj go) (maxslotindex go) (cflag go) p;
               p \<leftarrow> ackci_addr CI_ADDR (neg_addr go) (ouraddr go) p;
               p \<leftarrow> ackci_addr CI_MS_DNS1 (req_dns1 go) (dnsaddr0 go) p;
               ackci_addr CI_MS_DNS2 (req_dns2 go) (dnsaddr1 go) p }) = Some [])"

section \<open>The peer's suggestions\<close>

text \<open>
  A Configure-Nak is read with a pointer and the length left: \<open>p\<close> and \<open>len\<close>. They are kept
  apart, as the pointer does not move past the last two bytes of a VJ option that is treated
  as rejected. \<open>no\<close> records the options seen, \<open>new\<close> is what to request next.
\<close>

type_synonym nak_state = "u8 list \<times> nat \<times> ipcp_options \<times> ipcp_options"

definition nakci_addrs :: "bool \<Rightarrow> ipcp_options \<Rightarrow> nak_state \<Rightarrow> nak_state" where
  "nakci_addrs treat_as_reject go = (\<lambda>(p, len, no, new).
     if wants_addrs go \<and> option_at CI_ADDRS CILEN_ADDRS len p
     then let ciaddr1 = get_addr (drop 2 p); ciaddr2 = get_addr (drop 6 p);
              new = (if treat_as_reject then new\<lparr>old_addrs := False\<rparr>
                     else let new = (if accept_local go \<and> ciaddr1 \<noteq> 0 then new\<lparr>ouraddr := ciaddr1\<rparr> else new)
                          in if accept_remote go \<and> ciaddr2 \<noteq> 0 then new\<lparr>hisaddr := ciaddr2\<rparr> else new)
          in (drop 10 p, len - CILEN_ADDRS, no\<lparr>old_addrs := True\<rparr>, new)
     else (p, len, no, new))"

definition nakci_vj :: "bool \<Rightarrow> ipcp_options \<Rightarrow> nak_state \<Rightarrow> nak_state" where
  "nakci_vj treat_as_reject go = (\<lambda>(p, len, no, new).
     if neg_vj go \<and> (option_at CI_COMPRESSTYPE CILEN_COMPRESS len p \<or> option_at CI_COMPRESSTYPE CILEN_VJ len p)
     then let n = unat (p ! 1); cishort = get_short (drop 2 p); no = no\<lparr>neg_vj := True\<rparr>
          in if treat_as_reject then (drop 4 p, len - n, no, new\<lparr>neg_vj := False\<rparr>)
             else if n = CILEN_VJ
             then let slots = p ! 4; slotid = p ! 5;
                      new = (if cishort = IPCP_VJ_COMP
                             then let new = new\<lparr>old_vj := False\<rparr>;
                                      new = (if slots < maxslotindex go then new\<lparr>maxslotindex := slots\<rparr> else new)
                                  in if slotid = 0 then new\<lparr>cflag := False\<rparr> else new
                             else new\<lparr>neg_vj := False\<rparr>)
                  in (drop 6 p, len - n, no, new)
             else (drop 4 p, len - n, no,
                   if cishort = IPCP_VJ_COMP \<or> cishort = IPCP_VJ_COMP_OLD
                   then new\<lparr>old_vj := True, vj_protocol := cishort\<rparr> else new\<lparr>neg_vj := False\<rparr>)
     else (p, len, no, new))"

definition nakci_addr :: "bool \<Rightarrow> ipcp_options \<Rightarrow> nak_state \<Rightarrow> nak_state" where
  "nakci_addr treat_as_reject go = (\<lambda>(p, len, no, new).
     if neg_addr go \<and> option_at CI_ADDR CILEN_ADDR len p
     then let ciaddr1 = get_addr (drop 2 p);
              new = (if treat_as_reject then new\<lparr>neg_addr := False, old_addrs := False\<rparr>
                     else if accept_local go \<and> ciaddr1 \<noteq> 0 then new\<lparr>ouraddr := ciaddr1\<rparr> else new)
          in (drop 6 p, len - CILEN_ADDR, no\<lparr>neg_addr := True\<rparr>, new)
     else (p, len, no, new))"

definition nakci_dns1 :: "bool \<Rightarrow> ipcp_options \<Rightarrow> nak_state \<Rightarrow> nak_state" where
  "nakci_dns1 treat_as_reject go = (\<lambda>(p, len, no, new).
     if req_dns1 go \<and> option_at CI_MS_DNS1 CILEN_ADDR len p
     then (drop 6 p, len - CILEN_ADDR, no\<lparr>req_dns1 := True\<rparr>,
           if treat_as_reject then new\<lparr>req_dns1 := False\<rparr> else new\<lparr>dnsaddr0 := get_addr (drop 2 p)\<rparr>)
     else (p, len, no, new))"

definition nakci_dns2 :: "bool \<Rightarrow> ipcp_options \<Rightarrow> nak_state \<Rightarrow> nak_state" where
  "nakci_dns2 treat_as_reject go = (\<lambda>(p, len, no, new).
     if req_dns2 go \<and> option_at CI_MS_DNS2 CILEN_ADDR len p
     then (drop 6 p, len - CILEN_ADDR, no\<lparr>req_dns2 := True\<rparr>,
           if treat_as_reject then new\<lparr>req_dns2 := False\<rparr> else new\<lparr>dnsaddr1 := get_addr (drop 2 p)\<rparr>)
     else (p, len, no, new))"

text \<open>An option we did not request; \<open>q\<close> is its value, \<open>n\<close> its length.\<close>

definition nakci_unasked ::
  "ipcp_options \<Rightarrow> u8 \<Rightarrow> nat \<Rightarrow> u8 list \<Rightarrow> ipcp_options \<times> ipcp_options \<Rightarrow> (ipcp_options \<times> ipcp_options) option" where
  "nakci_unasked go citype n q = (\<lambda>(no, new).
     if citype = CI_COMPRESSTYPE
     then if neg_vj go \<or> neg_vj no \<or> n \<noteq> CILEN_VJ \<and> n \<noteq> CILEN_COMPRESS then None
          else Some (no\<lparr>neg_vj := True\<rparr>, new)
     else if citype = CI_ADDRS
     then if wants_addrs go \<or> old_addrs no \<or> n \<noteq> CILEN_ADDRS then None
          else let new = new\<lparr>neg_addr := False\<rparr>; ciaddr1 = get_addr q; ciaddr2 = get_addr (drop 4 q);
                   new = (if ciaddr1 \<noteq> 0 \<and> accept_local go then new\<lparr>ouraddr := ciaddr1\<rparr> else new);
                   new = (if ciaddr2 \<noteq> 0 \<and> accept_remote go then new\<lparr>hisaddr := ciaddr2\<rparr> else new)
               in Some (no\<lparr>old_addrs := True\<rparr>, new)
     else if citype = CI_ADDR
     then if neg_addr go \<or> neg_addr no \<or> n \<noteq> CILEN_ADDR then None
          else let new = new\<lparr>old_addrs := False\<rparr>; ciaddr1 = get_addr q;
                   new = (if ciaddr1 \<noteq> 0 \<and> accept_local go then new\<lparr>ouraddr := ciaddr1\<rparr> else new);
                   new = (if ouraddr new \<noteq> 0 then new\<lparr>neg_addr := True\<rparr> else new)
               in Some (no\<lparr>neg_addr := True\<rparr>, new)
     else if citype = CI_MS_DNS1
     then if req_dns1 go \<or> req_dns1 no \<or> n \<noteq> CILEN_ADDR then None
          else Some (no\<lparr>req_dns1 := True\<rparr>, new\<lparr>dnsaddr0 := get_addr q, req_dns1 := True\<rparr>)
     else if citype = CI_MS_DNS2
     then if req_dns2 go \<or> req_dns2 no \<or> n \<noteq> CILEN_ADDR then None
          else Some (no\<lparr>req_dns2 := True\<rparr>, new\<lparr>dnsaddr1 := get_addr q, req_dns2 := True\<rparr>)
     else Some (no, new))"

function ipcp_nakci_rest :: "ipcp_options \<Rightarrow> nak_state \<Rightarrow> ipcp_options option" where
  "ipcp_nakci_rest go (p, len, no, new) =
     (if len < CILEN_VOID then Some new
      else let n = unat (p ! 1)
           in if n < CILEN_VOID \<or> len < n then None
              else case nakci_unasked go (p ! 0) n (drop 2 p) (no, new) of
                     None \<Rightarrow> None
                   | Some (no, new) \<Rightarrow> ipcp_nakci_rest go (drop n p, len - n, no, new))"
  by pat_completeness auto
termination by (relation "measure (\<lambda>(go, p, len, no, new). len)") auto

definition ipcp_nakci :: "fsm_state \<Rightarrow> ipcp \<Rightarrow> u8 list \<Rightarrow> bool \<Rightarrow> int \<times> ipcp" where
  "ipcp_nakci st c p treat_as_reject =
     (let go = gotoptions c;
          s = (p, length p, zero_options, go);
          s = nakci_addrs treat_as_reject go s;
          s = nakci_vj treat_as_reject go s;
          s = nakci_addr treat_as_reject go s;
          s = nakci_dns1 treat_as_reject go s;
          s = nakci_dns2 treat_as_reject go s
      in case ipcp_nakci_rest go s of
           None \<Rightarrow> (0, c)
         | Some new \<Rightarrow> (1, if st \<noteq> PPP_FSM_OPENED then c\<lparr>gotoptions := new\<rparr> else c))"

declare ipcp_nakci_rest.simps [simp del]

section \<open>Rejected options\<close>

text \<open>Each check takes its option off the packet, if it is the first one, and gives it up.\<close>

definition rejci_addrs :: "u8 \<Rightarrow> bool \<Rightarrow> u32 \<Rightarrow> u32 \<Rightarrow> u8 list \<times> ipcp_options \<Rightarrow> (u8 list \<times> ipcp_options) option" where
  "rejci_addrs opt neg val1 val2 = (\<lambda>(p, new).
     if neg \<and> option_at opt CILEN_ADDRS (length p) p
     then if get_addr (drop 2 p) \<noteq> val1 then None
          else if get_addr (drop 6 p) \<noteq> val2 then None
          else Some (drop CILEN_ADDRS p, new\<lparr>old_addrs := False\<rparr>)
     else Some (p, new))"

definition rejci_vj ::
  "u8 \<Rightarrow> bool \<Rightarrow> u16 \<Rightarrow> bool \<Rightarrow> u8 \<Rightarrow> bool \<Rightarrow> u8 list \<times> ipcp_options \<Rightarrow> (u8 list \<times> ipcp_options) option" where
  "rejci_vj opt neg val old slots slotid = (\<lambda>(p, new).
     let vjlen = (if old then CILEN_COMPRESS else CILEN_VJ)
     in if neg \<and> option_at opt vjlen (length p) p
        then if get_short (drop 2 p) \<noteq> val then None
             else if \<not> old \<and> (p ! 4 \<noteq> slots \<or> p ! 5 \<noteq> of_bool slotid) then None
             else Some (drop vjlen p, new\<lparr>neg_vj := False\<rparr>)
        else Some (p, new))"

definition rejci_addr ::
  "u8 \<Rightarrow> bool \<Rightarrow> u32 \<Rightarrow> (ipcp_options \<Rightarrow> ipcp_options) \<Rightarrow> u8 list \<times> ipcp_options \<Rightarrow> (u8 list \<times> ipcp_options) option" where
  "rejci_addr opt neg val clear = (\<lambda>(p, new).
     if neg \<and> option_at opt CILEN_ADDR (length p) p
     then if get_addr (drop 2 p) \<noteq> val then None else Some (drop CILEN_ADDR p, clear new)
     else Some (p, new))"

definition ipcp_rejected :: "ipcp_options \<Rightarrow> u8 list \<Rightarrow> (u8 list \<times> ipcp_options) option" where
  "ipcp_rejected go p =
     do { s \<leftarrow> rejci_addrs CI_ADDRS (wants_addrs go) (ouraddr go) (hisaddr go) (p, go);
          s \<leftarrow> rejci_vj CI_COMPRESSTYPE (neg_vj go) (vj_protocol go) (old_vj go) (maxslotindex go) (cflag go) s;
          s \<leftarrow> rejci_addr CI_ADDR (neg_addr go) (ouraddr go) (\<lambda>new. new\<lparr>neg_addr := False\<rparr>) s;
          s \<leftarrow> rejci_addr CI_MS_DNS1 (req_dns1 go) (dnsaddr0 go) (\<lambda>new. new\<lparr>req_dns1 := False\<rparr>) s;
          rejci_addr CI_MS_DNS2 (req_dns2 go) (dnsaddr1 go) (\<lambda>new. new\<lparr>req_dns2 := False\<rparr>) s }"

definition ipcp_rejci :: "fsm_state \<Rightarrow> ipcp \<Rightarrow> u8 list \<Rightarrow> int \<times> ipcp" where
  "ipcp_rejci st c p =
     (case ipcp_rejected (gotoptions c) p of
        Some ([], new) \<Rightarrow> (1, if st \<noteq> PPP_FSM_OPENED then c\<lparr>gotoptions := new\<rparr> else c)
      | _ \<Rightarrow> (0, c))"

section \<open>The peer's request\<close>

text \<open>Overwriting a field of the option at an offset.\<close>

definition put_at :: "nat \<Rightarrow> u8 list \<Rightarrow> u8 list \<Rightarrow> u8 list" where
  "put_at n v p = take n p @ v @ drop (n + length v) p"

text \<open>
  One option with its header, \<open>cip\<close>: the answer to it, the option as it is sent back if it is,
  and the protocol's state.
\<close>

definition reqci_addrs :: "bool \<Rightarrow> ipcp \<Rightarrow> u8 list \<Rightarrow> u8 \<times> u8 list \<times> ipcp" where
  "reqci_addrs rej c cip =
     (let wo = wantoptions c; ho = hisoptions c
      in if \<not> old_addrs (allowoptions c) \<or> neg_addr ho \<or> length cip \<noteq> CILEN_ADDRS then (CONFREJ, cip, c)
         else
           let ciaddr1 = get_addr (drop 2 cip); ciaddr2 = get_addr (drop 6 cip);
               nak1 = (ciaddr1 \<noteq> hisaddr wo \<and> (ciaddr1 = 0 \<or> \<not> accept_remote wo))
           in if \<not> nak1 \<and> ciaddr1 = 0 \<and> hisaddr wo = 0
              then (CONFREJ, cip, c\<lparr>wantoptions := wo\<lparr>req_addr := False\<rparr>\<rparr>)
              else
                let cip = (if nak1 \<and> \<not> rej then put_at 2 (put_addr (hisaddr wo)) cip else cip);
                    nak2 = (ciaddr2 \<noteq> ouraddr wo \<and> (ciaddr2 = 0 \<or> \<not> accept_local wo));
                    cip = (if nak2 \<and> \<not> rej then put_at 6 (put_addr (ouraddr wo)) cip else cip);
                    wo = (if ciaddr2 \<noteq> ouraddr wo \<and> \<not> nak2 then wo\<lparr>ouraddr := ciaddr2\<rparr> else wo)
                in (if nak1 \<or> nak2 then CONFNAK else CONFACK, cip,
                    c\<lparr>wantoptions := wo,
                      hisoptions := ho\<lparr>old_addrs := True, hisaddr := ciaddr1, ouraddr := ciaddr2\<rparr>\<rparr>))"

definition reqci_addr :: "bool \<Rightarrow> ipcp \<Rightarrow> u8 list \<Rightarrow> u8 \<times> u8 list \<times> ipcp" where
  "reqci_addr rej c cip =
     (let wo = wantoptions c; ho = hisoptions c
      in if \<not> neg_addr (allowoptions c) \<or> old_addrs ho \<or> length cip \<noteq> CILEN_ADDR then (CONFREJ, cip, c)
         else
           let ciaddr1 = get_addr (drop 2 cip);
               nak1 = (ciaddr1 \<noteq> hisaddr wo \<and> (ciaddr1 = 0 \<or> \<not> accept_remote wo))
           in if \<not> nak1 \<and> ciaddr1 = 0 \<and> hisaddr wo = 0
              then (CONFREJ, cip, c\<lparr>wantoptions := wo\<lparr>req_addr := False\<rparr>\<rparr>)
              else (if nak1 then CONFNAK else CONFACK,
                    if nak1 \<and> \<not> rej then put_at 2 (put_addr (hisaddr wo)) cip else cip,
                    c\<lparr>hisoptions := ho\<lparr>neg_addr := True, hisaddr := ciaddr1\<rparr>\<rparr>))"

definition reqci_dns :: "u32 \<Rightarrow> ipcp \<Rightarrow> u8 list \<Rightarrow> u8 \<times> u8 list \<times> ipcp" where
  "reqci_dns addr c cip =
     (if addr = 0 \<or> length cip \<noteq> CILEN_ADDR then (CONFREJ, cip, c)
      else if get_addr (drop 2 cip) \<noteq> addr then (CONFNAK, put_at 2 (put_addr addr) cip, c)
      else (CONFACK, cip, c))"

definition reqci_vj :: "bool \<Rightarrow> ipcp \<Rightarrow> u8 list \<Rightarrow> u8 \<times> u8 list \<times> ipcp" where
  "reqci_vj rej c cip =
     (let wo = wantoptions c; ao = allowoptions c; ho = hisoptions c; n = length cip
      in if \<not> neg_vj ao \<or> n \<noteq> CILEN_VJ \<and> n \<noteq> CILEN_COMPRESS then (CONFREJ, cip, c)
         else
           let cishort = get_short (drop 2 cip)
           in if \<not> (cishort = IPCP_VJ_COMP \<or> cishort = IPCP_VJ_COMP_OLD \<and> n = CILEN_COMPRESS)
              then (CONFREJ, cip, c)
              else
                let ho = ho\<lparr>neg_vj := True, vj_protocol := cishort\<rparr>
                in if n = CILEN_VJ
                   then let slots = cip ! 4; slotid = cip ! 5;
                            nak1 = (maxslotindex ao < slots);
                            cip = (if nak1 \<and> \<not> rej then put_at 4 [maxslotindex ao] cip else cip);
                            nak2 = (slotid \<noteq> 0 \<and> \<not> cflag ao);
                            cip = (if nak2 \<and> \<not> rej then put_at 5 [of_bool (cflag wo)] cip else cip)
                        in (if nak1 \<or> nak2 then CONFNAK else CONFACK, cip,
                            c\<lparr>hisoptions := ho\<lparr>maxslotindex := slots, cflag := slotid AND 1 \<noteq> 0\<rparr>\<rparr>)
                   else (CONFACK, cip,
                         c\<lparr>hisoptions := ho\<lparr>old_vj := True, maxslotindex := MAX_STATES - 1, cflag := True\<rparr>\<rparr>))"

definition reqci_option :: "bool \<Rightarrow> ipcp \<Rightarrow> u8 list \<Rightarrow> u8 \<times> u8 list \<times> ipcp" where
  "reqci_option rej c cip =
     (let citype = cip ! 0
      in if citype = CI_ADDRS then reqci_addrs rej c cip
         else if citype = CI_ADDR then reqci_addr rej c cip
         else if citype = CI_MS_DNS1 then reqci_dns (dnsaddr0 (allowoptions c)) c cip
         else if citype = CI_MS_DNS2 then reqci_dns (dnsaddr1 (allowoptions c)) c cip
         else if citype = CI_COMPRESSTYPE then reqci_vj rej c cip
         else (CONFREJ, cip, c))"

text \<open>The answer so far, and whether the option is part of it.\<close>

definition reqci_collect :: "bool \<Rightarrow> u8 \<Rightarrow> u8 list \<Rightarrow> u8 \<times> u8 list \<Rightarrow> u8 \<times> u8 list" where
  "reqci_collect rej orc cip = (\<lambda>(rc, reply).
     if orc = CONFACK \<and> rc \<noteq> CONFACK then (rc, reply)
     else if orc = CONFNAK \<and> \<not> rej \<and> rc = CONFREJ then (rc, reply)
     else
       let (orc, rc, reply) =
             (if orc = CONFNAK
              then if rej then (CONFREJ, rc, reply)
                   else if rc = CONFACK then (orc, CONFNAK, []) else (orc, rc, reply)
              else (orc, rc, reply));
           (rc, reply) = (if orc = CONFREJ \<and> rc \<noteq> CONFREJ then (CONFREJ, []) else (rc, reply))
       in (rc, reply @ cip))"

function reqci_loop :: "bool \<Rightarrow> ipcp \<Rightarrow> u8 list \<Rightarrow> u8 \<times> u8 list \<Rightarrow> (u8 \<times> u8 list) \<times> ipcp" where
  "reqci_loop rej c p ans =
     (if p = [] then (ans, c)
      else if length p < 2 \<or> unat (p ! 1) < 2 \<or> length p < unat (p ! 1)
      then (reqci_collect rej CONFREJ p ans, c)
      else let (orc, cip, c) = reqci_option rej c (take (unat (p ! 1)) p)
           in reqci_loop rej c (drop (unat (p ! 1)) p) (reqci_collect rej orc cip ans))"
  by pat_completeness auto
termination by (relation "measure (\<lambda>(rej, c, p, ans). length p)") auto

declare reqci_loop.simps [simp del]

definition ipcp_reqci :: "ipcp \<Rightarrow> u8 list \<Rightarrow> bool \<Rightarrow> u8 \<times> u8 list \<times> ipcp" where
  "ipcp_reqci c inp reject_if_disagree =
     (let ((rc, reply), c) = reqci_loop reject_if_disagree (c\<lparr>hisoptions := zero_options\<rparr>) inp (CONFACK, []);
          ho = hisoptions c; wo = wantoptions c
      in if rc \<noteq> CONFREJ \<and> \<not> neg_addr ho \<and> \<not> old_addrs ho \<and> req_addr wo \<and> \<not> reject_if_disagree \<and> \<not> noremoteip c
         then let (rc, reply, wo) =
                    (if rc = CONFACK then (CONFNAK, [], wo\<lparr>req_addr := False\<rparr>) else (rc, reply, wo))
              in (rc, reply @ addr_option CI_ADDR (hisaddr wo), c\<lparr>wantoptions := wo\<rparr>)
         else (rc, reply, c))"

definition ipcp_callbacks :: "ipcp fsm_callbacks" where
  "ipcp_callbacks = \<lparr>resetci = Some ipcp_resetci, cilen = Some ipcp_cilen, addci = Some ipcp_addci,
     ackci = Some ipcp_ackci, nakci = Some (\<lambda>st c p rej. let (ret, c) = ipcp_nakci st c p rej in (ret, c, None)), rejci = Some ipcp_rejci,
     reqci = Some ipcp_reqci, extcode = None,
     reports = (\<lambda>e. e = Up \<or> e = Down \<or> e = Finished)\<rparr>"

end
