(* ===== verification/Ipcp_Requests.thy ===== *)
theory Ipcp_Requests
  imports Ipcp
begin

text \<open>
  Our own Configure-Request of IPCP: what it holds, what acknowledges it, what a
  Configure-Reject or Configure-Nak changes in the next one.
\<close>

section \<open>The options of a request\<close>

text \<open>The options that are requested, in the order of the code, with their values.\<close>

definition own_options :: "ipcp_options \<Rightarrow> (u8 \<times> u8 list) list" where
  "own_options go =
     (if wants_addrs go then [(CI_ADDRS, put_addr (ouraddr go) @ put_addr (hisaddr go))] else []) @
     (if neg_vj go
      then [(CI_COMPRESSTYPE, short_bytes (vj_protocol go) @
              (if old_vj go then [] else [maxslotindex go, of_bool (cflag go)]))] else []) @
     (if neg_addr go then [(CI_ADDR, put_addr (ouraddr go))] else []) @
     (if req_dns1 go then [(CI_MS_DNS1, put_addr (dnsaddr0 go))] else []) @
     (if req_dns2 go then [(CI_MS_DNS2, put_addr (dnsaddr1 go))] else [])"

lemma print_own:
  "print_option (t, put_addr a @ put_addr b) = addrs_option t a b"
  "print_option (t, put_addr a) = addr_option t a"
  "print_option (t, short_bytes v @ (if old then [] else [s, of_bool i])) = vj_option t v old s i"
  by (simp_all add: print_option_def addrs_option_def addr_option_def vj_option_def)

lemma length_own_option [simp]:
  "length (addrs_option t a b) = 10" "length (addr_option t a) = 6"
  "length (vj_option t v old s i) = (if old then 4 else 6)"
  by (simp_all add: addrs_option_def addr_option_def vj_option_def)

lemma own_bytes:
  "option_bytes (own_options go) =
     (if wants_addrs go then addrs_option CI_ADDRS (ouraddr go) (hisaddr go) else []) @
     (if neg_vj go then vj_option CI_COMPRESSTYPE (vj_protocol go) (old_vj go) (maxslotindex go) (cflag go) else []) @
     (if neg_addr go then addr_option CI_ADDR (ouraddr go) else []) @
     (if req_dns1 go then addr_option CI_MS_DNS1 (dnsaddr0 go) else []) @
     (if req_dns2 go then addr_option CI_MS_DNS2 (dnsaddr1 go) else [])"
  by (simp add: own_options_def print_own del: append.simps)

lemma own_options_lengths: "\<forall>(t, v) \<in> set (own_options go). length v \<le> 8"
  by (auto simp: own_options_def split: if_splits)

lemma distinct_own_options: "distinct (map fst (own_options go))"
  by (simp add: own_options_def)

lemma length_own_bytes_le: "length (option_bytes (own_options go)) \<le> 28"
  by (simp add: own_bytes wants_addrs_def)

section \<open>Building the request\<close>

lemma addci_option_fits:
  assumes "length (if neg go then option go else []) \<le> len"
  shows "addci_option neg option clear (ucp, len, go) =
    (ucp @ (if neg go then option go else []), len - length (if neg go then option go else []), go)"
  using assms by (auto simp: addci_option_def)

lemma ipcp_addci_fits:
  assumes "length (option_bytes (own_options (gotoptions c))) \<le> len"
  shows "ipcp_addci c len = (option_bytes (own_options (gotoptions c)), c)"
  using assms by (simp add: ipcp_addci_def ipcp_add_options_def Let_def own_bytes addci_option_fits
      del: length_own_option split del: if_split)

lemma ipcp_cilen_own:
  "ipcp_cilen c = (length (option_bytes (own_options (gotoptions (ipcp_old_forms c)))), ipcp_old_forms c)"
  by (simp add: ipcp_cilen_def Let_def own_bytes)

lemma ipcp_callback_simps [simp]:
  "resetci ipcp_callbacks = Some ipcp_resetci" "cilen ipcp_callbacks = Some ipcp_cilen"
  "addci ipcp_callbacks = Some ipcp_addci" "ackci ipcp_callbacks = Some ipcp_ackci"
  "nakci ipcp_callbacks = Some (\<lambda>st c p rej. let (ret, c) = ipcp_nakci st c p rej in (ret, c, None))" "rejci ipcp_callbacks = Some ipcp_rejci"
  "reqci ipcp_callbacks = Some ipcp_reqci" "extcode ipcp_callbacks = None"
  "reports ipcp_callbacks e \<longleftrightarrow> e = Up \<or> e = Down \<or> e = Finished"
  by (simp_all add: ipcp_callbacks_def)

text \<open>
  The link's receive unit is never below 128, so that every request fits; then building it
  gives up no option.
\<close>

lemma ipcp_request:
  assumes "32 \<le> peer_mru pcb"
  shows "request_data ipcp_callbacks pcb c = option_bytes (own_options (gotoptions (ipcp_old_forms c)))"
    and "request_ci ipcp_callbacks pcb c = ipcp_old_forms c"
proof -
  let ?c = "ipcp_old_forms c" let ?d = "option_bytes (own_options (gotoptions ?c))"
  have "length ?d \<le> 28" by (rule length_own_bytes_le)
  then have l: "request_length ipcp_callbacks pcb c = (length ?d, ?c)"
    using assms by (simp add: request_length_def ipcp_cilen_own)
  have "request_options ipcp_callbacks (length ?d) ?c = (?d, ?c)"
    by (cases "?d = []") (simp_all add: request_options_def ipcp_addci_fits)
  with l show "request_data ipcp_callbacks pcb c = ?d" "request_ci ipcp_callbacks pcb c = ?c"
    by (simp_all add: request_data_def request_ci_def)
qed

lemma ipcp_old_forms_idem: "ipcp_old_forms (ipcp_old_forms c) = ipcp_old_forms c"
  by (auto simp: ipcp_old_forms_def Let_def)

section \<open>The acknowledgement\<close>

lemma addr_at_front:
  assumes "6 \<le> length p"
  shows "unat (p ! 1) = 6 \<and> p ! 0 = opt \<and> get_addr (drop 2 p) = a \<longleftrightarrow> p = addr_option opt a @ drop 6 p"
proof -
  obtain t l q where p: "p = t # l # q" using assms two_bytes [of p] by auto
  obtain u r where "q = u @ r" "length u = 4" using assms p bytes_front [of 4 q] by auto
  then show ?thesis by (auto simp: p addr_field addr_option_def unat_u8_eq)
qed

lemma addrs_at_front:
  assumes "10 \<le> length p"
  shows "unat (p ! 1) = 10 \<and> p ! 0 = opt \<and> get_addr (drop 2 p) = a \<and> get_addr (drop 6 p) = b \<longleftrightarrow>
    p = addrs_option opt a b @ drop 10 p"
proof -
  obtain t l q where p: "p = t # l # q" using assms two_bytes [of p] by auto
  obtain u r where u: "q = u @ r" "length u = 4" using assms p bytes_front [of 4 q] by auto
  obtain u' r' where "r = u' @ r'" "length u' = 4" using assms p u bytes_front [of 4 r] by auto
  with u show ?thesis by (auto simp: p addr_field addrs_option_def unat_u8_eq)
qed

lemma vj_at_front:
  assumes "(if old then 4 else 6) \<le> length p"
  shows "unat (p ! 1) = (if old then 4 else 6) \<and> p ! 0 = opt \<and> get_short (drop 2 p) = v \<and>
      (old \<or> p ! 4 = s \<and> p ! 5 = of_bool i) \<longleftrightarrow>
    p = vj_option opt v old s i @ drop (if old then 4 else 6) p"
proof -
  have "4 \<le> length p" using assms by (simp split: if_splits)
  then obtain t l h g r where p: "p = t # l # h # g # r"
    using two_bytes [of p] two_bytes [of "drop 2 p"] by fastforce
  have v: "t # l # h # g # q = vj_option opt v old s i @ q' \<longleftrightarrow>
      t = opt \<and> l = (if old then 4 else 6) \<and> [h, g] = short_bytes v \<and>
      q = (if old then [] else [s, of_bool i]) @ q'" for q q'
    by (auto simp: vj_option_def short_bytes_def)
  show ?thesis
  proof (cases old)
    case True
    then show ?thesis using v [of "[]" "[]"] by (auto simp: p short_field_bytes unat_u8_eq)
  next
    case False
    then have "2 \<le> length r" using assms p by simp
    then obtain x y r' where "r = x # y # r'" using two_bytes by blast
    with False show ?thesis using v [of "[x, y]" "[]"] by (auto simp: p short_field_bytes unat_u8_eq)
  qed
qed

text \<open>Each check of the acknowledgement takes exactly the option we would send off the packet.\<close>

lemma check_option:
  "n \<le> len \<Longrightarrow> (if len < (n :: nat) then None else if a \<noteq> n \<or> b \<noteq> opt then None else if w \<noteq> v then None
     else Some r) = (if a = n \<and> b = opt \<and> v = w then Some r else None)"
  "n \<le> len \<Longrightarrow> (if len < (n :: nat) then None else if a \<noteq> n \<or> b \<noteq> opt then None else if w \<noteq> v then None
     else if w' \<noteq> v' then None else Some r) = (if a = n \<and> b = opt \<and> v = w \<and> v' = w' then Some r else None)"
  "n \<le> len \<Longrightarrow> (if len < (n :: nat) then None else if a \<noteq> n \<or> b \<noteq> opt then None else if v \<noteq> w then None
     else if \<not> old \<and> (x \<noteq> x' \<or> y \<noteq> y') then None else Some r) =
   (if a = n \<and> b = opt \<and> v = w \<and> (old \<or> x = x' \<and> y = y') then Some r else None)"
  by auto

lemma ackci_iff:
  "ackci_addrs opt neg a b p = Some r \<longleftrightarrow> p = (if neg then addrs_option opt a b else []) @ r"
  "ackci_addr opt neg a p = Some r \<longleftrightarrow> p = (if neg then addr_option opt a else []) @ r"
  "ackci_vj opt neg v old s i p = Some r \<longleftrightarrow> p = (if neg then vj_option opt v old s i else []) @ r"
proof -
  show "ackci_addrs opt neg a b p = Some r \<longleftrightarrow> p = (if neg then addrs_option opt a b else []) @ r"
  proof (cases "neg \<and> 10 \<le> length p")
    case True
    then show ?thesis
      by (simp only: ackci_addrs_def if_True check_option addrs_at_front front_drop length_own_option)
  qed (cases neg; auto simp: ackci_addrs_def not_le dest: too_short)
  show "ackci_addr opt neg a p = Some r \<longleftrightarrow> p = (if neg then addr_option opt a else []) @ r"
  proof (cases "neg \<and> 6 \<le> length p")
    case True
    then show ?thesis
      by (simp only: ackci_addr_def if_True check_option addr_at_front front_drop length_own_option)
  qed (cases neg; auto simp: ackci_addr_def not_le dest: too_short)
  show "ackci_vj opt neg v old s i p = Some r \<longleftrightarrow> p = (if neg then vj_option opt v old s i else []) @ r"
  proof (cases "neg \<and> (if old then 4 else 6) \<le> length p")
    case True
    then show ?thesis
      by (simp only: ackci_vj_def Let_def if_True check_option vj_at_front front_drop length_own_option)
  qed (cases neg; cases old; auto simp: ackci_vj_def not_le dest: too_short)
qed

lemma ipcp_ackci_own: "ipcp_ackci c p \<longleftrightarrow> p = option_bytes (own_options (gotoptions c))"
  unfolding ipcp_ackci_def own_bytes Let_def
  by (simp add: bind_eq_Some_conv ackci_iff)

section \<open>The rejection\<close>

text \<open>Our options of these types, as they were sent.\<close>

definition own_bytes_of :: "u8 set \<Rightarrow> ipcp_options \<Rightarrow> u8 list" where
  "own_bytes_of T go = option_bytes (filter (\<lambda>(t, v). t \<in> T) (own_options go))"

definition give_up :: "u8 set \<Rightarrow> ipcp_options \<Rightarrow> ipcp_options" where
  "give_up T go = go\<lparr>
     old_addrs := old_addrs go \<and> \<not> (wants_addrs go \<and> CI_ADDRS \<in> T),
     neg_vj := neg_vj go \<and> CI_COMPRESSTYPE \<notin> T,
     neg_addr := neg_addr go \<and> CI_ADDR \<notin> T,
     req_dns1 := req_dns1 go \<and> CI_MS_DNS1 \<notin> T,
     req_dns2 := req_dns2 go \<and> CI_MS_DNS2 \<notin> T\<rparr>"

lemma rejci_sound:
  "rejci_addrs opt neg a b (p, new) = Some (p', new') \<Longrightarrow>
    \<exists>x. (x \<longrightarrow> neg) \<and> p = off_front (addrs_option opt a b) x p' \<and> new' = (if x then new\<lparr>old_addrs := False\<rparr> else new)"
  "rejci_vj opt neg v old s i (p, new) = Some (p', new') \<Longrightarrow>
    \<exists>x. (x \<longrightarrow> neg) \<and> p = off_front (vj_option opt v old s i) x p' \<and> new' = (if x then new\<lparr>neg_vj := False\<rparr> else new)"
  "rejci_addr opt neg a clear (p, new) = Some (p', new') \<Longrightarrow>
    \<exists>x. (x \<longrightarrow> neg) \<and> p = off_front (addr_option opt a) x p' \<and> new' = (if x then clear new else new)"
proof -
  show "rejci_addrs opt neg a b (p, new) = Some (p', new') \<Longrightarrow>
    \<exists>x. (x \<longrightarrow> neg) \<and> p = off_front (addrs_option opt a b) x p' \<and> new' = (if x then new\<lparr>old_addrs := False\<rparr> else new)"
    using addrs_at_front [of p opt a b]
    by (cases "neg \<and> option_at opt 10 (length p) p")
      (auto simp: rejci_addrs_def off_front_def option_at_def split: if_splits)
  show "rejci_addr opt neg a clear (p, new) = Some (p', new') \<Longrightarrow>
    \<exists>x. (x \<longrightarrow> neg) \<and> p = off_front (addr_option opt a) x p' \<and> new' = (if x then clear new else new)"
    using addr_at_front [of p opt a]
    by (cases "neg \<and> option_at opt 6 (length p) p")
      (auto simp: rejci_addr_def off_front_def option_at_def split: if_splits)
  show "rejci_vj opt neg v old s i (p, new) = Some (p', new') \<Longrightarrow>
    \<exists>x. (x \<longrightarrow> neg) \<and> p = off_front (vj_option opt v old s i) x p' \<and> new' = (if x then new\<lparr>neg_vj := False\<rparr> else new)"
    using vj_at_front [of old p opt v s i]
    by (cases "neg \<and> option_at opt (if old then 4 else 6) (length p) p"; cases old)
      (auto simp: rejci_vj_def Let_def off_front_def option_at_def split: if_splits)
qed

lemma leads_simps [simp]:
  "\<not> leads opt []"
  "leads opt (off_front (addrs_option t a b) x p) \<longleftrightarrow> (if x then t = opt else leads opt p)"
  "leads opt (off_front (addr_option t a) x p) \<longleftrightarrow> (if x then t = opt else leads opt p)"
  "leads opt (off_front (vj_option t v old s i) x p) \<longleftrightarrow> (if x then t = opt else leads opt p)"
  by (simp_all add: leads_def off_front_def addrs_option_def addr_option_def vj_option_def)

lemma rejci_complete:
  "(x \<longrightarrow> neg) \<Longrightarrow> \<not> leads opt p' \<Longrightarrow>
    rejci_addrs opt neg a b (off_front (addrs_option opt a b) x p', new) =
      Some (p', if x then new\<lparr>old_addrs := False\<rparr> else new)"
  "(x \<longrightarrow> neg) \<Longrightarrow> \<not> leads opt p' \<Longrightarrow>
    rejci_vj opt neg v old s i (off_front (vj_option opt v old s i) x p', new) =
      Some (p', if x then new\<lparr>neg_vj := False\<rparr> else new)"
  "(x \<longrightarrow> neg) \<Longrightarrow> \<not> leads opt p' \<Longrightarrow>
    rejci_addr opt neg a clear (off_front (addr_option opt a) x p', new) =
      Some (p', if x then clear new else new)"
proof -
  assume x: "x \<longrightarrow> neg" and l: "\<not> leads opt p'"
  show "rejci_addrs opt neg a b (off_front (addrs_option opt a b) x p', new) =
      Some (p', if x then new\<lparr>old_addrs := False\<rparr> else new)"
    using addrs_at_front [of "addrs_option opt a b @ p'" opt a b] x l
    by (cases x) (auto simp: rejci_addrs_def Let_def off_front_def option_at_def leads_def)
  show "rejci_vj opt neg v old s i (off_front (vj_option opt v old s i) x p', new) =
      Some (p', if x then new\<lparr>neg_vj := False\<rparr> else new)"
    using vj_at_front [of old "vj_option opt v old s i @ p'" opt v s i] x l
    by (cases x) (auto simp: rejci_vj_def Let_def off_front_def option_at_def leads_def)
  show "rejci_addr opt neg a clear (off_front (addr_option opt a) x p', new) =
      Some (p', if x then clear new else new)"
    using addr_at_front [of "addr_option opt a @ p'" opt a] x l
    by (cases x) (auto simp: rejci_addr_def Let_def off_front_def option_at_def leads_def)
qed

lemma own_bytes_of_fronts:
  "own_bytes_of T go =
     off_front (addrs_option CI_ADDRS (ouraddr go) (hisaddr go)) (wants_addrs go \<and> CI_ADDRS \<in> T)
      (off_front (vj_option CI_COMPRESSTYPE (vj_protocol go) (old_vj go) (maxslotindex go) (cflag go))
        (neg_vj go \<and> CI_COMPRESSTYPE \<in> T)
       (off_front (addr_option CI_ADDR (ouraddr go)) (neg_addr go \<and> CI_ADDR \<in> T)
        (off_front (addr_option CI_MS_DNS1 (dnsaddr0 go)) (req_dns1 go \<and> CI_MS_DNS1 \<in> T)
         (off_front (addr_option CI_MS_DNS2 (dnsaddr1 go)) (req_dns2 go \<and> CI_MS_DNS2 \<in> T) []))))"
  by (simp add: own_bytes_of_def own_options_def off_front_def print_own del: append.simps)

lemma ipcp_rejected_complete:
  "ipcp_rejected go (own_bytes_of T go) = Some ([], give_up T go)"
  unfolding ipcp_rejected_def own_bytes_of_fronts
  by (simp add: rejci_complete) (cases go, auto simp: give_up_def wants_addrs_def)

lemma ipcp_rejected_sound:
  assumes "ipcp_rejected go p = Some ([], new)"
  shows "\<exists>T. p = own_bytes_of T go"
proof -
  from assms obtain p1 g1 p2 g2 p3 g3 p4 g4 where s:
    "rejci_addrs CI_ADDRS (wants_addrs go) (ouraddr go) (hisaddr go) (p, go) = Some (p1, g1)"
    "rejci_vj CI_COMPRESSTYPE (neg_vj go) (vj_protocol go) (old_vj go) (maxslotindex go) (cflag go) (p1, g1) = Some (p2, g2)"
    "rejci_addr CI_ADDR (neg_addr go) (ouraddr go) (\<lambda>new. new\<lparr>neg_addr := False\<rparr>) (p2, g2) = Some (p3, g3)"
    "rejci_addr CI_MS_DNS1 (req_dns1 go) (dnsaddr0 go) (\<lambda>new. new\<lparr>req_dns1 := False\<rparr>) (p3, g3) = Some (p4, g4)"
    "rejci_addr CI_MS_DNS2 (req_dns2 go) (dnsaddr1 go) (\<lambda>new. new\<lparr>req_dns2 := False\<rparr>) (p4, g4) = Some ([], new)"
    unfolding ipcp_rejected_def bind_eq_Some_conv by auto
  from rejci_sound(1) [OF s(1)] rejci_sound(2) [OF s(2)] rejci_sound(3) [OF s(3)]
    rejci_sound(3) [OF s(4)] rejci_sound(3) [OF s(5)]
  obtain x1 x2 x3 x4 x5 where x: "x1 \<longrightarrow> wants_addrs go" "x2 \<longrightarrow> neg_vj go" "x3 \<longrightarrow> neg_addr go"
      "x4 \<longrightarrow> req_dns1 go" "x5 \<longrightarrow> req_dns2 go"
    and p: "p = off_front (addrs_option CI_ADDRS (ouraddr go) (hisaddr go)) x1 p1"
      "p1 = off_front (vj_option CI_COMPRESSTYPE (vj_protocol go) (old_vj go) (maxslotindex go) (cflag go)) x2 p2"
      "p2 = off_front (addr_option CI_ADDR (ouraddr go)) x3 p3"
      "p3 = off_front (addr_option CI_MS_DNS1 (dnsaddr0 go)) x4 p4"
      "p4 = off_front (addr_option CI_MS_DNS2 (dnsaddr1 go)) x5 []"
    by blast
  let ?T = "(if x1 then {CI_ADDRS} else {}) \<union> (if x2 then {CI_COMPRESSTYPE} else {}) \<union> (if x3 then {CI_ADDR} else {}) \<union>
    (if x4 then {CI_MS_DNS1} else {}) \<union> (if x5 then {CI_MS_DNS2} else {})"
  have "CI_ADDRS \<in> ?T = x1" "CI_COMPRESSTYPE \<in> ?T = x2" "CI_ADDR \<in> ?T = x3" "CI_MS_DNS1 \<in> ?T = x4" "CI_MS_DNS2 \<in> ?T = x5"
    by simp_all
  then have "p = own_bytes_of ?T go" unfolding own_bytes_of_fronts p using x by (simp only: off_front_iff)
  then show ?thesis ..
qed

text \<open>The rejection of options that we requested gives up exactly these; nothing else is one.\<close>

lemma ipcp_rejci_own:
  "ipcp_rejci st c (own_bytes_of T (gotoptions c)) =
    (1, if st = PPP_FSM_OPENED then c else c\<lparr>gotoptions := give_up T (gotoptions c)\<rparr>)"
  by (simp add: ipcp_rejci_def ipcp_rejected_complete)

lemma ipcp_rejci_other:
  "\<nexists>T. p = own_bytes_of T (gotoptions c) \<Longrightarrow> ipcp_rejci st c p = (0, c)"
  using ipcp_rejected_sound [of "gotoptions c" p]
  by (auto simp: ipcp_rejci_def split: option.splits list.splits)

text \<open>
  C25. Every Configure-Request that IPCP builds is a well-formed sequence of options, each type at
  most once and with a value of its length; it is never longer than 28 bytes, so that it always
  fits, and building it again, as a retransmission does, gives the same bytes and changes no
  option.
\<close>
theorem ipcp_request_well_formed:
  assumes "32 \<le> peer_mru pcb" and "d = request_data ipcp_callbacks pcb c"
    and "c' = request_ci ipcp_callbacks pcb c"
  shows "parse_options d = Some (own_options (gotoptions c')) \<and>
    distinct (map fst (own_options (gotoptions c'))) \<and>
    (\<forall>(t, v) \<in> set (own_options (gotoptions c')).
      (t, length v) \<in> {(CI_ADDRS, 8), (CI_COMPRESSTYPE, 2), (CI_COMPRESSTYPE, 4), (CI_ADDR, 4),
                      (CI_MS_DNS1, 4), (CI_MS_DNS2, 4)}) \<and>
    length d \<le> 28 \<and>
    request_data ipcp_callbacks pcb c' = d \<and> request_ci ipcp_callbacks pcb c' = c'"
proof -
  have c': "c' = ipcp_old_forms c" and d: "d = option_bytes (own_options (gotoptions c'))"
    using assms by (simp_all add: ipcp_request)
  have "\<forall>(t, v) \<in> set (own_options (gotoptions c')). length v < 254"
    using own_options_lengths [of "gotoptions c'"] by fastforce
  then have "parse_options d = Some (own_options (gotoptions c'))"
    unfolding d option_bytes_def by (rule parse_options_print)
  moreover have "\<forall>(t, v) \<in> set (own_options (gotoptions c')).
      (t, length v) \<in> {(CI_ADDRS, 8), (CI_COMPRESSTYPE, 2), (CI_COMPRESSTYPE, 4), (CI_ADDR, 4),
                      (CI_MS_DNS1, 4), (CI_MS_DNS2, 4)}"
    by (simp only: own_options_def set_append ball_Un ball_if_single) simp
  ultimately show ?thesis
    using assms(1) distinct_own_options length_own_bytes_le d
    by (simp add: ipcp_request c' ipcp_old_forms_idem)
qed

theorem ipcp_request_well_formed_witness:
  "parse_options (request_data ipcp_callbacks ipcp_pcb (ipcp_resetci (ppp_set_ipcp_ouraddr 0x0100000a new_ipcp))) \<noteq> None"
  using ipcp_request_well_formed [of ipcp_pcb, OF _ refl refl, of "ipcp_resetci (ppp_set_ipcp_ouraddr 0x0100000a new_ipcp)"]
  by (simp add: ipcp_pcb_def default_pcb_def)

lemma own_options_give_up:
  "\<not> (neg_addr go \<and> old_addrs go \<and> CI_ADDR \<in> T) \<Longrightarrow>
    own_options (give_up T go) = filter (\<lambda>(t, v). t \<notin> T) (own_options go)"
  unfolding own_options_def filter_append filter_if_single give_up_def wants_addrs_def
  by (cases "neg_addr go"; cases "old_addrs go") simp_all

text \<open>
  What IPCP takes for a Configure-Reject of its request. It accepts the bytes of some of the
  options it requested, unchanged and in their order, and nothing else; then the next request
  is without exactly these, unless the address option is replaced by its older form. A packet
  that is refused changes nothing, nor does one that comes when the connection is open. The
  empty packet is accepted, and changes nothing.
\<close>
theorem ipcp_reject_exact:
  assumes "ipcp_rejci st c p = (ret, c')" and "go = gotoptions c"
  shows "(ret \<noteq> 0 \<longleftrightarrow> (\<exists>T. p = own_bytes_of T go)) \<and> (ret = 0 \<or> st = PPP_FSM_OPENED \<longrightarrow> c' = c) \<and>
    (st \<noteq> PPP_FSM_OPENED \<and> p = own_bytes_of T go \<longrightarrow>
      c' = c\<lparr>gotoptions := give_up T go\<rparr> \<and>
      (\<not> (neg_addr go \<and> old_addrs go \<and> CI_ADDR \<in> T) \<longrightarrow>
        own_options (gotoptions c') = filter (\<lambda>(t, v). t \<notin> T) (own_options go)))"
proof (cases "\<exists>T. p = own_bytes_of T go")
  case True
  then obtain T' where "p = own_bytes_of T' go" ..
  with assms have r: "ret = 1" "st = PPP_FSM_OPENED \<longrightarrow> c' = c"
    by (auto simp: ipcp_rejci_own)
  have "c' = c\<lparr>gotoptions := give_up T go\<rparr>" if "st \<noteq> PPP_FSM_OPENED" "p = own_bytes_of T go" for T
    using assms that by (auto simp: ipcp_rejci_own)
  with r True show ?thesis by (auto simp: own_options_give_up)
next
  case False
  with assms have "ret = 0" "c' = c" using ipcp_rejci_other [of p c st] by auto
  with False show ?thesis by blast
qed

theorem ipcp_reject_exact_witness:
  "\<exists>ret c'. ipcp_rejci PPP_FSM_REQSENT (ipcp_resetci new_ipcp) [3, 6, 0, 0, 0, 0] = (ret, c') \<and> ret = 0"
proof -
  let ?go = "gotoptions (ipcp_resetci new_ipcp)"
  have "own_options ?go = []" by (simp add: own_options_def wants_addrs_def ipcp_resetci_def new_ipcp_def
      zero_options_def Let_def)
  then have n: "\<nexists>T. [3, 6, 0, 0, 0, 0] = own_bytes_of T ?go" by (simp add: own_bytes_of_def)
  obtain ret c' where r: "ipcp_rejci PPP_FSM_REQSENT (ipcp_resetci new_ipcp) [3, 6, 0, 0, 0, 0] = (ret, c')"
    by fastforce
  then show ?thesis using ipcp_reject_exact [OF r refl] n by blast
qed

end
