(* ===== verification/Ipcp_Replies.thy ===== *)
theory Ipcp_Replies
  imports Ipcp_Requests
begin

text \<open>
  The answer of IPCP to the peer's Configure-Request: what it is made of, when it is an
  acknowledgement, and how long it gets.
\<close>

section \<open>One option\<close>

lemma length_put_at [simp]: "n + length v \<le> length p \<Longrightarrow> length (put_at n v p) = length p"
  by (simp add: put_at_def)

lemma short_bytes_not_nil [simp]: "short_bytes v \<noteq> []"
  by (simp add: short_bytes_def)

text \<open>
  The answer to one option. A change of the option goes with the answer Configure-Nak; in the
  mode that only rejects only the option for a DNS address is changed.
\<close>

definition option_answer :: "bool \<Rightarrow> ipcp \<Rightarrow> u8 list \<Rightarrow> u8 \<times> u8 list \<times> ipcp \<Rightarrow> bool" where
  "option_answer rej c cip = (\<lambda>(orc, opt, c').
     orc \<in> {CONFACK, CONFNAK, CONFREJ} \<and> length opt = length cip \<and>
     (orc \<noteq> CONFNAK \<longrightarrow> opt = cip) \<and>
     (rej \<longrightarrow> dnsaddr0 (allowoptions c) = 0 \<longrightarrow> dnsaddr1 (allowoptions c) = 0 \<longrightarrow> opt = cip) \<and>
     gotoptions c' = gotoptions c \<and> allowoptions c' = allowoptions c \<and> noremoteip c' = noremoteip c \<and>
     usepeerdns c' = usepeerdns c \<and> ask_for_local c' = ask_for_local c \<and>
     hisaddr (wantoptions c') = hisaddr (wantoptions c) \<and>
     accept_remote (wantoptions c') = accept_remote (wantoptions c) \<and>
     (orc = CONFACK \<longrightarrow>
       hisaddr (hisoptions c') = hisaddr (hisoptions c) \<and>
         neg_addr (hisoptions c') = neg_addr (hisoptions c) \<and> old_addrs (hisoptions c') = old_addrs (hisoptions c) \<or>
       hisaddr (hisoptions c') \<noteq> 0 \<and>
         (hisaddr (hisoptions c') = hisaddr (wantoptions c) \<or> accept_remote (wantoptions c))))"

lemma reqci_addrs_answer: "option_answer rej c cip (reqci_addrs rej c cip)"
  by (auto simp: option_answer_def reqci_addrs_def Let_def)

lemma reqci_addr_answer: "option_answer rej c cip (reqci_addr rej c cip)"
  by (auto simp: option_answer_def reqci_addr_def Let_def)

lemma reqci_dns_answer:
  "addr = dnsaddr0 (allowoptions c) \<or> addr = dnsaddr1 (allowoptions c) \<Longrightarrow>
    option_answer rej c cip (reqci_dns addr c cip)"
  by (auto simp: option_answer_def reqci_dns_def)

lemma reqci_vj_answer: "option_answer rej c cip (reqci_vj rej c cip)"
  by (auto simp: option_answer_def reqci_vj_def Let_def)

lemma reqci_option_answer: "option_answer rej c cip (reqci_option rej c cip)"
  unfolding reqci_option_def Let_def
  by (simp add: reqci_addrs_answer reqci_addr_answer reqci_dns_answer reqci_vj_answer)
    (simp add: option_answer_def)

section \<open>The whole request\<close>

text \<open>The answer after the options \<open>ys\<close>; \<open>pure\<close>: no option is changed when only rejecting.\<close>

definition reply_of :: "bool \<Rightarrow> bool \<Rightarrow> u8 list list \<Rightarrow> u8 \<times> u8 list \<Rightarrow> bool" where
  "reply_of rej pure ys = (\<lambda>(rc, reply).
     rc \<in> {CONFACK, CONFNAK, CONFREJ} \<and> length reply \<le> length (concat ys) \<and>
     (rc = CONFACK \<longrightarrow> reply = concat ys) \<and> (rc = CONFNAK \<longrightarrow> \<not> rej) \<and>
     (rc = CONFREJ \<and> pure \<longrightarrow> (\<exists>S. subseq S ys \<and> reply = concat S)))"

lemma reply_of_collect:
  assumes "reply_of rej pure ys (rc, reply)" "orc \<in> {CONFACK, CONFNAK, CONFREJ}" "length opt = length cip"
    and "orc \<noteq> CONFNAK \<longrightarrow> opt = cip" "rej \<and> pure \<longrightarrow> opt = cip"
  shows "reply_of rej pure (ys @ [cip]) (reqci_collect rej orc opt (rc, reply))"
proof -
  have S: "\<exists>S. subseq S (ys @ [cip]) \<and> reply = concat S" if "\<exists>S. subseq S ys \<and> reply = concat S"
    using that by (auto intro: subseq_weaken)
  have S': "\<exists>S. subseq S (ys @ [cip]) \<and> reply @ cip = concat S" if "\<exists>S. subseq S ys \<and> reply = concat S"
  proof -
    from that obtain S where "subseq S ys" "reply = concat S" by blast
    then show ?thesis by (intro exI [of _ "S @ [cip]"]) simp
  qed
  have S1: "\<exists>S. subseq S (ys @ [cip]) \<and> cip = concat S"
    by (intro exI [of _ "[cip]"]) (simp add: subseq_singleton_left)
  show ?thesis
    using assms S S' S1 by (auto simp: reply_of_def reqci_collect_def)
qed

text \<open>What the loop keeps of the protocol's state.\<close>

definition same_settings :: "ipcp \<Rightarrow> ipcp \<Rightarrow> bool" where
  "same_settings c c' \<longleftrightarrow>
     gotoptions c' = gotoptions c \<and> allowoptions c' = allowoptions c \<and> noremoteip c' = noremoteip c \<and>
     usepeerdns c' = usepeerdns c \<and> ask_for_local c' = ask_for_local c \<and>
     hisaddr (wantoptions c') = hisaddr (wantoptions c) \<and>
     accept_remote (wantoptions c') = accept_remote (wantoptions c)"

text \<open>The address we granted, if we granted one.\<close>

definition granted :: "ipcp \<Rightarrow> bool" where
  "granted c \<longleftrightarrow>
     (neg_addr (hisoptions c) \<or> old_addrs (hisoptions c) \<longrightarrow>
       hisaddr (hisoptions c) \<noteq> 0 \<and>
       (hisaddr (hisoptions c) = hisaddr (wantoptions c) \<or> accept_remote (wantoptions c)))"

lemma reqci_collect_ack: "fst (reqci_collect rej orc opt (rc, reply)) = CONFACK \<longleftrightarrow> orc = CONFACK \<and> rc = CONFACK"
  if "orc \<in> {CONFACK, CONFNAK, CONFREJ}"
  using that by (auto simp: reqci_collect_def)

lemma answer_granted: "option_answer rej c cip (CONFACK, opt, c') \<Longrightarrow> granted c \<Longrightarrow> granted c'"
  by (simp add: option_answer_def granted_def) metis

lemma reqci_loop_reply:
  assumes "reqci_loop rej c p ans = (ans', c')"
    and "reply_of rej pure ys ans" and "fst ans = CONFACK \<longrightarrow> granted c"
    and "rej \<and> pure \<longrightarrow> dnsaddr0 (allowoptions c) = 0 \<and> dnsaddr1 (allowoptions c) = 0"
  shows "reply_of rej pure (ys @ request_chunks p) ans' \<and> same_settings c c' \<and>
    (fst ans' = CONFACK \<longrightarrow> granted c' \<and> (\<forall>u \<in> set (request_chunks p). 2 \<le> length u \<and> unat (u ! 1) = length u))"
  using assms
proof (induction rej c p ans arbitrary: ys rule: reqci_loop.induct)
  case (1 rej c p ans)
  obtain rc reply where ans: "ans = (rc, reply)" by fastforce
  let ?n = "unat (p ! 1)" and ?bad = "length p < 2 \<or> unat (p ! 1) < 2 \<or> length p < unat (p ! 1)"
  consider "p = []" | "p \<noteq> []" "?bad" | "p \<noteq> []" "\<not> ?bad" by blast
  then show ?case
  proof cases
    case 1
    with "1.prems" show ?thesis
      by (simp add: reqci_loop.simps request_chunks.simps same_settings_def)
  next
    case 2
    then have e: "ans' = reqci_collect rej CONFREJ p ans" "c' = c" "request_chunks p = [p]"
      using "1.prems"(1) by (simp_all add: reqci_loop.simps [of rej c p] request_chunks.simps [of p])
    have "reply_of rej pure (ys @ [p]) ans'"
      unfolding e ans by (rule reply_of_collect) (use "1.prems"(2) ans in auto)
    moreover have "fst ans' \<noteq> CONFACK" by (simp add: e ans reqci_collect_ack)
    ultimately show ?thesis by (simp add: e same_settings_def)
  next
    case 3
    obtain orc opt c1 where o: "reqci_option rej c (take ?n p) = (orc, opt, c1)" by (metis prod_cases3)
    have a: "option_answer rej c (take ?n p) (orc, opt, c1)"
      using reqci_option_answer [of rej c "take ?n p"] by (simp only: o)
    let ?ans = "reqci_collect rej orc opt ans"
    have "reply_of rej pure (ys @ [take ?n p]) ?ans"
      unfolding ans by (rule reply_of_collect) (use "1.prems"(2,4) a ans in \<open>auto simp: option_answer_def\<close>)
    moreover have "fst ?ans = CONFACK \<longrightarrow> granted c1"
    proof
      have "orc \<in> {CONFACK, CONFNAK, CONFREJ}" using a by (simp add: option_answer_def)
      moreover assume "fst ?ans = CONFACK"
      ultimately have "orc = CONFACK" "rc = CONFACK" by (simp_all only: ans reqci_collect_ack)
      then have "option_answer rej c (take ?n p) (CONFACK, opt, c1)" "granted c"
        using "1.prems"(3) a by (simp_all only: ans fst_conv simp_thms)
      then show "granted c1" by (rule answer_granted)
    qed
    moreover have "reqci_loop rej c1 (drop ?n p) ?ans = (ans', c')"
      unfolding "1.prems"(1) [symmetric]
      by (subst (2) reqci_loop.simps) (simp only: 3 if_False o prod.case Let_def simp_thms)
    moreover have "rej \<and> pure \<longrightarrow> dnsaddr0 (allowoptions c1) = 0 \<and> dnsaddr1 (allowoptions c1) = 0"
      using "1.prems"(4) a by (simp add: option_answer_def)
    ultimately have r: "reply_of rej pure ((ys @ [take ?n p]) @ request_chunks (drop ?n p)) ans' \<and> same_settings c1 c' \<and>
      (fst ans' = CONFACK \<longrightarrow> granted c' \<and> (\<forall>u \<in> set (request_chunks (drop ?n p)). 2 \<le> length u \<and> unat (u ! 1) = length u))"
      by (intro "1.IH" [OF 3 o [symmetric] refl refl]) 
    have "same_settings c c1" using a by (simp add: option_answer_def same_settings_def)
    with r have c: "same_settings c c'" by (simp add: same_settings_def)
    have t: "2 \<le> length (take ?n p) \<and> unat (take ?n p ! 1) = length (take ?n p)" using 3 by auto
    have e: "request_chunks p = take ?n p # request_chunks (drop ?n p)" using 3 by (rule request_chunks_step)
    from r c t show ?thesis unfolding e by (simp only: append_assoc append_Cons append_Nil list.set ball_simps simp_thms) blast
  qed
qed

lemma reqci_loop_start:
  assumes "reqci_loop rej (c\<lparr>hisoptions := zero_options\<rparr>) inp (CONFACK, []) = ((rc, rep), c1)"
    and "rej \<and> pure \<longrightarrow> dnsaddr0 (allowoptions c) = 0 \<and> dnsaddr1 (allowoptions c) = 0"
  shows "reply_of rej pure (request_chunks inp) (rc, rep)" and "same_settings c c1"
    and "rc = CONFACK \<Longrightarrow> granted c1"
    and "rc = CONFACK \<Longrightarrow> u \<in> set (request_chunks inp) \<Longrightarrow> 2 \<le> length u \<and> unat (u ! 1) = length u"
proof -
  have "reply_of rej pure [] (CONFACK, [])" by (simp add: reply_of_def)
  moreover have "granted (c\<lparr>hisoptions := zero_options\<rparr>)" by (simp add: granted_def zero_options_def)
  ultimately have r: "reply_of rej pure ([] @ request_chunks inp) (rc, rep) \<and> same_settings (c\<lparr>hisoptions := zero_options\<rparr>) c1 \<and>
      (fst (rc, rep) = CONFACK \<longrightarrow> granted c1 \<and> (\<forall>u \<in> set (request_chunks inp). 2 \<le> length u \<and> unat (u ! 1) = length u))"
    by (intro reqci_loop_reply [OF assms(1)]) (use assms(2) in simp_all)
  then show "reply_of rej pure (request_chunks inp) (rc, rep)" "same_settings c c1" "rc = CONFACK \<Longrightarrow> granted c1"
      "rc = CONFACK \<Longrightarrow> u \<in> set (request_chunks inp) \<Longrightarrow> 2 \<le> length u \<and> unat (u ! 1) = length u"
    by (simp_all add: same_settings_def)
qed

text \<open>The appended option.\<close>

definition suggests_addr :: "bool \<Rightarrow> u8 \<Rightarrow> ipcp \<Rightarrow> bool" where
  "suggests_addr rej rc c \<longleftrightarrow> rc \<noteq> CONFREJ \<and> \<not> neg_addr (hisoptions c) \<and> \<not> old_addrs (hisoptions c) \<and>
     req_addr (wantoptions c) \<and> \<not> rej \<and> \<not> noremoteip c"

lemma ipcp_reqci_end:
  assumes "reqci_loop rej (c\<lparr>hisoptions := zero_options\<rparr>) inp (CONFACK, []) = ((rc, rep), c1)"
  shows "ipcp_reqci c inp rej =
    (if suggests_addr rej rc c1
     then if rc = CONFACK
          then (CONFNAK, addr_option CI_ADDR (hisaddr (wantoptions c1)),
                c1\<lparr>wantoptions := (wantoptions c1)\<lparr>req_addr := False\<rparr>\<rparr>)
          else (rc, rep @ addr_option CI_ADDR (hisaddr (wantoptions c1)), c1)
     else (rc, rep, c1))"
  by (simp add: ipcp_reqci_def assms suggests_addr_def Let_def)

lemma ipcp_reqci_settings:
  assumes "ipcp_reqci c inp rej = (code, reply, c')"
  shows "same_settings c c'"
proof -
  obtain rc rep c1 where l: "reqci_loop rej (c\<lparr>hisoptions := zero_options\<rparr>) inp (CONFACK, []) = ((rc, rep), c1)"
    by (metis surj_pair)
  have "same_settings c c1" by (rule reqci_loop_start [OF l, of False]) simp
  moreover have "same_settings c1 (snd (snd (ipcp_reqci c inp rej)))"
    unfolding ipcp_reqci_end [OF l] by (simp add: same_settings_def)
  ultimately show ?thesis by (simp add: assms same_settings_def)
qed

text \<open>
  C23. The answer of IPCP to any bytes the peer sends as its options. An acknowledgement repeats
  the request, all of whose options are well-formed, and grants an address only if it is not 0
  and is the one we want the peer to have, or we accept any. A rejection consists of options of
  the request, unchanged and in their order (if no DNS address is set for the peer or Naks are
  not given up yet), and is sent instead of a Nak when we have sent enough of these. Only a Nak
  can be longer than the request, by at most the one option that is appended. Our own request
  is not touched.
\<close>
theorem ipcp_reply:
  assumes "ipcp_reqci c inp rej = (code, reply, c')"
  shows "code \<in> {CONFACK, CONFNAK, CONFREJ} \<and> gotoptions c' = gotoptions c \<and>
    (code = CONFACK \<longrightarrow> reply = inp \<and> granted c' \<and>
      (\<forall>u \<in> set (request_chunks inp). 2 \<le> length u \<and> unat (u ! 1) = length u)) \<and>
    (code = CONFREJ \<longrightarrow> length reply \<le> length inp \<and>
      (\<not> rej \<or> dnsaddr0 (allowoptions c) = 0 \<and> dnsaddr1 (allowoptions c) = 0 \<longrightarrow>
        (\<exists>S. subseq S (request_chunks inp) \<and> reply = concat S))) \<and>
    (code = CONFNAK \<longrightarrow> \<not> rej \<and> length reply \<le> length inp + 6)"
proof -
  let ?pure = "\<not> rej \<or> dnsaddr0 (allowoptions c) = 0 \<and> dnsaddr1 (allowoptions c) = 0"
  obtain rc rep c1 where l: "reqci_loop rej (c\<lparr>hisoptions := zero_options\<rparr>) inp (CONFACK, []) = ((rc, rep), c1)"
    by (metis surj_pair)
  note r = reqci_loop_start [OF l, of ?pure]
  have "case ipcp_reqci c inp rej of (code, reply, c') \<Rightarrow>
      code \<noteq> CONFACK \<and> code = CONFNAK \<and> \<not> rej \<and> length reply \<le> length rep + 6 \<or> code = rc \<and> reply = rep \<and> c' = c1"
    unfolding ipcp_reqci_end [OF l] using r(1) by (simp add: suggests_addr_def reply_of_def) blast
  then have e: "code \<noteq> CONFACK \<and> code = CONFNAK \<and> \<not> rej \<and> length reply \<le> length rep + 6 \<or> code = rc \<and> reply = rep \<and> c' = c1"
    by (simp only: assms prod.case)
  have g: "gotoptions c' = gotoptions c" using ipcp_reqci_settings [OF assms] by (simp add: same_settings_def)
  have n: "length (concat (request_chunks inp)) = length inp" by (simp add: concat_request_chunks)
  from e show ?thesis
  proof
    assume "code \<noteq> CONFACK \<and> code = CONFNAK \<and> \<not> rej \<and> length reply \<le> length rep + 6"
    then show ?thesis using r(1) g n by (simp add: reply_of_def)
  next
    assume "code = rc \<and> reply = rep \<and> c' = c1"
    then show ?thesis using r g n by (simp add: reply_of_def concat_request_chunks)
  qed
qed

section \<open>A Nak longer than its buffer\<close>

text \<open>A compression option that asks for more slots than allowed.\<close>

definition greedy_vj :: "u8 list" where
  "greedy_vj = [CI_COMPRESSTYPE, 6, 0, 0x2d, 255, 0]"

lemma greedy_vj_answer:
  assumes "neg_vj (allowoptions c)" "maxslotindex (allowoptions c) < 255"
  shows "reqci_option False c greedy_vj =
    (CONFNAK, [CI_COMPRESSTYPE, 6, 0, 0x2d, maxslotindex (allowoptions c), 0],
     c\<lparr>hisoptions := (hisoptions c)\<lparr>neg_vj := True, vj_protocol := IPCP_VJ_COMP, maxslotindex := 255, cflag := False\<rparr>\<rparr>)"
proof -
  have "get_short [0, 0x2d, 255, 0] = IPCP_VJ_COMP" by code_simp
  then show ?thesis using assms
    by (simp add: reqci_option_def reqci_vj_def greedy_vj_def Let_def put_at_def)
qed

lemma greedy_vj_loop:
  assumes "neg_vj (allowoptions c)" "maxslotindex (allowoptions c) < 255"
    and "ans = (CONFNAK, rep) \<or> ans = (CONFACK, []) \<and> rep = [] \<and> 0 < n"
  shows "\<exists>rep' ho. reqci_loop False c (concat (replicate n greedy_vj)) ans = ((CONFNAK, rep'), c\<lparr>hisoptions := ho\<rparr>) \<and>
    length rep' = length rep + 6 * n \<and> neg_addr ho = neg_addr (hisoptions c) \<and> old_addrs ho = old_addrs (hisoptions c)"
  using assms
proof (induction n arbitrary: c ans rep)
  case 0
  then show ?case by (auto simp: reqci_loop.simps intro: exI [of _ "hisoptions c"])
next
  case (Suc n)
  let ?o = "[CI_COMPRESSTYPE, 6, 0, 0x2d, maxslotindex (allowoptions c), 0]"
  let ?c = "c\<lparr>hisoptions := (hisoptions c)\<lparr>neg_vj := True, vj_protocol := IPCP_VJ_COMP, maxslotindex := 255, cflag := False\<rparr>\<rparr>"
  let ?p = "concat (replicate n greedy_vj)"
  have n6: "unat ((greedy_vj @ ?p) ! 1) = 6" "length (greedy_vj @ ?p) \<ge> 6" "take 6 (greedy_vj @ ?p) = greedy_vj"
      "drop 6 (greedy_vj @ ?p) = ?p" "greedy_vj @ ?p \<noteq> []"
    by (simp_all add: greedy_vj_def)
  have "reqci_collect False CONFNAK ?o ans = (CONFNAK, rep @ ?o)"
    using Suc.prems(3) by (auto simp: reqci_collect_def)
  then have "reqci_loop False c (greedy_vj @ ?p) ans = reqci_loop False ?c ?p (CONFNAK, rep @ ?o)"
    using n6 by (subst reqci_loop.simps) (simp add: greedy_vj_answer [OF Suc.prems(1,2)])
  with Suc.IH [of ?c "(CONFNAK, rep @ ?o)" "rep @ ?o"] Suc.prems(1,2) show ?case by fastforce
qed

text \<open>
  What the code assumes when it appends its suggestion of an address, that the buffer of
  the request has room behind the request, is the peer's choice: a request of any number of
  compression options that ask for too many slots, and no address, is answered by a Nak 6 bytes
  longer than itself, written in place.
\<close>
theorem ipcp_nak_overruns:
  assumes "0 < n" and "neg_vj (allowoptions c)" and "maxslotindex (allowoptions c) < 255"
    and "req_addr (wantoptions c)" and "\<not> noremoteip c"
    and "inp = concat (replicate n greedy_vj)"
  shows "case ipcp_reqci c inp False of (code, reply, _) \<Rightarrow> code = CONFNAK \<and> length reply = length inp + 6"
proof -
  let ?c = "c\<lparr>hisoptions := zero_options\<rparr>"
  have "length inp = 6 * n" by (simp add: assms(6) length_concat greedy_vj_def sum_list_replicate)
  moreover obtain rep ho where "reqci_loop False ?c inp (CONFACK, []) = ((CONFNAK, rep), ?c\<lparr>hisoptions := ho\<rparr>)"
      "length rep = 6 * n" "\<not> neg_addr ho" "\<not> old_addrs ho"
    using greedy_vj_loop [of ?c "(CONFACK, [])" "[]" n] assms by (auto simp: zero_options_def)
  ultimately show ?thesis using assms(4,5) by (simp add: ipcp_reqci_end suggests_addr_def)
qed

theorem ipcp_nak_overruns_witness:
  "case ipcp_reqci (ipcp_resetci (ci (ipcp_init ipcp_pcb (cleared_fsm new_ipcp)))) (greedy_vj @ greedy_vj) False of
     (code, reply, _) \<Rightarrow> length reply = 18"
proof -
  let ?c = "ipcp_resetci (ci (ipcp_init ipcp_pcb (cleared_fsm new_ipcp)))"
  have h: "neg_vj (allowoptions ?c)" "maxslotindex (allowoptions ?c) < 255" "req_addr (wantoptions ?c)" "\<not> noremoteip ?c"
    by (simp_all add: ipcp_resetci_def ipcp_init_def fsm_init_def cleared_fsm_def new_ipcp_def zero_options_def Let_def)
  have "greedy_vj @ greedy_vj = concat (replicate 2 greedy_vj)" by (simp add: numeral_2_eq_2)
  from ipcp_nak_overruns [OF _ h this] show ?thesis by (simp add: case_prod_unfold) (simp add: greedy_vj_def)
qed

theorem ipcp_reply_witness:
  "\<exists>reply c'. ipcp_reqci (ipcp_resetci new_ipcp) [CI_ADDR, 6, 0, 0, 0, 0] True = (CONFREJ, reply, c') \<and> length reply \<le> 6"
proof -
  obtain code reply c' where r: "ipcp_reqci (ipcp_resetci new_ipcp) [CI_ADDR, 6, 0, 0, 0, 0] True = (code, reply, c')"
    by (metis prod_cases3)
  have "fst (ipcp_reqci (ipcp_resetci new_ipcp) [CI_ADDR, 6, 0, 0, 0, 0] True) = CONFREJ" by code_simp
  with r have "code = CONFREJ" by simp
  with ipcp_reply [OF r] r show ?thesis by simp
qed

section \<open>The acknowledgement of our request\<close>

text \<open>Any number of the peer's requests, between ours and its acknowledgement.\<close>

fun peer_requests :: "(u8 list \<times> bool) list \<Rightarrow> ipcp \<Rightarrow> ipcp" where
  "peer_requests [] c = c"
| "peer_requests ((inp, rej) # rs) c = peer_requests rs (snd (snd (ipcp_reqci c inp rej)))"

lemma peer_requests_keep: "gotoptions (peer_requests rs c) = gotoptions c"
proof (induction rs c rule: peer_requests.induct)
  case (2 inp rej rs c)
  have "same_settings c (snd (snd (ipcp_reqci c inp rej)))"
    by (rule ipcp_reqci_settings [of c inp rej "fst (ipcp_reqci c inp rej)" "fst (snd (ipcp_reqci c inp rej))"]) simp
  with 2 show ?case by (simp add: same_settings_def)
qed simp

text \<open>
  C24. A Configure-Ack is taken for good exactly if it holds the bytes of the request that was
  sent, whatever requests of the peer have been answered in between: the field by field
  comparison of the code accepts no other packet, shorter, longer or reordered.
\<close>
theorem ipcp_ack_exact:
  assumes "32 \<le> peer_mru pcb" and "c' = peer_requests rs (request_ci ipcp_callbacks pcb c)"
  shows "ipcp_ackci c' p \<longleftrightarrow> p = request_data ipcp_callbacks pcb c"
  using assms by (simp add: ipcp_ackci_own peer_requests_keep ipcp_request)

theorem ipcp_ack_exact_witness:
  "ipcp_ackci (request_ci ipcp_callbacks ipcp_pcb (ipcp_resetci new_ipcp))
     (request_data ipcp_callbacks ipcp_pcb (ipcp_resetci new_ipcp))"
  using ipcp_ack_exact [of ipcp_pcb _ "[]" "ipcp_resetci new_ipcp", OF _ refl]
  by (simp add: ipcp_pcb_def default_pcb_def)

end
