(* ===== verification/Ipcp_Nak.thy ===== *)
theory Ipcp_Nak
  imports Ipcp_Requests
begin

text \<open>
  The suggestions of the peer in a Configure-Nak, and what IPCP makes of them.
\<close>

section \<open>What a Configure-Nak can change\<close>

text \<open>
  The options that come of a suggestion: an address of either end is only taken if we accept one,
  and then it is not zero; the number of compression slots never grows; what we accept stays as it
  is. The name servers are not guarded, nor which options are on.
\<close>

definition moderate :: "ipcp_options \<Rightarrow> ipcp_options \<Rightarrow> bool" where
  "moderate go new \<longleftrightarrow>
     (ouraddr new = ouraddr go \<or> accept_local go \<and> ouraddr new \<noteq> 0) \<and>
     (hisaddr new = hisaddr go \<or> accept_remote go \<and> hisaddr new \<noteq> 0) \<and>
     maxslotindex new \<le> maxslotindex go \<and>
     accept_local new = accept_local go \<and> accept_remote new = accept_remote go"

lemma moderate_refl: "moderate go go"
  by (simp add: moderate_def)

lemma moderate_steps:
  "moderate go new \<Longrightarrow> moderate go (if a \<noteq> 0 \<and> accept_local go then new\<lparr>ouraddr := a\<rparr> else new)"
  "moderate go new \<Longrightarrow> moderate go (if a \<noteq> 0 \<and> accept_remote go then new\<lparr>hisaddr := a\<rparr> else new)"
  "moderate go new \<Longrightarrow> moderate go (if x then new\<lparr>neg_addr := b\<rparr> else new)"
  "moderate go new \<Longrightarrow> moderate go (new\<lparr>neg_addr := b\<rparr>)"
  "moderate go new \<Longrightarrow> moderate go (new\<lparr>old_addrs := b\<rparr>)"
  "moderate go new \<Longrightarrow> moderate go (new\<lparr>dnsaddr0 := a, req_dns1 := b\<rparr>)"
  "moderate go new \<Longrightarrow> moderate go (new\<lparr>dnsaddr1 := a, req_dns2 := b\<rparr>)"
  "moderate go new \<Longrightarrow> moderate go (if accept_local go \<and> a \<noteq> 0 then new\<lparr>ouraddr := a\<rparr> else new)"
  "moderate go new \<Longrightarrow> moderate go (if accept_remote go \<and> a \<noteq> 0 then new\<lparr>hisaddr := a\<rparr> else new)"
  "moderate go new \<Longrightarrow> moderate go (new\<lparr>neg_addr := b, old_addrs := b'\<rparr>)"
  "moderate go new \<Longrightarrow> moderate go (if s < maxslotindex go then new\<lparr>maxslotindex := s\<rparr> else new)"
  "moderate go new \<Longrightarrow> moderate go (if x then new\<lparr>cflag := b\<rparr> else new)"
  "moderate go new \<Longrightarrow> moderate go (new\<lparr>neg_vj := b\<rparr>)"
  "moderate go new \<Longrightarrow> moderate go (new\<lparr>old_vj := b\<rparr>)"
  "moderate go new \<Longrightarrow> moderate go (new\<lparr>old_vj := b, vj_protocol := v\<rparr>)"
  "moderate go new \<Longrightarrow> moderate go (new\<lparr>dnsaddr0 := a\<rparr>)" "moderate go new \<Longrightarrow> moderate go (new\<lparr>dnsaddr1 := a\<rparr>)"
  "moderate go new \<Longrightarrow> moderate go (new\<lparr>req_dns1 := b\<rparr>)" "moderate go new \<Longrightarrow> moderate go (new\<lparr>req_dns2 := b\<rparr>)"
  by (auto simp: moderate_def)

text \<open>The macros for our own options.\<close>

lemma nakci_own_moderate:
  assumes "moderate go new"
  shows "nakci_addrs rej go (p, len, no, new) = (p', len', no', new') \<Longrightarrow> moderate go new'"
    and "nakci_vj rej go (p, len, no, new) = (p', len', no', new') \<Longrightarrow> moderate go new'"
    and "nakci_addr rej go (p, len, no, new) = (p', len', no', new') \<Longrightarrow> moderate go new'"
    and "nakci_dns1 rej go (p, len, no, new) = (p', len', no', new') \<Longrightarrow> moderate go new'"
    and "nakci_dns2 rej go (p, len, no, new) = (p', len', no', new') \<Longrightarrow> moderate go new'"
proof -
  show "nakci_addrs rej go (p, len, no, new) = (p', len', no', new') \<Longrightarrow> moderate go new'"
    by (cases "wants_addrs go \<and> option_at CI_ADDRS 10 len p"; cases rej)
      (use assms in \<open>auto simp: nakci_addrs_def Let_def intro!: moderate_steps split del: if_split\<close>)
  show "nakci_addr rej go (p, len, no, new) = (p', len', no', new') \<Longrightarrow> moderate go new'"
    by (cases "neg_addr go \<and> option_at CI_ADDR 6 len p"; cases rej)
      (use assms in \<open>auto simp: nakci_addr_def Let_def intro!: moderate_steps split del: if_split\<close>)
  show "nakci_dns1 rej go (p, len, no, new) = (p', len', no', new') \<Longrightarrow> moderate go new'"
    and "nakci_dns2 rej go (p, len, no, new) = (p', len', no', new') \<Longrightarrow> moderate go new'"
    using assms by (auto simp: nakci_dns1_def nakci_dns2_def intro!: moderate_steps split: if_split_asm)
  show "nakci_vj rej go (p, len, no, new) = (p', len', no', new') \<Longrightarrow> moderate go new'"
    by (cases "neg_vj go \<and> (option_at CI_COMPRESSTYPE 4 len p \<or> option_at CI_COMPRESSTYPE 6 len p)"; cases rej;
        cases "unat (p ! 1) = 6"; cases "get_short (drop 2 p) = IPCP_VJ_COMP"; cases "get_short (drop 2 p) = IPCP_VJ_COMP_OLD")
      (use assms in \<open>auto simp: nakci_vj_def Let_def intro!: moderate_steps split del: if_split\<close>)
qed

lemma refused_or: "(if x then None else Some y) = Some z \<longleftrightarrow> \<not> x \<and> y = z"
  by simp

lemma nakci_unasked_moderate:
  assumes "moderate go new" and "nakci_unasked go t n q (no, new) = Some (no', new')"
  shows "moderate go new'"
proof -
  consider "t = CI_COMPRESSTYPE" | "t = CI_ADDRS" | "t = CI_ADDR" | "t = CI_MS_DNS1" | "t = CI_MS_DNS2"
    | "t \<noteq> CI_COMPRESSTYPE" "t \<noteq> CI_ADDRS" "t \<noteq> CI_ADDR" "t \<noteq> CI_MS_DNS1" "t \<noteq> CI_MS_DNS2"
    by blast
  then show ?thesis
    by cases (use assms in \<open>auto simp: nakci_unasked_def Let_def refused_or intro!: moderate_steps split del: if_split cong: if_cong\<close>)
qed

lemma nakci_rest_moderate:
  "moderate go new \<Longrightarrow> ipcp_nakci_rest go (p, len, no, new) = Some new' \<Longrightarrow> moderate go new'"
proof (induction go "(p, len, no, new)" arbitrary: p len no new rule: ipcp_nakci_rest.induct)
  case (1 go p len no new)
  let ?n = "unat (p ! 1)"
  show ?case
  proof (cases "len < 2")
    case True
    then show ?thesis using 1(2,3) by (simp add: ipcp_nakci_rest.simps)
  next
    case False
    then obtain no' new1 where u: "\<not> (?n < 2 \<or> len < ?n)"
        "nakci_unasked go (p ! 0) ?n (drop 2 p) (no, new) = Some (no', new1)"
        "ipcp_nakci_rest go (drop ?n p, len - ?n, no', new1) = Some new'"
      using 1(3) by (subst (asm) ipcp_nakci_rest.simps) (auto simp: Let_def split: if_split_asm option.split_asm)
    show ?thesis
      by (rule 1(1) [OF False refl u(1) u(2) refl nakci_unasked_moderate [OF 1(2) u(2)] u(3)])
  qed
qed

text \<open>A suggestion of a name server, asked for or not.\<close>

lemma nak_name_server:
  assumes "st \<noteq> PPP_FSM_OPENED"
  shows "ipcp_nakci st c (addr_option CI_MS_DNS1 a) False =
      (1, c\<lparr>gotoptions := (gotoptions c)\<lparr>dnsaddr0 := a, req_dns1 := True\<rparr>\<rparr>)"
    and "ipcp_nakci st c (addr_option CI_MS_DNS2 a) False =
      (1, c\<lparr>gotoptions := (gotoptions c)\<lparr>dnsaddr1 := a, req_dns2 := True\<rparr>\<rparr>)"
  using assms
  by (cases "gotoptions c"; cases "req_dns1 (gotoptions c)"; cases "req_dns2 (gotoptions c)"; simp add: ipcp_nakci_def nakci_addrs_def nakci_vj_def nakci_addr_def nakci_dns1_def nakci_dns2_def
      option_at_def addr_option_def nakci_unasked_def ipcp_nakci_rest.simps zero_options_def Let_def)+

text \<open>
  C26. A Configure-Nak of the peer changes the addresses and the compression of the request we send
  next only within what was configured: whatever bytes it holds, our address changes only if we
  accept one from the peer, and never to 0, the peer's address likewise, and the number of VJ slots
  never grows. In OPENED nothing changes, nor does a Nak that is refused change anything. The
  addresses of name servers are not guarded in this way: any that is suggested is requested next,
  0 included, also if we did not ask for one.
\<close>
theorem ipcp_nak_is_moderate:
  "(case ipcp_nakci st c p treat_as_reject of (ret, c') \<Rightarrow>
     moderate (gotoptions c) (gotoptions c') \<and>
     c' = c\<lparr>gotoptions := gotoptions c'\<rparr> \<and>
     ((ret = 0 \<or> st = PPP_FSM_OPENED) \<longrightarrow> c' = c)) \<and>
   (st \<noteq> PPP_FSM_OPENED \<longrightarrow>
     ipcp_nakci st c (addr_option CI_MS_DNS1 a) False =
       (1, c\<lparr>gotoptions := (gotoptions c)\<lparr>dnsaddr0 := a, req_dns1 := True\<rparr>\<rparr>) \<and>
     ipcp_nakci st c (addr_option CI_MS_DNS2 a) False =
       (1, c\<lparr>gotoptions := (gotoptions c)\<lparr>dnsaddr1 := a, req_dns2 := True\<rparr>\<rparr>))"
proof -
  obtain p1 l1 n1 g1 where 1: "nakci_addrs treat_as_reject (gotoptions c) (p, length p, zero_options, gotoptions c) = (p1, l1, n1, g1)"
    by (metis prod_cases4)
  obtain p2 l2 n2 g2 where 2: "nakci_vj treat_as_reject (gotoptions c) (p1, l1, n1, g1) = (p2, l2, n2, g2)"
    by (metis prod_cases4)
  obtain p3 l3 n3 g3 where 3: "nakci_addr treat_as_reject (gotoptions c) (p2, l2, n2, g2) = (p3, l3, n3, g3)"
    by (metis prod_cases4)
  obtain p4 l4 n4 g4 where 4: "nakci_dns1 treat_as_reject (gotoptions c) (p3, l3, n3, g3) = (p4, l4, n4, g4)"
    by (metis prod_cases4)
  obtain p5 l5 n5 g5 where 5: "nakci_dns2 treat_as_reject (gotoptions c) (p4, l4, n4, g4) = (p5, l5, n5, g5)"
    by (metis prod_cases4)
  have "moderate (gotoptions c) g5"
    by (intro nakci_own_moderate(5) [OF _ 5] nakci_own_moderate(4) [OF _ 4] nakci_own_moderate(3) [OF _ 3]
        nakci_own_moderate(2) [OF _ 2] nakci_own_moderate(1) [OF _ 1] moderate_refl)
  then have "moderate (gotoptions c) new" if "ipcp_nakci_rest (gotoptions c) (p5, l5, n5, g5) = Some new" for new
    using that by (rule nakci_rest_moderate)
  then have "case ipcp_nakci st c p treat_as_reject of (ret, c') \<Rightarrow> moderate (gotoptions c) (gotoptions c') \<and>
      c' = c\<lparr>gotoptions := gotoptions c'\<rparr> \<and> ((ret = 0 \<or> st = PPP_FSM_OPENED) \<longrightarrow> c' = c)"
    by (simp add: ipcp_nakci_def Let_def 1 2 3 4 5 moderate_refl split: option.splits)
  then show ?thesis using nak_name_server by blast
qed

text \<open>A client that accepts an address, and is suggested 10.0.0.2.\<close>

definition accepting :: ipcp where
  "accepting = new_ipcp\<lparr>gotoptions := zero_options\<lparr>neg_addr := True, accept_local := True, hisaddr := 7\<rparr>\<rparr>"

definition suggested :: ipcp where
  "suggested = snd (ipcp_nakci PPP_FSM_REQSENT accepting [CI_ADDR, 6, 10, 0, 0, 2] False)"

theorem ipcp_nak_is_moderate_witness:
  "ouraddr (gotoptions suggested) = 0x0200000a \<and> hisaddr (gotoptions suggested) = 7 \<and>
    ipcp_nakci PPP_FSM_REQSENT suggested (addr_option CI_MS_DNS1 0) False =
      (1, suggested\<lparr>gotoptions := (gotoptions suggested)\<lparr>dnsaddr0 := 0, req_dns1 := True\<rparr>\<rparr>)"
proof -
  have "moderate (gotoptions accepting) (gotoptions suggested)"
    using ipcp_nak_is_moderate [where st = PPP_FSM_REQSENT and c = accepting and p = "[CI_ADDR, 6, 10, 0, 0, 2]"
        and treat_as_reject = False] by (simp only: suggested_def case_prod_unfold)
  then have "hisaddr (gotoptions suggested) = 7" by (simp add: moderate_def accepting_def zero_options_def)
  moreover have "ouraddr (gotoptions suggested) = 0x0200000a" by code_simp
  ultimately show ?thesis using ipcp_nak_is_moderate [where st = PPP_FSM_REQSENT and c = suggested] by simp
qed

section \<open>A Nak that is treated as a rejection\<close>

text \<open>
  When the peer has sent more Naks than are accepted, the next is to be treated as a
  rejection of its options. With a compression option in it, in the form we request it, and any
  other option, it is not: the pointer stays two bytes behind, at the option's slot number and
  slot flag, which are then read as the type and the length of an option, and the packet is
  refused.
\<close>
theorem ipcp_nak_as_reject_misread:
  assumes "neg_vj (gotoptions c)" and "2 \<le> length rest" and "slotid < 2"
    and "p = [CI_COMPRESSTYPE, 6, h, l, slots, slotid] @ rest"
  shows "ipcp_nakci st c p True = (0, c)"
proof -
  have s: "unat slotid < 2" using assms(3) by (simp add: word_less_nat_alt)
  then have n: "unat slotid \<noteq> 6" "unat slotid \<noteq> 10" by simp_all
  show ?thesis using assms(1,2) s n
    by (simp add: ipcp_nakci_def assms(4) nakci_addrs_def nakci_vj_def nakci_addr_def nakci_dns1_def nakci_dns2_def
        option_at_def Let_def ipcp_nakci_rest.simps)
qed

theorem ipcp_nak_as_reject_misread_witness:
  "ipcp_nakci PPP_FSM_REQSENT (ipcp_resetci (ci (ipcp_init ipcp_pcb (cleared_fsm new_ipcp))))
     [CI_COMPRESSTYPE, 6, 0, 0x2d, 15, 1, CI_ADDR, 6, 10, 0, 0, 2] True =
   (0, ipcp_resetci (ci (ipcp_init ipcp_pcb (cleared_fsm new_ipcp))))"
  by (rule ipcp_nak_as_reject_misread [of _ "[CI_ADDR, 6, 10, 0, 0, 2]"])
    (simp_all add: ipcp_resetci_def ipcp_init_def fsm_init_def cleared_fsm_def new_ipcp_def zero_options_def Let_def)

end
