(* ===== verification/Ipcp_Link.thy ===== *)
theory Ipcp_Link
  imports Ipcp_Replies Ipcp_Nak Ppp_Core
begin

unbundle bit_operations_syntax

text \<open>
  IPCP and the network interface: \<open>ipcp_up\<close>, \<open>ipcp_down\<close> and \<open>ipcp_finished\<close> of \<open>ipcp.c\<close>, the
  functions of \<open>auth.c\<close> through which LCP starts and stops the network protocols, of which IPCP
  is the only one here, and those through which IPCP reports.

  The state of IPCP extends the control block, of which it is a part in the source.

  The reporting callbacks of the automaton are called when it has run. \<open>Up\<close> and \<open>Finished\<close> are
  the last thing that happens; \<open>Down\<close> is reported first, and sees the options as they were,
  which no handler changes before it in OPENED. A call of \<open>lcp_close\<close> is counted: what LCP does then
  reaches IPCP as a step of its own.
\<close>

section \<open>State\<close>

record ip_link = ppp_pcb +
  ipcp_fsm :: "ipcp fsm"
  num_np_open :: u8
  num_np_up :: u8
  ipcp_is_open :: bool
  ipcp_is_up :: bool
  lcp_closes :: nat

section \<open>What IPCP reports\<close>

definition np_up :: "'a ip_link_scheme \<Rightarrow> 'a ip_link_scheme" where
  "np_up s =
     (let s = (if num_np_up s = 0 then new_phase PPP_PHASE_RUNNING s else s)
      in s\<lparr>num_np_up := num_np_up s + 1\<rparr>)"

definition np_down :: "'a ip_link_scheme \<Rightarrow> 'a ip_link_scheme" where
  "np_down s =
     (let s = s\<lparr>num_np_up := num_np_up s - 1\<rparr>
      in if num_np_up s = 0 then new_phase PPP_PHASE_NETWORK s else s)"

definition np_finished :: "'a ip_link_scheme \<Rightarrow> 'a ip_link_scheme" where
  "np_finished s =
     (let s = s\<lparr>num_np_open := num_np_open s - 1\<rparr>
      in if num_np_open s \<le> 0 then s\<lparr>lcp_closes := Suc (lcp_closes s)\<rparr> else s)"

definition ipcp_clear_addrs :: "'a ip_link_scheme \<Rightarrow> 'a ip_link_scheme" where
  "ipcp_clear_addrs s = cifaddr s"

definition ipcp_down :: "ipcp \<Rightarrow> 'a ip_link_scheme \<Rightarrow> 'a ip_link_scheme" where
  "ipcp_down c s =
     (let s = (if ipcp_is_up s then np_down (s\<lparr>ipcp_is_up := False\<rparr>) else s);
          s = sifvjcomp False s;
          s = sifdown s;
          s = ipcp_clear_addrs s
      in cdns (dnsaddr0 (gotoptions c)) (dnsaddr1 (gotoptions c)) s)"

definition ipcp_finished :: "'a ip_link_scheme \<Rightarrow> 'a ip_link_scheme" where
  "ipcp_finished s = (if ipcp_is_open s then np_finished (s\<lparr>ipcp_is_open := False\<rparr>) else s)"

text \<open>A call into the automaton; \<open>h\<close> is what is called back with the options before and an event.\<close>

definition ipcp_call :: "(ipcp fsm \<Rightarrow> ipcp fsm) \<Rightarrow> (ipcp \<Rightarrow> fsm_event \<Rightarrow> 'a ip_link_scheme \<Rightarrow> 'a ip_link_scheme) \<Rightarrow> 'a ip_link_scheme \<Rightarrow> 'a ip_link_scheme" where
  "ipcp_call op h s =
     (let f = ipcp_fsm s; f' = op f
      in fold (h (ci f)) (drop (length (events f)) (events f')) (s\<lparr>ipcp_fsm := f'\<rparr>))"

definition ipcp_leaves :: "ipcp \<Rightarrow> fsm_event \<Rightarrow> 'a ip_link_scheme \<Rightarrow> 'a ip_link_scheme" where
  "ipcp_leaves c e s = (case e of Down \<Rightarrow> ipcp_down c s | Finished \<Rightarrow> ipcp_finished s | _ \<Rightarrow> s)"

definition ipcp_close :: "(nat \<Rightarrow> bool) \<Rightarrow> fsm_pcb \<Rightarrow> string \<Rightarrow> 'a ip_link_scheme \<Rightarrow> 'a ip_link_scheme" where
  "ipcp_close alloc fp reason =
     ipcp_call (fsm_close alloc ipcp_callbacks fp (str reason)) ipcp_leaves"

text \<open>Addresses that no peer may have.\<close>

definition bad_remote :: "u32 \<Rightarrow> bool" where
  "bad_remote his \<longleftrightarrow>
     (let addr = lwip_ntohl his
      in drop_bit 24 addr = 127 \<or> addr AND 0xf0000000 = 0xe0000000 \<or> addr AND 0xf0000000 = 0xf0000000)"

definition get_mask :: "u32 \<Rightarrow> u32" where
  "get_mask addr = 0xffffffff"

text \<open>
  \<open>ipcp_up\<close> in its parts: the peer's address if it requested none; the defaults for what was not
  negotiated; the configuration of the interface (\<open>sifaddr\<close> and \<open>sifup\<close> always succeed).
\<close>

definition with_ci :: "(ipcp \<Rightarrow> ipcp) \<Rightarrow> 'a ip_link_scheme \<Rightarrow> 'a ip_link_scheme" where
  "with_ci h s = s\<lparr>ipcp_fsm := (ipcp_fsm s)\<lparr>ci := h (ci (ipcp_fsm s))\<rparr>\<rparr>"

definition wanted_peer_address :: "ipcp \<Rightarrow> ipcp" where
  "wanted_peer_address c =
     (let ho = hisoptions c
      in if \<not> neg_addr ho \<and> \<not> old_addrs ho
         then c\<lparr>hisoptions := ho\<lparr>hisaddr := hisaddr (wantoptions c)\<rparr>\<rparr> else c)"

definition default_addresses :: "ipcp \<Rightarrow> ipcp" where
  "default_addresses c =
     (let ho = hisoptions c; go = gotoptions c
      in c\<lparr>hisoptions := (if hisaddr ho = 0 \<and> \<not> noremoteip c then ho\<lparr>hisaddr := lwip_htonl 0x0a404040\<rparr> else ho),
           gotoptions := go\<lparr>dnsaddr0 := if req_dns1 go then dnsaddr0 go else 0,
                            dnsaddr1 := if req_dns2 go then dnsaddr1 go else 0\<rparr>\<rparr>)"

definition ipcp_configure :: "'a ip_link_scheme \<Rightarrow> 'a ip_link_scheme" where
  "ipcp_configure s =
     (let c = ci (ipcp_fsm s); ho = hisoptions c; our = ouraddr (gotoptions c);
          s = sifvjcomp (neg_vj ho) s;
          s = sifaddr our (hisaddr ho) (get_mask our) s;
          s = sifup s;
          s = with_ci (\<lambda>c. c\<lparr>wantoptions := (wantoptions c)\<lparr>ouraddr := our\<rparr>\<rparr>) s
      in (np_up s)\<lparr>ipcp_is_up := True\<rparr>)"

definition ipcp_up :: "(nat \<Rightarrow> bool) \<Rightarrow> fsm_pcb \<Rightarrow> 'a ip_link_scheme \<Rightarrow> 'a ip_link_scheme" where
  "ipcp_up alloc fp s =
     (let s = with_ci wanted_peer_address s;
          c = ci (ipcp_fsm s); go = gotoptions c; wo = wantoptions c
      in if \<not> (neg_addr go \<or> old_addrs go) \<and> (neg_addr wo \<or> old_addrs wo) \<and> ouraddr wo \<noteq> 0
         then ipcp_close alloc fp ''Refused our IP address'' s
         else if ouraddr go = 0
         then ipcp_close alloc fp ''Could not determine local IP address'' s
         else
           let s = with_ci default_addresses s;
               c = ci (ipcp_fsm s); go = gotoptions c; his = hisaddr (hisoptions c);
               s = (if usepeerdns c \<and> (dnsaddr0 go \<noteq> 0 \<or> dnsaddr1 go \<noteq> 0)
                    then sdns (dnsaddr0 go) (dnsaddr1 go) s else s)
           in if his \<noteq> 0 \<and> bad_remote his
              then ipcp_close alloc fp ''Unauthorized remote IP address'' s
              else ipcp_configure s)"

definition ipcp_reports :: "(nat \<Rightarrow> bool) \<Rightarrow> fsm_pcb \<Rightarrow> ipcp \<Rightarrow> fsm_event \<Rightarrow> 'a ip_link_scheme \<Rightarrow> 'a ip_link_scheme" where
  "ipcp_reports alloc fp c e s = (if e = Up then ipcp_up alloc fp s else ipcp_leaves c e s)"

section \<open>What reaches IPCP\<close>

definition ipcp_open :: "(nat \<Rightarrow> bool) \<Rightarrow> fsm_pcb \<Rightarrow> 'a ip_link_scheme \<Rightarrow> 'a ip_link_scheme" where
  "ipcp_open alloc fp s =
     (ipcp_call (fsm_open alloc ipcp_callbacks fp) (ipcp_reports alloc fp) s)\<lparr>ipcp_is_open := True\<rparr>"

definition ipcp_lowerup :: "(nat \<Rightarrow> bool) \<Rightarrow> fsm_pcb \<Rightarrow> 'a ip_link_scheme \<Rightarrow> 'a ip_link_scheme" where
  "ipcp_lowerup alloc fp = ipcp_call (fsm_lowerup alloc ipcp_callbacks fp) (ipcp_reports alloc fp)"

definition ipcp_lowerdown :: "'a ip_link_scheme \<Rightarrow> 'a ip_link_scheme" where
  "ipcp_lowerdown = ipcp_call (fsm_lowerdown ipcp_callbacks) ipcp_leaves"

definition ipcp_protrej :: "'a ip_link_scheme \<Rightarrow> 'a ip_link_scheme" where
  "ipcp_protrej = ipcp_call (fsm_lowerdown ipcp_callbacks) ipcp_leaves"

definition ipcp_input :: "(nat \<Rightarrow> bool) \<Rightarrow> fsm_pcb \<Rightarrow> u8 list \<Rightarrow> 'a ip_link_scheme \<Rightarrow> 'a ip_link_scheme" where
  "ipcp_input alloc fp p = ipcp_call (fsm_input alloc ipcp_callbacks fp p) (ipcp_reports alloc fp)"

definition ipcp_timeout :: "(nat \<Rightarrow> bool) \<Rightarrow> fsm_pcb \<Rightarrow> 'a ip_link_scheme \<Rightarrow> 'a ip_link_scheme" where
  "ipcp_timeout alloc fp s =
     (if timer (ipcp_fsm s)
      then ipcp_call (fsm_timeout alloc ipcp_callbacks fp) (ipcp_reports alloc fp) s else s)"

section \<open>LCP goes up and down\<close>

definition continue_networks :: "(nat \<Rightarrow> bool) \<Rightarrow> fsm_pcb \<Rightarrow> 'a ip_link_scheme \<Rightarrow> 'a ip_link_scheme" where
  "continue_networks alloc fp s =
     (let s = ipcp_open alloc fp s;
          s = s\<lparr>num_np_open := num_np_open s + 1\<rparr>
      in if num_np_open s = 0 then s\<lparr>lcp_closes := Suc (lcp_closes s)\<rparr> else s)"

definition start_networks :: "(nat \<Rightarrow> bool) \<Rightarrow> fsm_pcb \<Rightarrow> 'a ip_link_scheme \<Rightarrow> 'a ip_link_scheme" where
  "start_networks alloc fp s = continue_networks alloc fp (new_phase PPP_PHASE_NETWORK s)"

definition link_established :: "(nat \<Rightarrow> bool) \<Rightarrow> fsm_pcb \<Rightarrow> 'a ip_link_scheme \<Rightarrow> 'a ip_link_scheme" where
  "link_established alloc fp s = start_networks alloc fp (ipcp_lowerup alloc fp s)"

definition upper_layers_down :: "(nat \<Rightarrow> bool) \<Rightarrow> fsm_pcb \<Rightarrow> 'a ip_link_scheme \<Rightarrow> 'a ip_link_scheme" where
  "upper_layers_down alloc fp s =
     (let s = ipcp_close alloc fp ''LCP down'' (ipcp_lowerdown s)
      in s\<lparr>num_np_open := 0, num_np_up := 0\<rparr>)"

definition link_down :: "(nat \<Rightarrow> bool) \<Rightarrow> fsm_pcb \<Rightarrow> 'a ip_link_scheme \<Rightarrow> 'a ip_link_scheme" where
  "link_down alloc fp s =
     (let s = upper_layers_down alloc fp s
      in if phase s \<noteq> PPP_PHASE_DEAD then new_phase PPP_PHASE_ESTABLISH s else s)"

section \<open>What one run of the automaton reports\<close>

text \<open>The reports, given whether it was and is opened; if it stays opened its options stay.\<close>

definition legal_reports :: "bool \<Rightarrow> bool \<Rightarrow> fsm_event list \<Rightarrow> bool" where
  "legal_reports b b' new \<longleftrightarrow>
     new = [] \<and> b = b' \<or> new = [Up] \<and> \<not> b \<and> b' \<or>
     (new = [Down] \<or> new = [Down, Finished]) \<and> b \<and> \<not> b' \<or> new = [Finished] \<and> \<not> b \<and> \<not> b'"

definition ipcp_emits :: "ipcp fsm \<Rightarrow> ipcp fsm \<Rightarrow> bool" where
  "ipcp_emits f f' \<longleftrightarrow>
     (\<exists>new. events f' = events f @ new \<and>
       legal_reports (fstate f = PPP_FSM_OPENED) (fstate f' = PPP_FSM_OPENED) new \<and>
       (fstate f = PPP_FSM_OPENED \<and> fstate f' = PPP_FSM_OPENED \<longrightarrow> ci f' = ci f))"

lemmas emits_defs = ipcp_emits_def legal_reports_def

lemma ci_frames [simp]:
  "ci (start_timer f) = ci f" "ci (stop_timer f) = ci f" "ci (fsm_sdata alloc pcb c i d f) = ci f"
  by (simp_all add: start_timer_def stop_timer_def fsm_sdata_def Let_def)

lemma lowerup_emits: "ipcp_emits f (fsm_lowerup alloc ipcp_callbacks fp f)"
  by (cases "fstate f") (auto simp: fsm_lowerup_def emits_defs)

lemma lowerdown_emits: "ipcp_emits f (fsm_lowerdown ipcp_callbacks f)"
  by (cases "fstate f") (auto simp: fsm_lowerdown_def emits_defs)

lemma open_emits: "ipcp_emits f (fsm_open alloc ipcp_callbacks fp f)"
  by (cases "fstate f") (auto simp: fsm_open_def fsm_restart_def fsm_lowerup_def fsm_lowerdown_def emits_defs)

lemma terminate_emits:
  "nextstate = PPP_FSM_CLOSING \<or> nextstate = PPP_FSM_STOPPING \<Longrightarrow>
    ipcp_emits f (terminate_layer alloc ipcp_callbacks fp nextstate f)"
  by (auto simp: terminate_layer_def Let_def emits_defs)

lemma close_emits: "ipcp_emits f (fsm_close alloc ipcp_callbacks fp r f)"
proof -
  have t: "ipcp_emits (f\<lparr>term_reason := x\<rparr>) g \<Longrightarrow> ipcp_emits f g" for x g by (simp add: ipcp_emits_def)
  show ?thesis
    by (cases "fstate f") (auto simp: fsm_close_def Let_def intro: t [OF terminate_emits] split del: if_split,
        auto simp: emits_defs)
qed

lemma timeout_emits: "ipcp_emits f (fsm_timeout alloc ipcp_callbacks fp f)"
  by (cases "fstate f") (auto simp: fsm_timeout_def Let_def emits_defs negotiating_def)

lemma rconfreq_emits: "ipcp_emits f (fsm_rconfreq alloc ipcp_callbacks fp i inp f)"
  by (cases "fstate f") (auto simp: fsm_rconfreq_def enter_negotiation_def answered_def Let_def emits_defs
      case_prod_unfold)

lemma rconfack_emits: "ipcp_emits f (fsm_rconfack alloc ipcp_callbacks fp i inp f)"
  by (cases "fstate f") (auto simp: fsm_rconfack_def Let_def emits_defs)

lemma nak_opened: "ipcp_nakci PPP_FSM_OPENED c inp rej = (r, c') \<Longrightarrow> c' = c"
  by (auto simp: ipcp_nakci_def Let_def split: option.splits)

lemma rej_opened: "ipcp_rejci PPP_FSM_OPENED c inp = (r, c') \<Longrightarrow> c' = c"
  by (auto simp: ipcp_rejci_def split: option.splits list.splits)

lemma nakrej_callback_ipcp:
  assumes "fsm_nakrej_callback alloc ipcp_callbacks fp code inp f = (ret, g)"
  shows "\<exists>c. g = f\<lparr>ci := c\<rparr> \<and> (fstate f = PPP_FSM_OPENED \<longrightarrow> c = ci f)"
proof (cases "code = CONFNAK")
  case True
  obtain r c where c: "ipcp_nakci (fstate f) (ci f) inp (maxnakloops f \<le> rnakloops f) = (r, c)" by fastforce
  then have "g = f\<lparr>ci := c\<rparr>" using assms True by (simp add: fsm_nakrej_callback_def Let_def)
  with c show ?thesis by (metis nak_opened)
next
  case False
  obtain r c where c: "ipcp_rejci (fstate f) (ci f) inp = (r, c)" by fastforce
  then have "g = f\<lparr>ci := c\<rparr>" using assms False by (simp add: fsm_nakrej_callback_def Let_def)
  with c show ?thesis by (metis rej_opened)
qed

lemma nakrej_next_emits: "ipcp_emits f (nakrej_next alloc ipcp_callbacks fp i ret f)"
  by (cases "fstate f") (simp_all add: nakrej_next_def emits_defs)

lemma rconfnakrej_emits: "ipcp_emits f (fsm_rconfnakrej alloc ipcp_callbacks fp code i inp f)"
proof -
  obtain ret g where g: "fsm_nakrej_callback alloc ipcp_callbacks fp code inp
      (f\<lparr>rnakloops := (if code = CONFNAK then rnakloops f + 1 else 0)\<rparr>) = (ret, g)" by fastforce
  from nakrej_callback_ipcp [OF this] obtain c where c: "g = f\<lparr>rnakloops := (if code = CONFNAK then rnakloops f + 1 else 0), ci := c\<rparr>"
      "fstate f = PPP_FSM_OPENED \<longrightarrow> c = ci f" by auto
  have e: "ipcp_emits f f" by (simp add: emits_defs)
  have t: "ipcp_emits f h" if "ipcp_emits (g\<lparr>seen_ack := b\<rparr>) h" for b h using that c by (auto simp: ipcp_emits_def)
  have "ipcp_emits f g" using c by (simp add: emits_defs)
  then show ?thesis by (simp add: fsm_rconfnakrej_def g e t [OF nakrej_next_emits])
qed

lemma other_codes_emit:
  "ipcp_emits f (fsm_rtermreq alloc ipcp_callbacks fp i f)" "ipcp_emits f (fsm_rtermack alloc ipcp_callbacks fp f)"
  "ipcp_emits f (fsm_rcoderej inp f)"
  by (cases "fstate f"; auto simp: fsm_rtermreq_def fsm_rtermack_def fsm_rcoderej_def Let_def emits_defs)+

lemma input_emits: "ipcp_emits f (fsm_input alloc ipcp_callbacks fp p f)"
proof -
  have "ipcp_emits f f" by (simp add: emits_defs)
  then show ?thesis
    by (simp add: fsm_input_def fsm_code_def Let_def rconfreq_emits rconfack_emits rconfnakrej_emits other_codes_emit)
      (simp add: emits_defs)
qed

lemma close_leaves: "fstate (fsm_close alloc ipcp_callbacks fp r f) \<noteq> PPP_FSM_OPENED"
  by (cases "fstate f") (simp_all add: fsm_close_def terminate_layer_def Let_def)

section \<open>The interface\<close>

text \<open>The addresses the interface was given last: its own, the mask, the peer's.\<close>

fun set_address :: "ppp_event \<Rightarrow> u32 \<times> u32 \<times> u32 \<Rightarrow> u32 \<times> u32 \<times> u32" where
  "set_address (Netif_Addr ip netmask gw) a = (ip, netmask, gw)"
| "set_address _ a = a"

definition netif_address :: "ppp_event list \<Rightarrow> u32 \<times> u32 \<times> u32" where
  "netif_address es = fold set_address es (0, 0, 0)"

lemma netif_address_append [simp]: "netif_address (es @ es') = fold set_address es' (netif_address es)"
  by (simp add: netif_address_def)

definition quiet :: "'a ip_link_scheme \<Rightarrow> bool" where
  "quiet s \<longleftrightarrow> \<not> ipcp_is_up s \<and> \<not> if4_up s \<and> num_np_up s = 0 \<and> fst (netif_address (out s)) = 0"

definition live :: "'a ip_link_scheme \<Rightarrow> bool" where
  "live s \<longleftrightarrow>
     (let c = ci (ipcp_fsm s); our = ouraddr (gotoptions c); his = hisaddr (hisoptions c)
      in ipcp_is_up s \<and> if4_up s \<and> num_np_up s = 1 \<and>
         netif_address (out s) = (our, 0xffffffff, his) \<and>
         our \<noteq> 0 \<and> (his = 0 \<longrightarrow> noremoteip c) \<and> (his \<noteq> 0 \<longrightarrow> \<not> bad_remote his) \<and>
         vj_enabled s = neg_vj (hisoptions c))"

definition link_inv :: "'a ip_link_scheme \<Rightarrow> bool" where
  "link_inv s \<longleftrightarrow> (if fstate (ipcp_fsm s) = PPP_FSM_OPENED then live s else quiet s)"

lemma new_phase_frames [simp]:
  "ipcp_fsm (new_phase p s) = ipcp_fsm s" "num_np_up (new_phase p s) = num_np_up s"
  "num_np_open (new_phase p s) = num_np_open s" "ipcp_is_up (new_phase p s) = ipcp_is_up s"
  "ipcp_is_open (new_phase p s) = ipcp_is_open s" "lcp_closes (new_phase p s) = lcp_closes s"
  by (simp_all add: new_phase_def emit_def Let_def)

lemma interface_frames [simp]:
  "ipcp_fsm (sifvjcomp b s) = ipcp_fsm s" "ipcp_fsm (sifdown s) = ipcp_fsm s" "ipcp_fsm (sifup s) = ipcp_fsm s"
  "ipcp_fsm (sifaddr x y z s) = ipcp_fsm s" "ipcp_fsm (cifaddr s) = ipcp_fsm s" "ipcp_fsm (sdns x y s) = ipcp_fsm s"
  "ipcp_fsm (cdns x y s) = ipcp_fsm s"
  by (simp_all add: sifvjcomp_def sifdown_def sifup_def sifaddr_def cifaddr_def sdns_def cdns_def emit_def Let_def
      case_prod_unfold)

lemma control_frames [simp]:
  "if4_up (new_phase p P) = if4_up P" "netif_address (out (new_phase p P)) = netif_address (out P)"
  "vj_enabled (new_phase p P) = vj_enabled P"
  by (simp_all add: new_phase_def emit_def Let_def)

lemma down_quiet:
  assumes "live s \<or> quiet s"
  shows "quiet (ipcp_down c s)" "ipcp_fsm (ipcp_down c s) = ipcp_fsm s"
  using assms by (auto simp: ipcp_down_def np_down_def ipcp_clear_addrs_def sifvjcomp_def sifdown_def
      cifaddr_def cdns_def emit_def quiet_def live_def Let_def case_prod_unfold)

lemma finished_quiet:
  "quiet s \<Longrightarrow> quiet (ipcp_finished s)" "ipcp_fsm (ipcp_finished s) = ipcp_fsm s"
  by (simp_all add: ipcp_finished_def np_finished_def quiet_def Let_def)

lemma call_events:
  "events (op (ipcp_fsm s)) = events (ipcp_fsm s) @ new \<Longrightarrow>
    ipcp_call op h s = fold (h (ci (ipcp_fsm s))) new (s\<lparr>ipcp_fsm := op (ipcp_fsm s)\<rparr>)"
  by (simp add: ipcp_call_def Let_def)

lemma quiet_fsm [simp]: "quiet (s\<lparr>ipcp_fsm := f\<rparr>) = quiet s"
  by (simp add: quiet_def)

lemma leaves_quiet:
  assumes "live s \<or> quiet s" "e = Down \<or> quiet s"
  shows "quiet (ipcp_leaves c e s)" "ipcp_fsm (ipcp_leaves c e s) = ipcp_fsm s"
  using assms by (auto simp: ipcp_leaves_def down_quiet finished_quiet split: fsm_event.split)

text \<open>Closing an interface that never came up, or is up.\<close>

lemma down_any: "quiet (ipcp_down c s)" if "live s' \<or> quiet s'" "s = s'\<lparr>ipcp_fsm := f\<rparr>" for s s'
  using that by (auto simp: ipcp_down_def np_down_def ipcp_clear_addrs_def sifvjcomp_def sifdown_def
      cifaddr_def cdns_def emit_def quiet_def live_def Let_def case_prod_unfold)

lemma down_fsm: "ipcp_fsm (ipcp_down c s) = ipcp_fsm s"
  by (simp add: ipcp_down_def np_down_def ipcp_clear_addrs_def Let_def)

lemma call_leaves:
  assumes "link_inv s \<or> quiet s" "ipcp_emits (ipcp_fsm s) (op (ipcp_fsm s))"
    and "fstate (op (ipcp_fsm s)) \<noteq> PPP_FSM_OPENED"
  shows "quiet (ipcp_call op ipcp_leaves s)" "ipcp_fsm (ipcp_call op ipcp_leaves s) = op (ipcp_fsm s)"
proof -
  let ?f = "ipcp_fsm s" let ?s = "s\<lparr>ipcp_fsm := op ?f\<rparr>"
  obtain new where new: "events (op ?f) = events ?f @ new" "legal_reports (fstate ?f = PPP_FSM_OPENED) False new"
    using assms(2,3) by (auto simp: ipcp_emits_def)
  have lq: "live s \<or> quiet s" using assms(1) by (auto simp: link_inv_def split: if_splits)
  have d: "quiet (ipcp_down (ci ?f) ?s)" by (rule down_any [OF lq refl])
  have f: "ipcp_fsm (ipcp_down (ci ?f) ?s) = op ?f" by (simp add: down_fsm)
  have q: "quiet s" if "fstate ?f \<noteq> PPP_FSM_OPENED" using assms(1) that by (simp add: link_inv_def)
  from new(2) have "quiet (ipcp_call op ipcp_leaves s) \<and> ipcp_fsm (ipcp_call op ipcp_leaves s) = op ?f"
    using d f q finished_quiet(1) [OF d] finished_quiet(1) [of ?s]
    unfolding call_events [where op = op, OF new(1)] legal_reports_def by (auto simp: ipcp_leaves_def finished_quiet(2))
  then show "quiet (ipcp_call op ipcp_leaves s)" "ipcp_fsm (ipcp_call op ipcp_leaves s) = op ?f" by simp_all
qed

lemma ipcp_close_quiet:
  assumes "link_inv s \<or> quiet s"
  shows "quiet (ipcp_close alloc fp r s)" "fstate (ipcp_fsm (ipcp_close alloc fp r s)) \<noteq> PPP_FSM_OPENED"
  using call_leaves [where op = "fsm_close alloc ipcp_callbacks fp (str r)", OF assms close_emits close_leaves] close_leaves
  by (simp_all add: ipcp_close_def)

lemma configure_live:
  assumes "quiet s" "ouraddr (gotoptions (ci (ipcp_fsm s))) \<noteq> 0"
    and "hisaddr (hisoptions (ci (ipcp_fsm s))) = 0 \<longrightarrow> noremoteip (ci (ipcp_fsm s))"
    and "hisaddr (hisoptions (ci (ipcp_fsm s))) \<noteq> 0 \<longrightarrow> \<not> bad_remote (hisaddr (hisoptions (ci (ipcp_fsm s))))"
  shows "live (ipcp_configure s)" "fstate (ipcp_fsm (ipcp_configure s)) = fstate (ipcp_fsm s)"
  using assms by (simp_all add: ipcp_configure_def Let_def live_def quiet_def np_up_def with_ci_def
      sifvjcomp_def sifaddr_def sifup_def emit_def get_mask_def)

lemma with_ci_quiet [simp]: "quiet (with_ci h s) = quiet s" "fstate (ipcp_fsm (with_ci h s)) = fstate (ipcp_fsm s)"
  "ci (ipcp_fsm (with_ci h s)) = h (ci (ipcp_fsm s))"
  by (simp_all add: with_ci_def)

lemma four_ways:
  "Q w \<Longrightarrow> Q x \<Longrightarrow> Q y \<Longrightarrow> (\<not> b \<Longrightarrow> \<not> c \<Longrightarrow> Q z) \<Longrightarrow> Q (if a then w else if b then x else if c then y else z)"
  by simp

lemma ipcp_up_inv:
  assumes "quiet s" "fstate (ipcp_fsm s) = PPP_FSM_OPENED"
  shows "link_inv (ipcp_up alloc fp s)"
proof -
  have closed: "link_inv (ipcp_close alloc fp r s')" if "quiet s'" for r s'
    using ipcp_close_quiet [of s'] that by (simp add: link_inv_def)
  let ?s1 = "with_ci wanted_peer_address s"
  let ?s2 = "with_ci default_addresses ?s1"
  let ?c = "ci (ipcp_fsm ?s2)"
  let ?s3 = "if usepeerdns ?c \<and> (dnsaddr0 (gotoptions ?c) \<noteq> 0 \<or> dnsaddr1 (gotoptions ?c) \<noteq> 0)
             then sdns (dnsaddr0 (gotoptions ?c)) (dnsaddr1 (gotoptions ?c)) ?s2 else ?s2"
  have q: "quiet ?s1" "quiet ?s2" using assms(1) by simp_all
  then have q3: "quiet ?s3" by (simp add: quiet_def sdns_def)
  have f3: "ipcp_fsm ?s3 = ipcp_fsm ?s2" by simp
  have n: "hisaddr (hisoptions ?c) = 0 \<longrightarrow> noremoteip ?c"
    by (simp add: default_addresses_def Let_def lwip_htonl_def)
  have o: "ouraddr (gotoptions ?c) = ouraddr (gotoptions (ci (ipcp_fsm ?s1)))"
    by (simp add: default_addresses_def Let_def)
  have c: "link_inv (ipcp_configure ?s3)"
    if "ouraddr (gotoptions ?c) \<noteq> 0" "\<not> (hisaddr (hisoptions ?c) \<noteq> 0 \<and> bad_remote (hisaddr (hisoptions ?c)))"
  proof -
    note l = configure_live [OF q3, unfolded f3]
    have "live (ipcp_configure ?s3)" "fstate (ipcp_fsm (ipcp_configure ?s3)) = fstate (ipcp_fsm ?s2)"
      by (rule l; use that n in blast)+
    moreover have "fstate (ipcp_fsm ?s2) = PPP_FSM_OPENED" using assms(2) by simp
    ultimately show ?thesis unfolding link_inv_def by (simp only: simp_thms if_True)
  qed
  show ?thesis
    unfolding ipcp_up_def Let_def
    by (rule four_ways [where Q = link_inv], rule closed [OF q(1)], rule closed [OF q(1)], rule closed [OF q3], rule c)
      (simp_all only: o not_False_eq_True)
qed

lemma call_reports:
  assumes "link_inv s" "ipcp_emits (ipcp_fsm s) (op (ipcp_fsm s))"
  shows "link_inv (ipcp_call op (ipcp_reports alloc fp) s)"
proof -
  let ?f = "ipcp_fsm s" let ?s = "s\<lparr>ipcp_fsm := op ?f\<rparr>"
  obtain new where new: "events (op ?f) = events ?f @ new"
      "legal_reports (fstate ?f = PPP_FSM_OPENED) (fstate (op ?f) = PPP_FSM_OPENED) new"
      "fstate ?f = PPP_FSM_OPENED \<and> fstate (op ?f) = PPP_FSM_OPENED \<longrightarrow> ci (op ?f) = ci ?f"
    using assms(2) by (auto simp: ipcp_emits_def)
  note call = call_events [where op = op and s = s, OF new(1)]
  show ?thesis
  proof (cases "fstate (op ?f) = PPP_FSM_OPENED")
    case False
    have "ipcp_call op (ipcp_reports alloc fp) s = ipcp_call op ipcp_leaves s"
      unfolding call using new(2) False by (auto simp: legal_reports_def ipcp_reports_def)
    moreover from call_leaves [where op = op, OF disjI1 [OF assms(1)] assms(2) False] False
    have "link_inv (ipcp_call op ipcp_leaves s)" by (simp add: link_inv_def)
    ultimately show ?thesis by simp
  next
    case True
    show ?thesis
    proof (cases "fstate ?f = PPP_FSM_OPENED")
      case o: True
      with True new(2) have "new = []" by (auto simp: legal_reports_def)
      moreover have "link_inv ?s" using assms(1) o True new(3) by (simp add: link_inv_def live_def)
      ultimately show ?thesis by (simp add: call)
    next
      case o: False
      with True new(2) have "new = [Up]" by (auto simp: legal_reports_def)
      moreover have "link_inv (ipcp_up alloc fp ?s)"
        by (rule ipcp_up_inv) (use assms(1) o True in \<open>simp_all add: link_inv_def\<close>)
      ultimately show ?thesis by (simp add: call ipcp_reports_def)
    qed
  qed
qed

text \<open>
  What can happen: LCP comes up or goes down, a packet, the timer, a Protocol-Reject; the user
  changes a setting; other layers change what is theirs, but not the interface.
\<close>

definition same_interface :: "'a ip_link_scheme \<Rightarrow> 'a ip_link_scheme \<Rightarrow> bool" where
  "same_interface s s' \<longleftrightarrow> ipcp_fsm s' = ipcp_fsm s \<and> ipcp_is_up s' = ipcp_is_up s \<and> num_np_up s' = num_np_up s \<and>
     if4_up s' = if4_up s \<and> vj_enabled s' = vj_enabled s \<and> netif_address (out s') = netif_address (out s)"

inductive link_step :: "(nat \<Rightarrow> bool) \<Rightarrow> fsm_pcb \<Rightarrow> 'a ip_link_scheme \<Rightarrow> 'a ip_link_scheme \<Rightarrow> bool" for alloc fp where
  established: "link_step alloc fp s (link_established alloc fp s)"
| down: "link_step alloc fp s (link_down alloc fp s)"
| packet: "link_step alloc fp s (ipcp_input alloc fp p s)"
| timeout: "link_step alloc fp s (ipcp_timeout alloc fp s)"
| rejected: "link_step alloc fp s (ipcp_protrej s)"
| setting: "gotoptions (h (ci (ipcp_fsm s))) = gotoptions (ci (ipcp_fsm s)) \<Longrightarrow>
    hisoptions (h (ci (ipcp_fsm s))) = hisoptions (ci (ipcp_fsm s)) \<Longrightarrow>
    noremoteip (h (ci (ipcp_fsm s))) = noremoteip (ci (ipcp_fsm s)) \<Longrightarrow>
    link_step alloc fp s (with_ci h s)"
| other: "same_interface s s' \<Longrightarrow> link_step alloc fp s s'"

inductive_cases link_stepE: "link_step alloc fp s s'"

lemma lowerdown_inv: "link_inv s \<Longrightarrow> quiet (ipcp_lowerdown s) \<and> link_inv (ipcp_lowerdown s)"
proof -
  assume i: "link_inv s"
  have "fstate (fsm_lowerdown ipcp_callbacks (ipcp_fsm s)) \<noteq> PPP_FSM_OPENED"
    by (cases "fstate (ipcp_fsm s)") (simp_all add: fsm_lowerdown_def)
  from call_leaves [where op = "fsm_lowerdown ipcp_callbacks", OF disjI1 [OF i] lowerdown_emits this] this
  show ?thesis by (simp add: ipcp_lowerdown_def link_inv_def)
qed

lemma phase_inv [simp]: "link_inv (new_phase p s) = link_inv s" "quiet (new_phase p s) = quiet s"
  by (simp_all add: link_inv_def live_def quiet_def)

lemma counters_inv [simp]:
  "link_inv (s\<lparr>num_np_open := n\<rparr>) = link_inv s" "link_inv (s\<lparr>lcp_closes := k\<rparr>) = link_inv s"
  "link_inv (s\<lparr>ipcp_is_open := b\<rparr>) = link_inv s"
  by (simp_all add: link_inv_def live_def quiet_def)

lemma link_down_inv: "link_inv s \<Longrightarrow> link_inv (link_down alloc fp s)"
proof -
  assume "link_inv s"
  then have q: "quiet (ipcp_lowerdown s)" by (simp add: lowerdown_inv)
  let ?s = "ipcp_close alloc fp ''LCP down'' (ipcp_lowerdown s)"
  have "quiet ?s" "fstate (ipcp_fsm ?s) \<noteq> PPP_FSM_OPENED" using ipcp_close_quiet q by blast+
  then have "link_inv (?s\<lparr>num_np_open := 0, num_np_up := 0\<rparr>)" by (simp add: link_inv_def quiet_def)
  then show ?thesis by (simp add: link_down_def upper_layers_down_def Let_def)
qed

lemma link_established_inv: "link_inv s \<Longrightarrow> link_inv (link_established alloc fp s)"
  by (simp add: link_established_def start_networks_def continue_networks_def ipcp_open_def ipcp_lowerup_def Let_def
      call_reports lowerup_emits open_emits)

lemma link_step_inv: "link_step alloc fp s s' \<Longrightarrow> link_inv s \<Longrightarrow> link_inv s'"
proof (induction rule: link_step.induct)
  case (setting h s)
  then show ?case by (simp add: link_inv_def live_def quiet_def with_ci_def Let_def split: if_split_asm)
next
  case (other s s')
  then show ?case by (simp add: same_interface_def link_inv_def live_def quiet_def Let_def split: if_split_asm)
next
  case (rejected s)
  then show ?case using lowerdown_inv [of s] by (simp add: ipcp_protrej_def ipcp_lowerdown_def)
qed (simp_all add: link_established_inv link_down_inv ipcp_input_def ipcp_timeout_def call_reports input_emits timeout_emits)

interpretation ip_link_run: step_invariant "link_step alloc fp" link_inv for alloc fp
  by unfold_locales (rule link_step_inv)

definition new_link :: "ipcp \<Rightarrow> ip_link" where
  "new_link c = new_phase PPP_PHASE_DEAD
     \<lparr>phase = 0, err_code = 0, if4_up = False, notify_phase_cb = False, pppos_open = False,
      vj_enabled = False, dns_servers = (0, 0), out = [], ipcp_fsm = ipcp_init ipcp_pcb (cleared_fsm c),
      num_np_open = 0, num_np_up = 0, ipcp_is_open = False, ipcp_is_up = False, lcp_closes = 0\<rparr>"

lemma new_link_inv: "link_inv (new_link c)"
  by (simp add: new_link_def link_inv_def quiet_def ipcp_init_def fsm_init_def cleared_fsm_def ppp_new_def new_phase_def
      emit_def netif_address_def Let_def)

text \<open>
  C22. The network interface follows IPCP, in every execution: packets, timeouts, LCP coming and
  going in any order. The interface is up exactly while IPCP is open, and IPCP is counted as one
  network protocol that is up. Then its addresses are those negotiated: its own is not 0, and
  the peer's is not a loopback, multicast or reserved address, and is 0 only if that is allowed;
  compression is on exactly if it was agreed. While it is down, its address is 0.
\<close>
theorem interface_follows_ipcp:
  assumes "(link_step alloc fp)\<^sup>*\<^sup>* (new_link c0) s" and "c = ci (ipcp_fsm s)"
    and "(our, nm, his) = netif_address (out s)"
  shows "(ipcp_is_up s \<longleftrightarrow> fstate (ipcp_fsm s) = PPP_FSM_OPENED) \<and> (if4_up s \<longleftrightarrow> ipcp_is_up s) \<and>
    num_np_up s = (if ipcp_is_up s then 1 else 0) \<and>
    (ipcp_is_up s \<longrightarrow> our = ouraddr (gotoptions c) \<and> his = hisaddr (hisoptions c) \<and> our \<noteq> 0 \<and>
      (his = 0 \<longrightarrow> noremoteip c) \<and> (his \<noteq> 0 \<longrightarrow> \<not> bad_remote his) \<and>
      (vj_enabled s \<longleftrightarrow> neg_vj (hisoptions c))) \<and>
    (\<not> ipcp_is_up s \<longrightarrow> our = 0)"
proof -
  have i: "link_inv s" by (rule ip_link_run.reachable [OF assms(1) new_link_inv])
  have "our = fst (netif_address (out s))" "his = snd (snd (netif_address (out s)))"
    by (simp_all flip: assms(3))
  with i show ?thesis
    by (cases "fstate (ipcp_fsm s) = PPP_FSM_OPENED") (simp_all add: link_inv_def live_def quiet_def assms(2) Let_def)
qed

theorem interface_follows_ipcp_witness:
  "\<not> if4_up (link_established (\<lambda>_. True) ipcp_pcb (new_link new_ipcp))"
proof -
  let ?s = "link_established (\<lambda>_. True) ipcp_pcb (new_link new_ipcp)"
  have "(link_step (\<lambda>_. True) ipcp_pcb)\<^sup>*\<^sup>* (new_link new_ipcp) ?s"
    by (rule r_into_rtranclp) (rule link_step.established)
  moreover have "fstate (ipcp_fsm ?s) \<noteq> PPP_FSM_OPENED"
    by (simp add: link_established_def start_networks_def continue_networks_def ipcp_open_def ipcp_lowerup_def
        ipcp_call_def new_link_def ipcp_init_def fsm_init_def cleared_fsm_def fsm_lowerup_def fsm_open_def Let_def)
  moreover obtain our nm his where "netif_address (out ?s) = (our, nm, his)" by (rule prod_cases3)
  ultimately show ?thesis
    using interface_follows_ipcp [where s = ?s and our = our and nm = nm and his = his, OF _ refl] by simp
qed

end
