(* ===== verification/Ipcp_Negotiation.thy ===== *)
theory Ipcp_Negotiation
  imports Ipcp_Replies Ipcp_Nak
begin

text \<open>
  Two ends that negotiate: one that has no address, as this firmware, and one that assigns it.
\<close>

section \<open>An exchange in which one end suggests other values\<close>

text \<open>An automaton that has sent its first request and got nothing yet; starting it as \<open>auth.c\<close> does.\<close>

definition requesting :: "'ci fsm_callbacks \<Rightarrow> fsm_pcb \<Rightarrow> 'ci fsm \<Rightarrow> 'ci fsm \<Rightarrow> bool" where
  "requesting cb pcb f x \<longleftrightarrow>
     (\<exists>ps. packets x = ps @ [fsm_packet pcb CONFREQ (reqid x) (request_data cb pcb (fresh_ci cb f))]) \<and>
     fstate x = PPP_FSM_REQSENT \<and> ci x = request_ci cb pcb (fresh_ci cb f) \<and>
     \<not> seen_ack x \<and> nakloops x = 0 \<and> rnakloops x = 0 \<and> maxnakloops x = maxnakloops f"

lemma started_requests:
  assumes "fstate f = PPP_FSM_INITIAL" "flags f AND OPT_SILENT = 0"
  shows "requesting cb pcb f (fsm_open (\<lambda>_. True) cb pcb (fsm_lowerup (\<lambda>_. True) cb pcb f))"
  using assms by (auto simp: requesting_def fsm_open_def fsm_lowerup_def notify_def fsm_sconfreq_def
      negotiating_def start_timer_def fresh_ci_def Let_def request_ci_def request_data_def case_prod_unfold
      split: option.splits)

lemma request_naked:
  assumes "fstate g = PPP_FSM_REQSENT" "reqci cb = Some r" "\<not> maxnakloops g \<le> nakloops g"
    and "r (ci g) d False = (CONFNAK, nak, c)" "length nak \<le> peer_mru pcb - 4"
  shows "fsm_rconfreq (\<lambda>_. True) cb pcb i d g = g\<lparr>ci := c, fsm_allocs := Suc (fsm_allocs g),
    packets := packets g @ [fsm_packet pcb CONFNAK i nak], nakloops := nakloops g + 1\<rparr>"
  using assms by (simp add: fsm_rconfreq_def enter_negotiation_def answered_def fsm_sdata_def fsm_reqci_def Let_def)

lemma request_acked_fsm:
  assumes "fstate f = PPP_FSM_REQSENT \<or> fstate f = PPP_FSM_ACKSENT" "reqci cb = Some r" "\<not> maxnakloops f \<le> nakloops f"
    and "r (ci f) d False = (CONFACK, d, c)" "length d \<le> peer_mru pcb - 4"
  shows "fsm_rconfreq (\<lambda>_. True) cb pcb i d f = f\<lparr>ci := c, fsm_allocs := Suc (fsm_allocs f),
    packets := packets f @ [fsm_packet pcb CONFACK i d], fstate := PPP_FSM_ACKSENT, nakloops := 0\<rparr>"
  using assms by (auto simp: fsm_rconfreq_def enter_negotiation_def answered_def fsm_sdata_def fsm_reqci_def Let_def)

lemma request_acked_opens:
  assumes "fstate f = PPP_FSM_ACKRCVD" "reqci cb = Some r" "\<not> maxnakloops f \<le> nakloops f"
    and "r (ci f) d False = (CONFACK, d, c)" "length d \<le> peer_mru pcb - 4"
  shows "fsm_rconfreq (\<lambda>_. True) cb pcb i d f = notify cb Up (f\<lparr>ci := c, fsm_allocs := Suc (fsm_allocs f),
    packets := packets f @ [fsm_packet pcb CONFACK i d], timer := False, fstate := PPP_FSM_OPENED\<rparr>)\<lparr>nakloops := 0\<rparr>"
  using assms by (simp add: fsm_rconfreq_def enter_negotiation_def answered_def fsm_sdata_def fsm_reqci_def
      stop_timer_def Let_def)

lemma nak_answered:
  assumes "fstate f = PPP_FSM_ACKSENT" "i = reqid f" "\<not> seen_ack f" "nakci cb = Some n"
    and "n PPP_FSM_ACKSENT (ci f) d (maxnakloops f \<le> rnakloops f + 1) = (1, c, None)"
  shows "fsm_rconfnakrej (\<lambda>_. True) cb pcb CONFNAK i d f = f\<lparr>ci := request_ci cb pcb c,
    rnakloops := rnakloops f + 1, id_no := id_no f + 1, reqid := id_no f + 1, seen_ack := False,
    retransmits := fsm_max_conf_req_transmits pcb - 1, fsm_allocs := Suc (fsm_allocs f), timer := True,
    packets := packets f @ [fsm_packet pcb CONFREQ (id_no f + 1) (request_data cb pcb c)]\<rparr>"
  using assms by (simp add: fsm_rconfnakrej_def fsm_nakrej_callback_def nakrej_next_def Let_def fsm_sconfreq_def negotiating_def start_timer_def
      stop_timer_def request_ci_def request_data_def case_prod_unfold)

lemma ack_received:
  assumes "fstate f = PPP_FSM_REQSENT" "i = reqid f" "\<not> seen_ack f" "ackci cb = Some a" "a (ci f) d"
  shows "fsm_rconfack alloc cb pcb i d f = f\<lparr>seen_ack := True, rnakloops := 0, fstate := PPP_FSM_ACKRCVD,
    retransmits := fsm_max_conf_req_transmits pcb\<rparr>"
  using assms by (simp add: fsm_rconfack_def Let_def)

text \<open>
  Two automata that start together, of which the first acknowledges the second's request and
  the second suggests other values once, which the first then requests.
\<close>

lemma fsm_suggestion:
  assumes "1 < maxnakloops f" and "1 < maxnakloops g"
    and cb: "reqci cb = Some r" "ackci cb = Some a" "nakci cb = Some n"
    and df: "df = request_data cb pcb (fresh_ci cb f)" and dg: "dg = request_data cb pcb (fresh_ci cb g)"
    and "r (request_ci cb pcb (fresh_ci cb f)) dg False = (CONFACK, dg, cf)"
    and "r (request_ci cb pcb (fresh_ci cb g)) df False = (CONFNAK, nak, cg)"
    and "n PPP_FSM_ACKSENT cf nak False = (1, cf', None)" and "a cg dg"
    and df': "df' = request_data cb pcb cf'" and "r cg df' False = (CONFACK, df', cg')"
    and "a (request_ci cb pcb cf') df'"
    and len: "length df + 4 < 65536" "length dg + 4 < 65536" "length df' + 4 < 65536" "length nak + 4 < 65536"
      "length dg \<le> peer_mru pcb - 4" "length nak \<le> peer_mru pcb - 4" "length df' \<le> peer_mru pcb - 4"
    and f1: "requesting cb pcb f f1" and g1: "requesting cb pcb g g1"
    and f2: "f2 = fsm_input (\<lambda>_. True) cb pcb (wire_packet g1) f1"
    and g2: "g2 = fsm_input (\<lambda>_. True) cb pcb (wire_packet f1) g1"
    and f3: "f3 = fsm_input (\<lambda>_. True) cb pcb (wire_packet g2) f2"
    and g3: "g3 = fsm_input (\<lambda>_. True) cb pcb (wire_packet f2) g2"
    and g4: "g4 = fsm_input (\<lambda>_. True) cb pcb (wire_packet f3) g3"
    and f4: "f4 = fsm_input (\<lambda>_. True) cb pcb (wire_packet g4) f3"
  shows "fstate f4 = PPP_FSM_OPENED \<and> fstate g4 = PPP_FSM_OPENED \<and>
    ci f4 = request_ci cb pcb cf' \<and> ci g4 = cg' \<and>
    events f2 = events f1 \<and> events f3 = events f1 \<and> events f4 = events f1 @ (if reports cb Up then [Up] else []) \<and>
    events g2 = events g1 \<and> events g3 = events g1 \<and> events g4 = events g1 @ (if reports cb Up then [Up] else []) \<and>
    (\<exists>q. packets g4 = packets g3 @ [q])"
proof -
  note F = f1 [unfolded requesting_def, folded df] and G = g1 [unfolded requesting_def, folded dg]
  have m: "\<not> maxnakloops f \<le> 0" "\<not> maxnakloops f \<le> 1" "\<not> maxnakloops g \<le> 0" "\<not> maxnakloops g \<le> 1"
    using assms(1,2) by auto
  from F G obtain pf pg where pf: "packets f1 = pf @ [fsm_packet pcb CONFREQ (reqid f1) df]"
    and pg: "packets g1 = pg @ [fsm_packet pcb CONFREQ (reqid g1) dg]" by auto
  have "f2 = fsm_rconfreq (\<lambda>_. True) cb pcb (reqid g1) dg f1"
    using fsm_input_wire [OF pg len(2), of f1] F by (simp add: f2 fsm_code_def)
  then have F2: "f2 = f1\<lparr>ci := cf, fsm_allocs := Suc (fsm_allocs f1),
      packets := packets f1 @ [fsm_packet pcb CONFACK (reqid g1) dg], fstate := PPP_FSM_ACKSENT, nakloops := 0\<rparr>"
    using F m assms(8) cb(1) len(5) by (simp add: request_acked_fsm)
  have "g2 = fsm_rconfreq (\<lambda>_. True) cb pcb (reqid f1) df g1"
    using fsm_input_wire [OF pf len(1), of g1] G by (simp add: g2 fsm_code_def)
  then have G2: "g2 = g1\<lparr>ci := cg, fsm_allocs := Suc (fsm_allocs g1),
      packets := packets g1 @ [fsm_packet pcb CONFNAK (reqid f1) nak], nakloops := nakloops g1 + 1\<rparr>"
    using G m assms(9) cb(1) len(6) by (simp add: request_naked)
  have "f3 = fsm_rconfnakrej (\<lambda>_. True) cb pcb CONFNAK (reqid f1) nak f2"
    using fsm_input_wire [of g2 "packets g1" pcb CONFNAK "reqid f1" nak f2] len(4) by (simp add: f3 F2 G2 fsm_code_def)
  then have F3: "f3 = f2\<lparr>ci := request_ci cb pcb cf', rnakloops := rnakloops f2 + 1, id_no := id_no f2 + 1,
      reqid := id_no f2 + 1, seen_ack := False, retransmits := fsm_max_conf_req_transmits pcb - 1,
      fsm_allocs := Suc (fsm_allocs f2), timer := True,
      packets := packets f2 @ [fsm_packet pcb CONFREQ (id_no f2 + 1) df']\<rparr>"
    using F m assms(10) cb(3) by (simp add: nak_answered F2 df')
  have "g3 = fsm_rconfack (\<lambda>_. True) cb pcb (reqid g1) dg g2"
    using fsm_input_wire [of f2 "packets f1" pcb CONFACK "reqid g1" dg g2] len(2) G by (simp add: g3 F2 G2 fsm_code_def)
  then have G3: "g3 = g2\<lparr>seen_ack := True, rnakloops := 0, fstate := PPP_FSM_ACKRCVD,
      retransmits := fsm_max_conf_req_transmits pcb\<rparr>"
    using G assms(11) cb(2) by (simp add: ack_received G2)
  have "g4 = fsm_rconfreq (\<lambda>_. True) cb pcb (id_no f2 + 1) df' g3"
    using fsm_input_wire [of f3 "packets f2" pcb CONFREQ "id_no f2 + 1" df' g3] len(3) by (simp add: g4 F3 G3 fsm_code_def)
  then have G4: "g4 = notify cb Up (g3\<lparr>ci := cg', fsm_allocs := Suc (fsm_allocs g3),
      packets := packets g3 @ [fsm_packet pcb CONFACK (id_no f2 + 1) df'], timer := False,
      fstate := PPP_FSM_OPENED\<rparr>)\<lparr>nakloops := 0\<rparr>"
    using G m assms(13) cb(1) len(7) by (simp add: request_acked_opens G3 G2)
  have "f4 = fsm_rconfack (\<lambda>_. True) cb pcb (id_no f2 + 1) df' f3"
    using fsm_input_wire [of g4 "packets g3" pcb CONFACK "id_no f2 + 1" df' f3] len(3)
    by (simp add: f4 F3 F2 G4 notify_def fsm_code_def)
  moreover have "fstate f3 = PPP_FSM_ACKSENT" "\<not> seen_ack f3" "reqid f3 = id_no f2 + 1" "a (ci f3) df'"
    using assms(14) by (simp_all add: F3 F2)
  ultimately have "fstate f4 = PPP_FSM_OPENED \<and> ci f4 = ci f3 \<and> events f4 = events f3 @ (if reports cb Up then [Up] else [])"
    using cb(2) by (simp add: fsm_rconfack_def Let_def stop_timer_def notify_def)
  then show ?thesis by (simp add: F2 F3 G2 G3 G4 notify_def)
qed

section \<open>Reading options that were built\<close>

lemma addr_option_fields [simp]:
  "(addr_option t a @ r) ! 0 = t" "(addr_option t a @ r) ! Suc 0 = 6" "take 6 (addr_option t a @ r) = addr_option t a"
  "drop 6 (addr_option t a @ r) = r" "drop 2 (addr_option t a @ r) = put_addr a @ r"
  "addr_option t a ! 0 = t" "drop 2 (addr_option t a) = put_addr a" "addr_option t a \<noteq> []"
  "addr_option t a ! Suc 0 = 6" "put_at 2 (put_addr b) (addr_option t a) = addr_option t b"
  by (simp_all add: addr_option_def put_at_def)

lemma vj_option_fields [simp]:
  "(vj_option t v False s i @ r) ! 0 = t" "(vj_option t v False s i @ r) ! Suc 0 = 6" "take 6 (vj_option t v False s i @ r) = vj_option t v False s i"
  "drop 6 (vj_option t v False s i @ r) = r" "vj_option t v False s i \<noteq> []"
  "vj_option t v False s i ! 0 = t" "vj_option t v False s i ! 4 = s" "vj_option t v False s i ! 5 = of_bool i"
  "drop 2 (vj_option t v False s i) = short_bytes v @ [s, of_bool i]"
  by (simp_all add: vj_option_def short_bytes_def)

lemma option_at_built [simp]:
  "option_at opt 6 len (addr_option t a @ r) \<longleftrightarrow> 6 \<le> len \<and> t = opt"
  "option_at opt 4 len (addr_option t a @ r) \<longleftrightarrow> False" "option_at opt 10 len (addr_option t a @ r) \<longleftrightarrow> False"
  "option_at opt 6 len (addr_option t a) \<longleftrightarrow> 6 \<le> len \<and> t = opt"
  "option_at opt 4 len (addr_option t a) \<longleftrightarrow> False" "option_at opt 10 len (addr_option t a) \<longleftrightarrow> False"
  by (auto simp: option_at_def)

lemma reqci_loop_built [simp]:
  "reqci_loop rej c (addr_option t a @ p) ans =
    (let (orc, cip, c) = reqci_option rej c (addr_option t a) in reqci_loop rej c p (reqci_collect rej orc cip ans))"
  "reqci_loop rej c (vj_option t v False s i @ p) ans =
    (let (orc, cip, c) = reqci_option rej c (vj_option t v False s i)
     in reqci_loop rej c p (reqci_collect rej orc cip ans))"
  "reqci_loop rej c [] ans = (ans, c)"
  by (subst reqci_loop.simps; simp)+

lemma reqci_loop_built1 [simp]:
  "reqci_loop rej c (addr_option t a) ans =
    (let (orc, cip, c) = reqci_option rej c (addr_option t a) in (reqci_collect rej orc cip ans, c))"
  using reqci_loop_built(1) [of rej c t a "[]" ans] by simp

section \<open>A client and a server\<close>

text \<open>
  The client has no address, as this firmware. The server has an address, one for the client, and
  addresses of DNS servers.
\<close>

definition ipcp_client :: "bool \<Rightarrow> ipcp fsm" where
  "ipcp_client usedns = ipcp_init ipcp_pcb (cleared_fsm (ppp_set_usepeerdns usedns new_ipcp))"

definition ipcp_server :: "u32 \<Rightarrow> u32 \<Rightarrow> u32 \<Rightarrow> u32 \<Rightarrow> ipcp fsm" where
  "ipcp_server our his dns1 dns2 = ipcp_init ipcp_pcb (cleared_fsm (ppp_set_ipcp_dnsaddr 1 dns2
     (ppp_set_ipcp_dnsaddr 0 dns1 (ppp_set_ipcp_hisaddr his (ppp_set_ipcp_ouraddr our new_ipcp)))))"

lemmas setup_defs = ipcp_client_def ipcp_server_def ipcp_init_def fsm_init_def cleared_fsm_def new_ipcp_def
  ppp_set_usepeerdns_def ppp_set_ipcp_dnsaddr_def ppp_set_ipcp_hisaddr_def ppp_set_ipcp_ouraddr_def
  zero_options_def fresh_ci_def ipcp_resetci_def ipcp_old_forms_def

lemma client_request:
  "request_data ipcp_callbacks ipcp_pcb (fresh_ci ipcp_callbacks (ipcp_client u)) =
    vj_option CI_COMPRESSTYPE IPCP_VJ_COMP False 15 True @ addr_option CI_ADDR 0 @
    (if u then addr_option CI_MS_DNS1 0 @ addr_option CI_MS_DNS2 0 else [])"
  by (simp add: ipcp_request ipcp_pcb_def default_pcb_def own_bytes wants_addrs_def setup_defs Let_def)

lemma server_request:
  "our \<noteq> 0 \<Longrightarrow> request_data ipcp_callbacks ipcp_pcb (fresh_ci ipcp_callbacks (ipcp_server our his d1 d2)) =
    vj_option CI_COMPRESSTYPE IPCP_VJ_COMP False 15 True @ addr_option CI_ADDR our"
  by (simp add: ipcp_request ipcp_pcb_def default_pcb_def own_bytes wants_addrs_def setup_defs Let_def)

abbreviation client_ci :: "bool \<Rightarrow> ipcp" where
  "client_ci u \<equiv> fresh_ci ipcp_callbacks (ipcp_client u)"

abbreviation server_ci :: "u32 \<Rightarrow> u32 \<Rightarrow> u32 \<Rightarrow> u32 \<Rightarrow> ipcp" where
  "server_ci our his d1 d2 \<equiv> fresh_ci ipcp_callbacks (ipcp_server our his d1 d2)"

text \<open>What one side has acknowledged of the other's request.\<close>

definition peer_options :: "u32 \<Rightarrow> ipcp_options" where
  "peer_options addr = zero_options\<lparr>neg_addr := True, hisaddr := addr, neg_vj := True,
     vj_protocol := IPCP_VJ_COMP, maxslotindex := 15, cflag := True\<rparr>"

lemma built_options_answer:
  "reqci_option False c (vj_option CI_COMPRESSTYPE IPCP_VJ_COMP False 15 True) =
    reqci_vj False c (vj_option CI_COMPRESSTYPE IPCP_VJ_COMP False 15 True)"
  "reqci_option False c (addr_option CI_ADDR a) = reqci_addr False c (addr_option CI_ADDR a)"
  "reqci_option False c (addr_option CI_MS_DNS1 a) = reqci_dns (dnsaddr0 (allowoptions c)) c (addr_option CI_MS_DNS1 a)"
  "reqci_option False c (addr_option CI_MS_DNS2 a) = reqci_dns (dnsaddr1 (allowoptions c)) c (addr_option CI_MS_DNS2 a)"
  by (simp_all add: reqci_option_def)

lemma vj_acked:
  assumes "neg_vj (allowoptions c)" "maxslotindex (allowoptions c) = 15" "cflag (allowoptions c)"
  shows "reqci_vj False c (vj_option CI_COMPRESSTYPE IPCP_VJ_COMP False 15 True) =
    (CONFACK, vj_option CI_COMPRESSTYPE IPCP_VJ_COMP False 15 True,
     c\<lparr>hisoptions := (hisoptions c)\<lparr>neg_vj := True, vj_protocol := IPCP_VJ_COMP, maxslotindex := 15, cflag := True\<rparr>\<rparr>)"
  using assms get_put_short [of IPCP_VJ_COMP "[15, 1]"] by (simp add: reqci_vj_def Let_def)

lemma client_grants:
  assumes "our \<noteq> 0"
  shows "ipcp_reqci (client_ci u) (vj_option CI_COMPRESSTYPE IPCP_VJ_COMP False 15 True @ addr_option CI_ADDR our) False =
    (CONFACK, vj_option CI_COMPRESSTYPE IPCP_VJ_COMP False 15 True @ addr_option CI_ADDR our,
     (client_ci u)\<lparr>hisoptions := peer_options our\<rparr>)"
  using assms by (simp add: ipcp_reqci_def built_options_answer vj_acked reqci_addr_def reqci_collect_def
      setup_defs peer_options_def Let_def)

text \<open>The options for DNS addresses, if they are wanted.\<close>

abbreviation (input) dns_options :: "bool \<Rightarrow> u32 \<Rightarrow> u32 \<Rightarrow> u8 list" where
  "dns_options u d1 d2 \<equiv> if u then addr_option CI_MS_DNS1 d1 @ addr_option CI_MS_DNS2 d2 else []"

lemma server_suggests:
  assumes "his \<noteq> 0" "u \<longrightarrow> d1 \<noteq> 0 \<and> d2 \<noteq> 0"
  shows "ipcp_reqci (server_ci our his d1 d2)
      (vj_option CI_COMPRESSTYPE IPCP_VJ_COMP False 15 True @ addr_option CI_ADDR 0 @ dns_options u 0 0) False =
    (CONFNAK, addr_option CI_ADDR his @ dns_options u d1 d2,
     (server_ci our his d1 d2)\<lparr>hisoptions := peer_options 0\<rparr>)"
  using assms by (cases u) (simp_all add: ipcp_reqci_def built_options_answer vj_acked reqci_addr_def reqci_dns_def
      reqci_collect_def setup_defs peer_options_def Let_def)

lemma server_grants:
  assumes "his \<noteq> 0" "u \<longrightarrow> d1 \<noteq> 0 \<and> d2 \<noteq> 0"
  shows "ipcp_reqci ((server_ci our his d1 d2)\<lparr>hisoptions := ho\<rparr>)
      (vj_option CI_COMPRESSTYPE IPCP_VJ_COMP False 15 True @ addr_option CI_ADDR his @ dns_options u d1 d2) False =
    (CONFACK, vj_option CI_COMPRESSTYPE IPCP_VJ_COMP False 15 True @ addr_option CI_ADDR his @ dns_options u d1 d2,
     (server_ci our his d1 d2)\<lparr>hisoptions := peer_options his\<rparr>)"
  using assms by (cases u) (simp_all add: ipcp_reqci_def built_options_answer vj_acked reqci_addr_def reqci_dns_def
      reqci_collect_def setup_defs peer_options_def Let_def)

lemma length_built [simp]:
  "length (addr_option t a) = 6" "length (vj_option t v False s i) = 6"
  by simp_all

lemma client_takes:
  assumes "his \<noteq> 0" "gotoptions c = gotoptions (client_ci u)"
  shows "ipcp_nakci PPP_FSM_ACKSENT c (addr_option CI_ADDR his @ dns_options u d1 d2) False =
    (1, c\<lparr>gotoptions := (gotoptions (client_ci u))\<lparr>ouraddr := his, dnsaddr0 := if u then d1 else 0,
           dnsaddr1 := if u then d2 else 0\<rparr>\<rparr>)"
  using assms(1) unfolding ipcp_nakci_def assms(2)
  by (cases u) (simp_all add: nakci_addrs_def nakci_vj_def nakci_addr_def nakci_dns1_def nakci_dns2_def
      ipcp_nakci_rest.simps wants_addrs_def setup_defs Let_def)

definition client_after :: "bool \<Rightarrow> u32 \<Rightarrow> u32 \<Rightarrow> u32 \<Rightarrow> u32 \<Rightarrow> ipcp" where
  "client_after u our his d1 d2 = (client_ci u)\<lparr>hisoptions := peer_options our,
     gotoptions := (gotoptions (client_ci u))\<lparr>ouraddr := his, dnsaddr0 := if u then d1 else 0,
       dnsaddr1 := if u then d2 else 0\<rparr>\<rparr>"

lemma mru_room: "32 \<le> peer_mru ipcp_pcb" "peer_mru ipcp_pcb = 1500"
  by (simp_all add: ipcp_pcb_def default_pcb_def)

lemma client_next_request:
  "request_data ipcp_callbacks ipcp_pcb (client_after u our his d1 d2) =
    vj_option CI_COMPRESSTYPE IPCP_VJ_COMP False 15 True @ addr_option CI_ADDR his @ dns_options u d1 d2"
  "request_ci ipcp_callbacks ipcp_pcb (client_after u our his d1 d2) = client_after u our his d1 d2"
  by (simp_all add: ipcp_request mru_room own_bytes wants_addrs_def client_after_def peer_options_def setup_defs Let_def)

lemma first_request_ci:
  "request_ci ipcp_callbacks ipcp_pcb (client_ci u) = client_ci u"
  "request_ci ipcp_callbacks ipcp_pcb (server_ci our his d1 d2) = server_ci our his d1 d2"
  by (simp_all add: ipcp_request mru_room setup_defs Let_def)

lemma setup_fsm:
  "fstate (ipcp_client u) = PPP_FSM_INITIAL" "flags (ipcp_client u) = 0" "maxnakloops (ipcp_client u) = 100"
  "fstate (ipcp_server our his d1 d2) = PPP_FSM_INITIAL" "flags (ipcp_server our his d1 d2) = 0"
  "maxnakloops (ipcp_server our his d1 d2) = 100"
  by (simp_all add: setup_defs Let_def)

text \<open>
  The automata of a client that has no address and of a server that assigns one: both open after
  one suggestion. The client requests address 0, the server answers with a Configure-Nak, the
  client requests what it suggests and both requests are acknowledged.
\<close>

lemma addresses_agreed:
  assumes "our \<noteq> 0" and "his \<noteq> 0" and "u \<longrightarrow> dns1 \<noteq> 0 \<and> dns2 \<noteq> 0"
    and f1: "requesting ipcp_callbacks ipcp_pcb (ipcp_client u) f1"
    and g1: "requesting ipcp_callbacks ipcp_pcb (ipcp_server our his dns1 dns2) g1"
    and f2: "f2 = fsm_input (\<lambda>_. True) ipcp_callbacks ipcp_pcb (wire_packet g1) f1"
    and g2: "g2 = fsm_input (\<lambda>_. True) ipcp_callbacks ipcp_pcb (wire_packet f1) g1"
    and f3: "f3 = fsm_input (\<lambda>_. True) ipcp_callbacks ipcp_pcb (wire_packet g2) f2"
    and g3: "g3 = fsm_input (\<lambda>_. True) ipcp_callbacks ipcp_pcb (wire_packet f2) g2"
    and g4: "g4 = fsm_input (\<lambda>_. True) ipcp_callbacks ipcp_pcb (wire_packet f3) g3"
    and f4: "f4 = fsm_input (\<lambda>_. True) ipcp_callbacks ipcp_pcb (wire_packet g4) f3"
  shows "fstate f4 = PPP_FSM_OPENED \<and> fstate g4 = PPP_FSM_OPENED \<and>
    ci f4 = client_after u our his dns1 dns2 \<and>
    ci g4 = (server_ci our his dns1 dns2)\<lparr>hisoptions := peer_options his\<rparr> \<and>
    events f2 = events f1 \<and> events f3 = events f1 \<and> events f4 = events f1 @ [Up] \<and>
    events g2 = events g1 \<and> events g3 = events g1 \<and> events g4 = events g1 @ [Up] \<and>
    (\<exists>q. packets g4 = packets g3 @ [q])"
proof -
  let ?vj = "vj_option CI_COMPRESSTYPE IPCP_VJ_COMP False 15 True"
  let ?df = "?vj @ addr_option CI_ADDR 0 @ dns_options u 0 0" and ?dg = "?vj @ addr_option CI_ADDR our"
  let ?df' = "?vj @ addr_option CI_ADDR his @ dns_options u dns1 dns2"
  let ?nak = "addr_option CI_ADDR his @ dns_options u dns1 dns2"
  let ?cg = "(server_ci our his dns1 dns2)\<lparr>hisoptions := peer_options 0\<rparr>"
  let ?cg' = "(server_ci our his dns1 dns2)\<lparr>hisoptions := peer_options his\<rparr>"
  have "ipcp_nakci PPP_FSM_ACKSENT ((client_ci u)\<lparr>hisoptions := peer_options our\<rparr>) ?nak False =
      (1, client_after u our his dns1 dns2)"
    unfolding client_after_def by (subst client_takes [OF assms(2)]) simp_all
  then have n: "(\<lambda>st c p rej. let (ret, c) = ipcp_nakci st c p rej in (ret, c, None)) PPP_FSM_ACKSENT
      ((client_ci u)\<lparr>hisoptions := peer_options our\<rparr>) ?nak False = (1, client_after u our his dns1 dns2, None)" by simp
  have ag: "ipcp_ackci ?cg ?dg"
    using assms(1) by (simp add: ipcp_ackci_own own_bytes wants_addrs_def setup_defs Let_def)
  have af: "ipcp_ackci (client_after u our his dns1 dns2) ?df'"
    by (simp add: ipcp_ackci_own own_bytes wants_addrs_def client_after_def setup_defs Let_def)
  have up: "reports ipcp_callbacks Up" by simp
  have "fstate f4 = PPP_FSM_OPENED \<and> fstate g4 = PPP_FSM_OPENED \<and>
      ci f4 = request_ci ipcp_callbacks ipcp_pcb (client_after u our his dns1 dns2) \<and> ci g4 = ?cg' \<and>
      events f2 = events f1 \<and> events f3 = events f1 \<and> events f4 = events f1 @ (if reports ipcp_callbacks Up then [Up] else []) \<and>
      events g2 = events g1 \<and> events g3 = events g1 \<and> events g4 = events g1 @ (if reports ipcp_callbacks Up then [Up] else []) \<and>
      (\<exists>q. packets g4 = packets g3 @ [q])"
  proof (rule fsm_suggestion [where f = "ipcp_client u" and g = "ipcp_server our his dns1 dns2" and df = ?df
        and dg = ?dg and df' = ?df' and nak = ?nak and cg = ?cg and r = ipcp_reqci and a = ipcp_ackci
        and n = "\<lambda>st c p rej. let (ret, c) = ipcp_nakci st c p rej in (ret, c, None)" and cf = "(client_ci u)\<lparr>hisoptions := peer_options our\<rparr>"])
    show "?df = request_data ipcp_callbacks ipcp_pcb (client_ci u)" by (rule client_request [symmetric])
    show "?dg = request_data ipcp_callbacks ipcp_pcb (server_ci our his dns1 dns2)"
      by (rule server_request [OF assms(1), symmetric])
    show "?df' = request_data ipcp_callbacks ipcp_pcb (client_after u our his dns1 dns2)"
      by (rule client_next_request(1) [symmetric])
  qed (rule f1 g1 f2 g2 f3 g3 f4 g4 n ag server_grants [OF assms(2,3)] |
      simp add: setup_fsm first_request_ci client_grants [OF assms(1)] server_suggests [OF assms(2,3)]
        client_next_request(2) af mru_room)+
  then show ?thesis unfolding client_next_request(2) by simp
qed

end
