(* ===== verification/Ipcp_Peers.thy ===== *)
theory Ipcp_Peers
  imports Ipcp_Link Ipcp_Negotiation
begin

unbundle bit_operations_syntax

text \<open>
  How this firmware gets its address: the control blocks of a client and of a server whose LCP
  has come up, with their interfaces, exchange the packets of IPCP.
\<close>

section \<open>A packet that nothing is reported of\<close>

lemma input_unreported:
  assumes "events (fsm_input alloc ipcp_callbacks fp p (ipcp_fsm s)) = events (ipcp_fsm s)"
  shows "ipcp_input alloc fp p s = s\<lparr>ipcp_fsm := fsm_input alloc ipcp_callbacks fp p (ipcp_fsm s)\<rparr>"
  using assms by (simp add: ipcp_input_def ipcp_call_def Let_def)

lemma input_opens:
  assumes "events (fsm_input alloc ipcp_callbacks fp p (ipcp_fsm s)) = events (ipcp_fsm s) @ [Up]"
  shows "ipcp_input alloc fp p s =
    ipcp_up alloc fp (s\<lparr>ipcp_fsm := fsm_input alloc ipcp_callbacks fp p (ipcp_fsm s)\<rparr>)"
  using assms by (simp add: ipcp_input_def ipcp_call_def ipcp_reports_def Let_def)

section \<open>LCP comes up\<close>

lemma established_requests:
  assumes "fstate (ipcp_fsm s) = PPP_FSM_INITIAL" "flags (ipcp_fsm s) = 0" "quiet s"
  shows "quiet (link_established (\<lambda>_. True) fp s)" "fstate (ipcp_fsm (link_established (\<lambda>_. True) fp s)) = PPP_FSM_REQSENT"
    "requesting ipcp_callbacks fp (ipcp_fsm s) (ipcp_fsm (link_established (\<lambda>_. True) fp s))"
proof -
  let ?u = "fsm_lowerup (\<lambda>_. True) ipcp_callbacks fp (ipcp_fsm s)"
  let ?o = "fsm_open (\<lambda>_. True) ipcp_callbacks fp ?u"
  have u: "events ?u = events (ipcp_fsm s)" "fstate ?u = PPP_FSM_CLOSED" "flags ?u = 0"
    using assms(1,2) by (simp_all add: fsm_lowerup_def)
  have o: "events ?o = events (ipcp_fsm s)" using u by (simp add: fsm_open_def)
  have up: "ipcp_lowerup (\<lambda>_. True) fp s = s\<lparr>ipcp_fsm := ?u\<rparr>"
    using u(1) by (simp add: ipcp_lowerup_def ipcp_call_def Let_def)
  let ?n = "new_phase PPP_PHASE_NETWORK (s\<lparr>ipcp_fsm := ?u\<rparr>)"
  have op: "ipcp_open (\<lambda>_. True) fp ?n = ?n\<lparr>ipcp_fsm := ?o, ipcp_is_open := True\<rparr>"
    using o u(1) by (simp add: ipcp_open_def ipcp_call_def Let_def)
  have f: "ipcp_fsm (link_established (\<lambda>_. True) fp s) = ?o"
    by (simp add: link_established_def start_networks_def continue_networks_def up op Let_def)
  show "quiet (link_established (\<lambda>_. True) fp s)"
    using assms(3) by (simp add: link_established_def start_networks_def continue_networks_def up op Let_def quiet_def)
  show r: "requesting ipcp_callbacks fp (ipcp_fsm s) (ipcp_fsm (link_established (\<lambda>_. True) fp s))"
    unfolding f by (rule started_requests) (simp_all add: assms)
  then show "fstate (ipcp_fsm (link_established (\<lambda>_. True) fp s)) = PPP_FSM_REQSENT" by (simp add: requesting_def)
qed

section \<open>IPCP comes up on an address that was agreed\<close>

lemma up_configures:
  assumes "quiet s" "fstate (ipcp_fsm s) = PPP_FSM_OPENED" "c = ci (ipcp_fsm s)"
    and "neg_addr (gotoptions c)" "ouraddr (gotoptions c) = our" "our \<noteq> 0"
    and "neg_addr (hisoptions c)" "hisaddr (hisoptions c) = his" "his \<noteq> 0" "\<not> bad_remote his"
  shows "fstate (ipcp_fsm (ipcp_up alloc fp s)) = PPP_FSM_OPENED \<and> if4_up (ipcp_up alloc fp s) \<and>
    netif_address (out (ipcp_up alloc fp s)) = (our, 0xffffffff, his) \<and>
    (usepeerdns c \<and> req_dns1 (gotoptions c) \<and> req_dns2 (gotoptions c) \<and> dnsaddr0 (gotoptions c) \<noteq> 0 \<longrightarrow>
       dns_servers (ipcp_up alloc fp s) = (dnsaddr0 (gotoptions c), dnsaddr1 (gotoptions c)))"
  using assms by (auto simp: ipcp_up_def wanted_peer_address_def default_addresses_def with_ci_def ipcp_configure_def np_up_def
      sifvjcomp_def sifaddr_def sifup_def sdns_def emit_def get_mask_def new_phase_def quiet_def Let_def)

lemma up_refuses:
  assumes "quiet s" "c = ci (ipcp_fsm s)"
    and "neg_addr (gotoptions c)" "ouraddr (gotoptions c) \<noteq> 0"
    and "neg_addr (hisoptions c)" "hisaddr (hisoptions c) = his" "his \<noteq> 0" "bad_remote his"
  shows "fstate (ipcp_fsm (ipcp_up alloc fp s)) \<noteq> PPP_FSM_OPENED \<and> \<not> if4_up (ipcp_up alloc fp s)"
proof -
  have "\<exists>s' r. ipcp_up alloc fp s = ipcp_close alloc fp r s' \<and> quiet s'"
    using assms by (fastforce simp: ipcp_up_def wanted_peer_address_def default_addresses_def with_ci_def sdns_def quiet_def Let_def)
  then obtain s' r where "ipcp_up alloc fp s = ipcp_close alloc fp r s'" "quiet s'" by blast
  with ipcp_close_quiet [of s'] show ?thesis by (simp add: quiet_def)
qed

lemma close_packets: "\<exists>ps. packets (ipcp_fsm (ipcp_close alloc fp r s)) = packets (ipcp_fsm s) @ ps"
proof -
  have "ipcp_fsm (fold (ipcp_leaves c) es s) = ipcp_fsm s" for c es and s :: "'a ip_link_scheme"
    by (induction es arbitrary: s) (simp_all add: ipcp_leaves_def down_fsm finished_quiet(2) split: fsm_event.split)
  moreover have "\<exists>ps. packets (fsm_close alloc ipcp_callbacks fp x f) = packets f @ ps" for x f
    by (cases "fstate f") (simp_all add: fsm_close_def terminate_layer_def send_termreq_def fsm_sdata_def Let_def)
  ultimately show ?thesis by (simp add: ipcp_close_def ipcp_call_def Let_def)
qed

lemma up_packets: "\<exists>ps. packets (ipcp_fsm (ipcp_up alloc fp s)) = packets (ipcp_fsm s) @ ps"
proof -
  have k [simp]: "packets (ipcp_fsm (with_ci h s)) = packets (ipcp_fsm s)" "packets (ipcp_fsm (if b then sdns x y s else s)) = packets (ipcp_fsm s)"
    "packets (ipcp_fsm (ipcp_configure s)) = packets (ipcp_fsm s)" for h b x y and s :: "'a ip_link_scheme"
    by (simp_all add: with_ci_def ipcp_configure_def np_up_def Let_def)
  have c: "\<exists>ps. packets (ipcp_fsm (ipcp_close alloc fp r t)) = packets (ipcp_fsm s) @ ps"
    if "packets (ipcp_fsm t) = packets (ipcp_fsm s)" for t :: "'a ip_link_scheme" and r
    using close_packets [of alloc fp r t] that by simp
  show ?thesis unfolding ipcp_up_def Let_def
    by (rule four_ways [where Q = "\<lambda>t. \<exists>ps. packets (ipcp_fsm t) = packets (ipcp_fsm s) @ ps"])
      (rule c, simp only: k, rule c, simp only: k, rule c, simp only: k, rule exI [of _ "[]"], simp only: k append_Nil2)
qed

text \<open>
  What becomes of an end whose address is \<open>our\<close> and whose peer's is \<open>his\<close>, when both are agreed.
\<close>

definition end_result :: "u32 \<Rightarrow> u32 \<Rightarrow> 'a ip_link_scheme \<Rightarrow> bool" where
  "end_result our his s \<longleftrightarrow>
     (if bad_remote his then fstate (ipcp_fsm s) \<noteq> PPP_FSM_OPENED \<and> \<not> if4_up s
      else fstate (ipcp_fsm s) = PPP_FSM_OPENED \<and> if4_up s \<and> netif_address (out s) = (our, 0xffffffff, his))"

section \<open>The property\<close>

text \<open>The exchange: both automata open, and then each end is told so.\<close>

lemma addresses_exchanged:
  fixes c :: "'a ip_link_scheme" and v :: "'b ip_link_scheme"
  assumes "our \<noteq> 0" and "his \<noteq> 0" and "u \<longrightarrow> dns1 \<noteq> 0 \<and> dns2 \<noteq> 0"
    and "ipcp_fsm c = ipcp_client u" and "quiet c" and "ipcp_fsm v = ipcp_server our his dns1 dns2" and "quiet v"
    and c1: "c1 = link_established (\<lambda>_. True) ipcp_pcb c"
    and v1: "v1 = link_established (\<lambda>_. True) ipcp_pcb v"
    and c2: "c2 = ipcp_input (\<lambda>_. True) ipcp_pcb (wire_packet (ipcp_fsm v1)) c1"
    and v2: "v2 = ipcp_input (\<lambda>_. True) ipcp_pcb (wire_packet (ipcp_fsm c1)) v1"
    and c3: "c3 = ipcp_input (\<lambda>_. True) ipcp_pcb (wire_packet (ipcp_fsm v2)) c2"
    and v3: "v3 = ipcp_input (\<lambda>_. True) ipcp_pcb (wire_packet (ipcp_fsm c2)) v2"
    and v4: "v4 = ipcp_input (\<lambda>_. True) ipcp_pcb (wire_packet (ipcp_fsm c3)) v3"
    and c4: "c4 = ipcp_input (\<lambda>_. True) ipcp_pcb (drop 4 (packets (ipcp_fsm v4) ! length (packets (ipcp_fsm v3)))) c3"
  shows "\<exists>f4 g4. c4 = ipcp_up (\<lambda>_. True) ipcp_pcb (c1\<lparr>ipcp_fsm := f4\<rparr>) \<and> quiet (c1\<lparr>ipcp_fsm := f4\<rparr>) \<and>
      ci f4 = client_after u our his dns1 dns2 \<and> fstate f4 = PPP_FSM_OPENED \<and>
    v4 = ipcp_up (\<lambda>_. True) ipcp_pcb (v1\<lparr>ipcp_fsm := g4\<rparr>) \<and> quiet (v1\<lparr>ipcp_fsm := g4\<rparr>) \<and>
      ci g4 = (server_ci our his dns1 dns2)\<lparr>hisoptions := peer_options his\<rparr> \<and> fstate g4 = PPP_FSM_OPENED"
proof -
  note C = established_requests [of c ipcp_pcb, folded c1] and V = established_requests [of v ipcp_pcb, folded v1]
  have i: "quiet c1" "requesting ipcp_callbacks ipcp_pcb (ipcp_client u) (ipcp_fsm c1)"
    "quiet v1" "requesting ipcp_callbacks ipcp_pcb (ipcp_server our his dns1 dns2) (ipcp_fsm v1)"
    using C V assms(4-7) by (simp_all add: setup_fsm)
  let ?in = "fsm_input (\<lambda>_. True) ipcp_callbacks ipcp_pcb"
  define f1 where "f1 = ipcp_fsm c1"
  define g1 where "g1 = ipcp_fsm v1"
  define f2 where "f2 = ?in (wire_packet g1) f1"
  define g2 where "g2 = ?in (wire_packet f1) g1"
  define f3 where "f3 = ?in (wire_packet g2) f2"
  define g3 where "g3 = ?in (wire_packet f2) g2"
  define g4 where "g4 = ?in (wire_packet f3) g3"
  define f4 where "f4 = ?in (wire_packet g4) f3"
  note agreed = addresses_agreed [OF assms(1-3) i(2,4) [folded f1_def g1_def]
      f2_def g2_def f3_def g3_def g4_def f4_def]
  obtain q where q: "packets g4 = packets g3 @ [q]" using agreed by blast
  have s2: "c2 = c1\<lparr>ipcp_fsm := f2\<rparr>" "v2 = v1\<lparr>ipcp_fsm := g2\<rparr>"
    unfolding c2 v2 by (subst input_unreported; use agreed in \<open>simp add: f1_def g1_def f2_def g2_def\<close>)+
  have s3: "c3 = c1\<lparr>ipcp_fsm := f3\<rparr>" "v3 = v1\<lparr>ipcp_fsm := g3\<rparr>"
    unfolding c3 v3 s2 by (subst input_unreported; use agreed in \<open>simp add: f3_def g3_def\<close>)+
  have v: "v4 = ipcp_up (\<lambda>_. True) ipcp_pcb (v1\<lparr>ipcp_fsm := g4\<rparr>)"
    unfolding v4 s3 by (subst input_opens; use agreed in \<open>simp add: g4_def\<close>)
  obtain ps where "packets (ipcp_fsm v4) = packets g4 @ ps"
    using up_packets [of "\<lambda>_. True" ipcp_pcb "v1\<lparr>ipcp_fsm := g4\<rparr>"] by (auto simp: v)
  then have "drop 4 (packets (ipcp_fsm v4) ! length (packets (ipcp_fsm v3))) = wire_packet g4"
    by (simp add: s3 q wire_packet_def)
  then have c: "c4 = ipcp_up (\<lambda>_. True) ipcp_pcb (c1\<lparr>ipcp_fsm := f4\<rparr>)"
    unfolding c4 s3 by (subst input_opens; use agreed in \<open>simp add: f4_def\<close>)
  show ?thesis using c v i agreed by (intro exI [of _ f4] exI [of _ g4]) simp
qed

text \<open>
  C21. How this firmware gets its address. LCP has come up on a client that has no address and on
  a server that assigns one; then IPCP comes to an agreement with one suggestion: the client
  requests address 0, the server answers with a Configure-Nak, the client requests what it
  suggests and both requests are acknowledged. On each side, unless the peer's address is one
  that no peer may have (loopback, multicast or reserved), IPCP is open and the interface is up
  with its own address and the peer's, and if the client asked for name servers it uses those the
  server gave. With an address that no peer may have, the side that sees it closes IPCP instead
  and its interface stays down.
\<close>
theorem ipcp_assigns_address:
  fixes c :: "'a ip_link_scheme" and v :: "'b ip_link_scheme"
  assumes "our \<noteq> 0" and "his \<noteq> 0" and "u \<longrightarrow> dns1 \<noteq> 0 \<and> dns2 \<noteq> 0"
    and "ipcp_fsm c = ipcp_client u" and "quiet c" and "ipcp_fsm v = ipcp_server our his dns1 dns2" and "quiet v"
    and c1: "c1 = link_established (\<lambda>_. True) ipcp_pcb c"
    and v1: "v1 = link_established (\<lambda>_. True) ipcp_pcb v"
    and c2: "c2 = ipcp_input (\<lambda>_. True) ipcp_pcb (wire_packet (ipcp_fsm v1)) c1"
    and v2: "v2 = ipcp_input (\<lambda>_. True) ipcp_pcb (wire_packet (ipcp_fsm c1)) v1"
    and c3: "c3 = ipcp_input (\<lambda>_. True) ipcp_pcb (wire_packet (ipcp_fsm v2)) c2"
    and v3: "v3 = ipcp_input (\<lambda>_. True) ipcp_pcb (wire_packet (ipcp_fsm c2)) v2"
    and v4: "v4 = ipcp_input (\<lambda>_. True) ipcp_pcb (wire_packet (ipcp_fsm c3)) v3"
    and c4: "c4 = ipcp_input (\<lambda>_. True) ipcp_pcb (drop 4 (packets (ipcp_fsm v4) ! length (packets (ipcp_fsm v3)))) c3"
  shows "end_result his our c4 \<and> end_result our his v4 \<and>
    (u \<and> \<not> bad_remote our \<longrightarrow> dns_servers c4 = (dns1, dns2))"
proof -
  obtain f4 g4 where c: "c4 = ipcp_up (\<lambda>_. True) ipcp_pcb (c1\<lparr>ipcp_fsm := f4\<rparr>)" and qc: "quiet (c1\<lparr>ipcp_fsm := f4\<rparr>)"
    and cf: "ci f4 = client_after u our his dns1 dns2" "fstate f4 = PPP_FSM_OPENED"
    and v: "v4 = ipcp_up (\<lambda>_. True) ipcp_pcb (v1\<lparr>ipcp_fsm := g4\<rparr>)" and qv: "quiet (v1\<lparr>ipcp_fsm := g4\<rparr>)"
    and cg: "ci g4 = (server_ci our his dns1 dns2)\<lparr>hisoptions := peer_options his\<rparr>" "fstate g4 = PPP_FSM_OPENED"
    using addresses_exchanged [OF assms] by blast
  have oc: "neg_addr (gotoptions (ci f4))" "ouraddr (gotoptions (ci f4)) = his" "neg_addr (hisoptions (ci f4))"
    "hisaddr (hisoptions (ci f4)) = our"
    "u \<Longrightarrow> usepeerdns (ci f4) \<and> req_dns1 (gotoptions (ci f4)) \<and> req_dns2 (gotoptions (ci f4)) \<and>
       dnsaddr0 (gotoptions (ci f4)) = dns1 \<and> dnsaddr1 (gotoptions (ci f4)) = dns2"
    by (simp_all add: cf(1) client_after_def peer_options_def setup_defs Let_def)
  have ov: "neg_addr (gotoptions (ci g4))" "ouraddr (gotoptions (ci g4)) = our" "neg_addr (hisoptions (ci g4))"
    "hisaddr (hisoptions (ci g4)) = his"
    using assms(1) by (simp_all add: cg(1) peer_options_def setup_defs Let_def)
  have "end_result his our c4 \<and> (u \<and> \<not> bad_remote our \<longrightarrow> dns_servers c4 = (dns1, dns2))"
  proof (cases "bad_remote our")
    case True
    then show ?thesis using up_refuses [OF qc refl, of our] oc assms(1,2) by (simp add: c end_result_def)
  next
    case False
    then show ?thesis using up_configures [OF qc _ refl, of his our] oc cf(2) assms(1-3) by (simp add: c end_result_def)
  qed
  moreover have "end_result our his v4"
  proof (cases "bad_remote his")
    case True
    then show ?thesis using up_refuses [OF qv refl, of his] ov assms(1,2) by (simp add: v end_result_def)
  next
    case False
    then show ?thesis using up_configures [OF qv _ refl, of our his] ov cg(2) assms(1,2) by (simp add: v end_result_def)
  qed
  ultimately show ?thesis by simp
qed


abbreviation idle_link :: "ipcp fsm \<Rightarrow> ip_link" where
  "idle_link f \<equiv> (new_link new_ipcp)\<lparr>ipcp_fsm := f\<rparr>"

theorem ipcp_assigns_address_witness:
  "let c1 = link_established (\<lambda>_. True) ipcp_pcb (idle_link (ipcp_client True));
       v1 = link_established (\<lambda>_. True) ipcp_pcb (idle_link (ipcp_server 0x0100000a 0x0200000a 0x08080808 0x04040808));
       c2 = ipcp_input (\<lambda>_. True) ipcp_pcb (wire_packet (ipcp_fsm v1)) c1;
       v2 = ipcp_input (\<lambda>_. True) ipcp_pcb (wire_packet (ipcp_fsm c1)) v1;
       c3 = ipcp_input (\<lambda>_. True) ipcp_pcb (wire_packet (ipcp_fsm v2)) c2;
       v3 = ipcp_input (\<lambda>_. True) ipcp_pcb (wire_packet (ipcp_fsm c2)) v2;
       v4 = ipcp_input (\<lambda>_. True) ipcp_pcb (wire_packet (ipcp_fsm c3)) v3;
       c4 = ipcp_input (\<lambda>_. True) ipcp_pcb (drop 4 (packets (ipcp_fsm v4) ! length (packets (ipcp_fsm v3)))) c3
   in if4_up c4 \<and> netif_address (out c4) = (0x0200000a, 0xffffffff, 0x0100000a) \<and>
      dns_servers c4 = (0x08080808, 0x04040808) \<and> if4_up v4"
proof -
  have b: "\<not> bad_remote 0x0100000a" "\<not> bad_remote 0x0200000a" by code_simp+
  have q: "quiet (idle_link f)" for f by (simp add: new_link_def quiet_def netif_address_def)
  show ?thesis
    using ipcp_assigns_address [of "0x0100000a" "0x0200000a" True "0x08080808" "0x04040808",
        OF _ _ _ _ q _ q refl refl refl refl refl refl refl refl] b
    unfolding Let_def end_result_def by simp
qed

end
