(* ===== verification/Lcp.thy ===== *)
theory Lcp
  imports Ppp_Options Ppp_Core
begin

unbundle bit_operations_syntax

text \<open>
  The options of the link control protocol, \<open>lwip-2.1.2/src/netif/ppp/lcp.c\<close>: the callbacks it
  gives to the negotiation automaton, as this firmware is built (no authentication, no link
  quality reports, no multilink, no server mode, no adaptive echo).

  The numbers that \<open>magic()\<close> draws and whether the buffer for a Configure-Nak can be allocated
  are arguments, indexed by how often they were asked for. A packet is the list of its bytes.
  What a callback does to the connection, apart from the options, is recorded: that \<open>lcp_nakci\<close>
  closes it, and the protocols whose rejection is passed on; both are acted on by the session.
\<close>

section \<open>Options\<close>

abbreviation (input) "CI_MRU \<equiv> 1 :: u8"
abbreviation (input) "CI_ASYNCMAP \<equiv> 2 :: u8"
abbreviation (input) "CI_MAGICNUMBER \<equiv> 5 :: u8"
abbreviation (input) "CI_PCOMPRESSION \<equiv> 7 :: u8"
abbreviation (input) "CI_ACCOMPRESSION \<equiv> 8 :: u8"
abbreviation (input) "CI_CALLBACK \<equiv> 13 :: u8"
abbreviation (input) "CI_SSNHF \<equiv> 18 :: u8"
abbreviation (input) "CI_EPDISC \<equiv> 19 :: u8"
abbreviation (input) "CBCP_OPT \<equiv> 6 :: u8"
abbreviation (input) "CILEN_VOID \<equiv> 2 :: nat"
abbreviation (input) "CILEN_CHAR \<equiv> 3 :: nat"
abbreviation (input) "CILEN_SHORT \<equiv> 4 :: nat"
abbreviation (input) "CILEN_LONG \<equiv> 6 :: nat"
abbreviation (input) "CILEN_CBCP \<equiv> 3 :: nat"
abbreviation (input) "MAX_ENDP_LEN \<equiv> 20 :: nat"
abbreviation (input) "PPP_MRU \<equiv> 1500 :: u16"
abbreviation (input) "PPP_DEFMRU \<equiv> 1500 :: u16"
abbreviation (input) "PPP_MAXMRU \<equiv> 1500 :: u16"
abbreviation (input) "PPP_MINMRU \<equiv> 128 :: u16"

record epdisc =
  class' :: u8
  ep_length :: u8
  ep_value :: "u8 list"     \<comment> \<open>\<open>MAX_ENDP_LEN\<close> bytes\<close>

record lcp_options =
  opt_passive :: bool
  opt_silent :: bool
  neg_mru :: bool
  neg_asyncmap :: bool
  neg_magicnumber :: bool
  neg_pcompression :: bool
  neg_accompression :: bool
  neg_cbcp :: bool
  neg_ssnhf :: bool
  neg_endpoint :: bool
  mru :: u16
  asyncmap :: u32
  magicnumber :: u32
  numloops :: u8
  endpoint :: epdisc

definition zero_lcp_options :: lcp_options where
  "zero_lcp_options = \<lparr>opt_passive = False, opt_silent = False, neg_mru = False, neg_asyncmap = False,
     neg_magicnumber = False, neg_pcompression = False, neg_accompression = False, neg_cbcp = False,
     neg_ssnhf = False, neg_endpoint = False, mru = 0, asyncmap = 0, magicnumber = 0, numloops = 0,
     endpoint = \<lparr>class' = 0, ep_length = 0, ep_value = replicate MAX_ENDP_LEN 0\<rparr>\<rparr>"

record lcp =
  lcp_wantoptions :: lcp_options    \<comment> \<open>what we want to request\<close>
  lcp_gotoptions :: lcp_options     \<comment> \<open>what the peer acknowledged or we request next\<close>
  lcp_allowoptions :: lcp_options   \<comment> \<open>what the peer may request\<close>
  lcp_hisoptions :: lcp_options     \<comment> \<open>what we acknowledged of the peer's request\<close>
  noendpoint :: bool
  lcp_loopbackfail :: u8
  lcp_echos_pending :: u8
  magics :: nat                     \<comment> \<open>calls of \<open>magic()\<close>\<close>
  nak_bufs :: nat                   \<comment> \<open>allocations of a Nak buffer\<close>
  loopbacks :: nat                  \<comment> \<open>closed by \<open>lcp_nakci\<close>\<close>
  protrejs :: "u16 list"            \<comment> \<open>rejected protocols that were informed\<close>

definition lcp_init :: "fsm_pcb \<Rightarrow> lcp fsm \<Rightarrow> lcp fsm" where
  "lcp_init pcb f =
     (let f = fsm_init pcb f
      in f\<lparr>ci := (ci f)\<lparr>
           lcp_wantoptions := zero_lcp_options\<lparr>neg_mru := True, mru := PPP_DEFMRU, neg_asyncmap := True,
             neg_magicnumber := True, neg_pcompression := True, neg_accompression := True\<rparr>,
           lcp_allowoptions := zero_lcp_options\<lparr>neg_mru := True, mru := PPP_MAXMRU, neg_asyncmap := True,
             neg_magicnumber := True, neg_pcompression := True, neg_accompression := True,
             neg_endpoint := True\<rparr>\<rparr>\<rparr>)"

text \<open>Drawing a number.\<close>

definition magic :: "(nat \<Rightarrow> u32) \<Rightarrow> lcp \<Rightarrow> u32 \<times> lcp" where
  "magic rand c = (rand (magics c), c\<lparr>magics := Suc (magics c)\<rparr>)"

text \<open>The receive unit of the peer, which \<open>lcp_resetci\<close> resets as well, is in \<open>Ppp_Session\<close>.\<close>

definition lcp_resetci :: "(nat \<Rightarrow> u32) \<Rightarrow> lcp \<Rightarrow> lcp" where
  "lcp_resetci rand c =
     (let (m, c) = magic rand c;
          wo = (lcp_wantoptions c)\<lparr>magicnumber := m, numloops := 0\<rparr>;
          go = wo\<lparr>neg_ssnhf := False, neg_endpoint := False\<rparr>;
          ao = lcp_allowoptions c;
          ao = (if noendpoint c then ao\<lparr>neg_endpoint := False\<rparr> else ao)
      in c\<lparr>lcp_wantoptions := wo, lcp_gotoptions := go, lcp_allowoptions := ao\<rparr>)"

section \<open>Our request\<close>

definition asks_mru :: "lcp_options \<Rightarrow> bool" where
  "asks_mru go \<longleftrightarrow> neg_mru go \<and> mru go \<noteq> PPP_DEFMRU"

definition asks_asyncmap :: "lcp_options \<Rightarrow> bool" where
  "asks_asyncmap go \<longleftrightarrow> neg_asyncmap go \<and> asyncmap go \<noteq> 0xffffffff"

definition lcp_cilen :: "lcp \<Rightarrow> nat \<times> lcp" where
  "lcp_cilen c =
     (let go = lcp_gotoptions c
      in ((if asks_mru go then CILEN_SHORT else 0) +
          (if asks_asyncmap go then CILEN_LONG else 0) +
          (if neg_cbcp go then CILEN_CBCP else 0) +
          (if neg_magicnumber go then CILEN_LONG else 0) +
          (if neg_pcompression go then CILEN_VOID else 0) +
          (if neg_accompression go then CILEN_VOID else 0) +
          (if neg_ssnhf go then CILEN_VOID else 0) +
          (if neg_endpoint go then CILEN_CHAR + unat (ep_length (endpoint go)) else 0), c))"

definition void_option :: "u8 \<Rightarrow> u8 list" where
  "void_option opt = [opt, of_nat CILEN_VOID]"

definition char_option :: "u8 \<Rightarrow> u8 \<Rightarrow> u8 list" where
  "char_option opt val = [opt, of_nat CILEN_CHAR, val]"

definition short_option :: "u8 \<Rightarrow> u16 \<Rightarrow> u8 list" where
  "short_option opt val = [opt, of_nat CILEN_SHORT] @ short_bytes val"

definition long_option :: "u8 \<Rightarrow> u32 \<Rightarrow> u8 list" where
  "long_option opt val = [opt, of_nat CILEN_LONG] @ put_long val"

definition endp_option :: "u8 \<Rightarrow> u8 \<Rightarrow> u8 list \<Rightarrow> u8 \<Rightarrow> u8 list" where
  "endp_option opt cls val len = [opt, of_nat CILEN_CHAR + len, cls] @ take (unat len) val"

text \<open>Every wanted option is written, whatever the room.\<close>

definition lcp_addci :: "lcp \<Rightarrow> nat \<Rightarrow> u8 list \<times> lcp" where
  "lcp_addci c len =
     (let go = lcp_gotoptions c
      in ((if asks_mru go then short_option CI_MRU (mru go) else []) @
          (if asks_asyncmap go then long_option CI_ASYNCMAP (asyncmap go) else []) @
          (if neg_cbcp go then char_option CI_CALLBACK CBCP_OPT else []) @
          (if neg_magicnumber go then long_option CI_MAGICNUMBER (magicnumber go) else []) @
          (if neg_pcompression go then void_option CI_PCOMPRESSION else []) @
          (if neg_accompression go then void_option CI_ACCOMPRESSION else []) @
          (if neg_ssnhf go then void_option CI_SSNHF else []) @
          (if neg_endpoint go
           then endp_option CI_EPDISC (class' (endpoint go)) (ep_value (endpoint go)) (ep_length (endpoint go))
           else []), c))"

section \<open>The peer's acknowledgement\<close>

text \<open>Each check takes its option off the packet; \<open>None\<close> is the jump to \<open>bad\<close>.\<close>

definition ackci_void :: "u8 \<Rightarrow> bool \<Rightarrow> u8 list \<Rightarrow> u8 list option" where
  "ackci_void opt neg p =
     (if neg
      then if length p < CILEN_VOID then None
           else if unat (p ! 1) \<noteq> CILEN_VOID \<or> p ! 0 \<noteq> opt then None
           else Some (drop CILEN_VOID p)
      else Some p)"

definition ackci_short :: "u8 \<Rightarrow> bool \<Rightarrow> u16 \<Rightarrow> u8 list \<Rightarrow> u8 list option" where
  "ackci_short opt neg val p =
     (if neg
      then if length p < CILEN_SHORT then None
           else if unat (p ! 1) \<noteq> CILEN_SHORT \<or> p ! 0 \<noteq> opt then None
           else if get_short (drop 2 p) \<noteq> val then None
           else Some (drop CILEN_SHORT p)
      else Some p)"

definition ackci_char :: "u8 \<Rightarrow> bool \<Rightarrow> u8 \<Rightarrow> u8 list \<Rightarrow> u8 list option" where
  "ackci_char opt neg val p =
     (if neg
      then if length p < CILEN_CHAR then None
           else if unat (p ! 1) \<noteq> CILEN_CHAR \<or> p ! 0 \<noteq> opt then None
           else if p ! 2 \<noteq> val then None
           else Some (drop CILEN_CHAR p)
      else Some p)"

definition ackci_long :: "u8 \<Rightarrow> bool \<Rightarrow> u32 \<Rightarrow> u8 list \<Rightarrow> u8 list option" where
  "ackci_long opt neg val p =
     (if neg
      then if length p < CILEN_LONG then None
           else if unat (p ! 1) \<noteq> CILEN_LONG \<or> p ! 0 \<noteq> opt then None
           else if get_long (drop 2 p) \<noteq> val then None
           else Some (drop CILEN_LONG p)
      else Some p)"

definition ackci_endp :: "u8 \<Rightarrow> bool \<Rightarrow> u8 \<Rightarrow> u8 list \<Rightarrow> u8 \<Rightarrow> u8 list \<Rightarrow> u8 list option" where
  "ackci_endp opt neg cls val vlen p =
     (if neg
      then let n = CILEN_CHAR + unat vlen
           in if length p < n then None
              else if unat (p ! 1) \<noteq> n \<or> p ! 0 \<noteq> opt then None
              else if p ! 2 \<noteq> cls then None
              else if take (unat vlen) (drop 3 p) \<noteq> take (unat vlen) val then None
              else Some (drop n p)
      else Some p)"

definition lcp_ackci :: "lcp \<Rightarrow> u8 list \<Rightarrow> bool" where
  "lcp_ackci c p =
     (let go = lcp_gotoptions c; ep = endpoint go
      in (do { p \<leftarrow> ackci_short CI_MRU (asks_mru go) (mru go) p;
               p \<leftarrow> ackci_long CI_ASYNCMAP (asks_asyncmap go) (asyncmap go) p;
               p \<leftarrow> ackci_char CI_CALLBACK (neg_cbcp go) CBCP_OPT p;
               p \<leftarrow> ackci_long CI_MAGICNUMBER (neg_magicnumber go) (magicnumber go) p;
               p \<leftarrow> ackci_void CI_PCOMPRESSION (neg_pcompression go) p;
               p \<leftarrow> ackci_void CI_ACCOMPRESSION (neg_accompression go) p;
               p \<leftarrow> ackci_void CI_SSNHF (neg_ssnhf go) p;
               ackci_endp CI_EPDISC (neg_endpoint go) (class' ep) (ep_value ep) (ep_length ep) p }) = Some [])"

section \<open>The peer's suggestions\<close>

text \<open>
  The rest of the packet, the options seen in it, and what to request next.
\<close>

type_synonym lcp_nak = "u8 list \<times> lcp_options \<times> lcp_options"

definition lcp_nakci_void ::
  "u8 \<Rightarrow> bool \<Rightarrow> (lcp_options \<Rightarrow> lcp_options) \<Rightarrow> (lcp_options \<Rightarrow> lcp_options) \<Rightarrow> lcp_nak \<Rightarrow> lcp_nak" where
  "lcp_nakci_void opt neg mark clear = (\<lambda>(p, no, new).
     if neg \<and> option_at opt CILEN_VOID (length p) p then (drop CILEN_VOID p, mark no, clear new)
     else (p, no, new))"

definition lcp_nakci_mru :: "lcp_options \<Rightarrow> lcp_options \<Rightarrow> lcp_nak \<Rightarrow> lcp_nak" where
  "lcp_nakci_mru wo go = (\<lambda>(p, no, new).
     if asks_mru go \<and> option_at CI_MRU CILEN_SHORT (length p) p
     then (drop CILEN_SHORT p, no\<lparr>neg_mru := True\<rparr>,
           let cishort = get_short (drop 2 p)
           in if cishort \<le> mru wo \<or> cishort \<le> PPP_DEFMRU then new\<lparr>mru := cishort\<rparr> else new)
     else (p, no, new))"

definition lcp_nakci_asyncmap :: "lcp_options \<Rightarrow> lcp_nak \<Rightarrow> lcp_nak" where
  "lcp_nakci_asyncmap go = (\<lambda>(p, no, new).
     if asks_asyncmap go \<and> option_at CI_ASYNCMAP CILEN_LONG (length p) p
     then (drop CILEN_LONG p, no\<lparr>neg_asyncmap := True\<rparr>,
           new\<lparr>asyncmap := asyncmap go OR get_long (drop 2 p)\<rparr>)
     else (p, no, new))"

definition lcp_nakci_cbcp :: "lcp_options \<Rightarrow> lcp_nak \<Rightarrow> lcp_nak" where
  "lcp_nakci_cbcp go = (\<lambda>(p, no, new).
     if neg_cbcp go \<and> option_at CI_CALLBACK CILEN_CHAR (length p) p
     then (drop CILEN_CHAR p, no\<lparr>neg_cbcp := True\<rparr>, new\<lparr>neg_cbcp := False\<rparr>)
     else (p, no, new))"

text \<open>Our magic number came back: the line may be looped back.\<close>

definition naks_magic :: "lcp_options \<Rightarrow> u8 list \<Rightarrow> bool" where
  "naks_magic go p \<longleftrightarrow> neg_magicnumber go \<and> option_at CI_MAGICNUMBER CILEN_LONG (length p) p"

definition lcp_nakci_magic :: "u32 \<Rightarrow> lcp_options \<Rightarrow> lcp_nak \<Rightarrow> lcp_nak" where
  "lcp_nakci_magic m go = (\<lambda>(p, no, new).
     if naks_magic go p
     then (drop CILEN_LONG p, no\<lparr>neg_magicnumber := True\<rparr>, new\<lparr>magicnumber := m\<rparr>)
     else (p, no, new))"

definition lcp_nakci_endp :: "lcp_options \<Rightarrow> lcp_nak \<Rightarrow> lcp_nak" where
  "lcp_nakci_endp go = (\<lambda>(p, no, new).
     if neg_endpoint go \<and> CILEN_CHAR \<le> length p \<and> p ! 0 = CI_EPDISC \<and> CILEN_CHAR \<le> unat (p ! 1) \<and>
        unat (p ! 1) \<le> length p
     then (drop (unat (p ! 1)) p, no\<lparr>neg_endpoint := True\<rparr>, new\<lparr>neg_endpoint := False\<rparr>)
     else (p, no, new))"

text \<open>An option we did not request; \<open>q\<close> is its value, \<open>n\<close> its length.\<close>

definition lcp_nakci_unasked ::
  "lcp_options \<Rightarrow> lcp_options \<Rightarrow> u8 \<Rightarrow> nat \<Rightarrow> u8 list \<Rightarrow> lcp_options \<Rightarrow> lcp_options option" where
  "lcp_nakci_unasked go no citype n q new =
     (if citype = CI_MRU
      then if asks_mru go \<or> neg_mru no \<or> n \<noteq> CILEN_SHORT then None
           else let cishort = get_short q
                in Some (if cishort < PPP_DEFMRU then new\<lparr>neg_mru := True, mru := cishort\<rparr> else new)
      else if citype = CI_ASYNCMAP
      then if asks_asyncmap go \<or> neg_asyncmap no \<or> n \<noteq> CILEN_LONG then None else Some new
      else if citype = CI_MAGICNUMBER
      then if neg_magicnumber go \<or> neg_magicnumber no \<or> n \<noteq> CILEN_LONG then None else Some new
      else if citype = CI_PCOMPRESSION
      then if neg_pcompression go \<or> neg_pcompression no \<or> n \<noteq> CILEN_VOID then None else Some new
      else if citype = CI_ACCOMPRESSION
      then if neg_accompression go \<or> neg_accompression no \<or> n \<noteq> CILEN_VOID then None else Some new
      else if citype = CI_SSNHF
      then if neg_ssnhf go \<or> neg_ssnhf no \<or> n \<noteq> CILEN_VOID then None else Some (new\<lparr>neg_ssnhf := True\<rparr>)
      else if citype = CI_EPDISC
      then if neg_endpoint go \<or> neg_endpoint no \<or> n < CILEN_CHAR then None else Some new
      else Some new)"

function lcp_nakci_rest :: "lcp_options \<Rightarrow> lcp_nak \<Rightarrow> lcp_options option" where
  "lcp_nakci_rest go (p, no, new) =
     (if length p < CILEN_VOID then Some new
      else let n = unat (p ! 1)
           in if n < CILEN_VOID \<or> length p < n then None
              else case lcp_nakci_unasked go no (p ! 0) n (drop 2 p) new of
                     None \<Rightarrow> None
                   | Some new \<Rightarrow> lcp_nakci_rest go (drop n p, no, new))"
  by pat_completeness auto
termination by (relation "measure (\<lambda>(go, p, no, new). length p)") auto

declare lcp_nakci_rest.simps [simp del]

text \<open>
  The options up to the magic number; those behind it and the rest of the packet; then, outside of
  OPENED, the loops are counted and the options taken over.
\<close>

definition lcp_nakci_first :: "lcp \<Rightarrow> u8 list \<Rightarrow> lcp_nak" where
  "lcp_nakci_first c p =
     (let go = lcp_gotoptions c
      in lcp_nakci_cbcp go (lcp_nakci_asyncmap go (lcp_nakci_mru (lcp_wantoptions c) go (p, zero_lcp_options, go))))"

definition lcp_nakci_last :: "lcp_options \<Rightarrow> lcp_nak \<Rightarrow> lcp_options option" where
  "lcp_nakci_last go s =
     (let s = lcp_nakci_void CI_PCOMPRESSION (neg_pcompression go)
                (\<lambda>no. no\<lparr>neg_pcompression := True\<rparr>) (\<lambda>new. new\<lparr>neg_pcompression := False\<rparr>) s;
          s = lcp_nakci_void CI_ACCOMPRESSION (neg_accompression go)
                (\<lambda>no. no\<lparr>neg_accompression := True\<rparr>) (\<lambda>new. new\<lparr>neg_accompression := False\<rparr>) s;
          s = lcp_nakci_void CI_SSNHF (neg_ssnhf go)
                (\<lambda>no. no\<lparr>neg_ssnhf := True\<rparr>) (\<lambda>new. new\<lparr>neg_ssnhf := False\<rparr>) s;
          s = lcp_nakci_endp go s
      in lcp_nakci_rest go s)"

definition lcp_nakci_update :: "fsm_state \<Rightarrow> bool \<Rightarrow> lcp_options \<Rightarrow> lcp \<Rightarrow> lcp \<times> u8 list option" where
  "lcp_nakci_update st looped_back new c =
     (if st = PPP_FSM_OPENED then (c, None)
      else if looped_back
      then let new = new\<lparr>numloops := numloops new + 1\<rparr>
           in if lcp_loopbackfail c \<le> numloops new
              then (c\<lparr>lcp_gotoptions := new, loopbacks := Suc (loopbacks c)\<rparr>, Some (str ''Loopback detected''))
              else (c\<lparr>lcp_gotoptions := new\<rparr>, None)
      else (c\<lparr>lcp_gotoptions := new\<lparr>numloops := 0\<rparr>\<rparr>, None))"

definition lcp_nakci ::
  "(nat \<Rightarrow> u32) \<Rightarrow> fsm_state \<Rightarrow> lcp \<Rightarrow> u8 list \<Rightarrow> bool \<Rightarrow> int \<times> lcp \<times> u8 list option" where
  "lcp_nakci rand st c p treat_as_reject =
     (let go = lcp_gotoptions c;
          s = lcp_nakci_first c p;
          looped_back = naks_magic go (fst s);
          (m, c) = (if looped_back then magic rand c else (0, c))
      in case lcp_nakci_last go (lcp_nakci_magic m go s) of
           None \<Rightarrow> (0, c, None)
         | Some new \<Rightarrow> (1, lcp_nakci_update st looped_back new c))"

section \<open>Rejected options\<close>

text \<open>Each check takes its option off the packet, if it is the first one, and gives it up.\<close>

type_synonym lcp_rej = "u8 list \<times> lcp_options"

definition rejci_void :: "u8 \<Rightarrow> bool \<Rightarrow> (lcp_options \<Rightarrow> lcp_options) \<Rightarrow> lcp_rej \<Rightarrow> lcp_rej option" where
  "rejci_void opt neg clear = (\<lambda>(p, new).
     if neg \<and> option_at opt CILEN_VOID (length p) p then Some (drop CILEN_VOID p, clear new)
     else Some (p, new))"

definition rejci_short :: "u8 \<Rightarrow> bool \<Rightarrow> u16 \<Rightarrow> (lcp_options \<Rightarrow> lcp_options) \<Rightarrow> lcp_rej \<Rightarrow> lcp_rej option" where
  "rejci_short opt neg val clear = (\<lambda>(p, new).
     if neg \<and> option_at opt CILEN_SHORT (length p) p
     then if get_short (drop 2 p) \<noteq> val then None else Some (drop CILEN_SHORT p, clear new)
     else Some (p, new))"

definition rejci_long :: "u8 \<Rightarrow> bool \<Rightarrow> u32 \<Rightarrow> (lcp_options \<Rightarrow> lcp_options) \<Rightarrow> lcp_rej \<Rightarrow> lcp_rej option" where
  "rejci_long opt neg val clear = (\<lambda>(p, new).
     if neg \<and> option_at opt CILEN_LONG (length p) p
     then if get_long (drop 2 p) \<noteq> val then None else Some (drop CILEN_LONG p, clear new)
     else Some (p, new))"

definition rejci_cbcp :: "u8 \<Rightarrow> bool \<Rightarrow> u8 \<Rightarrow> lcp_rej \<Rightarrow> lcp_rej option" where
  "rejci_cbcp opt neg val = (\<lambda>(p, new).
     if neg \<and> option_at opt CILEN_CBCP (length p) p
     then if p ! 2 \<noteq> val then None else Some (drop CILEN_CBCP p, new\<lparr>neg_cbcp := False\<rparr>)
     else Some (p, new))"

definition rejci_endp :: "u8 \<Rightarrow> bool \<Rightarrow> u8 \<Rightarrow> u8 list \<Rightarrow> u8 \<Rightarrow> lcp_rej \<Rightarrow> lcp_rej option" where
  "rejci_endp opt neg cls val vlen = (\<lambda>(p, new).
     let n = CILEN_CHAR + unat vlen
     in if neg \<and> option_at opt n (length p) p
        then if p ! 2 \<noteq> cls then None
             else if take (unat vlen) (drop 3 p) \<noteq> take (unat vlen) val then None
             else Some (drop n p, new\<lparr>neg_endpoint := False\<rparr>)
        else Some (p, new))"

text \<open>The receive unit and the character map count as requested here even when they were left out.\<close>

definition lcp_rejected :: "lcp_options \<Rightarrow> u8 list \<Rightarrow> lcp_rej option" where
  "lcp_rejected go p =
     (let ep = endpoint go
      in do { s \<leftarrow> rejci_short CI_MRU (neg_mru go) (mru go) (\<lambda>new. new\<lparr>neg_mru := False\<rparr>) (p, go);
              s \<leftarrow> rejci_long CI_ASYNCMAP (neg_asyncmap go) (asyncmap go) (\<lambda>new. new\<lparr>neg_asyncmap := False\<rparr>) s;
              s \<leftarrow> rejci_cbcp CI_CALLBACK (neg_cbcp go) CBCP_OPT s;
              s \<leftarrow> rejci_long CI_MAGICNUMBER (neg_magicnumber go) (magicnumber go)
                     (\<lambda>new. new\<lparr>neg_magicnumber := False\<rparr>) s;
              s \<leftarrow> rejci_void CI_PCOMPRESSION (neg_pcompression go) (\<lambda>new. new\<lparr>neg_pcompression := False\<rparr>) s;
              s \<leftarrow> rejci_void CI_ACCOMPRESSION (neg_accompression go) (\<lambda>new. new\<lparr>neg_accompression := False\<rparr>) s;
              s \<leftarrow> rejci_void CI_SSNHF (neg_ssnhf go) (\<lambda>new. new\<lparr>neg_ssnhf := False\<rparr>) s;
              rejci_endp CI_EPDISC (neg_endpoint go) (class' ep) (ep_value ep) (ep_length ep) s })"

definition lcp_rejci :: "fsm_state \<Rightarrow> lcp \<Rightarrow> u8 list \<Rightarrow> int \<times> lcp" where
  "lcp_rejci st c p =
     (case lcp_rejected (lcp_gotoptions c) p of
        Some ([], new) \<Rightarrow> (1, if st \<noteq> PPP_FSM_OPENED then c\<lparr>lcp_gotoptions := new\<rparr> else c)
      | _ \<Rightarrow> (0, c))"

section \<open>The peer's request\<close>

text \<open>One option with its header, \<open>cip\<close>: the answer to it, what goes into the Nak, and the state.\<close>

definition reqci_mru :: "lcp \<Rightarrow> u8 list \<Rightarrow> u8 \<times> u8 list \<times> lcp" where
  "reqci_mru c cip =
     (if \<not> neg_mru (lcp_allowoptions c) \<or> length cip \<noteq> CILEN_SHORT then (CONFREJ, [], c)
      else let cishort = get_short (drop 2 cip)
           in if cishort < PPP_MINMRU then (CONFNAK, short_option CI_MRU PPP_MINMRU, c)
              else (CONFACK, [], c\<lparr>lcp_hisoptions := (lcp_hisoptions c)\<lparr>neg_mru := True, mru := cishort\<rparr>\<rparr>))"

definition reqci_asyncmap :: "lcp \<Rightarrow> u8 list \<Rightarrow> u8 \<times> u8 list \<times> lcp" where
  "reqci_asyncmap c cip =
     (let ao = lcp_allowoptions c
      in if \<not> neg_asyncmap ao \<or> length cip \<noteq> CILEN_LONG then (CONFREJ, [], c)
         else let cilong = get_long (drop 2 cip)
              in if asyncmap ao AND NOT cilong \<noteq> 0
                 then (CONFNAK, long_option CI_ASYNCMAP (asyncmap ao OR cilong), c)
                 else (CONFACK, [], c\<lparr>lcp_hisoptions := (lcp_hisoptions c)\<lparr>neg_asyncmap := True, asyncmap := cilong\<rparr>\<rparr>))"

definition reqci_magicnumber :: "(nat \<Rightarrow> u32) \<Rightarrow> lcp \<Rightarrow> u8 list \<Rightarrow> u8 \<times> u8 list \<times> lcp" where
  "reqci_magicnumber rand c cip =
     (let go = lcp_gotoptions c
      in if \<not> (neg_magicnumber (lcp_allowoptions c) \<or> neg_magicnumber go) \<or> length cip \<noteq> CILEN_LONG
         then (CONFREJ, [], c)
         else let cilong = get_long (drop 2 cip)
              in if neg_magicnumber go \<and> cilong = magicnumber go
                 then let (m, c) = magic rand c in (CONFNAK, long_option CI_MAGICNUMBER m, c)
                 else (CONFACK, [],
                       c\<lparr>lcp_hisoptions := (lcp_hisoptions c)\<lparr>neg_magicnumber := True, magicnumber := cilong\<rparr>\<rparr>))"

definition reqci_void :: "bool \<Rightarrow> (lcp_options \<Rightarrow> lcp_options) \<Rightarrow> lcp \<Rightarrow> u8 list \<Rightarrow> u8 \<times> u8 list \<times> lcp" where
  "reqci_void allowed mark c cip =
     (if \<not> allowed \<or> length cip \<noteq> CILEN_VOID then (CONFREJ, [], c)
      else (CONFACK, [], c\<lparr>lcp_hisoptions := mark (lcp_hisoptions c)\<rparr>))"

definition reqci_epdisc :: "lcp \<Rightarrow> u8 list \<Rightarrow> u8 \<times> u8 list \<times> lcp" where
  "reqci_epdisc c cip =
     (let n = length cip; ho = lcp_hisoptions c
      in if \<not> neg_endpoint (lcp_allowoptions c) \<or> n < CILEN_CHAR \<or> CILEN_CHAR + MAX_ENDP_LEN < n
         then (CONFREJ, [], c)
         else (CONFACK, [], c\<lparr>lcp_hisoptions := ho\<lparr>neg_endpoint := True,
                 endpoint := \<lparr>class' = cip ! 2, ep_length = of_nat (n - CILEN_CHAR),
                   ep_value = drop 3 cip @ drop (n - CILEN_CHAR) (ep_value (endpoint ho))\<rparr>\<rparr>\<rparr>))"

definition lcp_reqci_option :: "(nat \<Rightarrow> u32) \<Rightarrow> lcp \<Rightarrow> u8 list \<Rightarrow> u8 \<times> u8 list \<times> lcp" where
  "lcp_reqci_option rand c cip =
     (let citype = cip ! 0; ao = lcp_allowoptions c
      in if citype = CI_MRU then reqci_mru c cip
         else if citype = CI_ASYNCMAP then reqci_asyncmap c cip
         else if citype = CI_MAGICNUMBER then reqci_magicnumber rand c cip
         else if citype = CI_PCOMPRESSION
         then reqci_void (neg_pcompression ao) (\<lambda>ho. ho\<lparr>neg_pcompression := True\<rparr>) c cip
         else if citype = CI_ACCOMPRESSION
         then reqci_void (neg_accompression ao) (\<lambda>ho. ho\<lparr>neg_accompression := True\<rparr>) c cip
         else if citype = CI_SSNHF
         then reqci_void (neg_ssnhf ao) (\<lambda>ho. ho\<lparr>neg_ssnhf := True\<rparr>) c cip
         else if citype = CI_EPDISC then reqci_epdisc c cip
         else (CONFREJ, [], c))"

text \<open>The answer so far and the rejected options, which the code moves to the front of the request.\<close>

definition lcp_reqci_collect :: "bool \<Rightarrow> u8 \<Rightarrow> u8 \<Rightarrow> u8 list \<Rightarrow> u8 \<times> u8 list \<Rightarrow> u8 \<times> u8 list" where
  "lcp_reqci_collect rej citype orc cip = (\<lambda>(rc, rejs).
     if orc = CONFACK \<and> rc \<noteq> CONFACK then (rc, rejs)
     else if orc = CONFNAK \<and> \<not> (rej \<and> citype \<noteq> CI_MAGICNUMBER)
     then (if rc = CONFREJ then rc else CONFNAK, rejs)
     else if orc = CONFNAK \<or> orc = CONFREJ then (CONFREJ, rejs @ cip)
     else (rc, rejs))"

text \<open>The options that go into a Nak are written to its buffer even when no Nak is sent.\<close>

function lcp_reqci_loop ::
  "(nat \<Rightarrow> u32) \<Rightarrow> bool \<Rightarrow> lcp \<Rightarrow> u8 list \<Rightarrow> (u8 \<times> u8 list) \<times> u8 list \<Rightarrow> (u8 \<times> u8 list) \<times> u8 list \<times> lcp" where
  "lcp_reqci_loop rand rej c p (ans, naks) =
     (if p = [] then (ans, naks, c)
      else if length p < 2 \<or> unat (p ! 1) < 2 \<or> length p < unat (p ! 1)
      then (lcp_reqci_collect rej 0 CONFREJ p ans, naks, c)
      else let cip = take (unat (p ! 1)) p; (orc, nak, c) = lcp_reqci_option rand c cip
           in lcp_reqci_loop rand rej c (drop (unat (p ! 1)) p)
                (lcp_reqci_collect rej (p ! 0) orc cip ans, naks @ nak))"
  by pat_completeness auto
termination by (relation "measure (\<lambda>(rand, rej, c, p, ans). length p)") auto

declare lcp_reqci_loop.simps [simp del]

definition lcp_reqci :: "(nat \<Rightarrow> u32) \<Rightarrow> (nat \<Rightarrow> bool) \<Rightarrow> lcp \<Rightarrow> u8 list \<Rightarrow> bool \<Rightarrow> u8 \<times> u8 list \<times> lcp" where
  "lcp_reqci rand nakp c inp reject_if_disagree =
     (let c = c\<lparr>lcp_hisoptions := zero_lcp_options\<rparr>;
          ok = nakp (nak_bufs c);
          c = c\<lparr>nak_bufs := Suc (nak_bufs c)\<rparr>
      in if \<not> ok then (0, inp, c)
         else let ((rc, rejs), naks, c) = lcp_reqci_loop rand reject_if_disagree c inp ((CONFACK, []), [])
              in (rc, if rc = CONFACK then inp else if rc = CONFNAK then naks else rejs, c))"

section \<open>Other packets\<close>

abbreviation (input) "PROTREJ \<equiv> 8 :: u8"
abbreviation (input) "ECHOREQ \<equiv> 9 :: u8"
abbreviation (input) "ECHOREP \<equiv> 10 :: u8"
abbreviation (input) "DISCREQ \<equiv> 11 :: u8"
abbreviation (input) "IDENTIF \<equiv> 12 :: u8"
abbreviation (input) "TIMEREM \<equiv> 13 :: u8"

definition lcp_rprotrej :: "fsm_state \<Rightarrow> u8 list \<Rightarrow> lcp \<Rightarrow> lcp" where
  "lcp_rprotrej st inp c =
     (if length inp < 2 then c
      else let prot = get_short inp
           in if st \<noteq> PPP_FSM_OPENED then c
              else if prot \<in> set protocols then c\<lparr>protrejs := protrejs c @ [prot]\<rparr> else c)"

definition lcp_received_echo_reply :: "u8 list \<Rightarrow> lcp \<Rightarrow> lcp" where
  "lcp_received_echo_reply inp c =
     (let go = lcp_gotoptions c
      in if length inp < 4 then c
         else if neg_magicnumber go \<and> get_long inp = magicnumber go then c
         else c\<lparr>lcp_echos_pending := 0\<rparr>)"

text \<open>Our magic number is written over the first four bytes of what is sent back.\<close>

definition echo_reply_data :: "lcp_options \<Rightarrow> u8 list \<Rightarrow> u8 list" where
  "echo_reply_data go inp = take (length inp) (put_long (magicnumber go) @ drop 4 inp)"

definition lcp_extcode ::
  "fsm_state \<Rightarrow> lcp \<Rightarrow> u8 \<Rightarrow> u8 \<Rightarrow> u8 list \<Rightarrow> bool \<times> (u8 \<times> u8 \<times> u8 list) list \<times> lcp" where
  "lcp_extcode st c code i inp =
     (if code = PROTREJ then (True, [], lcp_rprotrej st inp c)
      else if code = ECHOREQ
      then (True, if st \<noteq> PPP_FSM_OPENED then [] else [(ECHOREP, i, echo_reply_data (lcp_gotoptions c) inp)], c)
      else if code = ECHOREP then (True, [], lcp_received_echo_reply inp c)
      else if code = DISCREQ \<or> code = IDENTIF \<or> code = TIMEREM then (True, [], c)
      else (False, [], c))"

definition lcp_callbacks :: "(nat \<Rightarrow> u32) \<Rightarrow> (nat \<Rightarrow> bool) \<Rightarrow> lcp fsm_callbacks" where
  "lcp_callbacks rand nakp = \<lparr>resetci = Some (lcp_resetci rand), cilen = Some lcp_cilen, addci = Some lcp_addci,
     ackci = Some lcp_ackci, nakci = Some (lcp_nakci rand), rejci = Some lcp_rejci,
     reqci = Some (lcp_reqci rand nakp), extcode = Some lcp_extcode,
     reports = (\<lambda>e. e \<noteq> Retransmit)\<rparr>"

end
