(* ===== verification/Lcp_Requests.thy ===== *)
theory Lcp_Requests
  imports Lcp
begin

text \<open>
  Our own Configure-Request of LCP: what it holds, what acknowledges it, and what a
  Configure-Reject changes in the next one.
\<close>

section \<open>An option in front of a packet\<close>

text \<open>
  What the checks for each kind of option have in common: the option is compared as a whole
  with the one that was sent.
\<close>

definition takes_option :: "u8 \<Rightarrow> u8 list \<Rightarrow> bool \<Rightarrow> u8 list \<Rightarrow> u8 list option" where
  "takes_option opt v neg p =
     (if neg
      then if p = print_option (opt, v) @ drop (length v + 2) p then Some (drop (length v + 2) p) else None
      else Some p)"

definition rejects_option :: "u8 \<Rightarrow> u8 list \<Rightarrow> bool \<Rightarrow> (lcp_options \<Rightarrow> lcp_options) \<Rightarrow> lcp_rej \<Rightarrow> lcp_rej option" where
  "rejects_option opt v neg clear = (\<lambda>(p, new).
     if neg \<and> option_at opt (length v + 2) (length p) p
     then if p = print_option (opt, v) @ drop (length v + 2) p
          then Some (drop (length v + 2) p, clear new) else None
     else Some (p, new))"

lemma length_print_option [simp]: "length (print_option (t, v)) = length v + 2"
  by (simp add: print_option_def)

lemma option_front:
  assumes "length v + 2 \<le> length p" "length v + 2 < 256"
  shows "unat (p ! 1) = length v + 2 \<and> p ! 0 = opt \<and> take (length v) (drop 2 p) = v \<longleftrightarrow>
    p = print_option (opt, v) @ drop (length v + 2) p"
proof -
  obtain t l q where p: "p = t # l # q" using assms two_bytes [of p] by auto
  obtain u r where "q = u @ r" "length u = length v" using assms p bytes_front [of "length v" q] by auto
  then show ?thesis using assms(2) by (auto simp: p print_option_def unat_u8_eq)
qed

lemma takes_option_iff:
  "takes_option opt v neg p = Some r \<longleftrightarrow> p = (if neg then print_option (opt, v) else []) @ r"
proof (cases neg)
  case True
  have "drop (length v + 2) (print_option (opt, v) @ r) = r" by (simp add: print_option_def)
  with True show ?thesis by (auto simp: takes_option_def)
qed (simp add: takes_option_def)

text \<open>The checks of an acknowledgement and of a rejection, in these terms.\<close>

lemma too_long_option: "length p < length v + 2 \<Longrightarrow> p \<noteq> print_option (opt, v) @ r"
  by (auto simp: print_option_def)

lemma check_takes:
  assumes "n = length v + 2" "n < 256" "n \<le> length p \<Longrightarrow> b \<longleftrightarrow> take (length v) (drop 2 p) = v"
  shows "(if neg then if length p < n then None else if unat (p ! 1) \<noteq> n \<or> p ! 0 \<noteq> opt then None
      else if \<not> b then None else Some (drop n p) else Some p) = takes_option opt v neg p"
    and "(if neg \<and> option_at opt n (length p) p then if \<not> b then None else Some (drop n p, clear new)
      else Some (p, new)) = rejects_option opt v neg clear (p, new)"
proof -
  have *: "unat (p ! 1) = n \<and> p ! 0 = opt \<and> b \<longleftrightarrow> p = print_option (opt, v) @ drop n p" if "n \<le> length p"
    using option_front [of v p opt] assms that by simp
  show "(if neg then if length p < n then None else if unat (p ! 1) \<noteq> n \<or> p ! 0 \<noteq> opt then None
      else if \<not> b then None else Some (drop n p) else Some p) = takes_option opt v neg p"
    using * too_long_option [of p v opt "drop n p"] assms(1) by (auto simp: takes_option_def not_less)
  show "(if neg \<and> option_at opt n (length p) p then if \<not> b then None else Some (drop n p, clear new)
      else Some (p, new)) = rejects_option opt v neg clear (p, new)"
    using * assms(1) by (auto simp: rejects_option_def option_at_def)
qed

lemma short_value: "4 \<le> length p \<Longrightarrow> get_short (drop 2 p) = w \<longleftrightarrow> take (length (short_bytes w)) (drop 2 p) = short_bytes w"
  using get_short_iff [of "drop 2 p" w] by simp

lemma long_value: "6 \<le> length p \<Longrightarrow> get_long (drop 2 p) = w \<longleftrightarrow> take (length (put_long w)) (drop 2 p) = put_long w"
  using get_long_iff [of "drop 2 p" w] by simp

lemma char_value: "3 \<le> length p \<Longrightarrow> p ! 2 = w \<longleftrightarrow> take (length [w]) (drop 2 p) = [w]"
  using two_bytes [of p] by (cases "drop 2 p") auto

lemma endp_value:
  assumes "length val = n" "3 + n \<le> length p"
  shows "p ! 2 = cls \<and> take n (drop 3 p) = val \<longleftrightarrow> take (length (cls # val)) (drop 2 p) = cls # val"
proof -
  obtain t l q where p: "p = t # l # q" using assms two_bytes [of p] by auto
  then obtain x r where "q = x # r" using assms by (cases q) auto
  with p assms(1) show ?thesis by auto
qed

lemma checks_take:
  "ackci_void opt neg p = takes_option opt [] neg p"
  "ackci_short opt neg w p = takes_option opt (short_bytes w) neg p"
  "ackci_char opt neg x p = takes_option opt [x] neg p"
  "ackci_long opt neg l p = takes_option opt (put_long l) neg p"
proof -
  show "ackci_void opt neg p = takes_option opt [] neg p" unfolding ackci_void_def
    by (rule check_takes(1) [where b = True, simplified not_True_eq_False if_False]) simp_all
  show "ackci_short opt neg w p = takes_option opt (short_bytes w) neg p" unfolding ackci_short_def
    by (rule check_takes(1) [OF _ _ short_value]) simp_all
  show "ackci_char opt neg x p = takes_option opt [x] neg p" unfolding ackci_char_def
    by (rule check_takes(1) [OF _ _ char_value]) simp_all
  show "ackci_long opt neg l p = takes_option opt (put_long l) neg p" unfolding ackci_long_def
    by (rule check_takes(1) [OF _ _ long_value]) simp_all
qed

lemma checks_reject:
  "rejci_void opt neg clear (p, new) = rejects_option opt [] neg clear (p, new)"
  "rejci_short opt neg w clear (p, new) = rejects_option opt (short_bytes w) neg clear (p, new)"
  "rejci_cbcp opt neg x (p, new) = rejects_option opt [x] neg (\<lambda>new. new\<lparr>neg_cbcp := False\<rparr>) (p, new)"
  "rejci_long opt neg l clear (p, new) = rejects_option opt (put_long l) neg clear (p, new)"
proof -
  show "rejci_void opt neg clear (p, new) = rejects_option opt [] neg clear (p, new)"
    unfolding rejci_void_def prod.case
    by (rule check_takes(2) [where b = True, simplified not_True_eq_False if_False]) simp_all
  show "rejci_short opt neg w clear (p, new) = rejects_option opt (short_bytes w) neg clear (p, new)"
    unfolding rejci_short_def prod.case by (rule check_takes(2) [OF _ _ short_value]) simp_all
  show "rejci_cbcp opt neg x (p, new) = rejects_option opt [x] neg (\<lambda>new. new\<lparr>neg_cbcp := False\<rparr>) (p, new)"
    unfolding rejci_cbcp_def prod.case by (rule check_takes(2) [OF _ _ char_value]) simp_all
  show "rejci_long opt neg l clear (p, new) = rejects_option opt (put_long l) neg clear (p, new)"
    unfolding rejci_long_def prod.case by (rule check_takes(2) [OF _ _ long_value]) simp_all
qed

lemma endp_checks:
  assumes "unat vlen \<le> 20" "length val = 20"
  shows "ackci_endp opt neg cls val vlen p = takes_option opt (cls # take (unat vlen) val) neg p"
    and "rejci_endp opt neg cls val vlen (p, new) =
      rejects_option opt (cls # take (unat vlen) val) neg (\<lambda>new. new\<lparr>neg_endpoint := False\<rparr>) (p, new)"
proof -
  have l: "length (take (unat vlen) val) = unat vlen" using assms by simp
  have if2: "(if a \<noteq> b then None else if c \<noteq> d then None else e) = (if \<not> (a = b \<and> c = d) then None else e)"
    for a b :: u8 and c d :: "u8 list" and e :: "'x option" by simp
  show "ackci_endp opt neg cls val vlen p = takes_option opt (cls # take (unat vlen) val) neg p"
    unfolding ackci_endp_def Let_def if2
    by (rule check_takes(1) [OF _ _ endp_value [OF l]]) (use assms in auto)
  show "rejci_endp opt neg cls val vlen (p, new) =
      rejects_option opt (cls # take (unat vlen) val) neg (\<lambda>new. new\<lparr>neg_endpoint := False\<rparr>) (p, new)"
    unfolding rejci_endp_def Let_def if2 prod.case
    by (rule check_takes(2) [OF _ _ endp_value [OF l]]) (use assms in auto)
qed

section \<open>The request\<close>

text \<open>
  The options that LCP can request, in the order of the code, with their values. A request
  leaves out those whose value is the default of the protocol.
\<close>

definition endpoint_value :: "lcp_options \<Rightarrow> u8 list" where
  "endpoint_value go = class' (endpoint go) # take (unat (ep_length (endpoint go))) (ep_value (endpoint go))"

definition lcp_options_of :: "bool \<Rightarrow> bool \<Rightarrow> lcp_options \<Rightarrow> (u8 \<times> u8 list) list" where
  "lcp_options_of with_mru with_asyncmap go =
     (if with_mru then [(CI_MRU, short_bytes (mru go))] else []) @
     (if with_asyncmap then [(CI_ASYNCMAP, put_long (asyncmap go))] else []) @
     (if neg_cbcp go then [(CI_CALLBACK, [CBCP_OPT])] else []) @
     (if neg_magicnumber go then [(CI_MAGICNUMBER, put_long (magicnumber go))] else []) @
     (if neg_pcompression go then [(CI_PCOMPRESSION, [])] else []) @
     (if neg_accompression go then [(CI_ACCOMPRESSION, [])] else []) @
     (if neg_ssnhf go then [(CI_SSNHF, [])] else []) @
     (if neg_endpoint go then [(CI_EPDISC, endpoint_value go)] else [])"

definition lcp_own_options :: "lcp_options \<Rightarrow> (u8 \<times> u8 list) list" where
  "lcp_own_options go = lcp_options_of (asks_mru go) (asks_asyncmap go) go"

text \<open>The endpoint discriminator, if there is one, is within its array.\<close>

definition endpoint_ok :: "lcp_options \<Rightarrow> bool" where
  "endpoint_ok go \<longleftrightarrow>
     (neg_endpoint go \<longrightarrow> unat (ep_length (endpoint go)) \<le> MAX_ENDP_LEN \<and> length (ep_value (endpoint go)) = MAX_ENDP_LEN)"

lemma option_prints:
  "void_option t = print_option (t, [])" "char_option t x = print_option (t, [x])"
  "short_option t w = print_option (t, short_bytes w)" "long_option t l = print_option (t, put_long l)"
  by (simp_all add: print_option_def void_option_def char_option_def short_option_def long_option_def)

lemma endp_prints:
  "endpoint_ok go \<Longrightarrow> neg_endpoint go \<Longrightarrow>
    endp_option t (class' (endpoint go)) (ep_value (endpoint go)) (ep_length (endpoint go)) = print_option (t, endpoint_value go)"
  by (simp add: endpoint_ok_def endp_option_def print_option_def endpoint_value_def)

lemma option_bytes_if: "option_bytes (if b then [x] else []) = (if b then print_option x else [])"
  by simp

lemma lcp_addci_own:
  assumes "endpoint_ok (lcp_gotoptions c)"
  shows "lcp_addci c n = (option_bytes (lcp_own_options (lcp_gotoptions c)), c)"
  using endp_prints [OF assms]
  by (simp add: lcp_addci_def Let_def lcp_own_options_def lcp_options_of_def option_prints option_bytes_if
      del: append.simps cong: if_cong)

lemma lcp_cilen_own:
  assumes "endpoint_ok (lcp_gotoptions c)"
  shows "lcp_cilen c = (length (option_bytes (lcp_own_options (lcp_gotoptions c))), c)"
  using assms by (simp add: lcp_cilen_def Let_def lcp_own_options_def lcp_options_of_def option_bytes_if
      endpoint_ok_def endpoint_value_def)

lemma lcp_own_lengths: "endpoint_ok go \<Longrightarrow> \<forall>(t, v) \<in> set (lcp_own_options go). length v \<le> 21"
  by (auto simp: lcp_own_options_def lcp_options_of_def endpoint_ok_def endpoint_value_def split: if_splits)

lemma length_lcp_own_le: "endpoint_ok go \<Longrightarrow> length (option_bytes (lcp_own_options go)) \<le> 48"
proof -
  assume e: "endpoint_ok go"
  have *: "length (option_bytes (if b then [(t, v)] else [])) \<le> n" if "b \<Longrightarrow> length v + 2 \<le> n" for b t v n
    using that by simp
  have "length (option_bytes (lcp_own_options go)) \<le> 4 + (6 + (3 + (6 + (2 + (2 + (2 + 23))))))"
    unfolding lcp_own_options_def lcp_options_of_def option_bytes_simps length_append
    using e by (intro add_mono *) (simp_all add: endpoint_ok_def endpoint_value_def)
  then show ?thesis by simp
qed

lemma lcp_callback_simps [simp]:
  "resetci (lcp_callbacks rand nakp) = Some (lcp_resetci rand)" "cilen (lcp_callbacks rand nakp) = Some lcp_cilen"
  "addci (lcp_callbacks rand nakp) = Some lcp_addci" "ackci (lcp_callbacks rand nakp) = Some lcp_ackci"
  "nakci (lcp_callbacks rand nakp) = Some (lcp_nakci rand)" "rejci (lcp_callbacks rand nakp) = Some lcp_rejci"
  "reqci (lcp_callbacks rand nakp) = Some (lcp_reqci rand nakp)" "extcode (lcp_callbacks rand nakp) = Some lcp_extcode"
  "reports (lcp_callbacks rand nakp) e \<longleftrightarrow> e \<noteq> Retransmit"
  by (simp_all add: lcp_callbacks_def)

lemma lcp_request:
  assumes "52 \<le> peer_mru pcb" "endpoint_ok (lcp_gotoptions c)"
  shows "request_data (lcp_callbacks rand nakp) pcb c = option_bytes (lcp_own_options (lcp_gotoptions c))"
    and "request_ci (lcp_callbacks rand nakp) pcb c = c"
proof -
  let ?d = "option_bytes (lcp_own_options (lcp_gotoptions c))"
  have "length ?d \<le> 48" using assms(2) by (rule length_lcp_own_le)
  then have l: "request_length (lcp_callbacks rand nakp) pcb c = (length ?d, c)"
    using assms by (simp add: request_length_def lcp_cilen_own)
  have "request_options (lcp_callbacks rand nakp) (length ?d) c = (?d, c)"
    using assms(2) by (cases "?d = []") (simp_all add: request_options_def lcp_addci_own)
  with l show "request_data (lcp_callbacks rand nakp) pcb c = ?d" "request_ci (lcp_callbacks rand nakp) pcb c = c"
    by (simp_all add: request_data_def request_ci_def)
qed

lemma lcp_ackci_own:
  assumes "endpoint_ok (lcp_gotoptions c)"
  shows "lcp_ackci c p \<longleftrightarrow> p = option_bytes (lcp_own_options (lcp_gotoptions c))"
proof -
  let ?go = "lcp_gotoptions c"
  have e: "ackci_endp CI_EPDISC (neg_endpoint ?go) (class' (endpoint ?go)) (ep_value (endpoint ?go)) (ep_length (endpoint ?go)) q
      = takes_option CI_EPDISC (endpoint_value ?go) (neg_endpoint ?go) q" for q
  proof (cases "neg_endpoint ?go")
    case True
    with assms show ?thesis by (simp add: endp_checks(1) endpoint_ok_def endpoint_value_def)
  qed (simp add: ackci_endp_def takes_option_def Let_def)
  show ?thesis
    unfolding lcp_ackci_def Let_def lcp_own_options_def lcp_options_of_def checks_take e bind_eq_Some_conv
      takes_option_iff option_bytes_simps option_bytes_if by simp
qed

text \<open>
  C28. Every Configure-Request that LCP builds is a well-formed sequence of options, each type at
  most once, of at most 48 bytes, so that it always fits; and a Configure-Ack is taken for good
  exactly if it holds the bytes of the request that was sent: the field by field comparison of
  the code accepts no other packet, shorter, longer or reordered.
\<close>
theorem lcp_ack_exact:
  assumes "52 \<le> peer_mru pcb" and "endpoint_ok (lcp_gotoptions c)"
    and "d = request_data (lcp_callbacks rand nakp) pcb c" and "c' = request_ci (lcp_callbacks rand nakp) pcb c"
  shows "parse_options d = Some (lcp_own_options (lcp_gotoptions c)) \<and>
    distinct (map fst (lcp_own_options (lcp_gotoptions c))) \<and> length d \<le> 48 \<and> (lcp_ackci c' p \<longleftrightarrow> p = d)"
proof -
  have d: "d = option_bytes (lcp_own_options (lcp_gotoptions c))" "c' = c"
    using assms by (simp_all add: lcp_request)
  have "\<forall>(t, v) \<in> set (lcp_own_options (lcp_gotoptions c)). length v < 254"
    using lcp_own_lengths [OF assms(2)] by fastforce
  then have "parse_options d = Some (lcp_own_options (lcp_gotoptions c))"
    unfolding d option_bytes_def by (rule parse_options_print)
  moreover have "distinct (map fst (lcp_own_options (lcp_gotoptions c)))"
    by (simp add: lcp_own_options_def lcp_options_of_def)
  ultimately show ?thesis using assms(2) by (simp add: d lcp_ackci_own length_lcp_own_le)
qed

definition new_lcp :: lcp where
  "new_lcp = \<lparr>lcp_wantoptions = zero_lcp_options, lcp_gotoptions = zero_lcp_options,
     lcp_allowoptions = zero_lcp_options, lcp_hisoptions = zero_lcp_options, noendpoint = False,
     lcp_loopbackfail = 10, lcp_echos_pending = 0, magics = 0, nak_bufs = 0, loopbacks = 0, protrejs = []\<rparr>"

definition first_lcp :: lcp where
  "first_lcp = lcp_resetci (\<lambda>n. of_nat n) (ci (lcp_init default_pcb (cleared_fsm new_lcp)))"

lemma first_lcp_endpoint: "\<not> neg_endpoint (lcp_gotoptions first_lcp)"
  by (simp add: first_lcp_def lcp_resetci_def magic_def Let_def)

theorem lcp_ack_exact_witness:
  "\<not> lcp_ackci (request_ci (lcp_callbacks of_nat (\<lambda>_. True)) default_pcb first_lcp)
     (replicate 49 (0 :: u8))"
proof -
  have "52 \<le> peer_mru default_pcb" by (simp add: default_pcb_def)
  note e = lcp_ack_exact [OF this _ refl refl, of first_lcp of_nat "\<lambda>_. True" "replicate 49 0"]
  have "endpoint_ok (lcp_gotoptions first_lcp)" by (simp add: endpoint_ok_def first_lcp_endpoint)
  note e = e [OF this]
  have "replicate 49 (0 :: u8) \<noteq> d" if "length d \<le> 48" for d using that by fastforce
  with e show ?thesis by blast
qed

section \<open>The rejection\<close>

text \<open>
  The options of these types that count as requested when they are rejected: the receive unit and
  the character map do so even when the request left them out.
\<close>

definition lcp_bytes_of :: "u8 set \<Rightarrow> lcp_options \<Rightarrow> u8 list" where
  "lcp_bytes_of T go =
     option_bytes (filter (\<lambda>(t, v). t \<in> T) (lcp_options_of (neg_mru go) (neg_asyncmap go) go))"

definition lcp_give_up :: "u8 set \<Rightarrow> lcp_options \<Rightarrow> lcp_options" where
  "lcp_give_up T go = go\<lparr>
     neg_mru := neg_mru go \<and> CI_MRU \<notin> T, neg_asyncmap := neg_asyncmap go \<and> CI_ASYNCMAP \<notin> T,
     neg_cbcp := neg_cbcp go \<and> CI_CALLBACK \<notin> T, neg_magicnumber := neg_magicnumber go \<and> CI_MAGICNUMBER \<notin> T,
     neg_pcompression := neg_pcompression go \<and> CI_PCOMPRESSION \<notin> T,
     neg_accompression := neg_accompression go \<and> CI_ACCOMPRESSION \<notin> T,
     neg_ssnhf := neg_ssnhf go \<and> CI_SSNHF \<notin> T, neg_endpoint := neg_endpoint go \<and> CI_EPDISC \<notin> T\<rparr>"

lemma rejects_sound:
  assumes "rejects_option opt v neg clear (p, new) = Some (p', new')"
  shows "\<exists>x. (x \<longrightarrow> neg) \<and> p = off_front (print_option (opt, v)) x p' \<and> new' = (if x then clear new else new)"
proof (cases "neg \<and> option_at opt (length v + 2) (length p) p")
  case True
  with assms show ?thesis
    by (intro exI [of _ True]) (auto simp: rejects_option_def off_front_def split: if_split_asm)
next
  case False
  with assms show ?thesis by (intro exI [of _ False]) (auto simp: rejects_option_def off_front_def)
qed

lemma leads_print [simp]: "leads opt (off_front (print_option (t, v)) x p) \<longleftrightarrow> (if x then t = opt else leads opt p)"
  by (simp add: leads_def off_front_def print_option_def)

lemma leads_nil [simp]: "\<not> leads opt []"
  by (simp add: leads_def)

lemma rejects_complete:
  assumes "x \<longrightarrow> neg" "\<not> leads opt p" "length v < 254"
  shows "rejects_option opt v neg clear (off_front (print_option (opt, v)) x p, new) =
    Some (p, if x then clear new else new)"
proof (cases x)
  case True
  have "option_at opt (length v + 2) (length v + 2 + length p) (print_option (opt, v) @ p)"
    using option_front [of v "print_option (opt, v) @ p" opt] assms(3) by (simp add: option_at_def print_option_def)
  with True assms(1) show ?thesis by (simp add: rejects_option_def off_front_def print_option_def)
next
  case False
  then show ?thesis using assms(2) by (auto simp: rejects_option_def off_front_def option_at_def leads_def)
qed

lemma lcp_bytes_of_fronts:
  "lcp_bytes_of T go =
     off_front (print_option (CI_MRU, short_bytes (mru go))) (neg_mru go \<and> CI_MRU \<in> T)
      (off_front (print_option (CI_ASYNCMAP, put_long (asyncmap go))) (neg_asyncmap go \<and> CI_ASYNCMAP \<in> T)
       (off_front (print_option (CI_CALLBACK, [CBCP_OPT])) (neg_cbcp go \<and> CI_CALLBACK \<in> T)
        (off_front (print_option (CI_MAGICNUMBER, put_long (magicnumber go))) (neg_magicnumber go \<and> CI_MAGICNUMBER \<in> T)
         (off_front (print_option (CI_PCOMPRESSION, [])) (neg_pcompression go \<and> CI_PCOMPRESSION \<in> T)
          (off_front (print_option (CI_ACCOMPRESSION, [])) (neg_accompression go \<and> CI_ACCOMPRESSION \<in> T)
           (off_front (print_option (CI_SSNHF, [])) (neg_ssnhf go \<and> CI_SSNHF \<in> T)
            (off_front (print_option (CI_EPDISC, endpoint_value go)) (neg_endpoint go \<and> CI_EPDISC \<in> T) [])))))))"
  by (simp add: lcp_bytes_of_def lcp_options_of_def filter_if_single option_bytes_if off_front_def)

lemma rejci_endp_own:
  assumes "endpoint_ok go"
  shows "rejci_endp CI_EPDISC (neg_endpoint go) (class' (endpoint go)) (ep_value (endpoint go)) (ep_length (endpoint go)) (q, new)
    = rejects_option CI_EPDISC (endpoint_value go) (neg_endpoint go) (\<lambda>new. new\<lparr>neg_endpoint := False\<rparr>) (q, new)"
proof (cases "neg_endpoint go")
  case True
  with assms show ?thesis by (simp add: endp_checks(2) endpoint_ok_def endpoint_value_def)
qed (simp add: rejci_endp_def rejects_option_def Let_def)

lemma lcp_rejected_checks:
  assumes "endpoint_ok go"
  shows "lcp_rejected go p =
    do { s \<leftarrow> rejects_option CI_MRU (short_bytes (mru go)) (neg_mru go) (\<lambda>new. new\<lparr>neg_mru := False\<rparr>) (p, go);
         s \<leftarrow> rejects_option CI_ASYNCMAP (put_long (asyncmap go)) (neg_asyncmap go) (\<lambda>new. new\<lparr>neg_asyncmap := False\<rparr>) s;
         s \<leftarrow> rejects_option CI_CALLBACK [CBCP_OPT] (neg_cbcp go) (\<lambda>new. new\<lparr>neg_cbcp := False\<rparr>) s;
         s \<leftarrow> rejects_option CI_MAGICNUMBER (put_long (magicnumber go)) (neg_magicnumber go)
                (\<lambda>new. new\<lparr>neg_magicnumber := False\<rparr>) s;
         s \<leftarrow> rejects_option CI_PCOMPRESSION [] (neg_pcompression go) (\<lambda>new. new\<lparr>neg_pcompression := False\<rparr>) s;
         s \<leftarrow> rejects_option CI_ACCOMPRESSION [] (neg_accompression go) (\<lambda>new. new\<lparr>neg_accompression := False\<rparr>) s;
         s \<leftarrow> rejects_option CI_SSNHF [] (neg_ssnhf go) (\<lambda>new. new\<lparr>neg_ssnhf := False\<rparr>) s;
         rejects_option CI_EPDISC (endpoint_value go) (neg_endpoint go) (\<lambda>new. new\<lparr>neg_endpoint := False\<rparr>) s }"
proof -
  have pair: "g = h" if "\<And>q new. g (q, new) = h (q, new)" for g h :: "lcp_rej \<Rightarrow> lcp_rej option"
    using that by auto
  have fs: "rejci_short t neg w clear = rejects_option t (short_bytes w) neg clear"
    "rejci_long t neg l clear = rejects_option t (put_long l) neg clear"
    "rejci_void t neg clear = rejects_option t [] neg clear"
    "rejci_cbcp t neg x = rejects_option t [x] neg (\<lambda>new. new\<lparr>neg_cbcp := False\<rparr>)" for t neg w l x clear
    by (rule pair, rule checks_reject)+
  have e: "rejci_endp CI_EPDISC (neg_endpoint go) (class' (endpoint go)) (ep_value (endpoint go)) (ep_length (endpoint go))
      = rejects_option CI_EPDISC (endpoint_value go) (neg_endpoint go) (\<lambda>new. new\<lparr>neg_endpoint := False\<rparr>)"
    by (rule pair, rule rejci_endp_own [OF assms])
  show ?thesis unfolding lcp_rejected_def Let_def fs e ..
qed

lemma endpoint_value_short: "endpoint_ok go \<Longrightarrow> neg_endpoint go \<Longrightarrow> length (endpoint_value go) < 254"
  by (simp add: endpoint_ok_def endpoint_value_def)

lemma lcp_rejected_complete:
  assumes "endpoint_ok go"
  shows "lcp_rejected go (lcp_bytes_of T go) = Some ([], lcp_give_up T go)"
proof -
  have e: "rejects_option CI_EPDISC (endpoint_value go) (neg_endpoint go) clear
      (off_front (print_option (CI_EPDISC, endpoint_value go)) (neg_endpoint go \<and> CI_EPDISC \<in> T) [], new)
    = Some ([], if neg_endpoint go \<and> CI_EPDISC \<in> T then clear new else new)" for clear new
  proof (cases "neg_endpoint go")
    case True
    then show ?thesis by (intro rejects_complete) (simp_all add: endpoint_value_short [OF assms])
  qed (simp add: rejects_option_def off_front_def)
  show ?thesis
    unfolding lcp_rejected_checks [OF assms] lcp_bytes_of_fronts
    by (simp add: rejects_complete e) (cases go, auto simp: lcp_give_up_def)
qed

lemma lcp_rejected_sound:
  assumes "endpoint_ok go" "lcp_rejected go p = Some ([], new)"
  shows "\<exists>T. p = lcp_bytes_of T go"
proof -
  from assms(2) obtain p1 g1 p2 g2 p3 g3 p4 g4 p5 g5 p6 g6 p7 g7 where s:
    "rejects_option CI_MRU (short_bytes (mru go)) (neg_mru go) (\<lambda>new. new\<lparr>neg_mru := False\<rparr>) (p, go) = Some (p1, g1)"
    "rejects_option CI_ASYNCMAP (put_long (asyncmap go)) (neg_asyncmap go) (\<lambda>new. new\<lparr>neg_asyncmap := False\<rparr>) (p1, g1) = Some (p2, g2)"
    "rejects_option CI_CALLBACK [CBCP_OPT] (neg_cbcp go) (\<lambda>new. new\<lparr>neg_cbcp := False\<rparr>) (p2, g2) = Some (p3, g3)"
    "rejects_option CI_MAGICNUMBER (put_long (magicnumber go)) (neg_magicnumber go) (\<lambda>new. new\<lparr>neg_magicnumber := False\<rparr>) (p3, g3) = Some (p4, g4)"
    "rejects_option CI_PCOMPRESSION [] (neg_pcompression go) (\<lambda>new. new\<lparr>neg_pcompression := False\<rparr>) (p4, g4) = Some (p5, g5)"
    "rejects_option CI_ACCOMPRESSION [] (neg_accompression go) (\<lambda>new. new\<lparr>neg_accompression := False\<rparr>) (p5, g5) = Some (p6, g6)"
    "rejects_option CI_SSNHF [] (neg_ssnhf go) (\<lambda>new. new\<lparr>neg_ssnhf := False\<rparr>) (p6, g6) = Some (p7, g7)"
    "rejects_option CI_EPDISC (endpoint_value go) (neg_endpoint go) (\<lambda>new. new\<lparr>neg_endpoint := False\<rparr>) (p7, g7) = Some ([], new)"
    unfolding lcp_rejected_checks [OF assms(1)] bind_eq_Some_conv by auto
  note r = s [THEN rejects_sound]
  obtain x1 where x1: "x1 \<longrightarrow> neg_mru go" "p = off_front (print_option (CI_MRU, short_bytes (mru go))) x1 p1" using r(1) by blast
  obtain x2 where x2: "x2 \<longrightarrow> neg_asyncmap go" "p1 = off_front (print_option (CI_ASYNCMAP, put_long (asyncmap go))) x2 p2" using r(2) by blast
  obtain x3 where x3: "x3 \<longrightarrow> neg_cbcp go" "p2 = off_front (print_option (CI_CALLBACK, [CBCP_OPT])) x3 p3" using r(3) by blast
  obtain x4 where x4: "x4 \<longrightarrow> neg_magicnumber go" "p3 = off_front (print_option (CI_MAGICNUMBER, put_long (magicnumber go))) x4 p4" using r(4) by blast
  obtain x5 where x5: "x5 \<longrightarrow> neg_pcompression go" "p4 = off_front (print_option (CI_PCOMPRESSION, [])) x5 p5" using r(5) by blast
  obtain x6 where x6: "x6 \<longrightarrow> neg_accompression go" "p5 = off_front (print_option (CI_ACCOMPRESSION, [])) x6 p6" using r(6) by blast
  obtain x7 where x7: "x7 \<longrightarrow> neg_ssnhf go" "p6 = off_front (print_option (CI_SSNHF, [])) x7 p7" using r(7) by blast
  obtain x8 where x8: "x8 \<longrightarrow> neg_endpoint go" "p7 = off_front (print_option (CI_EPDISC, endpoint_value go)) x8 []" using r(8) by blast
  let ?T = "{t. (t, True) \<in> {(CI_MRU, x1), (CI_ASYNCMAP, x2), (CI_CALLBACK, x3), (CI_MAGICNUMBER, x4),
    (CI_PCOMPRESSION, x5), (CI_ACCOMPRESSION, x6), (CI_SSNHF, x7), (CI_EPDISC, x8)}}"
  have t: "CI_MRU \<in> ?T = x1" "CI_ASYNCMAP \<in> ?T = x2" "CI_CALLBACK \<in> ?T = x3" "CI_MAGICNUMBER \<in> ?T = x4"
    "CI_PCOMPRESSION \<in> ?T = x5" "CI_ACCOMPRESSION \<in> ?T = x6" "CI_SSNHF \<in> ?T = x7" "CI_EPDISC \<in> ?T = x8" by simp_all
  note f = off_front_iff [OF x1(1)] off_front_iff [OF x2(1)] off_front_iff [OF x3(1)] off_front_iff [OF x4(1)]
    off_front_iff [OF x5(1)] off_front_iff [OF x6(1)] off_front_iff [OF x7(1)] off_front_iff [OF x8(1)]
  have "p = lcp_bytes_of ?T go"
    unfolding lcp_bytes_of_fronts x1(2) x2(2) x3(2) x4(2) x5(2) x6(2) x7(2) x8(2) t f ..
  then show ?thesis ..
qed

text \<open>
  C29. What LCP takes for a Configure-Reject of its request. It accepts the bytes of some of the
  options it negotiates, unchanged and in their order, and nothing else; then the next request
  is without exactly these. The receive unit and the character map are also taken for rejected
  when the request left them out because they had their default value. A packet that is refused
  changes nothing, nor does one that comes when the connection is open.
\<close>
theorem lcp_reject_exact:
  assumes "endpoint_ok go" and "lcp_rejci st c p = (ret, c')" and "go = lcp_gotoptions c"
  shows "(ret \<noteq> 0 \<longleftrightarrow> (\<exists>T. p = lcp_bytes_of T go)) \<and> (ret = 0 \<or> st = PPP_FSM_OPENED \<longrightarrow> c' = c) \<and>
    (st \<noteq> PPP_FSM_OPENED \<and> p = lcp_bytes_of T go \<longrightarrow>
      c' = c\<lparr>lcp_gotoptions := lcp_give_up T go\<rparr> \<and>
      lcp_own_options (lcp_gotoptions c') = filter (\<lambda>(t, v). t \<notin> T) (lcp_own_options go))"
proof -
  have own: "lcp_own_options (lcp_give_up T go) = filter (\<lambda>(t, v). t \<notin> T) (lcp_own_options go)"
    by (simp add: lcp_own_options_def lcp_options_of_def filter_if_single lcp_give_up_def asks_mru_def
        asks_asyncmap_def endpoint_value_def)
  show ?thesis
  proof (cases "\<exists>T. p = lcp_bytes_of T go")
    case True
    then obtain T' where "p = lcp_bytes_of T' go" ..
    with assms have r: "ret = 1" "st = PPP_FSM_OPENED \<longrightarrow> c' = c"
      by (auto simp: lcp_rejci_def lcp_rejected_complete)
    have "c' = c\<lparr>lcp_gotoptions := lcp_give_up T go\<rparr>" if "st \<noteq> PPP_FSM_OPENED" "p = lcp_bytes_of T go"
      using assms that by (auto simp: lcp_rejci_def lcp_rejected_complete)
    with r True own show ?thesis by auto
  next
    case False
    with lcp_rejected_sound [OF assms(1)] have "lcp_rejci st c p = (0, c)"
      by (auto simp: lcp_rejci_def assms(3) split: option.splits list.splits)
    with assms(2) False show ?thesis by auto
  qed
qed

theorem lcp_reject_exact_witness:
  "\<exists>ret c'. lcp_rejci PPP_FSM_REQSENT first_lcp (lcp_bytes_of {CI_MRU} (lcp_gotoptions first_lcp)) = (ret, c') \<and> ret \<noteq> 0"
proof -
  let ?p = "lcp_bytes_of {CI_MRU} (lcp_gotoptions first_lcp)"
  obtain ret c' where r: "lcp_rejci PPP_FSM_REQSENT first_lcp ?p = (ret, c')" by fastforce
  have "endpoint_ok (lcp_gotoptions first_lcp)" by (simp add: endpoint_ok_def first_lcp_endpoint)
  from lcp_reject_exact [OF this r refl] r show ?thesis by blast
qed

end
