(* ===== verification/Lcp_Nak.thy ===== *)
theory Lcp_Nak
  imports Lcp_Requests
begin

unbundle bit_operations_syntax

text \<open>
  What a Configure-Nak can make LCP request next, and how a line that is looped back is found
  out.
\<close>

section \<open>Moderation\<close>

text \<open>
  The next request: options are only given up, except that a receive unit below the default and
  short sequence numbers may be requested on the peer's suggestion; the character map only grows.
\<close>

definition lcp_moderate :: "lcp_options \<Rightarrow> u32 \<Rightarrow> lcp_options \<Rightarrow> lcp_options \<Rightarrow> bool" where
  "lcp_moderate wo m go new \<longleftrightarrow>
     (neg_mru new \<longrightarrow> neg_mru go \<or> mru new < PPP_DEFMRU) \<and>
     (mru new = mru go \<or> mru new \<le> mru wo \<or> mru new \<le> PPP_DEFMRU) \<and>
     neg_asyncmap new = neg_asyncmap go \<and> asyncmap go AND NOT (asyncmap new) = 0 \<and>
     neg_magicnumber new = neg_magicnumber go \<and> (magicnumber new = magicnumber go \<or> magicnumber new = m) \<and>
     (neg_pcompression new \<longrightarrow> neg_pcompression go) \<and> (neg_accompression new \<longrightarrow> neg_accompression go) \<and>
     (neg_cbcp new \<longrightarrow> neg_cbcp go) \<and> (neg_endpoint new \<longrightarrow> neg_endpoint go) \<and>
     endpoint new = endpoint go \<and> numloops new = numloops go \<and>
     opt_passive new = opt_passive go \<and> opt_silent new = opt_silent go"

lemma lcp_moderate_refl: "lcp_moderate wo m go go"
  by (simp add: lcp_moderate_def)

lemma asyncmap_grows: "(x :: u32) AND NOT (x OR y) = 0" "(x :: u32) AND NOT x AND z = 0"
  by (rule bit_word_eqI; auto simp: bit_simps)+

lemma lcp_moderate_updates:
  assumes "lcp_moderate wo m go new"
  shows "lcp_moderate wo m go (new\<lparr>neg_cbcp := False\<rparr>)" "lcp_moderate wo m go (new\<lparr>neg_pcompression := False\<rparr>)"
    "lcp_moderate wo m go (new\<lparr>neg_accompression := False\<rparr>)" "lcp_moderate wo m go (new\<lparr>neg_endpoint := False\<rparr>)"
    "lcp_moderate wo m go (new\<lparr>neg_ssnhf := b\<rparr>)" "lcp_moderate wo m go (new\<lparr>magicnumber := m\<rparr>)"
    "neg_mru go \<Longrightarrow> u \<le> mru wo \<or> u \<le> PPP_DEFMRU \<Longrightarrow> lcp_moderate wo m go (new\<lparr>mru := u\<rparr>)"
    "u < PPP_DEFMRU \<Longrightarrow> lcp_moderate wo m go (new\<lparr>neg_mru := True, mru := u\<rparr>)"
    "lcp_moderate wo m go (new\<lparr>asyncmap := asyncmap go OR x\<rparr>)"
  using assms by (simp_all add: lcp_moderate_def asyncmap_grows less_imp_le)

lemma lcp_nakci_steps:
  assumes "lcp_moderate wo m go new"
  shows "lcp_nakci_cbcp go (p, no, new) = (p', no', new') \<Longrightarrow> lcp_moderate wo m go new'"
    and "lcp_nakci_magic m go (p, no, new) = (p', no', new') \<Longrightarrow> lcp_moderate wo m go new'"
    and "lcp_nakci_endp go (p, no, new) = (p', no', new') \<Longrightarrow> lcp_moderate wo m go new'"
    and "lcp_moderate wo m go (clear new) \<Longrightarrow>
      lcp_nakci_void opt neg mark clear (p, no, new) = (p', no', new') \<Longrightarrow> lcp_moderate wo m go new'"
    and "lcp_nakci_mru wo go (p, no, new) = (p', no', new') \<Longrightarrow> lcp_moderate wo m go new'"
    and "lcp_nakci_asyncmap go (p, no, new) = (p', no', new') \<Longrightarrow> lcp_moderate wo m go new'"
  using assms lcp_moderate_updates [OF assms]
  by (simp_all add: lcp_nakci_cbcp_def lcp_nakci_magic_def lcp_nakci_endp_def lcp_nakci_void_def lcp_nakci_mru_def
      lcp_nakci_asyncmap_def asks_mru_def Let_def split: if_split_asm) auto

lemma lcp_nakci_first_step: "lcp_nakci_first c p = (p', no', new') \<Longrightarrow> lcp_moderate (lcp_wantoptions c) m (lcp_gotoptions c) new'"
proof -
  let ?go = "lcp_gotoptions c"
  assume f: "lcp_nakci_first c p = (p', no', new')"
  obtain p1 n1 g1 where 1: "lcp_nakci_mru (lcp_wantoptions c) ?go (p, zero_lcp_options, ?go) = (p1, n1, g1)" by (metis prod_cases3)
  obtain p2 n2 g2 where 2: "lcp_nakci_asyncmap ?go (p1, n1, g1) = (p2, n2, g2)" by (metis prod_cases3)
  have 3: "lcp_nakci_cbcp ?go (p2, n2, g2) = (p', no', new')" using f by (simp add: lcp_nakci_first_def Let_def 1 2)
  show ?thesis
    by (rule lcp_nakci_steps(1) [OF lcp_nakci_steps(6) [OF lcp_nakci_steps(5) [OF lcp_moderate_refl 1] 2] 3])
qed

lemma lcp_nakci_unasked_step:
  "lcp_moderate wo m go new \<Longrightarrow> lcp_nakci_unasked go no t n q new = Some new' \<Longrightarrow> lcp_moderate wo m go new'"
  using lcp_moderate_updates(5,8) [of wo m go new]
  by (simp add: lcp_nakci_unasked_def Let_def split: if_split_asm) auto

lemma lcp_nakci_rest_step:
  "lcp_moderate wo m go new \<Longrightarrow> lcp_nakci_rest go (p, no, new) = Some new' \<Longrightarrow> lcp_moderate wo m go new'"
proof (induction go "(p, no, new)" arbitrary: p new rule: lcp_nakci_rest.induct)
  case (1 go p new)
  show ?case
  proof (cases "length p < 2")
    case True
    then show ?thesis using 1(2,3) by (simp add: lcp_nakci_rest.simps)
  next
    case False
    let ?n = "unat (p ! 1)"
    obtain new1 where u: "\<not> (?n < 2 \<or> length p < ?n)" "lcp_nakci_unasked go no (p ! 0) ?n (drop 2 p) new = Some new1"
        "lcp_nakci_rest go (drop ?n p, no, new1) = Some new'"
      using 1(3) False by (subst (asm) lcp_nakci_rest.simps) (auto simp: Let_def split: if_split_asm option.split_asm)
    show ?thesis by (rule 1(1) [OF False refl u(1) u(2) lcp_nakci_unasked_step [OF 1(2) u(2)] u(3)])
  qed
qed

lemma lcp_nakci_last_step:
  assumes "lcp_moderate wo m go new" "lcp_nakci_last go (p, no, new) = Some new'"
  shows "lcp_moderate wo m go new'"
proof -
  obtain p1 n1 g1 where 1: "lcp_nakci_void CI_PCOMPRESSION (neg_pcompression go) (\<lambda>no. no\<lparr>neg_pcompression := True\<rparr>)
      (\<lambda>new. new\<lparr>neg_pcompression := False\<rparr>) (p, no, new) = (p1, n1, g1)" by (metis prod_cases3)
  obtain p2 n2 g2 where 2: "lcp_nakci_void CI_ACCOMPRESSION (neg_accompression go) (\<lambda>no. no\<lparr>neg_accompression := True\<rparr>)
      (\<lambda>new. new\<lparr>neg_accompression := False\<rparr>) (p1, n1, g1) = (p2, n2, g2)" by (metis prod_cases3)
  obtain p3 n3 g3 where 3: "lcp_nakci_void CI_SSNHF (neg_ssnhf go) (\<lambda>no. no\<lparr>neg_ssnhf := True\<rparr>)
      (\<lambda>new. new\<lparr>neg_ssnhf := False\<rparr>) (p2, n2, g2) = (p3, n3, g3)" by (metis prod_cases3)
  obtain p4 n4 g4 where 4: "lcp_nakci_endp go (p3, n3, g3) = (p4, n4, g4)" by (metis prod_cases3)
  have "lcp_moderate wo m go g4"
    by (intro lcp_nakci_steps(3) [OF _ 4] lcp_nakci_steps(4) [OF _ _ 3] lcp_nakci_steps(4) [OF _ _ 2]
        lcp_nakci_steps(4) [OF _ _ 1] lcp_moderate_updates assms(1))
  moreover have "lcp_nakci_rest go (p4, n4, g4) = Some new'"
    using assms(2) by (simp only: lcp_nakci_last_def Let_def 1 2 3 4)
  ultimately show ?thesis by (rule lcp_nakci_rest_step)
qed

text \<open>
  C30. What any Configure-Nak can change. A packet that is refused changes nothing but the count of
  magic numbers drawn, nor does one in OPENED. Otherwise the next request is moderate: options are
  given up, not added, except a receive unit below the default and short sequence numbers; the
  receive unit does not exceed both the wanted and the default one; no escaped character is
  dropped from the map; the magic number is the old one or freshly drawn. LCP is closed by it
  exactly if the Nak is for our magic number, and it is the last one tolerated in a row.
\<close>
theorem lcp_nak_is_moderate:
  "case lcp_nakci rand st c p treat_as_reject of (ret, c', reason) \<Rightarrow>
     (ret = 0 \<or> st = PPP_FSM_OPENED \<longrightarrow> reason = None \<and> (\<exists>k. c' = c\<lparr>magics := k\<rparr>)) \<and>
     (ret \<noteq> 0 \<and> st \<noteq> PPP_FSM_OPENED \<longrightarrow>
       (let go = lcp_gotoptions c; new = lcp_gotoptions c'; looped = naks_magic go (fst (lcp_nakci_first c p))
        in lcp_moderate (lcp_wantoptions c) (rand (magics c)) go (new\<lparr>numloops := numloops go\<rparr>) \<and>
           numloops new = (if looped then numloops go + 1 else 0) \<and>
           (reason \<noteq> None \<longleftrightarrow> looped \<and> lcp_loopbackfail c \<le> numloops new) \<and>
           loopbacks c' = loopbacks c + (if reason = None then 0 else 1) \<and>
           lcp_wantoptions c' = lcp_wantoptions c \<and> lcp_hisoptions c' = lcp_hisoptions c))"
proof -
  let ?go = "lcp_gotoptions c" and ?wo = "lcp_wantoptions c"
  obtain p1 n1 g1 where 1: "lcp_nakci_first c p = (p1, n1, g1)" by (metis prod_cases3)
  let ?l = "naks_magic ?go p1" let ?m = "if ?l then rand (magics c) else 0"
  obtain p2 n2 g2 where 2: "lcp_nakci_magic ?m ?go (p1, n1, g1) = (p2, n2, g2)" by (metis prod_cases3)
  have g2: "lcp_moderate ?wo (rand (magics c)) ?go g2"
  proof (cases ?l)
    case True
    then show ?thesis using lcp_nakci_steps(2) [OF lcp_nakci_first_step [OF 1] 2] by simp
  next
    case False
    then show ?thesis using lcp_nakci_first_step [OF 1] 2 by (simp add: lcp_nakci_magic_def)
  qed
  let ?c = "if ?l then c\<lparr>magics := Suc (magics c)\<rparr> else c"
  have e: "lcp_nakci rand st c p treat_as_reject =
      (case lcp_nakci_last ?go (p2, n2, g2) of
         None \<Rightarrow> (0, ?c, None) | Some new \<Rightarrow> (1, lcp_nakci_update st ?l new ?c))"
    using 2 by (cases ?l) (simp_all add: lcp_nakci_def Let_def 1 magic_def split: option.split)
  have c: "\<exists>k. ?c = c\<lparr>magics := k\<rparr>" by (cases c) auto
  show ?thesis
  proof (cases "lcp_nakci_last ?go (p2, n2, g2)")
    case None
    then show ?thesis using c by (simp add: e)
  next
    case (Some new)
    have m: "lcp_moderate ?wo (rand (magics c)) ?go new" by (rule lcp_nakci_last_step [OF g2 Some])
    then have "numloops new = numloops ?go" by (simp add: lcp_moderate_def)
    moreover have "lcp_moderate ?wo (rand (magics c)) ?go (new\<lparr>numloops := k\<rparr>\<lparr>numloops := numloops ?go\<rparr>)" for k
      using m by (simp add: lcp_moderate_def)
    ultimately show ?thesis
      using c by (auto simp: e 1 Some lcp_nakci_update_def Let_def)
  qed
qed


text \<open>The tenth of our magic numbers that comes back closes the connection.\<close>

theorem lcp_nak_is_moderate_witness:
  "let c = first_lcp\<lparr>lcp_gotoptions := (lcp_gotoptions first_lcp)\<lparr>numloops := 9\<rparr>\<rparr>
   in snd (snd (lcp_nakci of_nat PPP_FSM_REQSENT c (long_option CI_MAGICNUMBER 7) False)) \<noteq> None"
proof -
  let ?c = "first_lcp\<lparr>lcp_gotoptions := (lcp_gotoptions first_lcp)\<lparr>numloops := 9\<rparr>\<rparr>"
  let ?p = "long_option CI_MAGICNUMBER 7" let ?r = "lcp_nakci of_nat PPP_FSM_REQSENT ?c ?p False"
  have p: "?p = [5, 6, 0, 0, 0, 7]" by code_simp
  have l: "naks_magic (lcp_gotoptions ?c) (fst (lcp_nakci_first ?c ?p))" unfolding p by code_simp
  have r: "fst ?r \<noteq> 0" unfolding p by code_simp
  have n: "numloops (lcp_gotoptions ?c) = 9" "lcp_loopbackfail ?c = 10"
    by (simp_all add: first_lcp_def lcp_resetci_def lcp_init_def fsm_init_def cleared_fsm_def new_lcp_def magic_def Let_def)
  show ?thesis
    using lcp_nak_is_moderate [where rand = of_nat and st = PPP_FSM_REQSENT and c = ?c and p = ?p and treat_as_reject = False] l r n
    by (simp add: Let_def case_prod_beta)
qed

end
