(* ===== verification/Lcp_Replies.thy ===== *)
theory Lcp_Replies
  imports Lcp_Requests
begin

unbundle bit_operations_syntax

text \<open>
  The answer of LCP to the peer's Configure-Request: what it is made of, when it is an
  acknowledgement, and how much is written into the buffer for a Nak.
\<close>

section \<open>One option\<close>

text \<open>What was acknowledged: a usable receive unit, the characters we need escaped, another number.\<close>

definition lcp_granted :: "lcp \<Rightarrow> bool" where
  "lcp_granted c \<longleftrightarrow>
     (let ho = lcp_hisoptions c; go = lcp_gotoptions c
      in (neg_mru ho \<longrightarrow> PPP_MINMRU \<le> mru ho) \<and>
         (neg_asyncmap ho \<longrightarrow> asyncmap (lcp_allowoptions c) AND NOT (asyncmap ho) = 0) \<and>
         (neg_magicnumber ho \<and> neg_magicnumber go \<longrightarrow> magicnumber ho \<noteq> magicnumber go) \<and>
         (neg_endpoint ho \<longrightarrow> unat (ep_length (endpoint ho)) \<le> MAX_ENDP_LEN))"

definition same_lcp_settings :: "lcp \<Rightarrow> lcp \<Rightarrow> bool" where
  "same_lcp_settings c c' \<longleftrightarrow>
     (\<exists>ho m n. c' = c\<lparr>lcp_hisoptions := ho, magics := m, nak_bufs := n\<rparr>)"

definition lcp_option_answer :: "lcp \<Rightarrow> u8 list \<Rightarrow> u8 \<times> u8 list \<times> lcp \<Rightarrow> bool" where
  "lcp_option_answer c cip = (\<lambda>(orc, nak, c').
     orc \<in> {CONFACK, CONFNAK, CONFREJ} \<and>
     length nak = (if orc = CONFNAK then length cip else 0) \<and>
     (orc = CONFNAK \<longrightarrow> (\<exists>v. nak = print_option (cip ! 0, v))) \<and>
     (orc = CONFNAK \<and> cip ! 0 = CI_MRU \<longrightarrow> nak = short_option CI_MRU PPP_MINMRU) \<and>
     same_lcp_settings c c' \<and> (lcp_granted c \<longrightarrow> lcp_granted c'))"

lemma same_lcp_settings_simps [simp]: "same_lcp_settings c c" "same_lcp_settings c (c\<lparr>lcp_hisoptions := ho\<rparr>)"
    "same_lcp_settings c (c\<lparr>magics := m\<rparr>)" "same_lcp_settings c (c\<lparr>nak_bufs := k\<rparr>)"
  by (cases c; auto simp: same_lcp_settings_def)+

lemma same_lcp_settings_trans: "same_lcp_settings c c' \<Longrightarrow> same_lcp_settings c' c'' \<Longrightarrow> same_lcp_settings c c''"
  by (fastforce simp: same_lcp_settings_def)

lemma same_lcp_settings_fields:
  assumes "same_lcp_settings c c'"
  shows "lcp_gotoptions c' = lcp_gotoptions c" "lcp_wantoptions c' = lcp_wantoptions c"
    "lcp_allowoptions c' = lcp_allowoptions c" "loopbacks c' = loopbacks c" "protrejs c' = protrejs c"
    "lcp_echos_pending c' = lcp_echos_pending c" "lcp_loopbackfail c' = lcp_loopbackfail c"
  using assms by (auto simp: same_lcp_settings_def)

lemma length_lcp_options [simp]: "length (short_option t w) = 4" "length (long_option t l) = 6"
  by (simp_all add: short_option_def long_option_def)

lemma reqci_mru_answer: "cip ! 0 = CI_MRU \<Longrightarrow> lcp_option_answer c cip (reqci_mru c cip)"
  by (auto simp: lcp_option_answer_def reqci_mru_def Let_def option_prints(3) lcp_granted_def)

lemma reqci_asyncmap_answer: "cip ! 0 = CI_ASYNCMAP \<Longrightarrow> lcp_option_answer c cip (reqci_asyncmap c cip)"
  by (auto simp: lcp_option_answer_def reqci_asyncmap_def Let_def option_prints(4) lcp_granted_def)

lemma reqci_magicnumber_answer:
  "cip ! 0 = CI_MAGICNUMBER \<Longrightarrow> lcp_option_answer c cip (reqci_magicnumber rand c cip)"
  by (auto simp: lcp_option_answer_def reqci_magicnumber_def magic_def Let_def option_prints(4) lcp_granted_def)

lemma reqci_epdisc_answer: "lcp_option_answer c cip (reqci_epdisc c cip)"
proof -
  have "unat (of_nat (length cip - 3) :: u8) \<le> 20" if "length cip \<le> 23"
    using that by (simp add: unat_of_nat del: of_nat_diff)
  then show ?thesis
    by (auto simp: lcp_option_answer_def reqci_epdisc_def Let_def lcp_granted_def simp del: of_nat_diff)
qed

lemma reqci_void_answer:
  "(\<And>ho. neg_mru (mark ho) = neg_mru ho \<and> neg_asyncmap (mark ho) = neg_asyncmap ho \<and>
      neg_magicnumber (mark ho) = neg_magicnumber ho \<and> neg_endpoint (mark ho) = neg_endpoint ho \<and>
      mru (mark ho) = mru ho \<and> asyncmap (mark ho) = asyncmap ho \<and> magicnumber (mark ho) = magicnumber ho \<and>
      endpoint (mark ho) = endpoint ho) \<Longrightarrow>
    lcp_option_answer c cip (reqci_void allowed mark c cip)"
  by (auto simp: lcp_option_answer_def reqci_void_def Let_def lcp_granted_def)

lemma lcp_reqci_option_answer: "lcp_option_answer c cip (lcp_reqci_option rand c cip)"
  unfolding lcp_reqci_option_def Let_def
  by (simp add: reqci_mru_answer reqci_asyncmap_answer reqci_magicnumber_answer reqci_void_answer reqci_epdisc_answer)
    (simp add: lcp_option_answer_def)

section \<open>The whole request\<close>

text \<open>Some of the options, at least one, unchanged and in their order.\<close>

definition picks :: "u8 list list \<Rightarrow> u8 list \<Rightarrow> bool" where
  "picks ys r \<longleftrightarrow> (\<exists>S. S \<noteq> [] \<and> subseq S ys \<and> r = concat S)"

lemma picks_weaken: "picks ys r \<Longrightarrow> picks (ys @ zs) r"
  by (auto simp: picks_def intro: subseq_weaken)

lemma picks_snoc: "picks ys r \<Longrightarrow> picks (ys @ [u]) (r @ u)"
proof -
  assume "picks ys r"
  then obtain S where "subseq S ys" "r = concat S" by (auto simp: picks_def)
  then show ?thesis unfolding picks_def by (intro exI [of _ "S @ [u]"]) simp
qed

lemma picks_last: "picks (ys @ [u]) u"
  unfolding picks_def by (intro exI [of _ "[u]"]) (simp add: subseq_singleton_left)

text \<open>
  The answer after the options \<open>ys\<close>, with what was written for a Nak so far.
\<close>

definition lcp_reply_of :: "bool \<Rightarrow> u8 list list \<Rightarrow> (u8 \<times> u8 list) \<times> u8 list \<Rightarrow> bool" where
  "lcp_reply_of rej ys = (\<lambda>((rc, rejs), naks).
     rc \<in> {CONFACK, CONFNAK, CONFREJ} \<and> length naks \<le> length (concat ys) \<and>
     (rc = CONFACK \<longrightarrow> naks = [] \<and> (\<forall>u \<in> set ys. 2 \<le> length u \<and> unat (u ! 1) = length u)) \<and>
     (rc = CONFNAK \<longrightarrow> naks \<noteq> []) \<and>
     (rc = CONFREJ \<longrightarrow> picks ys rejs) \<and> (rc \<noteq> CONFREJ \<longrightarrow> rejs = []))"

lemma lcp_collect_reply:
  assumes "lcp_reply_of rej ys ((rc, rejs), naks)" "orc \<in> {CONFACK, CONFNAK, CONFREJ}"
    and "length nak = (if orc = CONFNAK then length cip else 0)"
    and "2 \<le> length cip \<and> unat (cip ! 1) = length cip \<or> orc = CONFREJ"
  shows "lcp_reply_of rej (ys @ [cip]) (lcp_reqci_collect rej t orc cip (rc, rejs), naks @ nak)"
proof -
  have "nak \<noteq> []" if "orc = CONFNAK" using that assms(3,4) by auto
  then show ?thesis
    using assms by (auto simp: lcp_reply_of_def lcp_reqci_collect_def picks_last intro: picks_weaken picks_snoc)
qed

lemma lcp_reqci_loop_reply:
  assumes "lcp_reqci_loop rand rej c p (ans, naks) = (ans', naks', c')" and "lcp_reply_of rej ys (ans, naks)"
    and "lcp_granted c"
  shows "lcp_reply_of rej (ys @ request_chunks p) (ans', naks') \<and> same_lcp_settings c c' \<and> lcp_granted c'"
  using assms
proof (induction rand rej c p "(ans, naks)" arbitrary: ans naks ys rule: lcp_reqci_loop.induct)
  case (1 rand rej c p ans naks)
  obtain rc rejs where ans: "ans = (rc, rejs)" by fastforce
  let ?n = "unat (p ! 1)" and ?bad = "length p < 2 \<or> unat (p ! 1) < 2 \<or> length p < unat (p ! 1)"
  consider "p = []" | "p \<noteq> []" "?bad" | "p \<noteq> []" "\<not> ?bad" by blast
  then show ?case
  proof cases
    case 1
    with "1.prems" show ?thesis by (simp add: lcp_reqci_loop.simps request_chunks.simps)
  next
    case 2
    then have e: "ans' = lcp_reqci_collect rej 0 CONFREJ p ans" "naks' = naks" "c' = c" "request_chunks p = [p]"
      using "1.prems"(1) by (simp_all add: lcp_reqci_loop.simps [of rand rej c p] request_chunks.simps [of p])
    have "lcp_reply_of rej (ys @ [p]) (lcp_reqci_collect rej 0 CONFREJ p (rc, rejs), naks @ [])"
      by (rule lcp_collect_reply) (use "1.prems"(2) ans in simp_all)
    then show ?thesis using "1.prems"(3) by (simp add: e ans)
  next
    case 3
    let ?cip = "take ?n p"
    obtain orc nak c1 where o: "lcp_reqci_option rand c ?cip = (orc, nak, c1)" by (metis prod_cases3)
    have a: "lcp_option_answer c ?cip (orc, nak, c1)"
      using lcp_reqci_option_answer [of c ?cip rand] by (simp only: o)
    let ?ans = "lcp_reqci_collect rej (p ! 0) orc ?cip ans"
    have t: "2 \<le> length ?cip \<and> unat (?cip ! 1) = length ?cip" using 3 by auto
    have "lcp_reply_of rej (ys @ [?cip]) (?ans, naks @ nak)"
      unfolding ans by (rule lcp_collect_reply) (use "1.prems"(2) a t ans in \<open>auto simp: lcp_option_answer_def\<close>)
    moreover have "lcp_reqci_loop rand rej c1 (drop ?n p) (?ans, naks @ nak) = (ans', naks', c')"
      unfolding "1.prems"(1) [symmetric]
      by (subst (2) lcp_reqci_loop.simps) (simp only: 3 if_False o prod.case Let_def simp_thms)
    moreover have "lcp_granted c1" using a "1.prems"(3) by (simp add: lcp_option_answer_def)
    ultimately have "lcp_reply_of rej ((ys @ [?cip]) @ request_chunks (drop ?n p)) (ans', naks') \<and>
        same_lcp_settings c1 c' \<and> lcp_granted c'"
      by (intro "1.hyps" [OF 3 refl o [symmetric] refl refl])
    moreover have "same_lcp_settings c c1" using a by (simp add: lcp_option_answer_def)
    moreover have "request_chunks p = ?cip # request_chunks (drop ?n p)" using 3 by (rule request_chunks_step)
    ultimately show ?thesis by (auto intro: same_lcp_settings_trans)
  qed
qed

text \<open>
  C27. The answer of LCP to any bytes the peer sends as its options. An acknowledgement repeats the
  request, all of whose options are well-formed, and what is granted by it is usable: a receive
  unit of at least 128, a character map with the characters we need escaped, a magic number
  other than ours. A rejection consists of options of the request, unchanged and in their order,
  at least one. A Nak is not empty and not longer than the request. No answer, that is code 0, is
  given exactly if the buffer for a Nak cannot be allocated. Our own options are not touched.
\<close>
theorem lcp_reply:
  assumes "lcp_reqci rand nakp c inp rej = (code, reply, c')"
  shows "same_lcp_settings c c' \<and> lcp_granted c' \<and> code \<in> {0, CONFACK, CONFNAK, CONFREJ} \<and>
    (code = 0 \<longleftrightarrow> \<not> nakp (nak_bufs c)) \<and>
    (code = CONFACK \<longrightarrow> reply = inp \<and> (\<forall>u \<in> set (request_chunks inp). 2 \<le> length u \<and> unat (u ! 1) = length u)) \<and>
    (code = CONFREJ \<longrightarrow> picks (request_chunks inp) reply) \<and>
    (code = CONFNAK \<longrightarrow> reply \<noteq> [] \<and> length reply \<le> length inp)"
proof -
  let ?c = "c\<lparr>lcp_hisoptions := zero_lcp_options, nak_bufs := Suc (nak_bufs c)\<rparr>"
  have g: "lcp_granted ?c" by (simp add: lcp_granted_def zero_lcp_options_def Let_def)
  have s: "same_lcp_settings c ?c" by (cases c) (simp add: same_lcp_settings_def)
  show ?thesis
  proof (cases "nakp (nak_bufs c)")
    case True
    obtain rc rejs naks c1 where l: "lcp_reqci_loop rand rej ?c inp ((CONFACK, []), []) = ((rc, rejs), naks, c1)"
      by (metis surj_pair)
    have "lcp_reply_of rej [] ((CONFACK, []), [])" by (simp add: lcp_reply_of_def)
    from lcp_reqci_loop_reply [OF l this g]
    have r: "lcp_reply_of rej (request_chunks inp) ((rc, rejs), naks)" "same_lcp_settings ?c c1" "lcp_granted c1"
      by simp_all
    have e: "code = rc" "reply = (if rc = CONFACK then inp else if rc = CONFNAK then naks else rejs)" "c' = c1"
      using assms l True by (auto simp: lcp_reqci_def Let_def)
    have "same_lcp_settings c c'" using same_lcp_settings_trans [OF s r(2)] e by simp
    then show ?thesis using r(1,3) True by (auto simp: e lcp_reply_of_def concat_request_chunks)
  next
    case False
    with assms have "code = 0" "c' = ?c" by (simp_all add: lcp_reqci_def Let_def)
    with g s False show ?thesis by simp
  qed
qed

theorem lcp_reply_witness:
  "\<exists>reply c'. lcp_reqci of_nat (\<lambda>_. True) first_lcp [CI_MRU, 4, 0, 127] False = (CONFNAK, reply, c') \<and> length reply \<le> 4"
proof -
  obtain code reply c' where r: "lcp_reqci of_nat (\<lambda>_. True) first_lcp [CI_MRU, 4, 0, 127] False = (code, reply, c')"
    by (metis prod_cases3)
  have "fst (lcp_reqci of_nat (\<lambda>_. True) first_lcp [CI_MRU, 4, 0, 127] False) = CONFNAK" by code_simp
  with r have "code = CONFNAK" by simp
  with lcp_reply [OF r] r show ?thesis by simp
qed

section \<open>More Naks than the buffer holds\<close>

abbreviation (input) "PPP_CTRL_PBUF_MAX_SIZE \<equiv> 592 :: nat"

text \<open>A receive unit below the minimum.\<close>

definition small_mru :: "u8 list" where
  "small_mru = [CI_MRU, 4, 0, 0]"

lemma small_mru_answer:
  "neg_mru (lcp_allowoptions c) \<Longrightarrow> lcp_reqci_option rand c small_mru = (CONFNAK, short_option CI_MRU PPP_MINMRU, c)"
  by (simp add: lcp_reqci_option_def reqci_mru_def small_mru_def get_short_def Let_def)

lemma small_mru_loop:
  assumes "neg_mru (lcp_allowoptions c)" "ans = (CONFNAK, rejs) \<or> ans = (CONFACK, rejs) \<and> 0 < n"
  shows "\<exists>naks'. lcp_reqci_loop rand False c (concat (replicate n small_mru)) (ans, naks) = ((CONFNAK, rejs), naks', c) \<and>
    length naks' = length naks + 4 * n"
  using assms(2)
proof (induction n arbitrary: ans naks)
  case 0
  then show ?case by (simp add: lcp_reqci_loop.simps)
next
  case (Suc n)
  let ?p = "concat (replicate n small_mru)" and ?o = "short_option CI_MRU PPP_MINMRU"
  have n4: "unat ((small_mru @ ?p) ! 1) = 4" "length (small_mru @ ?p) \<ge> 4" "take 4 (small_mru @ ?p) = small_mru"
      "drop 4 (small_mru @ ?p) = ?p" "small_mru @ ?p \<noteq> []"
    by (simp_all add: small_mru_def)
  have "lcp_reqci_collect False t CONFNAK small_mru ans = (CONFNAK, rejs)" for t
    using Suc.prems by (auto simp: lcp_reqci_collect_def)
  then have "lcp_reqci_loop rand False c (small_mru @ ?p) (ans, naks) =
      lcp_reqci_loop rand False c ?p ((CONFNAK, rejs), naks @ ?o)"
    using n4 by (subst lcp_reqci_loop.simps) (simp add: small_mru_answer [OF assms(1)])
  with Suc.IH [of "(CONFNAK, rejs)" "naks @ ?o"] show ?case by fastforce
qed

text \<open>
  C39. The buffer for a Nak has the size of one packet buffer, 592 bytes, but the request it
  answers can be longer, as it is collected from several, and nothing limits what is written: a
  request of more than 148 receive units below the minimum, 596 bytes, is answered by a Nak that
  is written beyond the end of the buffer.
\<close>
theorem lcp_nak_overruns:
  assumes "148 < n" and "neg_mru (lcp_allowoptions c)" and "nakp (nak_bufs c)"
    and "inp = concat (replicate n small_mru)"
  shows "case lcp_reqci rand nakp c inp False of (code, reply, _) \<Rightarrow>
    code = CONFNAK \<and> length reply = length inp \<and> PPP_CTRL_PBUF_MAX_SIZE < length reply"
proof -
  let ?c = "c\<lparr>lcp_hisoptions := zero_lcp_options, nak_bufs := Suc (nak_bufs c)\<rparr>"
  have n: "length inp = 4 * n" by (simp add: assms(4) length_concat small_mru_def sum_list_replicate)
  obtain naks where "lcp_reqci_loop rand False ?c inp ((CONFACK, []), []) = ((CONFNAK, []), naks, ?c)"
      "length naks = 4 * n"
    using small_mru_loop [of ?c "(CONFACK, [])" "[]" n rand "[]"] assms by auto
  with n assms(1,3) show ?thesis by (simp add: lcp_reqci_def Let_def)
qed

theorem lcp_nak_overruns_witness:
  "case lcp_reqci of_nat (\<lambda>_. True) first_lcp (concat (replicate 149 small_mru)) False of
     (code, reply, _) \<Rightarrow> PPP_CTRL_PBUF_MAX_SIZE < length reply"
proof -
  have "neg_mru (lcp_allowoptions first_lcp)"
    by (simp add: first_lcp_def lcp_resetci_def magic_def lcp_init_def fsm_init_def cleared_fsm_def Let_def)
  from lcp_nak_overruns [OF _ this, of 149 "\<lambda>_. True" _ of_nat, OF _ TrueI refl]
  show ?thesis by (simp add: case_prod_unfold)
qed

end
