(* ===== verification/Fsm_Owner.thy ===== *)
theory Fsm_Owner
  imports Ppp_Fsm
begin

unbundle bit_operations_syntax

text \<open>
  What the owner of a negotiation automaton relies on: an invariant of the protocol's private
  state that every callback keeps is kept by the automaton, and what an automaton on a link that
  is up reports when it leaves the states in which it works.
\<close>

section \<open>Handlers that keep the protocol's state\<close>

lemma sdata_ci [simp]: "ci (fsm_sdata alloc pcb code i d f) = ci f"
  by (simp add: fsm_sdata_def Let_def)

lemma replies_ci [simp]: "ci (fold (\<lambda>(c, i, d). fsm_sdata alloc pcb c i d) rs f) = ci f"
  "ci (fold (\<lambda>x. fsm_sdata alloc pcb (fst x) (fst (snd x)) (snd (snd x))) rs f) = ci f"
  by (induction rs arbitrary: f) (simp_all add: case_prod_unfold)

lemma helpers_ci [simp]: "ci (start_timer f) = ci f" "ci (stop_timer f) = ci f" "ci (send_termreq alloc pcb f) = ci f"
  by (simp_all add: start_timer_def stop_timer_def send_termreq_def Let_def)

lemma terminate_ci [simp]: "ci (terminate_layer alloc cb pcb st f) = ci f"
  by (simp add: terminate_layer_def Let_def)

lemma close_ci [simp]: "ci (fsm_close alloc cb pcb reason f) = ci f"
  by (cases "fstate f") (simp_all add: fsm_close_def)

lemma lowerdown_ci [simp]: "ci (fsm_lowerdown cb f) = ci f"
  by (cases "fstate f") (simp_all add: fsm_lowerdown_def)

lemma protreject_ci [simp]: "ci (fsm_protreject alloc cb pcb f) = ci f"
  by (cases "fstate f") (simp_all add: fsm_protreject_def)

lemma answered_ci [simp]: "ci (answered cb code f) = ci f"
  by (simp add: answered_def Let_def)

section \<open>Invariants of the protocol's state\<close>

text \<open>First what needs no assumption on the peer's suggestions.\<close>

locale ci_request =
  fixes cb :: "'ci fsm_callbacks" and P :: "'ci \<Rightarrow> bool"
  assumes resetci: "resetci cb = Some r \<Longrightarrow> P c \<Longrightarrow> P (r c)"
    and cilen: "cilen cb = Some l \<Longrightarrow> P c \<Longrightarrow> P (snd (l c))"
    and addci: "addci cb = Some a \<Longrightarrow> P c \<Longrightarrow> P (snd (a c n))"
    and reqci: "reqci cb = Some q \<Longrightarrow> P c \<Longrightarrow> P (snd (snd (q c p rej)))"
    and extcode: "extcode cb = Some x \<Longrightarrow> P c \<Longrightarrow> P (snd (snd (x st c code i p)))"
begin

lemma length_keeps: "P c \<Longrightarrow> P (snd (request_length cb pcb c))"
  using cilen by (auto simp: request_length_def Let_def case_prod_unfold split: option.split)

lemma options_keep: "P c \<Longrightarrow> P (snd (request_options cb n c))"
  using addci by (auto simp: request_options_def split: option.split)

lemma sconfreq_keeps: "P (ci f) \<Longrightarrow> P (ci (fsm_sconfreq alloc cb pcb r f))"
  using resetci by (auto simp: fsm_sconfreq_def Let_def start_timer_def case_prod_unfold length_keeps options_keep
      split: option.split)

lemma lowerup_keeps: "P (ci f) \<Longrightarrow> P (ci (fsm_lowerup alloc cb pcb f))"
  by (cases "fstate f") (simp_all add: fsm_lowerup_def sconfreq_keeps)

lemma restart_keeps: "P (ci f) \<Longrightarrow> P (ci (fsm_restart alloc cb pcb f))"
  by (simp add: fsm_restart_def lowerup_keeps)

lemma open_keeps: "P (ci f) \<Longrightarrow> P (ci (fsm_open alloc cb pcb f))"
  by (cases "fstate f") (simp_all add: fsm_open_def sconfreq_keeps restart_keeps)

lemma timeout_keeps: "P (ci f) \<Longrightarrow> P (ci (fsm_timeout alloc cb pcb f))"
  by (simp add: fsm_timeout_def Let_def sconfreq_keeps)

lemma renegotiate_keeps: "P (ci f) \<Longrightarrow> P (ci (renegotiate alloc cb pcb f))"
  by (simp add: renegotiate_def sconfreq_keeps)

lemma enter_keeps: "P (ci f) \<Longrightarrow> P (ci (enter_negotiation alloc cb pcb f))"
  by (cases "fstate f") (simp_all add: enter_negotiation_def sconfreq_keeps renegotiate_keeps)

lemma rconfreq_keeps: "P (ci f) \<Longrightarrow> P (ci (fsm_rconfreq alloc cb pcb i inp f))"
  using reqci enter_keeps
  by (auto simp: fsm_rconfreq_def Let_def fsm_reqci_def case_prod_unfold split: option.split)

lemma rconfack_keeps: "P (ci f) \<Longrightarrow> P (ci (fsm_rconfack alloc cb pcb i inp f))"
  by (cases "fstate f") (simp_all add: fsm_rconfack_def Let_def sconfreq_keeps renegotiate_keeps)

lemma other_codes_keep:
  "ci (fsm_rtermreq alloc cb pcb i f) = ci f" "ci (fsm_rcoderej inp f) = ci f"
  "P (ci f) \<Longrightarrow> P (ci (fsm_rtermack alloc cb pcb f))"
  by (cases "fstate f"; simp add: fsm_rtermreq_def fsm_rcoderej_def fsm_rtermack_def renegotiate_keeps)+

end

locale ci_invariant = ci_request +
  assumes nakci: "nakci cb = Some k \<Longrightarrow> P c \<Longrightarrow> P (fst (snd (k st c p rej)))"
    and rejci: "rejci cb = Some j \<Longrightarrow> P c \<Longrightarrow> P (snd (j st c p))"
begin

lemma nakrej_callback_keeps: "P (ci f) \<Longrightarrow> P (ci (snd (fsm_nakrej_callback alloc cb pcb code inp f)))"
  using nakci rejci
  by (auto simp: fsm_nakrej_callback_def Let_def case_prod_unfold split: option.split)

lemma nakrej_next_keeps: "P (ci f) \<Longrightarrow> P (ci (nakrej_next alloc cb pcb i ret f))"
  by (cases "fstate f") (simp_all add: nakrej_next_def Let_def sconfreq_keeps renegotiate_keeps)

lemma rconfnakrej_keeps: "P (ci f) \<Longrightarrow> P (ci (fsm_rconfnakrej alloc cb pcb code i inp f))"
proof -
  assume P: "P (ci f)"
  obtain ret g where g: "fsm_nakrej_callback alloc cb pcb code inp
      (f\<lparr>rnakloops := (if code = CONFNAK then rnakloops f + 1 else 0)\<rparr>) = (ret, g)" by fastforce
  have "P (ci g)"
    using nakrej_callback_keeps [where f = "f\<lparr>rnakloops := (if code = CONFNAK then rnakloops f + 1 else 0)\<rparr>"
        and alloc = alloc and pcb = pcb and code = code and inp = inp] P by (simp add: g)
  then show ?thesis using P by (simp add: fsm_rconfnakrej_def g nakrej_next_keeps)
qed

lemma code_keeps: "P (ci f) \<Longrightarrow> P (ci (fsm_code alloc cb pcb code i inp whole f))"
  using extcode by (auto simp: fsm_code_def Let_def case_prod_unfold rconfreq_keeps rconfack_keeps rconfnakrej_keeps
      other_codes_keep split: option.split)

lemma input_keeps: "P (ci f) \<Longrightarrow> P (ci (fsm_input alloc cb pcb p f))"
  by (simp add: fsm_input_def Let_def code_keeps)

end

section \<open>An automaton on a link that is up\<close>

text \<open>
  It works on the link, or waits for the peer because the owner wants that. When it stops doing
  so it reports that it has finished, in CLOSED or STOPPED. What is reported is the rest of the
  log; \<open>Up\<close> and \<open>Down\<close> say whether the layer above is up.
\<close>

definition working :: "'ci fsm \<Rightarrow> bool" where
  "working f \<longleftrightarrow> fstate f = PPP_FSM_OPENED \<or> waiting (fstate f) \<or>
     fstate f = PPP_FSM_STOPPED \<and> (flags f AND OPT_PASSIVE \<noteq> 0 \<or> flags f AND OPT_SILENT \<noteq> 0)"

definition finishes :: "fsm_event list \<Rightarrow> 'ci fsm \<Rightarrow> 'ci fsm \<Rightarrow> bool" where
  "finishes new f f' \<longleftrightarrow>
     events f' = events f @ new \<and> flags f' = flags f \<and>
     (let b = (fstate f = PPP_FSM_OPENED); b' = (fstate f' = PPP_FSM_OPENED)
      in new = [] \<and> b = b' \<and> working f' \<or> new = [Up] \<and> \<not> b \<and> b' \<or> new = [Down] \<and> b \<and> \<not> b' \<and> working f' \<or>
         (new = [Finished] \<and> \<not> b \<or> new = [Down, Finished] \<and> b) \<and>
           (fstate f' = PPP_FSM_CLOSED \<or> fstate f' = PPP_FSM_STOPPED))"

lemmas finishes_defs = finishes_def working_def waiting_def negotiating_def

lemma finishes_cases:
  assumes "finishes new f f'"
  shows "Finished \<notin> set new \<Longrightarrow> working f'"
    and "Finished \<in> set new \<Longrightarrow> fstate f' = PPP_FSM_CLOSED \<or> fstate f' = PPP_FSM_STOPPED"
  using assms by (auto simp: finishes_def Let_def) (simp add: working_def)

locale link_callbacks =
  fixes cb :: "'ci fsm_callbacks"
  assumes reports [simp]: "reports cb Up" "reports cb Down" "reports cb Finished" "\<not> reports cb Retransmit"
    and nakci_result: "nakci cb = Some k \<Longrightarrow> 0 \<le> fst (k st c p rej)"
    and rejci_result: "rejci cb = Some j \<Longrightarrow> 0 \<le> fst (j st c p)"
begin

lemma timeout_finishes: "working f \<Longrightarrow> \<exists>new. finishes new f (fsm_timeout alloc cb pcb f)"
  by (cases "fstate f") (auto simp: fsm_timeout_def Let_def finishes_defs)

lemma terminate_finishes:
  assumes "fstate f = PPP_FSM_OPENED \<or> negotiating (fstate f)" "st = PPP_FSM_CLOSING \<or> st = PPP_FSM_STOPPING"
  shows "\<exists>new. finishes new f (terminate_layer alloc cb pcb st f)"
  using assms by (auto simp: terminate_layer_def Let_def finishes_defs)

lemma finishes_reason: "finishes new (f\<lparr>term_reason := r\<rparr>) g \<longleftrightarrow> finishes new f g"
  by (simp add: finishes_def)

lemma close_finishes:
  assumes "working f" "fstate f \<noteq> PPP_FSM_STOPPED"
  shows "\<exists>new. finishes new f (fsm_close alloc cb pcb reason f)"
proof -
  have t: "\<exists>new. finishes new f (terminate_layer alloc cb pcb PPP_FSM_CLOSING (f\<lparr>term_reason := r\<rparr>))"
    if "fstate f = PPP_FSM_OPENED \<or> negotiating (fstate f)" for r
    using terminate_finishes [of "f\<lparr>term_reason := r\<rparr>"] that by (simp add: finishes_reason)
  show ?thesis
    by (cases "fstate f") (use assms t in \<open>simp_all add: fsm_close_def Let_def negotiating_def\<close>,
        auto simp: finishes_defs)
qed

lemma protreject_finishes:
  assumes "working f" "fstate f \<noteq> PPP_FSM_STOPPED"
  shows "\<exists>new. finishes new f (fsm_protreject alloc cb pcb f)"
proof (cases "fstate f = PPP_FSM_OPENED")
  case True
  then show ?thesis by (simp add: fsm_protreject_def terminate_finishes)
next
  case False
  then show ?thesis
    by (cases "fstate f") (use assms in \<open>auto simp: fsm_protreject_def Let_def finishes_defs\<close>)
qed

lemma rconfreq_finishes: "working f \<Longrightarrow> \<exists>new. finishes new f (fsm_rconfreq alloc cb pcb i inp f)"
  by (cases "fstate f") (auto simp: fsm_rconfreq_def enter_negotiation_def answered_def Let_def finishes_defs
      case_prod_unfold renegotiate_def)

lemma rconfack_finishes: "working f \<Longrightarrow> \<exists>new. finishes new f (fsm_rconfack alloc cb pcb i inp f)"
  by (cases "fstate f") (auto simp: fsm_rconfack_def Let_def finishes_defs renegotiate_def)

lemma other_codes_finish:
  "working f \<Longrightarrow> \<exists>new. finishes new f (fsm_rtermreq alloc cb pcb i f)"
  "working f \<Longrightarrow> \<exists>new. finishes new f (fsm_rtermack alloc cb pcb f)"
  "working f \<Longrightarrow> \<exists>new. finishes new f (fsm_rcoderej inp f)"
  by (cases "fstate f"; auto simp: fsm_rtermreq_def fsm_rtermack_def fsm_rcoderej_def Let_def finishes_defs renegotiate_def)+

text \<open>
  A Nak may close the automaton; but what comes before the automaton goes on from there is the
  owner's, in STOPPED.
\<close>

lemma nakrej_next_finishes:
  "0 \<le> ret \<Longrightarrow> fstate f \<noteq> PPP_FSM_CLOSED \<Longrightarrow> fstate f \<noteq> PPP_FSM_OPENED \<Longrightarrow> working f \<Longrightarrow>
    finishes [] f (nakrej_next alloc cb pcb i ret f)"
  "0 \<le> ret \<Longrightarrow> fstate f = PPP_FSM_OPENED \<Longrightarrow> finishes [Down] f (nakrej_next alloc cb pcb i ret f)"
  "fstate f = PPP_FSM_CLOSED \<or> fstate f = PPP_FSM_STOPPED \<Longrightarrow>
    fstate (nakrej_next alloc cb pcb i ret f) = fstate f \<and> events (nakrej_next alloc cb pcb i ret f) = events f \<and>
    flags (nakrej_next alloc cb pcb i ret f) = flags f"
  by (cases "fstate f"; auto simp: nakrej_next_def Let_def finishes_defs renegotiate_def)+

lemma nakrej_callback_result:
  assumes "fsm_nakrej_callback alloc cb pcb code inp f = (ret, g)"
  shows "0 \<le> ret \<and> (\<exists>c. g = f\<lparr>ci := c\<rparr> \<or> (\<exists>r. g = fsm_close alloc cb pcb r (f\<lparr>ci := c\<rparr>)))"
proof (cases "code = CONFNAK")
  case True
  show ?thesis
  proof (cases "nakci cb")
    case None
    then have "ret = 0" "g = f\<lparr>ci := ci f\<rparr>" using assms True by (simp_all add: fsm_nakrej_callback_def)
    then show ?thesis by blast
  next
    case (Some k)
    obtain r c reason where k: "k (fstate f) (ci f) inp (maxnakloops f \<le> rnakloops f) = (r, c, reason)" by (metis prod_cases3)
    have "0 \<le> r" using nakci_result [OF Some, of "fstate f" "ci f" inp "maxnakloops f \<le> rnakloops f"] k by simp
    moreover have "ret = r" "g = (case reason of Some x \<Rightarrow> fsm_close alloc cb pcb x (f\<lparr>ci := c\<rparr>) | None \<Rightarrow> f\<lparr>ci := c\<rparr>)"
      using assms True Some k by (simp_all add: fsm_nakrej_callback_def Let_def)
    ultimately show ?thesis by (cases reason) auto
  qed
next
  case False
  show ?thesis
  proof (cases "rejci cb")
    case None
    then have "ret = 0" "g = f\<lparr>ci := ci f\<rparr>" using assms False by (simp_all add: fsm_nakrej_callback_def)
    then show ?thesis by blast
  next
    case (Some j)
    obtain r c where j: "j (fstate f) (ci f) inp = (r, c)" by fastforce
    have "0 \<le> r" using rejci_result [OF Some, of "fstate f" "ci f" inp] j by simp
    moreover have "ret = r" "g = f\<lparr>ci := c\<rparr>" using assms False Some j by (simp_all add: fsm_nakrej_callback_def Let_def)
    ultimately show ?thesis by blast
  qed
qed

lemma close_left: "fstate (fsm_close alloc cb pcb r f) \<noteq> PPP_FSM_OPENED \<and> \<not> negotiating (fstate (fsm_close alloc cb pcb r f)) \<and>
    fstate (fsm_close alloc cb pcb r f) \<noteq> PPP_FSM_STOPPED"
  by (cases "fstate f") (simp_all add: fsm_close_def terminate_layer_def Let_def negotiating_def)

lemma finishes_then:
  assumes "finishes new f g" "fstate h = fstate g" "events h = events g" "flags h = flags g"
  shows "finishes new f h"
proof -
  have "working h = working g" using assms(2,4) by (simp add: working_def)
  with assms(1) show ?thesis unfolding finishes_def assms(2-4) by simp
qed

lemma working_ci [simp]: "working (f\<lparr>ci := c\<rparr>) = working f" "finishes new (f\<lparr>ci := c\<rparr>) g = finishes new f g"
  by (simp_all add: working_def finishes_def)

lemma working_rnakloops [simp]: "working (f\<lparr>rnakloops := n\<rparr>) = working f" "finishes new (f\<lparr>rnakloops := n\<rparr>) g = finishes new f g"
  by (simp_all add: working_def finishes_def)

lemma working_seen_ack [simp]: "working (f\<lparr>seen_ack := b\<rparr>) = working f" "finishes new (f\<lparr>seen_ack := b\<rparr>) g = finishes new f g"
  by (simp_all add: working_def finishes_def)

lemma rconfnakrej_finishes:
  assumes "working f" "fstate f \<noteq> PPP_FSM_STOPPED"
  shows "\<exists>new. finishes new f (fsm_rconfnakrej alloc cb pcb code i inp f)"
proof -
  let ?f = "f\<lparr>rnakloops := (if code = CONFNAK then rnakloops f + 1 else 0)\<rparr>"
  obtain ret g where g: "fsm_nakrej_callback alloc cb pcb code inp ?f = (ret, g)" by fastforce
  let ?h = "nakrej_next alloc cb pcb i ret (g\<lparr>seen_ack := True\<rparr>)"
  from nakrej_callback_result [OF g] obtain c where ret: "0 \<le> ret"
    and c: "g = ?f\<lparr>ci := c\<rparr> \<or> (\<exists>r. g = fsm_close alloc cb pcb r (?f\<lparr>ci := c\<rparr>))" by blast
  have same: "\<exists>new. finishes new f f" using assms(1) by (simp add: finishes_def)
  have "(\<exists>new. finishes new f g) \<and> (\<exists>new. finishes new f ?h)"
  proof (cases "g = ?f\<lparr>ci := c\<rparr>")
    case True
    then have "finishes [] f g" using assms(1) by (simp add: finishes_def working_def)
    moreover have "\<exists>new. finishes new (g\<lparr>seen_ack := True\<rparr>) ?h"
    proof (cases "fstate f = PPP_FSM_OPENED")
      case o: True
      show ?thesis by (rule exI, rule nakrej_next_finishes(2) [OF ret]) (use True o in simp)
    next
      case o: False
      have "fstate g \<noteq> PPP_FSM_CLOSED" "working (g\<lparr>seen_ack := True\<rparr>)" using True assms(1)
        by (auto simp: working_def waiting_def negotiating_def)
      then show ?thesis by (intro exI [of _ "[]"] nakrej_next_finishes(1) [OF ret]) (use True o in simp_all)
    qed
    ultimately show ?thesis using True by auto
  next
    case False
    with c obtain r where r: "g = fsm_close alloc cb pcb r (?f\<lparr>ci := c\<rparr>)" by blast
    obtain new where new: "finishes new f g" using close_finishes [of "?f\<lparr>ci := c\<rparr>" alloc pcb r] assms r by auto
    have l: "fstate g \<noteq> PPP_FSM_OPENED" "\<not> negotiating (fstate g)" "fstate g \<noteq> PPP_FSM_STOPPED"
      using close_left [of alloc pcb r "?f\<lparr>ci := c\<rparr>"] r by simp_all
    then have "fstate ?h = fstate g \<and> events ?h = events g \<and> flags ?h = flags g"
      by (cases "fstate g") (simp_all add: nakrej_next_def negotiating_def)
    with new have "finishes new f ?h" by (intro finishes_then [OF new]) simp_all
    with new show ?thesis by blast
  qed
  with same show ?thesis by (cases "i = reqid f") (simp_all add: fsm_rconfnakrej_def g)
qed

lemma quiet_finishes:
  assumes "working f" "fstate g = fstate f" "events g = events f" "flags g = flags f"
  shows "\<exists>new. finishes new f g"
proof -
  have "finishes [] f f" using assms(1) by (simp add: finishes_def)
  then show ?thesis using finishes_then [OF _ assms(2-4)] by blast
qed

lemma replies_flags [simp]: "flags (fold (\<lambda>(c, i, d). fsm_sdata alloc pcb c i d) rs f) = flags f"
  by (induction rs arbitrary: f) (simp_all add: case_prod_unfold)

lemma other_code_finishes:
  assumes "working f"
  shows "\<exists>new. finishes new f
    (let (known, replies, ci') = x;
         f = fold (\<lambda>(code, i, d). fsm_sdata alloc pcb code i d) replies (f\<lparr>ci := ci'\<rparr>)
     in if known then f else (let f = f\<lparr>id_no := id_no f + 1\<rparr> in fsm_sdata alloc pcb CODEREJ (id_no f) whole f))"
  by (rule quiet_finishes [OF assms]) (simp_all add: Let_def split: prod.split)

lemma input_finishes:
  assumes "working f" "fstate f \<noteq> PPP_FSM_STOPPED"
  shows "\<exists>new. finishes new f (fsm_input alloc cb pcb p f)"
proof -
  have same: "\<exists>new. finishes new f f" using assms(1) by (simp add: finishes_def)
  show ?thesis
    using same rconfreq_finishes [OF assms(1)] rconfack_finishes [OF assms(1)] rconfnakrej_finishes [OF assms]
      other_codes_finish [OF assms(1)]
      other_code_finishes [OF assms(1)]
    by (simp add: fsm_input_def fsm_code_def Let_def [of "unat _"])
qed

end

end
