(* ===== verification/Ppp_Session.thy ===== *)
theory Ppp_Session
  imports Lcp_Replies Ipcp_Link Fsm_Owner
begin

unbundle bit_operations_syntax

text \<open>
  A PPP session as a whole: the link control protocol of \<open>lcp.c\<close> between the session layer
  (\<open>Ppp_Core\<close>), the serial link below it and the network protocols above it (\<open>Ipcp_Link\<close>), with
  the keepalive timer, and every way in which the program and the peer reach it.

  The control block of \<open>Ipcp_Link\<close> is extended once more. The reporting callbacks of the automaton
  of LCP are called when it has run, with the options as they were before; \<open>Up\<close> and \<open>Finished\<close> are the
  last thing that happens. \<open>Down\<close> is the first, and resets the receive unit of the peer before
  anything is sent: such a run is made with the default unit. When IPCP has nothing left to do
  it calls \<open>lcp_close\<close> as the last thing it does, so this is done when it has run.

  A Nak that shows the line to be looped back makes \<open>lcp_nakci\<close> call \<open>lcp_close\<close>; the part of this
  that concerns the automaton is in its run, the rest comes after it. If the automaton then
  finishes at once, because no Terminate-Request is allowed or it was waiting in STOPPED as the
  owner wants, the run sends one Terminate-Ack that the code does not send.

  The receive unit of the peer belongs to the session, not to the options: that \<open>lcp_resetci\<close> sets it
  to \<open>PPP_MRU\<close> is not repeated here, because a request is only built when LCP is not open, and
  \<open>lcp_lowerup\<close> and \<open>lcp_down\<close> have set it before (\<open>Session_Spec.session_line\<close>).
\<close>

section \<open>The control block, the settings and what is outside\<close>

abbreviation (input) "PPPERR_PEERDEAD \<equiv> 9 :: u8"
abbreviation (input) "PPPERR_LOOPBACK \<equiv> 12 :: u8"
abbreviation (input) "DELAYED_UP \<equiv> 0x80 :: u8"

record ppp_session = ip_link +
  lcp_fsm :: "lcp fsm"
  lcp_peer_mru :: u16
  netif_mtu :: u16
  sent_config :: "u32 \<times> bool \<times> bool"   \<comment> \<open>\<open>out_accm\<close>, \<open>pcomp\<close>, \<open>accomp\<close> of the serial link\<close>
  rcvd_config :: u32                   \<comment> \<open>\<open>in_accm\<close> of the serial link\<close>
  lcp_echo_number :: u8
  lcp_echo_timer_running :: bool
  echo_timer :: bool                   \<comment> \<open>a timeout of \<open>LcpEchoTimeout\<close> is pending\<close>
  delayed_timer :: bool                \<comment> \<open>a timeout of \<open>lcp_delayed_up\<close> is pending\<close>

text \<open>
  The settings of the control block, which do not change while a session lasts, and what is
  outside: which allocations succeed, and the random numbers.
\<close>

record session_env =
  fsm_settings :: fsm_pcb
  lax_recv :: bool
  listen_time :: u16
  lcp_echo_interval :: u8
  lcp_echo_fails :: u8
  lcp_alloc :: "nat \<Rightarrow> bool"
  ipcp_alloc :: "nat \<Rightarrow> bool"
  nak_alloc :: "nat \<Rightarrow> bool"
  magic_numbers :: "nat \<Rightarrow> u32"

abbreviation "lcp_cb E \<equiv> lcp_callbacks (magic_numbers E) (nak_alloc E)"

definition with_mru :: "session_env \<Rightarrow> u16 \<Rightarrow> u16 \<Rightarrow> fsm_pcb" where
  "with_mru E protocol m = (fsm_settings E)\<lparr>peer_mru := unat m, fsm_protocol := protocol\<rparr>"

definition ipcp_settings :: "session_env \<Rightarrow> 'a ppp_session_scheme \<Rightarrow> fsm_pcb" where
  "ipcp_settings E s = with_mru E PPP_IPCP (lcp_peer_mru s)"

definition with_lcp :: "(lcp \<Rightarrow> lcp) \<Rightarrow> 'a ppp_session_scheme \<Rightarrow> 'a ppp_session_scheme" where
  "with_lcp h s = s\<lparr>lcp_fsm := (lcp_fsm s)\<lparr>ci := h (ci (lcp_fsm s))\<rparr>\<rparr>"

definition with_flags :: "(u8 \<Rightarrow> u8) \<Rightarrow> 'a ppp_session_scheme \<Rightarrow> 'a ppp_session_scheme" where
  "with_flags h s = s\<lparr>lcp_fsm := (lcp_fsm s)\<lparr>flags := h (flags (lcp_fsm s))\<rparr>\<rparr>"

definition is_delayed :: "'a ppp_session_scheme \<Rightarrow> bool" where
  "is_delayed s \<longleftrightarrow> flags (lcp_fsm s) AND DELAYED_UP \<noteq> 0"

definition ppp_send_config :: "u32 \<Rightarrow> bool \<Rightarrow> bool \<Rightarrow> 'a ppp_session_scheme \<Rightarrow> 'a ppp_session_scheme" where
  "ppp_send_config accm pcomp accomp s = s\<lparr>sent_config := (accm, pcomp, accomp)\<rparr>"

definition ppp_recv_config :: "u32 \<Rightarrow> 'a ppp_session_scheme \<Rightarrow> 'a ppp_session_scheme" where
  "ppp_recv_config accm s = s\<lparr>rcvd_config := accm\<rparr>"

definition netif_set_mtu :: "u16 \<Rightarrow> 'a ppp_session_scheme \<Rightarrow> 'a ppp_session_scheme" where
  "netif_set_mtu m s = s\<lparr>netif_mtu := m\<rparr>"

section \<open>LCP leaves the line\<close>

text \<open>A run of the automaton, and then the calls of \<open>h\<close> for what it reports.\<close>

definition lcp_run :: "session_env \<Rightarrow> (fsm_pcb \<Rightarrow> lcp fsm \<Rightarrow> lcp fsm) \<Rightarrow> 'a ppp_session_scheme \<Rightarrow> lcp fsm" where
  "lcp_run E op s =
     (let f = lcp_fsm s; f' = op (with_mru E PPP_LCP (lcp_peer_mru s)) f
      in if Down \<in> set (drop (length (events f)) (events f')) then op (with_mru E PPP_LCP PPP_MRU) f else f')"

definition lcp_call ::
  "session_env \<Rightarrow> (fsm_pcb \<Rightarrow> lcp fsm \<Rightarrow> lcp fsm) \<Rightarrow> (lcp \<Rightarrow> fsm_event \<Rightarrow> 'a ppp_session_scheme \<Rightarrow> 'a ppp_session_scheme) \<Rightarrow>
    'a ppp_session_scheme \<Rightarrow> 'a ppp_session_scheme" where
  "lcp_call E op h s =
     (let f = lcp_fsm s; f' = lcp_run E op s
      in fold (h (ci f)) (drop (length (events f)) (events f')) (s\<lparr>lcp_fsm := f'\<rparr>))"

definition lcp_echo_lowerdown :: "'a ppp_session_scheme \<Rightarrow> 'a ppp_session_scheme" where
  "lcp_echo_lowerdown s =
     (if lcp_echo_timer_running s then s\<lparr>echo_timer := False, lcp_echo_timer_running := False\<rparr> else s)"

definition lcp_down :: "session_env \<Rightarrow> lcp \<Rightarrow> 'a ppp_session_scheme \<Rightarrow> 'a ppp_session_scheme" where
  "lcp_down E c s =
     (let go = lcp_gotoptions c;
          s = lcp_echo_lowerdown s;
          s = link_down (ipcp_alloc E) (ipcp_settings E s) s;
          s = ppp_send_config 0xffffffff False False s;
          s = ppp_recv_config (if neg_asyncmap go then asyncmap go else 0xffffffff) s
      in s\<lparr>lcp_peer_mru := PPP_MRU\<rparr>)"

definition lcp_lowerdown :: "session_env \<Rightarrow> 'a ppp_session_scheme \<Rightarrow> 'a ppp_session_scheme" where
  "lcp_lowerdown E s =
     (if is_delayed s then (with_flags (\<lambda>n. n AND NOT DELAYED_UP) s)\<lparr>delayed_timer := False\<rparr>
      else lcp_call E (\<lambda>_. fsm_lowerdown (lcp_cb E)) (\<lambda>c e s. if e = Down then lcp_down E c s else s) s)"

definition lcp_finished :: "session_env \<Rightarrow> 'a ppp_session_scheme \<Rightarrow> 'a ppp_session_scheme" where
  "lcp_finished E s = link_terminated (lcp_lowerdown E) s"

definition lcp_leaves :: "session_env \<Rightarrow> lcp \<Rightarrow> fsm_event \<Rightarrow> 'a ppp_session_scheme \<Rightarrow> 'a ppp_session_scheme" where
  "lcp_leaves E c e s = (case e of Down \<Rightarrow> lcp_down E c s | Finished \<Rightarrow> lcp_finished E s | _ \<Rightarrow> s)"

definition lcp_close :: "session_env \<Rightarrow> string \<Rightarrow> 'a ppp_session_scheme \<Rightarrow> 'a ppp_session_scheme" where
  "lcp_close E reason s =
     (let s = (if phase s \<noteq> PPP_PHASE_DEAD then new_phase PPP_PHASE_TERMINATE s else s);
          s = (if is_delayed s
               then s\<lparr>delayed_timer := False, lcp_fsm := (lcp_fsm s)\<lparr>fstate := PPP_FSM_STOPPED\<rparr>\<rparr> else s);
          oldstate = fstate (lcp_fsm s);
          s = lcp_call E (\<lambda>fp. fsm_close (lcp_alloc E) (lcp_cb E) fp (str reason)) (lcp_leaves E) s
      in if oldstate = PPP_FSM_STOPPED \<and> flags (lcp_fsm s) AND (OPT_PASSIVE OR OPT_SILENT OR DELAYED_UP) \<noteq> 0
         then lcp_finished E (with_flags (\<lambda>n. n AND NOT DELAYED_UP) s) else s)"

definition lcp_protrej :: "session_env \<Rightarrow> 'a ppp_session_scheme \<Rightarrow> 'a ppp_session_scheme" where
  "lcp_protrej E = lcp_call E (fsm_protreject (lcp_alloc E) (lcp_cb E)) (lcp_leaves E)"

text \<open>Something happens to IPCP, which may ask for the end of the connection.\<close>

definition network_call :: "session_env \<Rightarrow> ('a ppp_session_scheme \<Rightarrow> 'a ppp_session_scheme) \<Rightarrow> 'a ppp_session_scheme \<Rightarrow> 'a ppp_session_scheme" where
  "network_call E op s =
     (let s' = op s
      in (lcp_close E ''No network protocols running'' ^^ (lcp_closes s' - lcp_closes s)) s')"

section \<open>The keepalive\<close>

definition LcpLinkFailure :: "session_env \<Rightarrow> 'a ppp_session_scheme \<Rightarrow> 'a ppp_session_scheme" where
  "LcpLinkFailure E s =
     (if fstate (lcp_fsm s) = PPP_FSM_OPENED
      then lcp_close E ''Peer not responding'' (s\<lparr>err_code := PPPERR_PEERDEAD\<rparr>) else s)"

definition LcpSendEchoRequest :: "session_env \<Rightarrow> 'a ppp_session_scheme \<Rightarrow> 'a ppp_session_scheme" where
  "LcpSendEchoRequest E s =
     (let s = (if lcp_echo_fails E \<noteq> 0 \<and> lcp_echo_fails E \<le> lcp_echos_pending (ci (lcp_fsm s))
               then with_lcp (\<lambda>c. c\<lparr>lcp_echos_pending := 0\<rparr>) (LcpLinkFailure E s) else s)
      in if fstate (lcp_fsm s) = PPP_FSM_OPENED
         then let go = lcp_gotoptions (ci (lcp_fsm s));
                  f = fsm_sdata (lcp_alloc E) (with_mru E PPP_LCP (lcp_peer_mru s)) ECHOREQ (lcp_echo_number s)
                        (put_long (magicnumber go)) (lcp_fsm s)
              in with_lcp (\<lambda>c. c\<lparr>lcp_echos_pending := lcp_echos_pending c + 1\<rparr>)
                   (s\<lparr>lcp_fsm := f, lcp_echo_number := lcp_echo_number s + 1\<rparr>)
         else s)"

definition LcpEchoCheck :: "session_env \<Rightarrow> 'a ppp_session_scheme \<Rightarrow> 'a ppp_session_scheme" where
  "LcpEchoCheck E s =
     (let s = LcpSendEchoRequest E s
      in if fstate (lcp_fsm s) \<noteq> PPP_FSM_OPENED then s
         else s\<lparr>echo_timer := True, lcp_echo_timer_running := True\<rparr>)"

definition LcpEchoTimeout :: "session_env \<Rightarrow> 'a ppp_session_scheme \<Rightarrow> 'a ppp_session_scheme" where
  "LcpEchoTimeout E s =
     (if lcp_echo_timer_running s then LcpEchoCheck E (s\<lparr>lcp_echo_timer_running := False\<rparr>) else s)"

definition lcp_echo_lowerup :: "session_env \<Rightarrow> 'a ppp_session_scheme \<Rightarrow> 'a ppp_session_scheme" where
  "lcp_echo_lowerup E s =
     (let s = (with_lcp (\<lambda>c. c\<lparr>lcp_echos_pending := 0\<rparr>) s)\<lparr>lcp_echo_number := 0, lcp_echo_timer_running := False\<rparr>
      in if lcp_echo_interval E \<noteq> 0 then LcpEchoCheck E s else s)"

section \<open>LCP comes up\<close>

text \<open>What \<open>lcp_up\<close> does first: numbers that were not negotiated, and the configuration of the line.\<close>

definition lcp_settle :: "lcp \<Rightarrow> lcp" where
  "lcp_settle c =
     (let go = lcp_gotoptions c; ho = lcp_hisoptions c
      in c\<lparr>lcp_gotoptions := if \<not> neg_magicnumber go then go\<lparr>magicnumber := 0\<rparr> else go,
           lcp_hisoptions := if \<not> neg_magicnumber ho then ho\<lparr>magicnumber := 0\<rparr> else ho\<rparr>)"

definition lcp_mtu :: "lcp \<Rightarrow> u16" where
  "lcp_mtu c =
     (let wo = lcp_wantoptions c; ho = lcp_hisoptions c; go = lcp_gotoptions c; ao = lcp_allowoptions c;
          mtu = (if neg_mru ho then mru ho else PPP_MRU);
          mru' = (if neg_mru go then max (mru wo) (mru go) else PPP_MRU)
      in min (min mtu mru') (mru ao))"

definition lcp_configure :: "session_env \<Rightarrow> 'a ppp_session_scheme \<Rightarrow> 'a ppp_session_scheme" where
  "lcp_configure E s =
     (let c = ci (lcp_fsm s); ho = lcp_hisoptions c; go = lcp_gotoptions c;
          s = netif_set_mtu (lcp_mtu c) s;
          s = ppp_send_config (if neg_asyncmap ho then asyncmap ho else 0xffffffff) (neg_pcompression ho) (neg_accompression ho) s;
          s = ppp_recv_config (if lax_recv E then 0 else if neg_asyncmap go then asyncmap go else 0xffffffff) s
      in if neg_mru ho then s\<lparr>lcp_peer_mru := mru ho\<rparr> else s)"

definition lcp_up :: "session_env \<Rightarrow> 'a ppp_session_scheme \<Rightarrow> 'a ppp_session_scheme" where
  "lcp_up E s =
     (let s = lcp_echo_lowerup E (lcp_configure E (with_lcp lcp_settle s))
      in network_call E (link_established (ipcp_alloc E) (ipcp_settings E s)) s)"

definition lcp_reports :: "session_env \<Rightarrow> lcp \<Rightarrow> fsm_event \<Rightarrow> 'a ppp_session_scheme \<Rightarrow> 'a ppp_session_scheme" where
  "lcp_reports E c e s = (if e = Up then lcp_up E s else lcp_leaves E c e s)"

definition lcp_open :: "session_env \<Rightarrow> 'a ppp_session_scheme \<Rightarrow> 'a ppp_session_scheme" where
  "lcp_open E s =
     (let wo = lcp_wantoptions (ci (lcp_fsm s));
          s = with_flags (\<lambda>n. n AND NOT (OPT_PASSIVE OR OPT_SILENT)) s;
          s = (if opt_passive wo then with_flags (\<lambda>n. n OR OPT_PASSIVE) s else s);
          s = (if opt_silent wo then with_flags (\<lambda>n. n OR OPT_SILENT) s else s)
      in lcp_call E (fsm_open (lcp_alloc E) (lcp_cb E)) (lcp_reports E) s)"

definition lcp_fsm_lowerup :: "session_env \<Rightarrow> 'a ppp_session_scheme \<Rightarrow> 'a ppp_session_scheme" where
  "lcp_fsm_lowerup E = lcp_call E (fsm_lowerup (lcp_alloc E) (lcp_cb E)) (lcp_reports E)"

definition lcp_lowerup :: "session_env \<Rightarrow> 'a ppp_session_scheme \<Rightarrow> 'a ppp_session_scheme" where
  "lcp_lowerup E s =
     (let s = ppp_send_config 0xffffffff False False s;
          s = ppp_recv_config (if lax_recv E then 0 else 0xffffffff) s;
          s = s\<lparr>lcp_peer_mru := PPP_MRU\<rparr>
      in if listen_time E \<noteq> 0 then (with_flags (\<lambda>n. n OR DELAYED_UP) s)\<lparr>delayed_timer := True\<rparr>
         else lcp_fsm_lowerup E s)"

definition lcp_delayed_up :: "session_env \<Rightarrow> 'a ppp_session_scheme \<Rightarrow> 'a ppp_session_scheme" where
  "lcp_delayed_up E s =
     (if is_delayed s then lcp_fsm_lowerup E (with_flags (\<lambda>n. n AND NOT DELAYED_UP) s) else s)"

section \<open>Packets\<close>

definition rejected_by_peer :: "session_env \<Rightarrow> u16 \<Rightarrow> 'a ppp_session_scheme \<Rightarrow> 'a ppp_session_scheme" where
  "rejected_by_peer E prot s =
     (if prot = PPP_LCP then lcp_protrej E s else if prot = PPP_IPCP then network_call E ipcp_protrej s else s)"

text \<open>
  A packet given to the automaton of LCP; then what \<open>lcp_nakci\<close> and \<open>lcp_rprotrej\<close> did besides.
\<close>

definition lcp_fsm_input :: "session_env \<Rightarrow> u8 list \<Rightarrow> 'a ppp_session_scheme \<Rightarrow> 'a ppp_session_scheme" where
  "lcp_fsm_input E p s =
     (let op = (\<lambda>fp. fsm_input (lcp_alloc E) (lcp_cb E) fp p);
          f = lcp_fsm s; f' = lcp_run E op s;
          looped = (loopbacks (ci f) < loopbacks (ci f'));
          s = (if looped then s\<lparr>err_code := PPPERR_LOOPBACK\<rparr> else s);
          s = (if looped \<and> phase s \<noteq> PPP_PHASE_DEAD then new_phase PPP_PHASE_TERMINATE s else s);
          s = lcp_call E op (lcp_reports E) s;
          s = (if looped \<and> fstate f = PPP_FSM_STOPPED \<and> flags f AND (OPT_PASSIVE OR OPT_SILENT) \<noteq> 0
               then lcp_finished E s else s)
      in fold (rejected_by_peer E) (drop (length (protrejs (ci f))) (protrejs (ci f'))) s)"

definition lcp_input :: "session_env \<Rightarrow> u8 list \<Rightarrow> 'a ppp_session_scheme \<Rightarrow> 'a ppp_session_scheme" where
  "lcp_input E p s =
     (let s = (if is_delayed s
               then lcp_fsm_lowerup E ((with_flags (\<lambda>n. n AND NOT DELAYED_UP) s)\<lparr>delayed_timer := False\<rparr>) else s)
      in lcp_fsm_input E p s)"

definition lcp_sprotrej :: "session_env \<Rightarrow> u8 list \<Rightarrow> 'a ppp_session_scheme \<Rightarrow> 'a ppp_session_scheme" where
  "lcp_sprotrej E p s =
     (let f = (lcp_fsm s)\<lparr>id_no := id_no (lcp_fsm s) + 1\<rparr>
      in s\<lparr>lcp_fsm := fsm_sdata (lcp_alloc E) (with_mru E PPP_LCP (lcp_peer_mru s)) PROTREJ (id_no f) p f\<rparr>)"

text \<open>
  The dispatch of \<open>ppp_input\<close>, whose verdict is in \<open>Ppp_Core\<close>. Packets of control protocols have
  been collected into one buffer; of a packet that is rejected only the first buffer, of \<open>n\<close>
  bytes, is sent back.
\<close>

definition session_input :: "session_env \<Rightarrow> bool \<Rightarrow> nat \<Rightarrow> u8 list \<Rightarrow> 'a ppp_session_scheme \<Rightarrow> 'a ppp_session_scheme" where
  "session_input E vj_ok n pb s =
     (case ppp_input s (fstate (lcp_fsm s) = PPP_FSM_OPENED) vj_ok pb of
        To_Protocol prot p \<Rightarrow>
          if prot = PPP_LCP then lcp_input E p s
          else network_call E (ipcp_input (ipcp_alloc E) (ipcp_settings E s) p) s
      | Protocol_Reject p \<Rightarrow> lcp_sprotrej E (take n p) s
      | _ \<Rightarrow> s)"

section \<open>Timers and the user\<close>

definition lcp_timeout :: "session_env \<Rightarrow> 'a ppp_session_scheme \<Rightarrow> 'a ppp_session_scheme" where
  "lcp_timeout E s =
     (if timer (lcp_fsm s) then lcp_call E (fsm_timeout (lcp_alloc E) (lcp_cb E)) (lcp_reports E) s else s)"

definition echo_timeout :: "session_env \<Rightarrow> 'a ppp_session_scheme \<Rightarrow> 'a ppp_session_scheme" where
  "echo_timeout E s = (if echo_timer s then LcpEchoTimeout E (s\<lparr>echo_timer := False\<rparr>) else s)"

definition delayed_timeout :: "session_env \<Rightarrow> 'a ppp_session_scheme \<Rightarrow> 'a ppp_session_scheme" where
  "delayed_timeout E s = (if delayed_timer s then lcp_delayed_up E (s\<lparr>delayed_timer := False\<rparr>) else s)"

definition network_timeout :: "session_env \<Rightarrow> 'a ppp_session_scheme \<Rightarrow> 'a ppp_session_scheme" where
  "network_timeout E s = network_call E (ipcp_timeout (ipcp_alloc E) (ipcp_settings E s)) s"

definition session_ops :: "session_env \<Rightarrow> 'a ppp_session_scheme lcp_ops" where
  "session_ops E = \<lparr>call_open = lcp_open E, call_lowerup = lcp_lowerup E, call_lowerdown = lcp_lowerdown E,
     call_close = lcp_close E ''User request''\<rparr>"

text \<open>\<open>ppp_new\<close>: the block is cleared, the settings are given, every protocol is initialised.\<close>

definition new_session :: "session_env \<Rightarrow> u8 \<Rightarrow> ipcp \<Rightarrow> ppp_session" where
  "new_session E loopbackfail d = new_phase PPP_PHASE_DEAD
     \<lparr>phase = 0, err_code = 0, if4_up = False, notify_phase_cb = False, pppos_open = False,
      vj_enabled = False, dns_servers = (0, 0), out = [], ipcp_fsm = ipcp_init (fsm_settings E) (cleared_fsm d),
      num_np_open = 0, num_np_up = 0, ipcp_is_open = False, ipcp_is_up = False, lcp_closes = 0,
      lcp_fsm = lcp_init (fsm_settings E) (cleared_fsm (new_lcp\<lparr>lcp_loopbackfail := loopbackfail\<rparr>)), lcp_peer_mru = 0, netif_mtu = 0,
      sent_config = (0, False, False), rcvd_config = 0, lcp_echo_number = 0, lcp_echo_timer_running = False,
      echo_timer = False, delayed_timer = False\<rparr>"

text \<open>
  What can happen to a session: the user connects, perhaps after a while, and closes; packets
  arrive; the timers run out; a packet is sent, or the user sets the callback for the phase.
\<close>

inductive session_step :: "session_env \<Rightarrow> 'a ppp_session_scheme \<Rightarrow> 'a ppp_session_scheme \<Rightarrow> bool" for E where
  connect: "ppp_connect (session_ops E) holdoff s = Some (e, s') \<Longrightarrow> session_step E s s'"
| connect_later: "phase s = PPP_PHASE_HOLDOFF \<Longrightarrow> ppp_do_connect (session_ops E) s = Some s' \<Longrightarrow> session_step E s s'"
| disconnect: "session_step E s (snd (ppp_close (session_ops E) nocarrier s))"
| packet: "session_step E s (session_input E vj_ok n pb s)"
| lcp_timer: "session_step E s (lcp_timeout E s)"
| network_timer: "session_step E s (network_timeout E s)"
| keepalive: "session_step E s (echo_timeout E s)"
| delayed: "session_step E s (delayed_timeout E s)"
| send: "session_step E s (snd (ppp_netif_output_ip4 vj e s))"
| notify_phases: "session_step E s (ppp_set_notify_phase_callback s)"

inductive_cases session_stepE: "session_step E s s'"

end
