(* ===== verification/Session_Lcp.thy ===== *)
theory Session_Lcp
  imports Ppp_Session
begin

unbundle bit_operations_syntax

text \<open>
  What the session relies on of LCP: what its callbacks keep of the settings, and what one run of
  its automaton can report. Both come from the locales of \<open>Fsm_Owner\<close>, interpreted on the callbacks
  of LCP.
\<close>

section \<open>The callbacks\<close>

text \<open>
  What we want is as \<open>lcp_init\<close> has set it, up to the magic number, and what the peer was granted
  is a usable receive unit.
\<close>

definition wanted_lcp :: "u32 \<Rightarrow> lcp_options" where
  "wanted_lcp m = zero_lcp_options\<lparr>neg_mru := True, mru := PPP_DEFMRU, neg_asyncmap := True,
     neg_magicnumber := True, neg_pcompression := True, neg_accompression := True, magicnumber := m\<rparr>"

lemma wanted_lcp_simps [simp]:
  "\<not> opt_passive (wanted_lcp m)" "\<not> opt_silent (wanted_lcp m)" "mru (wanted_lcp m) = PPP_MRU"
  "magicnumber (wanted_lcp m) = m" "(wanted_lcp m)\<lparr>magicnumber := m'\<rparr> = wanted_lcp m'"
  "(wanted_lcp m)\<lparr>magicnumber := m', numloops := 0\<rparr> = wanted_lcp m'"
  by (simp_all add: wanted_lcp_def zero_lcp_options_def)

definition lcp_ok :: "lcp \<Rightarrow> bool" where
  "lcp_ok c \<longleftrightarrow>
     lcp_wantoptions c = wanted_lcp (magicnumber (lcp_wantoptions c)) \<and> mru (lcp_allowoptions c) = PPP_MRU \<and>
     (neg_mru (lcp_hisoptions c) \<longrightarrow> PPP_MINMRU \<le> mru (lcp_hisoptions c))"

lemma lcp_ok_wants:
  assumes "lcp_ok c"
  shows "\<not> opt_passive (lcp_wantoptions c)" "\<not> opt_silent (lcp_wantoptions c)" "mru (lcp_wantoptions c) = PPP_MRU"
  using assms wanted_lcp_simps(1-3) unfolding lcp_ok_def by metis+

lemma lcp_ok_frame:
  assumes "lcp_ok c" "lcp_wantoptions c' = lcp_wantoptions c" "lcp_allowoptions c' = lcp_allowoptions c"
    "lcp_hisoptions c' = lcp_hisoptions c"
  shows "lcp_ok c'"
  using assms by (simp add: lcp_ok_def)

lemma lcp_nakci_frame:
  assumes "lcp_nakci rand st c p rej = (ret, c', reason)"
  shows "lcp_wantoptions c' = lcp_wantoptions c" "lcp_allowoptions c' = lcp_allowoptions c"
    "lcp_hisoptions c' = lcp_hisoptions c" "0 \<le> ret" "protrejs c' = protrejs c" "lcp_echos_pending c' = lcp_echos_pending c"
  using assms by (auto simp: lcp_nakci_def lcp_nakci_update_def magic_def Let_def split: option.splits if_split_asm)

lemma lcp_rejci_frame:
  assumes "lcp_rejci st c p = (ret, c')"
  shows "lcp_wantoptions c' = lcp_wantoptions c" "lcp_allowoptions c' = lcp_allowoptions c"
    "lcp_hisoptions c' = lcp_hisoptions c" "0 \<le> ret" "protrejs c' = protrejs c" "lcp_echos_pending c' = lcp_echos_pending c"
  using assms by (auto simp: lcp_rejci_def split: option.splits list.splits if_split_asm)

lemma lcp_reqci_frame:
  assumes "lcp_reqci rand nakp c p rej = (code, reply, c')"
  shows "same_lcp_settings c c'" "lcp_granted c'"
proof -
  let ?c = "c\<lparr>lcp_hisoptions := zero_lcp_options, nak_bufs := Suc (nak_bufs c)\<rparr>"
  have g: "lcp_granted ?c" by (simp add: lcp_granted_def zero_lcp_options_def Let_def)
  have s: "same_lcp_settings c ?c" by (cases c) (simp add: same_lcp_settings_def)
  have "same_lcp_settings c c' \<and> lcp_granted c'"
  proof (cases "nakp (nak_bufs c)")
    case True
    obtain rc rejs naks c1 where l: "lcp_reqci_loop rand rej ?c p ((CONFACK, []), []) = ((rc, rejs), naks, c1)"
      by (metis surj_pair)
    have "lcp_reply_of rej [] ((CONFACK, []), [])" by (simp add: lcp_reply_of_def)
    from lcp_reqci_loop_reply [OF l this g] have "same_lcp_settings ?c c1" "lcp_granted c1" by simp_all
    moreover have "c' = c1" using assms l True by (auto simp: lcp_reqci_def Let_def)
    ultimately show ?thesis using same_lcp_settings_trans [OF s] by blast
  next
    case False
    then have "c' = ?c" using assms by (simp add: lcp_reqci_def Let_def)
    then show ?thesis using g s by simp
  qed
  then show "same_lcp_settings c c'" "lcp_granted c'" by blast+
qed

lemma lcp_reqci_ok: "lcp_ok c \<Longrightarrow> lcp_ok (snd (snd (lcp_reqci rand nakp c p rej)))"
proof -
  assume ok: "lcp_ok c"
  obtain code reply c' where r: "lcp_reqci rand nakp c p rej = (code, reply, c')" by (metis prod_cases3)
  from lcp_reqci_frame [OF r] ok have "lcp_ok c'"
    by (auto simp: lcp_ok_def same_lcp_settings_def lcp_granted_def Let_def)
  then show ?thesis by (simp add: r)
qed

lemma lcp_extcode_ok: "lcp_ok c \<Longrightarrow> lcp_ok (snd (snd (lcp_extcode st c code i p)))"
  by (rule lcp_ok_frame [of c])
    (simp_all add: lcp_extcode_def lcp_rprotrej_def lcp_received_echo_reply_def Let_def)

lemma lcp_nakci_ok: "lcp_ok c \<Longrightarrow> lcp_ok (fst (snd (lcp_nakci rand st c p rej)))"
proof -
  assume ok: "lcp_ok c"
  obtain ret c' reason where r: "lcp_nakci rand st c p rej = (ret, c', reason)" by (metis prod_cases3)
  show ?thesis using lcp_ok_frame [OF ok lcp_nakci_frame(1-3) [OF r]] by (simp add: r)
qed

lemma lcp_rejci_ok: "lcp_ok c \<Longrightarrow> lcp_ok (snd (lcp_rejci st c p))"
proof -
  assume ok: "lcp_ok c"
  obtain ret c' where r: "lcp_rejci st c p = (ret, c')" by fastforce
  show ?thesis using lcp_ok_frame [OF ok lcp_rejci_frame(1-3) [OF r]] by (simp add: r)
qed

lemma lcp_resetci_ok: "lcp_ok c \<Longrightarrow> lcp_ok (lcp_resetci rand c)"
proof -
  assume ok: "lcp_ok c"
  then have "(lcp_wantoptions c)\<lparr>magicnumber := rand (magics c), numloops := 0\<rparr> = wanted_lcp (rand (magics c))"
    using wanted_lcp_simps(6) unfolding lcp_ok_def by metis
  with ok show ?thesis by (simp add: lcp_resetci_def magic_def Let_def lcp_ok_def)
qed

interpretation lcp_ok: ci_invariant "lcp_callbacks rand nakp" lcp_ok for rand nakp
  by unfold_locales
    (auto simp: lcp_callbacks_def lcp_resetci_ok lcp_nakci_ok lcp_rejci_ok lcp_reqci_ok lcp_extcode_ok
      lcp_cilen_def lcp_addci_def Let_def)

interpretation lcp_line: link_callbacks "lcp_callbacks rand nakp" for rand nakp
proof unfold_locales
  fix k st c p rej
  assume "nakci (lcp_callbacks rand nakp) = Some k"
  then have k: "k = lcp_nakci rand" by (simp add: lcp_callbacks_def)
  obtain ret c' reason where r: "lcp_nakci rand st c p rej = (ret, c', reason)" by (metis prod_cases3)
  show "0 \<le> fst (k st c p rej)" using lcp_nakci_frame(4) [OF r] by (simp add: k r)
next
  fix j st c p
  assume "rejci (lcp_callbacks rand nakp) = Some j"
  then have j: "j = lcp_rejci" by (simp add: lcp_callbacks_def)
  obtain ret c' where r: "lcp_rejci st c p = (ret, c')" by fastforce
  show "0 \<le> fst (j st c p)" using lcp_rejci_frame(4) [OF r] by (simp add: j r)
qed (simp_all add: lcp_callbacks_def)

end
