(* ===== verification/Session_Net.thy ===== *)
theory Session_Net
  imports Session_Lcp
begin

unbundle bit_operations_syntax

text \<open>
  What the network protocols leave alone when the session calls them, and what they do to its
  phase: IPCP's part of the control block on the one hand, LCP's on the other.
\<close>

section \<open>What is told to the user\<close>

text \<open>The last argument of the user's status callback.\<close>

fun status_event :: "ppp_event \<Rightarrow> u8 option \<Rightarrow> u8 option" where
  "status_event (Link_Status e) l = Some e"
| "status_event _ l = l"

definition last_status :: "ppp_event list \<Rightarrow> u8 option" where
  "last_status es = fold status_event es None"

lemma last_status_append [simp]:
  "last_status (es @ es') = fold status_event es' (last_status es)"
  by (simp add: last_status_def)

text \<open>While the interface is up, this was what the user heard last.\<close>

definition told :: "'a ppp_pcb_scheme \<Rightarrow> bool" where
  "told s \<longleftrightarrow> (if4_up s \<longrightarrow> last_status (out s) = Some PPPERR_NONE)"

lemma status_new_phase [simp]: "last_status (out (new_phase p s)) = last_status (out s)"
  by simp

lemma told_new_phase [simp]: "told (new_phase p s) = told s"
  by (simp add: told_def)

section \<open>What the network protocols leave alone\<close>

text \<open>The phase as far as they are concerned.\<close>

definition np_phase :: "'a ip_link_scheme \<Rightarrow> bool" where
  "np_phase s \<longleftrightarrow>
     phase s = (if ipcp_is_up s then PPP_PHASE_RUNNING else PPP_PHASE_NETWORK) \<and>
     num_np_up s = (if ipcp_is_up s then 1 else 0)"

definition same_lcp :: "'a ip_link_scheme \<Rightarrow> 'a ip_link_scheme \<Rightarrow> bool" where
  "same_lcp s s' \<longleftrightarrow>
     ip_link.more s' = ip_link.more s \<and> pppos_open s' = pppos_open s \<and> (told s \<longrightarrow> told s')"

lemma same_lcp_trans: "same_lcp s s' \<Longrightarrow> same_lcp s' s'' \<Longrightarrow> same_lcp s s''"
  by (auto simp: same_lcp_def)

text \<open>Besides, the end of the connection is asked for at most once, by a protocol that was open.\<close>

definition leaves_lcp :: "'a ip_link_scheme \<Rightarrow> 'a ip_link_scheme \<Rightarrow> bool" where
  "leaves_lcp s s' \<longleftrightarrow> same_lcp s s' \<and> lcp_closes s \<le> lcp_closes s' \<and>
     lcp_closes s' + of_bool (ipcp_is_open s') \<le> lcp_closes s + of_bool (ipcp_is_open s)"

lemma leaves_lcp_refl [simp]: "leaves_lcp s s"
  by (simp add: leaves_lcp_def same_lcp_def same_lcp_def)

lemma leaves_lcp_trans [trans]: "leaves_lcp s s' \<Longrightarrow> leaves_lcp s' s'' \<Longrightarrow> leaves_lcp s s''"
  unfolding leaves_lcp_def using same_lcp_trans order_trans by blast

lemma leaves_lcp_closes: "leaves_lcp s s' \<Longrightarrow> lcp_closes s' - lcp_closes s \<le> 1"
  by (auto simp: leaves_lcp_def of_bool_def split: if_split_asm)

lemmas handler_defs = ipcp_down_def np_down_def ipcp_clear_addrs_def sifvjcomp_def sifdown_def cifaddr_def cdns_def
  emit_def new_phase_def Let_def case_prod_unfold

lemma ipcp_down_leaves: "leaves_lcp s (ipcp_down c s)"
  by (simp add: leaves_lcp_def same_lcp_def handler_defs told_def)

lemma ipcp_down_phase: "np_phase s \<Longrightarrow> np_phase (ipcp_down c s)"
  by (simp add: handler_defs np_phase_def)

lemma ipcp_finished_leaves: "leaves_lcp s (ipcp_finished s)"
  by (simp add: leaves_lcp_def same_lcp_def ipcp_finished_def np_finished_def Let_def told_def)

lemma ipcp_finished_phase: "np_phase s \<Longrightarrow> np_phase (ipcp_finished s)"
  by (simp add: ipcp_finished_def np_finished_def Let_def np_phase_def)

lemma ipcp_leaves_leaves: "leaves_lcp s (ipcp_leaves c e s)" "np_phase s \<Longrightarrow> np_phase (ipcp_leaves c e s)"
  by (simp_all add: ipcp_leaves_def ipcp_down_leaves ipcp_finished_leaves ipcp_down_phase ipcp_finished_phase split: fsm_event.split)

lemma fsm_leaves [simp]: "leaves_lcp s (s\<lparr>ipcp_fsm := f\<rparr>)" "np_phase (s\<lparr>ipcp_fsm := f\<rparr>) = np_phase s"
  by (simp_all add: leaves_lcp_def same_lcp_def told_def np_phase_def)

lemma call_leaves_lcp:
  assumes "\<And>e s. leaves_lcp s (h c e s)" and "c = ci (ipcp_fsm s)"
  shows "leaves_lcp s (ipcp_call op h s)"
proof -
  have "leaves_lcp s' (fold (h c) es s')" for es s'
    by (induction es arbitrary: s') (auto intro: leaves_lcp_trans assms(1))
  then show ?thesis using assms(2) leaves_lcp_trans fsm_leaves(1) unfolding ipcp_call_def Let_def by blast
qed

lemma call_phase:
  assumes "np_phase s" "\<And>e s. np_phase s \<Longrightarrow> np_phase (h (ci (ipcp_fsm s0)) e s)" "s0 = s"
  shows "np_phase (ipcp_call op h s)"
proof -
  have "np_phase s' \<Longrightarrow> np_phase (fold (h (ci (ipcp_fsm s0))) es s')" for es s'
    by (induction es arbitrary: s') (auto intro: assms(2))
  then show ?thesis using assms(1,3) unfolding ipcp_call_def Let_def by simp
qed

lemma ipcp_close_leaves: "leaves_lcp s (ipcp_close alloc fp r s)" "np_phase s \<Longrightarrow> np_phase (ipcp_close alloc fp r s)"
  by (simp_all add: ipcp_close_def call_leaves_lcp ipcp_leaves_leaves call_phase [OF _ _ refl])

lemma with_ci_leaves [simp]: "leaves_lcp s (with_ci h s)" "np_phase (with_ci h s) = np_phase s"
  by (simp_all add: with_ci_def)

lemma with_ci_up [simp]: "ipcp_is_up (with_ci h s) = ipcp_is_up s"
  by (simp add: with_ci_def)

lemma sdns_leaves [simp]: "leaves_lcp s (sdns x y s)" "np_phase (sdns x y s) = np_phase s" "ipcp_is_up (sdns x y s) = ipcp_is_up s"
  by (simp_all add: sdns_def leaves_lcp_def same_lcp_def told_def np_phase_def)

lemma configure_leaves: "leaves_lcp s (ipcp_configure s)" "np_phase s \<Longrightarrow> \<not> ipcp_is_up s \<Longrightarrow> np_phase (ipcp_configure s)"
  by (simp_all add: ipcp_configure_def leaves_lcp_def same_lcp_def np_up_def with_ci_def sifvjcomp_def sifaddr_def sifup_def emit_def
      new_phase_def Let_def told_def np_phase_def)

lemma then_leaves:
  "leaves_lcp s x \<Longrightarrow> leaves_lcp s (ipcp_close alloc fp r x)" "leaves_lcp s x \<Longrightarrow> leaves_lcp s (ipcp_configure x)"
  "leaves_lcp s x \<Longrightarrow> leaves_lcp s (with_ci h x)" "leaves_lcp s x \<Longrightarrow> leaves_lcp s (if b then sdns y z x else x)"
  by (auto intro: leaves_lcp_trans ipcp_close_leaves(1) configure_leaves(1) with_ci_leaves(1) sdns_leaves(1))

lemma ipcp_up_leaves: "leaves_lcp s (ipcp_up alloc fp s)"
  unfolding ipcp_up_def Let_def
  by (rule four_ways [where Q = "leaves_lcp s"]; intro then_leaves leaves_lcp_refl)

lemma ipcp_up_phase: "np_phase s \<Longrightarrow> \<not> ipcp_is_up s \<Longrightarrow> np_phase (ipcp_up alloc fp s)"
  unfolding ipcp_up_def Let_def
  by (rule four_ways [where Q = np_phase]) (auto intro!: ipcp_close_leaves(2) configure_leaves(2))

lemma ipcp_reports_leaves: "leaves_lcp s (ipcp_reports alloc fp c e s)"
  by (simp add: ipcp_reports_def ipcp_up_leaves ipcp_leaves_leaves)

lemma ipcp_call_leaves: "leaves_lcp s (ipcp_call op (ipcp_reports alloc fp) s)" "leaves_lcp s (ipcp_call op ipcp_leaves s)"
  by (simp_all add: call_leaves_lcp ipcp_reports_leaves ipcp_leaves_leaves)

text \<open>A run of IPCP, from a state that is as it should be.\<close>

lemma ipcp_call_phase:
  assumes "link_inv s" "ipcp_emits (ipcp_fsm s) (op (ipcp_fsm s))" "np_phase s"
  shows "np_phase (ipcp_call op (ipcp_reports alloc fp) s)"
proof -
  let ?f = "ipcp_fsm s"
  obtain new where new: "events (op ?f) = events ?f @ new"
      "legal_reports (fstate ?f = PPP_FSM_OPENED) (fstate (op ?f) = PPP_FSM_OPENED) new"
    using assms(2) by (auto simp: ipcp_emits_def)
  note call = call_events [where op = op and s = s, OF new(1)]
  show ?thesis
  proof (cases "new = [Up]")
    case True
    then have "\<not> ipcp_is_up s" using assms(1) new(2) by (auto simp: legal_reports_def link_inv_def quiet_def)
    then show ?thesis using True assms(3) by (simp add: call ipcp_reports_def ipcp_up_phase)
  next
    case False
    then show ?thesis using new(2) assms(3) unfolding call legal_reports_def
      by (auto simp: ipcp_reports_def ipcp_leaves_leaves(2))
  qed
qed

section \<open>The end of the line\<close>

text \<open>IPCP when LCP is not up.\<close>

definition net_idle :: "'a ip_link_scheme \<Rightarrow> bool" where
  "net_idle s \<longleftrightarrow> fstate (ipcp_fsm s) = PPP_FSM_INITIAL \<and> quiet s \<and> num_np_open s = 0"

lemma net_idle_link_inv: "net_idle s \<Longrightarrow> link_inv s"
  by (simp add: net_idle_def link_inv_def)

lemma lowerdown_state: "fstate (fsm_lowerdown cb f) \<in> {PPP_FSM_INITIAL, PPP_FSM_STARTING}"
  by (cases "fstate f") (simp_all add: fsm_lowerdown_def)

lemma ipcp_lowerdown_fsm: "ipcp_fsm (ipcp_lowerdown s) = fsm_lowerdown ipcp_callbacks (ipcp_fsm s)" if "link_inv s"
  unfolding ipcp_lowerdown_def
  by (rule call_leaves(2) [where op = "fsm_lowerdown ipcp_callbacks", OF disjI1 [OF that] lowerdown_emits]) (use lowerdown_state [of ipcp_callbacks "ipcp_fsm s"] in auto)

lemma close_down_fsm:
  assumes "fstate f \<in> {PPP_FSM_INITIAL, PPP_FSM_STARTING}"
  shows "fstate (fsm_close alloc cb fp r f) = PPP_FSM_INITIAL" "events (fsm_close alloc cb fp r f) = events f"
  using assms by (auto simp: fsm_close_def Let_def)

lemma ipcp_close_down:
  assumes "fstate (ipcp_fsm s) \<in> {PPP_FSM_INITIAL, PPP_FSM_STARTING}"
  shows "\<exists>f. ipcp_close alloc fp r s = s\<lparr>ipcp_fsm := f\<rparr> \<and> fstate f = PPP_FSM_INITIAL"
  using close_down_fsm [OF assms, of alloc ipcp_callbacks fp "str r"]
  by (auto simp: ipcp_close_def ipcp_call_def Let_def)

lemma lowerdown_events: "\<exists>new. events (fsm_lowerdown cb f) = events f @ new \<and> Finished \<notin> set new"
  by (cases "fstate f") (simp_all add: fsm_lowerdown_def)

lemma ipcp_lowerdown_closes: "lcp_closes (ipcp_lowerdown s) = lcp_closes s"
proof -
  obtain new where new: "events (fsm_lowerdown ipcp_callbacks (ipcp_fsm s)) = events (ipcp_fsm s) @ new" "Finished \<notin> set new"
    using lowerdown_events by blast
  have e: "lcp_closes (ipcp_leaves c e s) = lcp_closes s" if "e \<noteq> Finished" for c e and s :: "'a ip_link_scheme"
    using that by (cases e) (simp_all add: ipcp_leaves_def handler_defs)
  have "lcp_closes (fold (ipcp_leaves c) new s) = lcp_closes s" for c and s :: "'a ip_link_scheme"
    using new(2) by (induction new arbitrary: s) (auto simp: e)
  then show ?thesis by (simp add: ipcp_lowerdown_def call_events [where op = "fsm_lowerdown ipcp_callbacks" and s = s, OF new(1)])
qed

lemma link_down_idle:
  assumes "link_inv s"
  shows "net_idle (link_down alloc fp s)" "lcp_closes (link_down alloc fp s) = lcp_closes s"
    "phase s \<noteq> PPP_PHASE_DEAD \<Longrightarrow> phase (ipcp_lowerdown s) \<noteq> PPP_PHASE_DEAD \<Longrightarrow>
       phase (link_down alloc fp s) = PPP_PHASE_ESTABLISH"
    "same_lcp s (link_down alloc fp s)"
proof -
  let ?d = "ipcp_lowerdown s"
  have q: "quiet ?d" using lowerdown_inv [OF assms] by simp
  have st: "fstate (ipcp_fsm ?d) \<in> {PPP_FSM_INITIAL, PPP_FSM_STARTING}"
    unfolding ipcp_lowerdown_fsm [OF assms] by (rule lowerdown_state)
  obtain f where f: "ipcp_close alloc fp ''LCP down'' ?d = ?d\<lparr>ipcp_fsm := f\<rparr>" "fstate f = PPP_FSM_INITIAL"
    using ipcp_close_down [OF st] by metis
  have l: "leaves_lcp s ?d" by (simp add: ipcp_lowerdown_def ipcp_call_leaves)
  have e: "link_down alloc fp s =
      (let s = ?d\<lparr>ipcp_fsm := f, num_np_open := 0, num_np_up := 0\<rparr>
       in if phase s \<noteq> PPP_PHASE_DEAD then new_phase PPP_PHASE_ESTABLISH s else s)"
    by (simp add: link_down_def upper_layers_down_def f Let_def)
  show "net_idle (link_down alloc fp s)"
    using q f(2) by (auto simp: e net_idle_def quiet_def Let_def)
  show "lcp_closes (link_down alloc fp s) = lcp_closes s"
    using ipcp_lowerdown_closes [of s] by (simp add: e Let_def)
  show "phase (link_down alloc fp s) = PPP_PHASE_ESTABLISH" if "phase ?d \<noteq> PPP_PHASE_DEAD"
    using that by (simp add: e Let_def)
  have "same_lcp ?d (link_down alloc fp s)"
    by (simp add: e Let_def same_lcp_def told_def new_phase_def emit_def)
  with l show "same_lcp s (link_down alloc fp s)" using same_lcp_trans by (auto simp: leaves_lcp_def)
qed

lemma ipcp_lowerdown_phase: "phase (ipcp_lowerdown s) = phase s \<or> phase (ipcp_lowerdown s) = PPP_PHASE_NETWORK"
proof -
  have e: "phase (ipcp_leaves c e s) = phase s \<or> phase (ipcp_leaves c e s) = PPP_PHASE_NETWORK"
    for c e and s :: "'a ip_link_scheme"
    by (cases e) (simp_all add: ipcp_leaves_def handler_defs ipcp_finished_def np_finished_def)
  have "phase (fold (ipcp_leaves c) new s) = phase s \<or> phase (fold (ipcp_leaves c) new s) = PPP_PHASE_NETWORK"
    for c new and s :: "'a ip_link_scheme"
  proof (induction new arbitrary: s)
    case (Cons x xs)
    then show ?case using e [of c x s] by (metis fold_simps(2))
  qed simp
  note e = this
  have "phase (ipcp_call op ipcp_leaves s) = phase s \<or> phase (ipcp_call op ipcp_leaves s) = PPP_PHASE_NETWORK" for op
    unfolding ipcp_call_def Let_def using e [where s = "s\<lparr>ipcp_fsm := op (ipcp_fsm s)\<rparr>"] by simp
  then show ?thesis by (simp add: ipcp_lowerdown_def)
qed


lemma ipcp_leaves_err: "err_code (fold (ipcp_leaves c) es s) = err_code s"
proof (induction es arbitrary: s)
  case (Cons e es)
  have "err_code (ipcp_leaves c e s) = err_code s"
    by (cases e) (simp_all add: ipcp_leaves_def handler_defs ipcp_finished_def np_finished_def)
  then show ?case by (simp add: Cons)
qed simp

lemma link_down_err: "err_code (link_down alloc fp s) = err_code s"
  by (simp add: link_down_def upper_layers_down_def ipcp_close_def ipcp_lowerdown_def ipcp_call_def ipcp_leaves_err Let_def)

end
