(* ===== verification/Session_Inv.thy ===== *)
theory Session_Inv
  imports Session_Net
begin

unbundle bit_operations_syntax

text \<open>
  The invariant of a session: how the phase, the states of LCP and IPCP, the timers and the
  configuration of the line belong together; and that everything that can happen keeps it.
\<close>

section \<open>The invariant\<close>

text \<open>On the line nothing is compressed, and everything escaped.\<close>

definition plain_line :: "'a ppp_session_scheme \<Rightarrow> bool" where
  "plain_line s \<longleftrightarrow> sent_config s = (0xffffffff, False, False) \<and> lcp_peer_mru s = PPP_MRU"

text \<open>What was negotiated of the line, in the order of \<open>line\<close>; it depends on the options alone.\<close>

definition line :: "'a ppp_session_scheme \<Rightarrow> (u32 \<times> bool \<times> bool) \<times> u32 \<times> u16 \<times> u16" where
  "line s = (sent_config s, rcvd_config s, netif_mtu s, lcp_peer_mru s)"

definition negotiated_line :: "session_env \<Rightarrow> lcp \<Rightarrow> (u32 \<times> bool \<times> bool) \<times> u32 \<times> u16 \<times> u16" where
  "negotiated_line E c =
     (let go = lcp_gotoptions c; ho = lcp_hisoptions c
      in ((if neg_asyncmap ho then asyncmap ho else 0xffffffff, neg_pcompression ho, neg_accompression ho),
          if lax_recv E then 0 else if neg_asyncmap go then asyncmap go else 0xffffffff,
          lcp_mtu c, if neg_mru ho then mru ho else PPP_MRU))"

definition line_options :: "lcp \<Rightarrow> lcp_options \<times> lcp_options \<times> lcp_options \<times> lcp_options" where
  "line_options c = (lcp_wantoptions c, lcp_gotoptions c, lcp_allowoptions c, lcp_hisoptions c)"

lemma negotiated_line_cong: "line_options c = line_options c' \<Longrightarrow> negotiated_line E c = negotiated_line E c'"
  by (simp add: line_options_def negotiated_line_def lcp_mtu_def Let_def)

definition usable_line :: "'a ppp_session_scheme \<Rightarrow> bool" where
  "usable_line s \<longleftrightarrow> PPP_MINMRU \<le> lcp_peer_mru s \<and> PPP_MINMRU \<le> netif_mtu s \<and> netif_mtu s \<le> PPP_MRU"

text \<open>No session, or one that is put off.\<close>

definition at_rest :: "'a ppp_pcb_scheme \<Rightarrow> bool" where
  "at_rest s \<longleftrightarrow> phase s = PPP_PHASE_DEAD \<or> phase s = PPP_PHASE_HOLDOFF"

definition lcp_inv :: "session_env \<Rightarrow> lcp fsm \<Rightarrow> bool" where
  "lcp_inv E f \<longleftrightarrow> fsm_inv (lcp_alloc E) (lcp_cb E) f \<and> lcp_ok (ci f)"

definition clear_inv :: "'a ppp_session_scheme \<Rightarrow> bool" where
  "clear_inv s \<longleftrightarrow>
     (echo_timer s \<longleftrightarrow> lcp_echo_timer_running s) \<and> (pppos_open s \<longleftrightarrow> \<not> at_rest s) \<and> told s \<and>
     (at_rest s \<longrightarrow> last_status (out s) \<noteq> Some PPPERR_NONE)"

definition open_inv :: "session_env \<Rightarrow> 'a ppp_session_scheme \<Rightarrow> bool" where
  "open_inv E s \<longleftrightarrow> fstate (lcp_fsm s) = PPP_FSM_OPENED \<and> flags (lcp_fsm s) = 0 \<and> \<not> delayed_timer s \<and>
     link_inv s \<and> np_phase s \<and> usable_line s"

definition busy_inv :: "session_env \<Rightarrow> 'a ppp_session_scheme \<Rightarrow> bool" where
  "busy_inv E s \<longleftrightarrow> waiting (fstate (lcp_fsm s)) \<and> flags (lcp_fsm s) = 0 \<and> \<not> delayed_timer s \<and>
     net_idle s \<and> plain_line s \<and> \<not> lcp_echo_timer_running s \<and>
     (phase s = PPP_PHASE_ESTABLISH \<or> phase s = PPP_PHASE_TERMINATE)"

definition delayed_inv :: "session_env \<Rightarrow> 'a ppp_session_scheme \<Rightarrow> bool" where
  "delayed_inv E s \<longleftrightarrow> fstate (lcp_fsm s) = PPP_FSM_STARTING \<and> flags (lcp_fsm s) = DELAYED_UP \<and> delayed_timer s \<and>
     net_idle s \<and> plain_line s \<and> \<not> lcp_echo_timer_running s \<and> phase s = PPP_PHASE_ESTABLISH"

definition rest_inv :: "session_env \<Rightarrow> 'a ppp_session_scheme \<Rightarrow> bool" where
  "rest_inv E s \<longleftrightarrow> (fstate (lcp_fsm s) = PPP_FSM_INITIAL \<or> fstate (lcp_fsm s) = PPP_FSM_STARTING) \<and>
     flags (lcp_fsm s) = 0 \<and> \<not> delayed_timer s \<and> net_idle s \<and> \<not> lcp_echo_timer_running s \<and> at_rest s"

definition session_inv :: "session_env \<Rightarrow> 'a ppp_session_scheme \<Rightarrow> bool" where
  "session_inv E s \<longleftrightarrow> lcp_inv E (lcp_fsm s) \<and> clear_inv s \<and>
     (open_inv E s \<or> busy_inv E s \<or> delayed_inv E s \<or> rest_inv E s)"

lemmas session_parts = open_inv_def busy_inv_def delayed_inv_def rest_inv_def

section \<open>Frames\<close>

lemma leaves_session:
  assumes "same_lcp s s'"
  shows "lcp_fsm s' = lcp_fsm s" "lcp_peer_mru s' = lcp_peer_mru s" "netif_mtu s' = netif_mtu s"
    "sent_config s' = sent_config s" "lcp_echo_timer_running s' = lcp_echo_timer_running s"
    "echo_timer s' = echo_timer s" "delayed_timer s' = delayed_timer s" "pppos_open s' = pppos_open s"
    "told s \<Longrightarrow> told s'" "line s' = line s"
proof -
  have m: "ip_link.more s' = ip_link.more s" using assms by (simp add: same_lcp_def)
  show "lcp_fsm s' = lcp_fsm s" "lcp_peer_mru s' = lcp_peer_mru s" "netif_mtu s' = netif_mtu s"
    "sent_config s' = sent_config s" "lcp_echo_timer_running s' = lcp_echo_timer_running s"
    "echo_timer s' = echo_timer s" "delayed_timer s' = delayed_timer s" "line s' = line s"
    unfolding line_def using m by (cases s; cases s'; simp)+
  show "pppos_open s' = pppos_open s" "told s \<Longrightarrow> told s'" using assms by (simp_all add: same_lcp_def)
qed

lemma session_fields_net [simp]:
  "link_inv (s\<lparr>lcp_fsm := f\<rparr>) = link_inv s" "net_idle (s\<lparr>lcp_fsm := f\<rparr>) = net_idle s" "np_phase (s\<lparr>lcp_fsm := f\<rparr>) = np_phase s"
  "told (s\<lparr>lcp_fsm := f\<rparr>) = told s" "at_rest (s\<lparr>lcp_fsm := f\<rparr>) = at_rest s"
  by (simp_all add: link_inv_def live_def quiet_def net_idle_def np_phase_def told_def at_rest_def)

lemma session_fields_net' [simp]:
  "link_inv (s\<lparr>err_code := x\<rparr>) = link_inv s" "net_idle (s\<lparr>err_code := x\<rparr>) = net_idle s" "np_phase (s\<lparr>err_code := x\<rparr>) = np_phase s"
  "told (s\<lparr>err_code := x\<rparr>) = told s" "at_rest (s\<lparr>err_code := x\<rparr>) = at_rest s"
  by (simp_all add: link_inv_def live_def quiet_def net_idle_def np_phase_def told_def at_rest_def)

lemma new_phase_session [simp]:
  "lcp_fsm (new_phase p s) = lcp_fsm s" "lcp_peer_mru (new_phase p s) = lcp_peer_mru s" "netif_mtu (new_phase p s) = netif_mtu s"
  "sent_config (new_phase p s) = sent_config s" "lcp_echo_timer_running (new_phase p s) = lcp_echo_timer_running s"
  "echo_timer (new_phase p s) = echo_timer s" "delayed_timer (new_phase p s) = delayed_timer s"
  "net_idle (new_phase p s) = net_idle s" "plain_line (new_phase p s) = plain_line s" "usable_line (new_phase p s) = usable_line s"
  by (simp_all add: new_phase_def emit_def Let_def plain_line_def usable_line_def net_idle_def quiet_def)

lemma delayed_flags: "flags (lcp_fsm s) = 0 \<Longrightarrow> \<not> is_delayed s" "flags (lcp_fsm s) = DELAYED_UP \<Longrightarrow> is_delayed s"
  by (simp_all add: is_delayed_def)

section \<open>One run of LCP\<close>

text \<open>
  A session in which the line is in use, whatever its phase is called, and an operation on the
  automaton of LCP that can be called then.
\<close>

definition in_use :: "session_env \<Rightarrow> 'a ppp_session_scheme \<Rightarrow> bool" where
  "in_use E s \<longleftrightarrow> lcp_inv E (lcp_fsm s) \<and> clear_inv s \<and> \<not> at_rest s \<and> flags (lcp_fsm s) = 0 \<and> \<not> delayed_timer s \<and>
     (if fstate (lcp_fsm s) = PPP_FSM_OPENED then link_inv s \<and> usable_line s
      else waiting (fstate (lcp_fsm s)) \<and> net_idle s \<and> plain_line s \<and> \<not> lcp_echo_timer_running s)"

definition proper :: "session_env \<Rightarrow> lcp fsm \<Rightarrow> (fsm_pcb \<Rightarrow> lcp fsm \<Rightarrow> lcp fsm) \<Rightarrow> bool" where
  "proper E f op \<longleftrightarrow> (\<forall>fp. lcp_inv E (op fp f) \<and> (\<exists>new. finishes new f (op fp f)))"

lemma lcp_run_proper:
  assumes "proper E (lcp_fsm s) op"
  shows "\<exists>new. lcp_inv E (lcp_run E op s) \<and> finishes new (lcp_fsm s) (lcp_run E op s)"
  using assms unfolding proper_def lcp_run_def Let_def by (simp split: if_split)

lemma working_flags: "flags f = 0 \<Longrightarrow> working f \<longleftrightarrow> fstate f = PPP_FSM_OPENED \<or> waiting (fstate f)"
  by (simp add: working_def)

lemma lcp_call_events:
  assumes "events (lcp_run E op s) = events (lcp_fsm s) @ new"
  shows "lcp_call E op h s = fold (h (ci (lcp_fsm s))) new (s\<lparr>lcp_fsm := lcp_run E op s\<rparr>)"
  using assms by (simp add: lcp_call_def Let_def)

text \<open>LCP goes down.\<close>

lemma echo_lowerdown_frame [simp]:
  "link_inv (lcp_echo_lowerdown s) = link_inv s" "phase (lcp_echo_lowerdown s) = phase s"
  "lcp_fsm (lcp_echo_lowerdown s) = lcp_fsm s" "pppos_open (lcp_echo_lowerdown s) = pppos_open s"
  "told (lcp_echo_lowerdown s) = told s" "delayed_timer (lcp_echo_lowerdown s) = delayed_timer s"
  "\<not> lcp_echo_timer_running (lcp_echo_lowerdown s)" "err_code (lcp_echo_lowerdown s) = err_code s"
  "echo_timer (lcp_echo_lowerdown s) = (echo_timer s \<and> \<not> lcp_echo_timer_running s)"
  by (simp_all add: lcp_echo_lowerdown_def link_inv_def live_def quiet_def told_def)

lemma lcp_down_inv:
  assumes "link_inv s" "told s" "echo_timer s = lcp_echo_timer_running s" "\<not> at_rest s" "pppos_open s"
  shows "net_idle (lcp_down E c s)" "plain_line (lcp_down E c s)" "\<not> lcp_echo_timer_running (lcp_down E c s)"
    "clear_inv (lcp_down E c s)" "phase (lcp_down E c s) = PPP_PHASE_ESTABLISH"
    "lcp_fsm (lcp_down E c s) = lcp_fsm s" "delayed_timer (lcp_down E c s) = delayed_timer s"
    "err_code (lcp_down E c s) = err_code s"
proof -
  let ?e = "lcp_echo_lowerdown s" let ?fp = "ipcp_settings E ?e"
  let ?d = "link_down (ipcp_alloc E) ?fp ?e"
  have i: "link_inv ?e" using assms(1) by simp
  have ph: "phase ?d = PPP_PHASE_ESTABLISH"
    by (rule link_down_idle(3) [OF i]) (use ipcp_lowerdown_phase [of ?e] assms(4) in \<open>auto simp: at_rest_def\<close>)
  note d = link_down_idle(1) [OF i, of "ipcp_alloc E" ?fp] leaves_session [OF link_down_idle(4) [OF i, of "ipcp_alloc E" ?fp]]
  show "net_idle (lcp_down E c s)" "phase (lcp_down E c s) = PPP_PHASE_ESTABLISH" "lcp_fsm (lcp_down E c s) = lcp_fsm s"
    "\<not> lcp_echo_timer_running (lcp_down E c s)" "delayed_timer (lcp_down E c s) = delayed_timer s"
    "err_code (lcp_down E c s) = err_code s"
    using d ph by (simp_all add: lcp_down_def Let_def ppp_send_config_def ppp_recv_config_def net_idle_def quiet_def link_down_err)
  show "plain_line (lcp_down E c s)"
    by (simp add: lcp_down_def Let_def ppp_send_config_def ppp_recv_config_def plain_line_def)
  have "told ?d" using d assms(2) by simp
  then show "clear_inv (lcp_down E c s)"
    using d ph assms(3,5) by (simp add: lcp_down_def Let_def ppp_send_config_def ppp_recv_config_def clear_inv_def at_rest_def told_def)
qed

text \<open>LCP has finished.\<close>

lemma lowerdown_closed:
  assumes "fstate (lcp_fsm s) = PPP_FSM_CLOSED \<or> fstate (lcp_fsm s) = PPP_FSM_STOPPED" "\<not> is_delayed s"
  shows "\<exists>f. lcp_lowerdown E s = s\<lparr>lcp_fsm := f\<rparr> \<and> f = fsm_lowerdown (lcp_cb E) (lcp_fsm s) \<and>
    (fstate f = PPP_FSM_INITIAL \<or> fstate f = PPP_FSM_STARTING) \<and> flags f = flags (lcp_fsm s) \<and> ci f = ci (lcp_fsm s)"
  using assms by (auto simp: lcp_lowerdown_def lcp_call_def lcp_run_def fsm_lowerdown_def Let_def lcp_callbacks_def)

lemma lcp_finished_inv:
  assumes "fstate (lcp_fsm s) = PPP_FSM_CLOSED \<or> fstate (lcp_fsm s) = PPP_FSM_STOPPED" "flags (lcp_fsm s) = 0"
    "lcp_inv E (lcp_fsm s)" "net_idle s" "\<not> lcp_echo_timer_running s" "\<not> echo_timer s" "\<not> delayed_timer s" "phase s \<noteq> PPP_PHASE_DEAD"
  shows "session_inv E (lcp_finished E s)" "phase (lcp_finished E s) = PPP_PHASE_DEAD"
    "err_code (lcp_finished E s) = (if err_code s = PPPERR_NONE then PPPERR_CONNECT else err_code s)"
    "last_status (out (lcp_finished E s)) = Some (err_code (lcp_finished E s))"
proof -
  let ?d = "new_phase PPP_PHASE_DISCONNECT s"
  obtain f where f: "lcp_lowerdown E ?d = ?d\<lparr>lcp_fsm := f\<rparr>" "f = fsm_lowerdown (lcp_cb E) (lcp_fsm s)"
      "fstate f = PPP_FSM_INITIAL \<or> fstate f = PPP_FSM_STARTING" "flags f = 0" "ci f = ci (lcp_fsm s)"
    using lowerdown_closed [of ?d E] assms(1,2) by (auto simp: is_delayed_def)
  have e: "lcp_finished E s = ppp_link_terminated (?d\<lparr>lcp_fsm := f\<rparr>)"
    using assms(8) by (simp add: lcp_finished_def link_terminated_def f)
  have "lcp_inv E f" using assms(3) f by (simp add: lcp_inv_def fsm_lowerdown_inv)
  then show "session_inv E (lcp_finished E s)"
    using f(3,4) assms unfolding e session_inv_def
    by (auto simp: rest_inv_def clear_inv_def ppp_core_defs Let_def told_def at_rest_def net_idle_def quiet_def)
  show "phase (lcp_finished E s) = PPP_PHASE_DEAD"
    "err_code (lcp_finished E s) = (if err_code s = PPPERR_NONE then PPPERR_CONNECT else err_code s)"
    "last_status (out (lcp_finished E s)) = Some (err_code (lcp_finished E s))"
    by (simp_all add: e ppp_core_defs Let_def)
qed


text \<open>LCP comes up.\<close>

lemma link_established_idle:
  assumes "net_idle s"
  shows "link_inv (link_established alloc fp s)" "np_phase (link_established alloc fp s)"
    "same_lcp s (link_established alloc fp s)" "lcp_closes (link_established alloc fp s) = lcp_closes s"
proof -
  show "link_inv (link_established alloc fp s)"
    using link_established_inv [OF net_idle_link_inv [OF assms]] .
  have i: "fstate (ipcp_fsm s) = PPP_FSM_INITIAL" "num_np_open s = 0" "\<not> ipcp_is_up s" "num_np_up s = 0"
    using assms by (simp_all add: net_idle_def quiet_def)
  let ?u = "fsm_lowerup alloc ipcp_callbacks fp (ipcp_fsm s)"
  have u: "fstate ?u = PPP_FSM_CLOSED" "events ?u = events (ipcp_fsm s)"
    by (simp_all add: fsm_lowerup_def i)
  let ?o = "fsm_open alloc ipcp_callbacks fp ?u"
  have o: "events ?o = events (ipcp_fsm s)" using u by (simp add: fsm_open_def)
  have "link_established alloc fp s =
      (new_phase PPP_PHASE_NETWORK (s\<lparr>ipcp_fsm := ?u\<rparr>))\<lparr>ipcp_fsm := ?o, ipcp_is_open := True, num_np_open := 1\<rparr>"
    using i u(2) o by (simp add: link_established_def start_networks_def continue_networks_def ipcp_open_def
        ipcp_lowerup_def ipcp_call_def Let_def)
  then show "np_phase (link_established alloc fp s)" "same_lcp s (link_established alloc fp s)"
    "lcp_closes (link_established alloc fp s) = lcp_closes s"
    using i by (simp_all add: np_phase_def same_lcp_def told_def new_phase_def emit_def Let_def)
qed

lemma lcp_inv_frame:
  assumes "lcp_inv E f" "fstate f' = fstate f" "timer f' = timer f" "events f' = events f" "lcp_ok (ci f) \<Longrightarrow> lcp_ok (ci f')"
  shows "lcp_inv E f'"
  using assms by (simp add: lcp_inv_def fsm_inv_def)

lemma echo_check_opened:
  assumes "fstate (lcp_fsm s) = PPP_FSM_OPENED"
    and "\<not> (lcp_echo_fails E \<noteq> 0 \<and> lcp_echo_fails E \<le> lcp_echos_pending (ci (lcp_fsm s)))"
  shows "\<exists>f n. LcpEchoCheck E s = s\<lparr>lcp_fsm := f, lcp_echo_number := n, echo_timer := True, lcp_echo_timer_running := True\<rparr> \<and>
    fstate f = PPP_FSM_OPENED \<and> flags f = flags (lcp_fsm s) \<and> (lcp_inv E (lcp_fsm s) \<longrightarrow> lcp_inv E f) \<and>
    ci f = (ci (lcp_fsm s))\<lparr>lcp_echos_pending := lcp_echos_pending (ci (lcp_fsm s)) + 1\<rparr>"
proof -
  let ?f = "fsm_sdata (lcp_alloc E) (with_mru E PPP_LCP (lcp_peer_mru s)) ECHOREQ (lcp_echo_number s)
      (put_long (magicnumber (lcp_gotoptions (ci (lcp_fsm s))))) (lcp_fsm s)"
  let ?g = "?f\<lparr>ci := (ci ?f)\<lparr>lcp_echos_pending := lcp_echos_pending (ci ?f) + 1\<rparr>\<rparr>"
  have "LcpSendEchoRequest E s = s\<lparr>lcp_fsm := ?g, lcp_echo_number := lcp_echo_number s + 1\<rparr>"
    unfolding LcpSendEchoRequest_def Let_def if_not_P [OF assms(2)] if_P [OF assms(1)] with_lcp_def by simp
  then have "LcpEchoCheck E s =
      s\<lparr>lcp_fsm := ?g, lcp_echo_number := lcp_echo_number s + 1, echo_timer := True, lcp_echo_timer_running := True\<rparr>"
    using assms(1) by (simp add: LcpEchoCheck_def)
  moreover have "lcp_inv E (lcp_fsm s) \<longrightarrow> lcp_inv E ?g"
    by (auto intro: lcp_inv_frame simp: lcp_ok_def)
  ultimately show ?thesis
    by (intro exI [of _ ?g] exI [of _ "lcp_echo_number s + 1"]) (use assms(1) in simp)
qed

lemma echo_lowerup_opened:
  assumes "fstate (lcp_fsm s) = PPP_FSM_OPENED" "\<not> echo_timer s"
  shows "\<exists>f n b. lcp_echo_lowerup E s = s\<lparr>lcp_fsm := f, lcp_echo_number := n, echo_timer := b, lcp_echo_timer_running := b\<rparr> \<and>
    fstate f = PPP_FSM_OPENED \<and> flags f = flags (lcp_fsm s) \<and> (lcp_inv E (lcp_fsm s) \<longrightarrow> lcp_inv E f) \<and>
    (b \<longleftrightarrow> lcp_echo_interval E \<noteq> 0) \<and> ci f = (ci (lcp_fsm s))\<lparr>lcp_echos_pending := if b then 1 else 0\<rparr>"
proof -
  let ?s = "(with_lcp (\<lambda>c. c\<lparr>lcp_echos_pending := 0\<rparr>) s)\<lparr>lcp_echo_number := 0, lcp_echo_timer_running := False\<rparr>"
  have i: "lcp_inv E (lcp_fsm s) \<longrightarrow> lcp_inv E (lcp_fsm ?s)"
    by (auto intro: lcp_inv_frame simp: with_lcp_def lcp_ok_def)
  show ?thesis
  proof (cases "lcp_echo_interval E = 0")
    case True
    then have "lcp_echo_lowerup E s = s\<lparr>lcp_fsm := lcp_fsm ?s, lcp_echo_number := 0, echo_timer := False, lcp_echo_timer_running := False\<rparr>"
      using assms(2) by (simp add: lcp_echo_lowerup_def with_lcp_def)
    with i True assms(1) show ?thesis
      by (intro exI [of _ "lcp_fsm ?s"] exI [of _ 0] exI [of _ False]) (simp add: with_lcp_def)
  next
    case False
    obtain f n where f: "LcpEchoCheck E ?s = ?s\<lparr>lcp_fsm := f, lcp_echo_number := n, echo_timer := True, lcp_echo_timer_running := True\<rparr>"
        "fstate f = PPP_FSM_OPENED" "flags f = flags (lcp_fsm ?s)" "lcp_inv E (lcp_fsm ?s) \<longrightarrow> lcp_inv E f"
        "ci f = (ci (lcp_fsm ?s))\<lparr>lcp_echos_pending := lcp_echos_pending (ci (lcp_fsm ?s)) + 1\<rparr>"
      using echo_check_opened [of ?s E] assms(1) by (auto simp: with_lcp_def)
    have "lcp_echo_lowerup E s = s\<lparr>lcp_fsm := f, lcp_echo_number := n, echo_timer := True, lcp_echo_timer_running := True\<rparr>"
      using False f(1) by (simp add: lcp_echo_lowerup_def with_lcp_def)
    with f(2-5) i False show ?thesis
      by (intro exI [of _ f] exI [of _ n] exI [of _ True]) (simp add: with_lcp_def)
  qed
qed


lemma settle_ok: "lcp_ok c \<Longrightarrow> lcp_ok (lcp_settle c)"
  by (simp add: lcp_settle_def lcp_ok_def Let_def)

lemma negotiated_mtu: "lcp_ok c \<Longrightarrow> PPP_MINMRU \<le> lcp_mtu c \<and> lcp_mtu c \<le> PPP_MRU"
  using lcp_ok_wants(3) [of c] by (auto simp: lcp_mtu_def lcp_ok_def Let_def le_max_iff_disj min.bounded_iff min.coboundedI2)

lemma configure_frame [simp]:
  "lcp_fsm (lcp_configure E s) = lcp_fsm s" "echo_timer (lcp_configure E s) = echo_timer s"
  "delayed_timer (lcp_configure E s) = delayed_timer s" "pppos_open (lcp_configure E s) = pppos_open s"
  "netif_mtu (lcp_configure E s) = lcp_mtu (ci (lcp_fsm s))" "net_idle (lcp_configure E s) = net_idle s"
  "lcp_peer_mru (lcp_configure E s) =
    (if neg_mru (lcp_hisoptions (ci (lcp_fsm s))) then mru (lcp_hisoptions (ci (lcp_fsm s))) else lcp_peer_mru s)"
  by (simp_all add: lcp_configure_def netif_set_mtu_def ppp_send_config_def ppp_recv_config_def Let_def net_idle_def quiet_def)

lemma network_call_quiet: "lcp_closes (op s) = lcp_closes s \<Longrightarrow> network_call E op s = op s"
  by (simp add: network_call_def Let_def)

lemma lcp_up_inv:
  assumes "fstate (lcp_fsm s) = PPP_FSM_OPENED" "flags (lcp_fsm s) = 0" "lcp_inv E (lcp_fsm s)" "net_idle s" "plain_line s"
    "\<not> echo_timer s" "\<not> delayed_timer s" "pppos_open s"
  shows "session_inv E (lcp_up E s)" "open_inv E (lcp_up E s)"
    "lcp_echo_interval E \<noteq> 0 \<Longrightarrow> echo_timer (lcp_up E s) \<and> lcp_echos_pending (ci (lcp_fsm (lcp_up E s))) = 1"
    "line (lcp_up E s) = negotiated_line E (ci (lcp_fsm (lcp_up E s)))"
proof -
  define t where "t = lcp_configure E (with_lcp lcp_settle s)"
  have ok: "lcp_ok (ci (lcp_fsm t))" using assms(3) by (simp add: lcp_inv_def t_def with_lcp_def settle_ok)
  have i: "lcp_inv E (lcp_fsm t)"
    by (rule lcp_inv_frame [OF assms(3)]) (simp_all add: t_def with_lcp_def settle_ok)
  have o: "fstate (lcp_fsm t) = PPP_FSM_OPENED" "\<not> echo_timer t" by (simp_all add: t_def assms with_lcp_def)
  obtain f n b where u: "lcp_echo_lowerup E t = t\<lparr>lcp_fsm := f, lcp_echo_number := n, echo_timer := b, lcp_echo_timer_running := b\<rparr>"
      "fstate f = PPP_FSM_OPENED" "flags f = 0" "lcp_inv E f"
      "lcp_echo_interval E \<noteq> 0 \<longrightarrow> b \<and> lcp_echos_pending (ci f) = 1" "line_options (ci f) = line_options (ci (lcp_fsm t))"
    using echo_lowerup_opened [OF o, of E] i assms(2) by (auto simp: t_def with_lcp_def line_options_def)
  let ?u = "lcp_echo_lowerup E t"
  have t: "net_idle t" "\<not> delayed_timer t" "pppos_open t" "netif_mtu t = lcp_mtu (ci (lcp_fsm t))"
      "lcp_peer_mru t = (if neg_mru (lcp_hisoptions (ci (lcp_fsm t))) then mru (lcp_hisoptions (ci (lcp_fsm t))) else PPP_MRU)"
    using assms(4,5,7,8) by (simp_all add: t_def with_lcp_def plain_line_def)
  have idle: "net_idle ?u" using t(1) by (simp add: u(1) net_idle_def quiet_def)
  define l where "l = link_established (ipcp_alloc E) (ipcp_settings E ?u) ?u"
  note l = link_established_idle [OF idle, of "ipcp_alloc E" "ipcp_settings E ?u", folded l_def]
  have e: "lcp_up E s = l" using l(4) by (simp add: lcp_up_def Let_def t_def [symmetric] network_call_quiet l_def)
  note fr = leaves_session [OF l(3)]
  have us: "usable_line l"
    using negotiated_mtu [OF ok] ok by (simp add: usable_line_def fr(1-3) u(1) t lcp_ok_def)
  have p: "lcp_fsm l = f" "\<not> delayed_timer l" "pppos_open l" "echo_timer l = lcp_echo_timer_running l"
    using fr t by (simp_all add: u(1))
  have "told ?u" using idle by (simp add: net_idle_def quiet_def told_def)
  then have told: "told l" by (rule fr(9))
  have rest: "\<not> at_rest l" using l(2) by (simp add: np_phase_def at_rest_def split: if_split_asm)
  show "open_inv E (lcp_up E s)"
    unfolding e open_inv_def using p u l(1,2) us by simp
  show "lcp_echo_interval E \<noteq> 0 \<Longrightarrow> echo_timer (lcp_up E s) \<and> lcp_echos_pending (ci (lcp_fsm (lcp_up E s))) = 1"
    using fr(6) p(1) u(5) by (simp add: e u(1))
  have "line t = negotiated_line E (ci (lcp_fsm t))"
    using assms(5) by (simp add: t_def line_def negotiated_line_def lcp_configure_def netif_set_mtu_def ppp_send_config_def
        ppp_recv_config_def with_lcp_def plain_line_def Let_def)
  then show "line (lcp_up E s) = negotiated_line E (ci (lcp_fsm (lcp_up E s)))"
    using fr(10) negotiated_line_cong [OF u(6)] by (simp add: e p(1) u(1) line_def)
  from \<open>open_inv E (lcp_up E s)\<close> show "session_inv E (lcp_up E s)"
    using p u(4) told rest unfolding e session_inv_def clear_inv_def by simp
qed

section \<open>Every run of LCP\<close>

lemma in_use_open: "session_inv E s \<Longrightarrow> fstate (lcp_fsm s) = PPP_FSM_OPENED \<Longrightarrow> in_use E s \<and> np_phase s"
  by (auto simp: session_inv_def session_parts in_use_def waiting_def negotiating_def np_phase_def at_rest_def split: if_split_asm)

lemma in_use_busy: "session_inv E s \<Longrightarrow> busy_inv E s \<Longrightarrow> in_use E s"
  by (auto simp: session_inv_def busy_inv_def in_use_def waiting_def negotiating_def at_rest_def)

text \<open>The phase belongs to the state of LCP.\<close>

definition phase_fits :: "'a ppp_session_scheme \<Rightarrow> bool" where
  "phase_fits s \<longleftrightarrow> (if fstate (lcp_fsm s) = PPP_FSM_OPENED then np_phase s
     else phase s = PPP_PHASE_ESTABLISH \<or> phase s = PPP_PHASE_TERMINATE)"

lemma in_use_session: "in_use E s \<Longrightarrow> phase_fits s \<Longrightarrow> session_inv E s"
  by (auto simp: in_use_def session_inv_def phase_fits_def open_inv_def busy_inv_def split: if_split_asm)

lemma lcp_call_inv:
  assumes "in_use E s" "proper E (lcp_fsm s) op"
    and "fstate (lcp_run E op s) = PPP_FSM_OPENED \<longleftrightarrow> fstate (lcp_fsm s) = PPP_FSM_OPENED \<Longrightarrow> phase_fits s"
  shows "session_inv E (lcp_call E op (lcp_reports E) s)"
proof -
  let ?f = "lcp_fsm s" let ?g = "lcp_run E op s" let ?s = "s\<lparr>lcp_fsm := ?g\<rparr>"
  obtain new where g: "lcp_inv E ?g" and new: "finishes new ?f ?g" using lcp_run_proper [OF assms(2)] by blast
  note call = lcp_call_events [where op = op and s = s]
  have ev: "events ?g = events ?f @ new" and fl: "flags ?g = 0" using new assms(1) by (simp_all add: finishes_def in_use_def)
  note call = call [OF ev]
  have clear: "clear_inv ?s" "\<not> at_rest ?s" "\<not> delayed_timer ?s" "pppos_open ?s"
    using assms(1) by (simp_all add: in_use_def clear_inv_def)
  consider "new = []" "(fstate ?f = PPP_FSM_OPENED) = (fstate ?g = PPP_FSM_OPENED)" "working ?g"
    | "new = [Up]" "fstate ?f \<noteq> PPP_FSM_OPENED" "fstate ?g = PPP_FSM_OPENED"
    | "new = [Down]" "fstate ?f = PPP_FSM_OPENED" "fstate ?g \<noteq> PPP_FSM_OPENED" "working ?g"
    | "new = [Finished]" "fstate ?f \<noteq> PPP_FSM_OPENED" "fstate ?g = PPP_FSM_CLOSED \<or> fstate ?g = PPP_FSM_STOPPED"
    | "new = [Down, Finished]" "fstate ?f = PPP_FSM_OPENED" "fstate ?g = PPP_FSM_CLOSED \<or> fstate ?g = PPP_FSM_STOPPED"
    using new by (auto simp: finishes_def Let_def)
  then show ?thesis
  proof cases
    case 1
    then have "in_use E ?s" using assms(1) clear g fl
      by (auto simp: in_use_def working_flags plain_line_def usable_line_def waiting_def negotiating_def)
    moreover have "phase_fits ?s" using assms(3) 1(2) by (auto simp: phase_fits_def)
    ultimately show ?thesis using 1(1) by (simp add: call in_use_session)
  next
    case 2
    have "session_inv E (lcp_up E ?s)"
      by (rule lcp_up_inv) (use assms(1) 2 g fl clear in \<open>auto simp: in_use_def plain_line_def clear_inv_def\<close>)
    then show ?thesis using 2(1) by (simp add: call lcp_reports_def)
  next
    case 3
    have i: "link_inv ?s" "told ?s" "echo_timer ?s = lcp_echo_timer_running ?s"
      using assms(1) 3 by (simp_all add: in_use_def clear_inv_def)
    note d = lcp_down_inv [OF i clear(2,4), of E "ci ?f"]
    have "in_use E (lcp_down E (ci ?f) ?s)" "phase_fits (lcp_down E (ci ?f) ?s)"
      using d 3 g fl clear(3) by (simp_all add: in_use_def phase_fits_def at_rest_def working_flags)
    then show ?thesis using 3(1) by (simp add: call lcp_reports_def lcp_leaves_def in_use_session)
  next
    case 4
    have "session_inv E (lcp_finished E ?s)"
      by (rule lcp_finished_inv) (use assms(1) 4 g fl clear in \<open>auto simp: in_use_def clear_inv_def at_rest_def\<close>)
    then show ?thesis using 4(1) by (simp add: call lcp_reports_def lcp_leaves_def)
  next
    case 5
    have i: "link_inv ?s" "told ?s" "echo_timer ?s = lcp_echo_timer_running ?s"
      using assms(1) 5 by (simp_all add: in_use_def clear_inv_def)
    note d = lcp_down_inv [OF i clear(2,4), of E "ci ?f"]
    have "session_inv E (lcp_finished E (lcp_down E (ci ?f) ?s))"
      by (rule lcp_finished_inv) (use d 5 g fl clear(3) in \<open>auto simp: clear_inv_def\<close>)
    then show ?thesis using 5(1) by (simp add: call lcp_reports_def lcp_leaves_def)
  qed
qed

end
