(* ===== verification/Session_Run.thy ===== *)
theory Session_Run
  imports Session_Inv
begin

unbundle bit_operations_syntax

text \<open>
  Everything that can happen to a session keeps its invariant, so that it holds in every
  execution; and what the session's operations end in.
\<close>

section \<open>The automaton of LCP\<close>

lemma proper_ops:
  assumes "working f" "fstate f \<noteq> PPP_FSM_STOPPED" "lcp_inv E f"
  shows "proper E f (\<lambda>fp. fsm_close (lcp_alloc E) (lcp_cb E) fp r)"
    "proper E f (fsm_protreject (lcp_alloc E) (lcp_cb E))"
    "proper E f (fsm_timeout (lcp_alloc E) (lcp_cb E))"
    "proper E f (\<lambda>fp. fsm_input (lcp_alloc E) (lcp_cb E) fp p)"
  using assms
  by (simp_all add: proper_def lcp_inv_def fsm_close_inv fsm_protreject_inv fsm_timeout_inv fsm_input_inv
      lcp_ok.timeout_keeps lcp_ok.input_keeps lcp_line.close_finishes lcp_line.protreject_finishes
      lcp_line.timeout_finishes lcp_line.input_finishes)

lemma in_use_working:
  assumes "in_use E s"
  shows "working (lcp_fsm s)" "fstate (lcp_fsm s) \<noteq> PPP_FSM_STOPPED" "lcp_inv E (lcp_fsm s)"
  using assms by (auto simp: in_use_def working_def waiting_def negotiating_def split: if_split_asm)

lemma close_run_left: "fstate (lcp_run E (\<lambda>fp. fsm_close alloc cb fp r) s) \<noteq> PPP_FSM_OPENED"
proof -
  have "fstate (fsm_close alloc cb fp r f) \<noteq> PPP_FSM_OPENED" for fp and f :: "lcp fsm"
    by (cases "fstate f") (simp_all add: fsm_close_def terminate_layer_def Let_def)
  then show ?thesis by (simp add: lcp_run_def Let_def)
qed

lemma lcp_call_leaves:
  assumes "proper E (lcp_fsm s) op" "fstate (lcp_run E op s) \<noteq> PPP_FSM_OPENED \<or> fstate (lcp_fsm s) = PPP_FSM_OPENED"
  shows "lcp_call E op (lcp_leaves E) s = lcp_call E op (lcp_reports E) s"
proof -
  obtain new where new: "finishes new (lcp_fsm s) (lcp_run E op s)" using lcp_run_proper [OF assms(1)] by blast
  then have e: "events (lcp_run E op s) = events (lcp_fsm s) @ new" by (simp add: finishes_def)
  have "Up \<notin> set new" using new assms(2) by (auto simp: finishes_def Let_def)
  then have "fold (lcp_leaves E c) new t = fold (lcp_reports E c) new t" for c t
    by (induction new arbitrary: t) (auto simp: lcp_reports_def)
  then show ?thesis by (simp add: lcp_call_events [OF e])
qed

section \<open>Closing\<close>

lemma in_use_phase: "in_use E s \<Longrightarrow> in_use E (new_phase PPP_PHASE_TERMINATE s)"
  by (auto simp: in_use_def clear_inv_def at_rest_def net_idle_def quiet_def split: if_split_asm)

lemma in_use_frames: "in_use E s \<Longrightarrow> in_use E (s\<lparr>err_code := e\<rparr>)"
  by (auto simp: in_use_def clear_inv_def at_rest_def net_idle_def quiet_def told_def plain_line_def usable_line_def
      link_inv_def live_def Let_def split: if_split_asm)

lemma lcp_close_in_use:
  assumes "in_use E s"
  shows "lcp_close E r s = lcp_call E (\<lambda>fp. fsm_close (lcp_alloc E) (lcp_cb E) fp (str r)) (lcp_reports E) (new_phase PPP_PHASE_TERMINATE s)"
proof -
  let ?s = "new_phase PPP_PHASE_TERMINATE s"
  note w = in_use_working [OF in_use_phase [OF assms]]
  note p = proper_ops(1) [OF w, of "str r"]
  have ph: "phase s \<noteq> PPP_PHASE_DEAD" "\<not> is_delayed ?s"
    using assms by (auto simp: in_use_def at_rest_def is_delayed_def)
  have "lcp_call E (\<lambda>fp. fsm_close (lcp_alloc E) (lcp_cb E) fp (str r)) (lcp_leaves E) ?s =
      lcp_call E (\<lambda>fp. fsm_close (lcp_alloc E) (lcp_cb E) fp (str r)) (lcp_reports E) ?s"
    by (rule lcp_call_leaves [OF p disjI1 [OF close_run_left]])
  then show ?thesis using ph w(2) by (simp add: lcp_close_def Let_def)
qed

lemma lcp_close_inv: "in_use E s \<Longrightarrow> session_inv E (lcp_close E r s)"
proof -
  assume u: "in_use E s"
  note w = in_use_working [OF in_use_phase [OF u]]
  have "phase_fits (new_phase PPP_PHASE_TERMINATE s)" if "fstate (lcp_fsm s) \<noteq> PPP_FSM_OPENED"
    using that by (simp add: phase_fits_def)
  then show ?thesis unfolding lcp_close_in_use [OF u]
    by (intro lcp_call_inv in_use_phase [OF u] proper_ops(1) w) (use close_run_left in force)
qed

lemma lcp_close_delayed:
  assumes "lcp_inv E (lcp_fsm s)" "clear_inv s" "delayed_inv E s"
  shows "session_inv E (lcp_close E r s)" "phase (lcp_close E r s) = PPP_PHASE_DEAD"
    "last_status (out (lcp_close E r s)) = Some (if err_code s = PPPERR_NONE then PPPERR_CONNECT else err_code s)"
proof -
  let ?g = "fsm_close (lcp_alloc E) (lcp_cb E) (with_mru E PPP_LCP (lcp_peer_mru s)) (str r) ((lcp_fsm s)\<lparr>fstate := PPP_FSM_STOPPED\<rparr>)"
  let ?t = "(new_phase PPP_PHASE_TERMINATE s)\<lparr>delayed_timer := False, lcp_fsm := ?g\<lparr>flags := 0\<rparr>\<rparr>"
  have g: "fstate ?g = PPP_FSM_CLOSED" "flags ?g = DELAYED_UP" "events ?g = events (lcp_fsm s)" "timer ?g = timer (lcp_fsm s)"
      "ci ?g = ci (lcp_fsm s)"
    using assms(3) by (simp_all add: fsm_close_def Let_def delayed_inv_def)
  have ph: "phase s \<noteq> PPP_PHASE_DEAD" "is_delayed s" using assms(3) by (simp_all add: delayed_inv_def is_delayed_def)
  have e: "lcp_close E r s = lcp_finished E ?t"
    using ph g by (simp add: lcp_close_def Let_def lcp_call_def lcp_run_def is_delayed_def with_flags_def)
  have i: "lcp_inv E (?g\<lparr>flags := 0\<rparr>)"
  proof -
    have "\<not> timer (lcp_fsm s)" "layer_up False (events (lcp_fsm s)) = Some False"
      using assms(1,3) by (simp_all add: lcp_inv_def fsm_inv_def delayed_inv_def waiting_def negotiating_def lcp_callbacks_def)
    then show ?thesis using assms(1) g by (simp add: lcp_inv_def fsm_inv_def waiting_def negotiating_def)
  qed
  have t: "fstate (lcp_fsm ?t) = PPP_FSM_CLOSED" "flags (lcp_fsm ?t) = 0" "lcp_inv E (lcp_fsm ?t)" "net_idle ?t"
      "\<not> lcp_echo_timer_running ?t" "\<not> echo_timer ?t" "\<not> delayed_timer ?t" "phase ?t \<noteq> PPP_PHASE_DEAD"
    using assms(2,3) g i by (simp_all add: delayed_inv_def clear_inv_def net_idle_def quiet_def)
  note f = lcp_finished_inv [OF disjI1 [OF t(1)] t(2-8)]
  show "session_inv E (lcp_close E r s)" "phase (lcp_close E r s) = PPP_PHASE_DEAD"
    "last_status (out (lcp_close E r s)) = Some (if err_code s = PPPERR_NONE then PPPERR_CONNECT else err_code s)"
    unfolding e using f by simp_all
qed

section \<open>IPCP\<close>

text \<open>What an operation on IPCP does: everything that is said of one in \<open>Session_Net\<close>.\<close>

definition network_op :: "('a ip_link_scheme \<Rightarrow> 'a ip_link_scheme) \<Rightarrow> bool" where
  "network_op op \<longleftrightarrow>
     (\<forall>s. link_inv s \<longrightarrow> link_inv (op s) \<and> leaves_lcp s (op s) \<and> (np_phase s \<longrightarrow> np_phase (op s)) \<and>
       (net_idle s \<longrightarrow> (\<exists>g. op s = s\<lparr>ipcp_fsm := g\<rparr> \<and> fstate g = PPP_FSM_INITIAL)))"

lemma idle_call:
  assumes "fstate (op (ipcp_fsm s)) = PPP_FSM_INITIAL" "events (op (ipcp_fsm s)) = events (ipcp_fsm s)"
  shows "\<exists>g. ipcp_call op h s = s\<lparr>ipcp_fsm := g\<rparr> \<and> fstate g = PPP_FSM_INITIAL"
  using assms by (auto simp: ipcp_call_def Let_def)

lemma idle_timeout:
  assumes "net_idle s"
  shows "\<exists>g. ipcp_timeout alloc fp s = s\<lparr>ipcp_fsm := g\<rparr> \<and> fstate g = PPP_FSM_INITIAL"
proof (cases "timer (ipcp_fsm s)")
  case True
  then show ?thesis using assms unfolding ipcp_timeout_def
    by (simp, intro idle_call) (simp_all add: net_idle_def fsm_timeout_def Let_def negotiating_def)
next
  case False
  then show ?thesis using assms by (intro exI [of _ "ipcp_fsm s"]) (simp add: ipcp_timeout_def net_idle_def)
qed

lemma network_ops:
  "network_op (ipcp_input alloc fp p)" "network_op (ipcp_timeout alloc fp)" "network_op ipcp_protrej"
proof -
  show "network_op (ipcp_input alloc fp p)"
    by (auto simp: network_op_def ipcp_input_def call_reports [where op = "fsm_input alloc ipcp_callbacks fp p", OF _ input_emits]
        ipcp_call_phase [where op = "fsm_input alloc ipcp_callbacks fp p", OF _ input_emits] ipcp_call_leaves net_idle_def
        fsm_input_def Let_def intro!: idle_call)
  show "network_op (ipcp_timeout alloc fp)"
    by (auto simp: network_op_def idle_timeout) (auto simp: ipcp_timeout_def call_reports [where op = "fsm_timeout alloc ipcp_callbacks fp", OF _ timeout_emits]
        ipcp_call_phase [where op = "fsm_timeout alloc ipcp_callbacks fp", OF _ timeout_emits] ipcp_call_leaves)
  have "np_phase (ipcp_call op ipcp_leaves s)" if "np_phase s" for op and s :: "'c ip_link_scheme"
    using that by (simp add: call_phase [OF _ _ refl] ipcp_leaves_leaves(2))
  then show "network_op (ipcp_protrej :: 'c ip_link_scheme \<Rightarrow> 'c ip_link_scheme)"
    using lowerdown_inv
    by (auto simp: network_op_def ipcp_protrej_def ipcp_lowerdown_def ipcp_call_leaves net_idle_def
        fsm_lowerdown_def intro!: idle_call)
qed

lemma network_op_open:
  assumes "session_inv E s" "network_op op" "fstate (lcp_fsm s) = PPP_FSM_OPENED"
  shows "in_use E (op s)" "session_inv E (op s)" "same_lcp s (op s)"
    "network_call E op s = op s \<or> (\<exists>r. network_call E op s = lcp_close E r (op s))"
proof -
  from in_use_open [OF assms(1,3)] have u: "in_use E s" and ph: "np_phase s" by blast+
  then have "link_inv s" using assms(3) by (simp add: in_use_def)
  with assms(2) ph have i: "link_inv (op s)" "leaves_lcp s (op s)" "np_phase (op s)" by (simp_all add: network_op_def)
  then show same: "same_lcp s (op s)" by (simp add: leaves_lcp_def)
  note fr = leaves_session [OF same]
  show u': "in_use E (op s)"
    using u assms(3) i(1,3) fr by (auto simp: in_use_def clear_inv_def at_rest_def np_phase_def usable_line_def split: if_split_asm)
  show "session_inv E (op s)"
    by (rule in_use_session [OF u']) (use i(3) fr(1) assms(3) in \<open>simp add: phase_fits_def\<close>)
  have "lcp_closes (op s) - lcp_closes s = 0 \<or> lcp_closes (op s) - lcp_closes s = Suc 0"
    using leaves_lcp_closes [OF i(2)] by auto
  then show "network_call E op s = op s \<or> (\<exists>r. network_call E op s = lcp_close E r (op s))"
    by (auto simp: network_call_def Let_def)
qed

lemma network_op_idle:
  assumes "session_inv E s" "network_op op" "fstate (lcp_fsm s) \<noteq> PPP_FSM_OPENED"
  shows "\<exists>g. network_call E op s = s\<lparr>ipcp_fsm := g\<rparr> \<and> fstate g = PPP_FSM_INITIAL"
proof -
  have idle: "net_idle s" using assms(1,3) by (auto simp: session_inv_def session_parts)
  then obtain g where "op s = s\<lparr>ipcp_fsm := g\<rparr>" "fstate g = PPP_FSM_INITIAL"
    using assms(2) net_idle_link_inv [OF idle] by (auto simp: network_op_def)
  then show ?thesis by (intro exI [of _ g]) (simp add: network_call_def)
qed

lemma network_call_inv:
  assumes "session_inv E s" "network_op op"
  shows "session_inv E (network_call E op s)"
proof (cases "fstate (lcp_fsm s) = PPP_FSM_OPENED")
  case True
  note n = network_op_open [OF assms True]
  show ?thesis using n(2,4) lcp_close_inv [OF n(1)] by auto
next
  case False
  then obtain g where g: "network_call E op s = s\<lparr>ipcp_fsm := g\<rparr>" "fstate g = PPP_FSM_INITIAL"
    using network_op_idle [OF assms] by blast
  have "session_inv E (s\<lparr>ipcp_fsm := g\<rparr>)"
    using assms(1) g(2) False by (auto simp: session_inv_def session_parts clear_inv_def net_idle_def quiet_def told_def
        at_rest_def plain_line_def)
  then show ?thesis by (simp add: g(1))
qed


section \<open>Packets for LCP\<close>

lemma session_cases:
  assumes "session_inv E s"
  obtains (used) "in_use E s" "phase_fits s"
    | (unused) "fstate (lcp_fsm s) = PPP_FSM_INITIAL \<or> fstate (lcp_fsm s) = PPP_FSM_STARTING" "\<not> timer (lcp_fsm s)"
proof (cases "open_inv E s \<or> busy_inv E s")
  case True
  then have "in_use E s \<and> phase_fits s"
  proof
    assume "open_inv E s"
    then show ?thesis using in_use_open [OF assms] by (simp add: open_inv_def phase_fits_def)
  next
    assume b: "busy_inv E s"
    then show ?thesis using in_use_busy [OF assms b] by (auto simp: busy_inv_def phase_fits_def waiting_def negotiating_def)
  qed
  then show ?thesis using used by blast
next
  case False
  then have "delayed_inv E s \<or> rest_inv E s" using assms unfolding session_inv_def by blast
  then have st: "fstate (lcp_fsm s) = PPP_FSM_INITIAL \<or> fstate (lcp_fsm s) = PPP_FSM_STARTING"
    unfolding delayed_inv_def rest_inv_def by blast
  then have "\<not> waiting (fstate (lcp_fsm s))" by (auto simp: waiting_def negotiating_def)
  moreover have "timer (lcp_fsm s) \<longrightarrow> waiting (fstate (lcp_fsm s))"
    using assms by (simp add: session_inv_def lcp_inv_def fsm_inv_def)
  ultimately show ?thesis using st unused by blast
qed

lemma lcp_run_same: "(\<And>fp. op fp (lcp_fsm s) = lcp_fsm s) \<Longrightarrow> lcp_run E op s = lcp_fsm s"
  by (simp add: lcp_run_def)

lemma lcp_call_same: "(\<And>fp. op fp (lcp_fsm s) = lcp_fsm s) \<Longrightarrow> lcp_call E op h s = s"
  by (simp add: lcp_call_def lcp_run_same)

lemma lcp_protrej_inv:
  assumes "session_inv E s"
  shows "session_inv E (lcp_protrej E s)"
  using assms
proof (cases rule: session_cases)
  case used
  note p = proper_ops(2) [OF in_use_working [OF used(1)]]
  have "fstate (lcp_run E (fsm_protreject (lcp_alloc E) (lcp_cb E)) s) \<noteq> PPP_FSM_OPENED"
    using in_use_working(1) [OF used(1)] in_use_working(2) [OF used(1)]
    by (cases "fstate (lcp_fsm s)")
      (simp_all add: lcp_run_def fsm_protreject_def terminate_layer_def Let_def working_def waiting_def negotiating_def)
  note l = lcp_call_leaves [OF p disjI1 [OF this]]
  show ?thesis unfolding lcp_protrej_def l by (rule lcp_call_inv [OF used(1) p used(2)])
next
  case unused
  then have "fsm_protreject (lcp_alloc E) (lcp_cb E) fp (lcp_fsm s) = lcp_fsm s" for fp
    by (auto simp: fsm_protreject_def Let_def)
  then show ?thesis using assms by (simp add: lcp_protrej_def lcp_call_same)
qed

lemma rejected_inv: "session_inv E s \<Longrightarrow> session_inv E (rejected_by_peer E prot s)"
  by (simp add: rejected_by_peer_def lcp_protrej_inv network_call_inv network_ops)

lemma rejections_inv: "session_inv E s \<Longrightarrow> session_inv E (fold (rejected_by_peer E) ps s)"
  by (induction ps arbitrary: s) (simp_all add: rejected_inv)

text \<open>In OPENED no packet shows a looped back line.\<close>

lemma lcp_reqci_loopbacks: "loopbacks (snd (snd (lcp_reqci rand nakp c p rej))) = loopbacks c"
proof -
  obtain code reply c' where r: "lcp_reqci rand nakp c p rej = (code, reply, c')" by (metis prod_cases3)
  then show ?thesis using lcp_reqci_frame(1) [OF r] by (auto simp: same_lcp_settings_def)
qed

lemma lcp_extcode_loopbacks: "loopbacks (snd (snd (lcp_extcode st c code i d))) = loopbacks c"
  by (simp add: lcp_extcode_def lcp_rprotrej_def lcp_received_echo_reply_def Let_def)

interpretation lcp_loops: ci_request "lcp_callbacks rand nakp" "\<lambda>c. loopbacks c = k" for rand nakp k
  by unfold_locales
    (auto simp: lcp_callbacks_def lcp_reqci_loopbacks lcp_extcode_loopbacks lcp_resetci_def magic_def lcp_cilen_def
      lcp_addci_def Let_def)

lemma lcp_nakci_opened: "lcp_nakci rand PPP_FSM_OPENED c p rej = (ret, c', reason) \<Longrightarrow> loopbacks c' = loopbacks c \<and> reason = None"
  by (auto simp: lcp_nakci_def lcp_nakci_update_def magic_def Let_def split: option.splits if_split_asm)

lemma rconfnakrej_loopbacks:
  assumes "fstate f = PPP_FSM_OPENED"
  shows "loopbacks (ci (fsm_rconfnakrej alloc (lcp_callbacks rand nakp) fp code i p f)) = loopbacks (ci f)"
proof -
  let ?f = "f\<lparr>rnakloops := (if code = CONFNAK then rnakloops f + 1 else 0)\<rparr>"
  obtain ret g where g: "fsm_nakrej_callback alloc (lcp_callbacks rand nakp) fp code p ?f = (ret, g)" by fastforce
  have "fstate g = PPP_FSM_OPENED \<and> loopbacks (ci g) = loopbacks (ci f)"
  proof (cases "code = CONFNAK")
    case True
    obtain r c' reason where n: "lcp_nakci rand PPP_FSM_OPENED (ci f) p (maxnakloops ?f \<le> rnakloops ?f) = (r, c', reason)"
      by (metis prod_cases3)
    have "g = ?f\<lparr>ci := c'\<rparr>" using g n True assms lcp_nakci_opened [OF n]
      by (simp add: fsm_nakrej_callback_def lcp_callbacks_def)
    then show ?thesis using assms lcp_nakci_opened [OF n] by simp
  next
    case False
    obtain r c' where n: "lcp_rejci PPP_FSM_OPENED (ci f) p = (r, c')" by fastforce
    then have "c' = ci f" by (auto simp: lcp_rejci_def split: option.splits list.splits)
    moreover have "g = ?f\<lparr>ci := c'\<rparr>" using g n False assms by (simp add: fsm_nakrej_callback_def lcp_callbacks_def)
    ultimately show ?thesis using assms by simp
  qed
  then show ?thesis by (simp add: fsm_rconfnakrej_def g nakrej_next_def Let_def lcp_loops.renegotiate_keeps)
qed

lemma input_loopbacks:
  assumes "fstate f = PPP_FSM_OPENED"
  shows "loopbacks (ci (fsm_input alloc (lcp_callbacks rand nakp) fp p f)) = loopbacks (ci f)"
proof -
  have e: "extcode (lcp_callbacks rand nakp) = Some lcp_extcode" by (simp add: lcp_callbacks_def)
  note r = lcp_loops.rconfreq_keeps lcp_loops.rconfack_keeps lcp_loops.other_codes_keep
  show ?thesis
    by (simp add: fsm_input_def fsm_code_def Let_def e case_prod_unfold r rconfnakrej_loopbacks assms lcp_extcode_loopbacks)
qed


text \<open>
  A packet while the line is in use: it is given to the automaton, perhaps after the session was
  told to end because the line is looped back.
\<close>

lemma lcp_fsm_input_run:
  assumes "in_use E s" "phase_fits s"
  shows "\<exists>t ps. lcp_fsm_input E p s = fold (rejected_by_peer E) ps
      (lcp_call E (\<lambda>fp. fsm_input (lcp_alloc E) (lcp_cb E) fp p) (lcp_reports E) t) \<and>
    in_use E t \<and> phase_fits t \<and> lcp_fsm t = lcp_fsm s \<and> line t = line s"
proof -
  let ?op = "\<lambda>fp. fsm_input (lcp_alloc E) (lcp_cb E) fp p" let ?f = "lcp_fsm s" let ?g = "lcp_run E ?op s"
  let ?l = "loopbacks (ci ?f) < loopbacks (ci ?g)"
  define t where "t = (if ?l then new_phase PPP_PHASE_TERMINATE (s\<lparr>err_code := PPPERR_LOOPBACK\<rparr>) else s)"
  have ph: "phase s \<noteq> PPP_PHASE_DEAD" using assms(1) by (simp add: in_use_def at_rest_def)
  have e: "lcp_fsm_input E p s =
      fold (rejected_by_peer E) (drop (length (protrejs (ci ?f))) (protrejs (ci ?g))) (lcp_call E ?op (lcp_reports E) t)"
    using ph in_use_working(2) [OF assms(1)] by (simp add: lcp_fsm_input_def Let_def t_def)
  have "in_use E t" using assms(1) by (simp add: t_def in_use_phase in_use_frames)
  moreover have "lcp_fsm t = ?f" "line t = line s" by (simp_all add: t_def line_def new_phase_def emit_def Let_def)
  moreover have "phase_fits t"
  proof (cases ?l)
    case True
    have "fstate ?f \<noteq> PPP_FSM_OPENED"
    proof
      assume "fstate ?f = PPP_FSM_OPENED"
      then have "loopbacks (ci ?g) = loopbacks (ci ?f)" by (simp add: lcp_run_def Let_def input_loopbacks)
      with True show False by simp
    qed
    with True show ?thesis by (simp add: t_def phase_fits_def)
  next
    case False
    then show ?thesis using assms(2) by (simp add: t_def)
  qed
  ultimately show ?thesis using e by blast
qed

lemma lcp_fsm_input_unused:
  assumes "fstate (lcp_fsm s) = PPP_FSM_INITIAL \<or> fstate (lcp_fsm s) = PPP_FSM_STARTING"
  shows "lcp_fsm_input E p s = s"
proof -
  let ?op = "\<lambda>fp. fsm_input (lcp_alloc E) (lcp_cb E) fp p"
  have same: "?op fp (lcp_fsm s) = lcp_fsm s" for fp using assms by (auto simp: fsm_input_def Let_def)
  show ?thesis
    using assms by (auto simp: lcp_fsm_input_def Let_def lcp_run_same [where op = ?op, OF same] lcp_call_same [where op = ?op, OF same])
qed

lemma lcp_fsm_input_inv:
  assumes "session_inv E s"
  shows "session_inv E (lcp_fsm_input E p s)"
  using assms
proof (cases rule: session_cases)
  case used
  from lcp_fsm_input_run [OF used] obtain t ps where
    e: "lcp_fsm_input E p s = fold (rejected_by_peer E) ps
      (lcp_call E (\<lambda>fp. fsm_input (lcp_alloc E) (lcp_cb E) fp p) (lcp_reports E) t)"
    and t: "in_use E t" "phase_fits t" "lcp_fsm t = lcp_fsm s" by blast
  show ?thesis unfolding e
    by (intro rejections_inv lcp_call_inv t(1,2)) (simp_all add: proper_ops(4) [OF in_use_working [OF t(1)]])
next
  case unused
  then show ?thesis using assms by (simp add: lcp_fsm_input_unused)
qed

section \<open>The line comes up\<close>

definition fresh_line :: "session_env \<Rightarrow> 'a ppp_session_scheme \<Rightarrow> bool" where
  "fresh_line E s \<longleftrightarrow> lcp_inv E (lcp_fsm s) \<and> clear_inv s \<and> fstate (lcp_fsm s) = PPP_FSM_STARTING \<and> flags (lcp_fsm s) = 0 \<and>
     \<not> delayed_timer s \<and> net_idle s \<and> plain_line s \<and> \<not> lcp_echo_timer_running s \<and> phase s = PPP_PHASE_ESTABLISH"

lemma fresh_line_up:
  assumes "fresh_line E s"
  shows "session_inv E (lcp_fsm_lowerup E s)" "busy_inv E (lcp_fsm_lowerup E s)"
    "lcp_fsm_lowerup E s = s\<lparr>lcp_fsm := (fsm_sconfreq (lcp_alloc E) (lcp_cb E) (with_mru E PPP_LCP PPP_MRU) False (lcp_fsm s))\<lparr>fstate := PPP_FSM_REQSENT\<rparr>\<rparr>"
proof -
  let ?op = "fsm_lowerup (lcp_alloc E) (lcp_cb E)"
  let ?g = "?op (with_mru E PPP_LCP PPP_MRU) (lcp_fsm s)"
  have g: "?g = (fsm_sconfreq (lcp_alloc E) (lcp_cb E) (with_mru E PPP_LCP PPP_MRU) False (lcp_fsm s))\<lparr>fstate := PPP_FSM_REQSENT\<rparr>"
    using assms by (simp add: fresh_line_def fsm_lowerup_def)
  have r: "lcp_run E ?op s = ?g"
    using assms by (simp add: lcp_run_def g fresh_line_def plain_line_def)
  then have c: "lcp_fsm_lowerup E s = s\<lparr>lcp_fsm := ?g\<rparr>"
    by (simp add: lcp_fsm_lowerup_def lcp_call_def g)
  then show "lcp_fsm_lowerup E s = s\<lparr>lcp_fsm := (fsm_sconfreq (lcp_alloc E) (lcp_cb E) (with_mru E PPP_LCP PPP_MRU) False (lcp_fsm s))\<lparr>fstate := PPP_FSM_REQSENT\<rparr>\<rparr>"
    by (simp only: g)
  have "lcp_inv E ?g"
    using assms by (simp add: fresh_line_def lcp_inv_def fsm_lowerup_inv lcp_ok.lowerup_keeps)
  then show "session_inv E (lcp_fsm_lowerup E s)" "busy_inv E (lcp_fsm_lowerup E s)"
    using assms unfolding c by (simp_all add: g session_inv_def busy_inv_def fresh_line_def clear_inv_def plain_line_def waiting_def negotiating_def)
qed

lemma delayed_fresh:
  assumes "session_inv E s" "is_delayed s"
  shows "fresh_line E ((with_flags (\<lambda>n. n AND NOT DELAYED_UP) s)\<lparr>delayed_timer := False\<rparr>)"
proof -
  have d: "delayed_inv E s" using assms by (auto simp: session_inv_def session_parts is_delayed_def)
  have "lcp_inv E ((lcp_fsm s)\<lparr>flags := 0\<rparr>)"
    by (rule lcp_inv_frame [of E "lcp_fsm s"]) (use assms(1) in \<open>simp_all add: session_inv_def\<close>)
  then show ?thesis using d assms(1)
    by (simp add: fresh_line_def delayed_inv_def with_flags_def session_inv_def clear_inv_def net_idle_def quiet_def plain_line_def
        told_def at_rest_def)
qed

lemma lcp_input_inv:
  assumes "session_inv E s"
  shows "session_inv E (lcp_input E p s)"
proof (cases "is_delayed s")
  case True
  show ?thesis using lcp_fsm_input_inv [OF fresh_line_up(1) [OF delayed_fresh [OF assms True]]] True
    by (simp add: lcp_input_def)
qed (simp add: lcp_input_def lcp_fsm_input_inv assms)

lemma delayed_timeout_inv:
  assumes "session_inv E s"
  shows "session_inv E (delayed_timeout E s)"
proof (cases "delayed_timer s")
  case True
  then have "delayed_inv E s" using assms by (auto simp: session_inv_def session_parts)
  then have d: "is_delayed s" by (simp add: delayed_inv_def is_delayed_def)
  have "with_flags h (s\<lparr>delayed_timer := b\<rparr>) = (with_flags h s)\<lparr>delayed_timer := b\<rparr>" for h b by (simp add: with_flags_def)
  moreover have "is_delayed (s\<lparr>delayed_timer := False\<rparr>)" using d by (simp add: is_delayed_def)
  ultimately show ?thesis using True fresh_line_up(1) [OF delayed_fresh [OF assms d]]
    by (simp add: delayed_timeout_def lcp_delayed_up_def)
qed (simp add: delayed_timeout_def assms)

text \<open>A session is started from rest.\<close>

lemma start_inv:
  assumes "session_inv E s" "rest_inv E s"
  shows "session_inv E (pppos_connect (session_ops E) (new_phase PPP_PHASE_INITIALIZE s))"
    "listen_time E = 0 \<Longrightarrow> busy_inv E (pppos_connect (session_ops E) (new_phase PPP_PHASE_INITIALIZE s)) \<and>
      phase (pppos_connect (session_ops E) (new_phase PPP_PHASE_INITIALIZE s)) = PPP_PHASE_ESTABLISH \<and>
      (\<exists>f. ci f = ci (lcp_fsm s) \<and> fstate f = PPP_FSM_STARTING \<and> lcp_inv E f \<and>
        fsm_allocs f = fsm_allocs (lcp_fsm s) \<and> packets f = packets (lcp_fsm s) \<and> id_no f = id_no (lcp_fsm s) \<and>
        lcp_fsm (pppos_connect (session_ops E) (new_phase PPP_PHASE_INITIALIZE s)) =
          (fsm_sconfreq (lcp_alloc E) (lcp_cb E) (with_mru E PPP_LCP PPP_MRU) False f)\<lparr>fstate := PPP_FSM_REQSENT\<rparr>)"
    "fstate (lcp_fsm (pppos_connect (session_ops E) (new_phase PPP_PHASE_INITIALIZE s))) \<noteq> PPP_FSM_OPENED"
    "rcvd_config (pppos_connect (session_ops E) (new_phase PPP_PHASE_INITIALIZE s)) = (if lax_recv E then 0 else 0xffffffff)"
proof -
  let ?e = "new_phase PPP_PHASE_ESTABLISH ((new_phase PPP_PHASE_INITIALIZE s)\<lparr>pppos_open := True\<rparr>)"
  have fs: "lcp_fsm ?e = lcp_fsm s" by simp
  have ok: "\<not> opt_passive (lcp_wantoptions (ci (lcp_fsm s)))" "\<not> opt_silent (lcp_wantoptions (ci (lcp_fsm s)))"
    using assms(1) by (simp_all add: session_inv_def lcp_inv_def lcp_ok_wants)
  let ?f = "lcp_fsm s" let ?op = "fsm_open (lcp_alloc E) (lcp_cb E)"
  have r: "(fstate ?f = PPP_FSM_INITIAL \<or> fstate ?f = PPP_FSM_STARTING)" "flags ?f = 0" using assms(2) by (simp_all add: rest_inv_def)
  define g where "g = (if fstate ?f = PPP_FSM_INITIAL then notify (lcp_cb E) Starting (?f\<lparr>fstate := PPP_FSM_STARTING\<rparr>) else ?f)"
  have op: "?op fp ?f = g" for fp using r by (auto simp: fsm_open_def g_def)
  have g: "fstate g = PPP_FSM_STARTING" "flags g = 0" "ci g = ci ?f" "fsm_allocs g = fsm_allocs ?f" "packets g = packets ?f"
      "id_no g = id_no ?f" "\<exists>new. events g = events ?f @ new \<and> set new \<subseteq> {Starting}"
    using r by (auto simp: g_def)
  obtain new where new: "events g = events ?f @ new" "set new \<subseteq> {Starting}" using g(7) by blast
  have run: "lcp_run E ?op ?e = g" using new(2) by (auto simp: lcp_run_def Let_def op fs)
  have "with_flags (\<lambda>n. n AND NOT (OPT_PASSIVE OR OPT_SILENT)) ?e = ?e" using r(2) fs by (simp add: with_flags_def)
  then have "lcp_open E ?e = lcp_call E ?op (lcp_reports E) ?e" using ok fs by (simp add: lcp_open_def Let_def)
  also have "\<dots> = fold (lcp_reports E (ci ?f)) new (?e\<lparr>lcp_fsm := g\<rparr>)"
    using lcp_call_events [of E ?op ?e new "lcp_reports E"] new(1) run fs by simp
  also have "\<dots> = ?e\<lparr>lcp_fsm := g\<rparr>"
    using new(2) by (induction new) (auto simp: lcp_reports_def lcp_leaves_def)
  finally have o: "lcp_open E ?e = ?e\<lparr>lcp_fsm := g\<rparr>" .
  let ?l = "?e\<lparr>lcp_fsm := g, sent_config := (0xffffffff, False, False), rcvd_config := if lax_recv E then 0 else 0xffffffff,
    lcp_peer_mru := PPP_MRU\<rparr>"
  have c: "pppos_connect (session_ops E) (new_phase PPP_PHASE_INITIALIZE s) =
      (if listen_time E \<noteq> 0 then (with_flags (\<lambda>n. n OR DELAYED_UP) ?l)\<lparr>delayed_timer := True\<rparr> else lcp_fsm_lowerup E ?l)"
    by (simp add: pppos_connect_def ppp_start_def session_ops_def o lcp_lowerup_def Let_def ppp_send_config_def ppp_recv_config_def)
  have i: "lcp_inv E g" using assms(1) op [of undefined] unfolding session_inv_def lcp_inv_def
    by (metis fsm_open_inv lcp_ok.open_keeps)
  have id: "net_idle s" "\<not> lcp_echo_timer_running s" "\<not> echo_timer s" "\<not> delayed_timer s"
    using assms by (auto simp: rest_inv_def session_inv_def clear_inv_def)
  have clear: "clear_inv ?l" using id by (simp add: clear_inv_def at_rest_def told_def net_idle_def quiet_def)
  have idle: "net_idle ?l" using id by (simp add: net_idle_def quiet_def)
  have fresh: "fresh_line E ?l" using g i id clear idle by (simp add: fresh_line_def plain_line_def)
  have "lcp_inv E (g\<lparr>flags := DELAYED_UP\<rparr>)" by (rule lcp_inv_frame [OF i]) simp_all
  then have d: "session_inv E ((with_flags (\<lambda>n. n OR DELAYED_UP) ?l)\<lparr>delayed_timer := True\<rparr>)"
    using g id clear idle by (simp add: session_inv_def delayed_inv_def with_flags_def clear_inv_def net_idle_def quiet_def
        plain_line_def told_def at_rest_def)
  show "session_inv E (pppos_connect (session_ops E) (new_phase PPP_PHASE_INITIALIZE s))"
    using d fresh_line_up(1) [OF fresh] by (simp add: c)
  show "fstate (lcp_fsm (pppos_connect (session_ops E) (new_phase PPP_PHASE_INITIALIZE s))) \<noteq> PPP_FSM_OPENED"
    using g(1) fresh_line_up(3) [OF fresh] by (simp add: c with_flags_def)
  show "rcvd_config (pppos_connect (session_ops E) (new_phase PPP_PHASE_INITIALIZE s)) = (if lax_recv E then 0 else 0xffffffff)"
    using fresh_line_up(3) [OF fresh] by (cases "lax_recv E") (simp_all add: c with_flags_def)
  show "busy_inv E (pppos_connect (session_ops E) (new_phase PPP_PHASE_INITIALIZE s)) \<and>
      phase (pppos_connect (session_ops E) (new_phase PPP_PHASE_INITIALIZE s)) = PPP_PHASE_ESTABLISH \<and>
      (\<exists>f. ci f = ci (lcp_fsm s) \<and> fstate f = PPP_FSM_STARTING \<and> lcp_inv E f \<and>
        fsm_allocs f = fsm_allocs (lcp_fsm s) \<and> packets f = packets (lcp_fsm s) \<and> id_no f = id_no (lcp_fsm s) \<and>
        lcp_fsm (pppos_connect (session_ops E) (new_phase PPP_PHASE_INITIALIZE s)) =
          (fsm_sconfreq (lcp_alloc E) (lcp_cb E) (with_mru E PPP_LCP PPP_MRU) False f)\<lparr>fstate := PPP_FSM_REQSENT\<rparr>)"
    if "listen_time E = 0"
    using that fresh_line_up(2) [OF fresh] fresh_line_up(3) [OF fresh] g i by (simp add: c) blast
qed


section \<open>Timers, the user, and everything together\<close>

lemma lcp_timeout_inv:
  assumes "session_inv E s"
  shows "session_inv E (lcp_timeout E s)"
  using assms
proof (cases rule: session_cases)
  case used
  show ?thesis
    using assms lcp_call_inv [OF used(1) proper_ops(3) [OF in_use_working [OF used(1)]] used(2)] by (simp add: lcp_timeout_def)
qed (simp add: lcp_timeout_def assms)

lemma lcp_frame_inv:
  assumes "session_inv E s" "lcp_inv E f" "fstate f = fstate (lcp_fsm s)" "flags f = flags (lcp_fsm s)"
  shows "session_inv E (s\<lparr>lcp_fsm := f\<rparr>)"
  using assms by (auto simp: session_inv_def session_parts clear_inv_def plain_line_def usable_line_def)

lemma session_frame_inv:
  assumes "session_inv E s" "lcp_fsm s' = lcp_fsm s" "link_inv s' = link_inv s" "net_idle s' = net_idle s" "np_phase s' = np_phase s"
    "plain_line s' = plain_line s" "usable_line s' = usable_line s" "phase s' = phase s" "told s' = told s"
    "last_status (out s') = last_status (out s)" "pppos_open s' = pppos_open s" "delayed_timer s' = delayed_timer s"
    "echo_timer s' = lcp_echo_timer_running s'" "lcp_echo_timer_running s' \<Longrightarrow> lcp_echo_timer_running s \<or> fstate (lcp_fsm s) = PPP_FSM_OPENED"
  shows "session_inv E s'"
proof -
  have "clear_inv s'" using assms by (simp add: session_inv_def clear_inv_def at_rest_def)
  moreover have "at_rest s' = at_rest s" using assms by (simp add: at_rest_def)
  moreover have "open_inv E s \<Longrightarrow> open_inv E s'" unfolding open_inv_def by (simp only: assms simp_thms)
  moreover have "waiting (fstate (lcp_fsm s)) \<Longrightarrow> fstate (lcp_fsm s) \<noteq> PPP_FSM_OPENED"
    by (auto simp: waiting_def negotiating_def)
  then have "busy_inv E s \<Longrightarrow> busy_inv E s'" using assms(14) unfolding busy_inv_def by (simp only: assms(1-13) simp_thms) blast
  moreover have "delayed_inv E s \<Longrightarrow> delayed_inv E s'"
    using assms(14) unfolding delayed_inv_def by (simp only: assms(1-13) simp_thms) auto
  moreover have "rest_inv E s \<Longrightarrow> rest_inv E s'"
    using assms(14) \<open>at_rest s' = at_rest s\<close> unfolding rest_inv_def by (simp only: assms(1-13) simp_thms) auto
  ultimately show ?thesis using assms(1,2) unfolding session_inv_def by (simp only: simp_thms) blast
qed

lemma echo_fields_frame [simp]:
  "link_inv (s\<lparr>lcp_echo_number := n\<rparr>) = link_inv s" "net_idle (s\<lparr>lcp_echo_number := n\<rparr>) = net_idle s"
  "np_phase (s\<lparr>lcp_echo_number := n\<rparr>) = np_phase s" "told (s\<lparr>lcp_echo_number := n\<rparr>) = told s"
  "link_inv (s\<lparr>echo_timer := b, lcp_echo_timer_running := b\<rparr>) = link_inv s"
  "net_idle (s\<lparr>echo_timer := b, lcp_echo_timer_running := b\<rparr>) = net_idle s"
  "np_phase (s\<lparr>echo_timer := b, lcp_echo_timer_running := b\<rparr>) = np_phase s"
  "told (s\<lparr>echo_timer := b, lcp_echo_timer_running := b\<rparr>) = told s"
  by (simp_all add: link_inv_def live_def quiet_def net_idle_def np_phase_def told_def)

lemma echo_timers: "session_inv E s \<Longrightarrow> echo_timer s = lcp_echo_timer_running s"
  by (simp add: session_inv_def clear_inv_def)

lemma echo_state_inv:
  assumes "session_inv E s"
  shows "session_inv E (s\<lparr>lcp_echo_number := n\<rparr>)"
    "\<not> b \<or> fstate (lcp_fsm s) = PPP_FSM_OPENED \<Longrightarrow> session_inv E (s\<lparr>echo_timer := b, lcp_echo_timer_running := b\<rparr>)"
  by (rule session_frame_inv [OF assms]; auto simp: plain_line_def usable_line_def echo_timers [OF assms])+

lemma with_lcp_inv: "session_inv E s \<Longrightarrow> (\<And>c. lcp_ok c \<Longrightarrow> lcp_ok (h c)) \<Longrightarrow> session_inv E (with_lcp h s)"
  unfolding with_lcp_def
  by (rule lcp_frame_inv) (auto simp: session_inv_def lcp_inv_def fsm_inv_def)

lemma sdata_lcp_inv: "lcp_inv E f \<Longrightarrow> lcp_inv E (fsm_sdata a fp c i d f)"
  by (rule lcp_inv_frame) simp_all

lemma LcpLinkFailure_inv: "session_inv E s \<Longrightarrow> session_inv E (LcpLinkFailure E s)"
  using in_use_open [of E s] by (simp add: LcpLinkFailure_def lcp_close_inv in_use_frames)

lemma LcpSendEchoRequest_inv:
  assumes "session_inv E s"
  shows "session_inv E (LcpSendEchoRequest E s)"
proof -
  define t where "t = (if lcp_echo_fails E \<noteq> 0 \<and> lcp_echo_fails E \<le> lcp_echos_pending (ci (lcp_fsm s))
    then with_lcp (\<lambda>c. c\<lparr>lcp_echos_pending := 0\<rparr>) (LcpLinkFailure E s) else s)"
  have t: "session_inv E t"
    using with_lcp_inv [OF LcpLinkFailure_inv [OF assms], of "\<lambda>c. c\<lparr>lcp_echos_pending := 0\<rparr>"] assms
    by (simp add: t_def lcp_ok_def)
  let ?f = "fsm_sdata (lcp_alloc E) (with_mru E PPP_LCP (lcp_peer_mru t)) ECHOREQ (lcp_echo_number t)
    (put_long (magicnumber (lcp_gotoptions (ci (lcp_fsm t))))) (lcp_fsm t)"
  have e: "LcpSendEchoRequest E s = (if fstate (lcp_fsm t) = PPP_FSM_OPENED
      then with_lcp (\<lambda>c. c\<lparr>lcp_echos_pending := lcp_echos_pending c + 1\<rparr>) ((t\<lparr>lcp_fsm := ?f\<rparr>)\<lparr>lcp_echo_number := lcp_echo_number t + 1\<rparr>)
      else t)"
    unfolding LcpSendEchoRequest_def t_def [symmetric] by (simp add: Let_def)
  have "lcp_inv E ?f" by (rule sdata_lcp_inv) (use t in \<open>simp add: session_inv_def\<close>)
  then have "session_inv E (t\<lparr>lcp_fsm := ?f\<rparr>)" by (intro lcp_frame_inv [OF t]) simp_all
  then have "session_inv E (with_lcp (\<lambda>c. c\<lparr>lcp_echos_pending := lcp_echos_pending c + 1\<rparr>)
      ((t\<lparr>lcp_fsm := ?f\<rparr>)\<lparr>lcp_echo_number := lcp_echo_number t + 1\<rparr>))"
    by (intro with_lcp_inv echo_state_inv(1)) (simp_all add: lcp_ok_def)
  then show ?thesis unfolding e using t by simp
qed

lemma LcpEchoCheck_inv:
  assumes "session_inv E s"
  shows "session_inv E (LcpEchoCheck E s)"
  using LcpSendEchoRequest_inv [OF assms] echo_state_inv(2) [OF LcpSendEchoRequest_inv [OF assms], of True]
  by (simp add: LcpEchoCheck_def Let_def)

lemma echo_timeout_inv:
  assumes "session_inv E s"
  shows "session_inv E (echo_timeout E s)"
proof (cases "echo_timer s")
  case True
  then have "lcp_echo_timer_running s" using assms by (simp add: session_inv_def clear_inv_def)
  with True have "echo_timeout E s = LcpEchoCheck E (s\<lparr>echo_timer := False, lcp_echo_timer_running := False\<rparr>)"
    by (simp add: echo_timeout_def LcpEchoTimeout_def)
  then show ?thesis using LcpEchoCheck_inv [OF echo_state_inv(2) [OF assms, of False]] by simp
qed (simp add: echo_timeout_def assms)

lemma sprotrej_inv: "session_inv E s \<Longrightarrow> session_inv E (lcp_sprotrej E p s)"
  unfolding lcp_sprotrej_def Let_def
  by (rule lcp_frame_inv)
    (auto simp: session_inv_def intro!: sdata_lcp_inv intro: lcp_inv_frame [where f = "lcp_fsm s"])

lemma session_input_inv: "session_inv E s \<Longrightarrow> session_inv E (session_input E vj_ok n pb s)"
  by (simp add: session_input_def lcp_input_inv sprotrej_inv network_call_inv network_ops split: ppp_verdict.split)

lemma network_timeout_inv: "session_inv E s \<Longrightarrow> session_inv E (network_timeout E s)"
  by (simp add: network_timeout_def network_call_inv network_ops)

text \<open>Other entries in the log.\<close>

lemma emit_inv:
  assumes "session_inv E s" "\<And>x. e \<noteq> Link_Status x" "\<And>x y z. e \<noteq> Netif_Addr x y z"
  shows "session_inv E (emit e s)"
proof -
  have e: "status_event e l = l" "set_address e a = a" for l a using assms(2,3) by (cases e; simp)+
  show ?thesis
    by (rule session_frame_inv [OF assms(1)])
      (simp_all add: emit_def link_inv_def live_def quiet_def net_idle_def np_phase_def told_def plain_line_def usable_line_def
        e echo_timers [OF assms(1)])
qed

lemma output_inv: "session_inv E s \<Longrightarrow> session_inv E (snd (ppp_netif_output_ip4 vj e s))"
  by (simp add: ppp_netif_output_ip4_def ppp_netif_output_def emit_inv split: vj_type.split)

lemma notify_phases_inv: "session_inv E s \<Longrightarrow> session_inv E (ppp_set_notify_phase_callback s)"
proof -
  assume i: "session_inv E s"
  have "session_inv E (s\<lparr>notify_phase_cb := True\<rparr>)"
    by (rule session_frame_inv [OF i])
      (simp_all add: link_inv_def live_def quiet_def net_idle_def np_phase_def told_def plain_line_def usable_line_def
        echo_timers [OF i])
  then show ?thesis by (simp add: ppp_set_notify_phase_callback_def emit_inv)
qed

text \<open>The user connects and closes.\<close>

lemma rest_session: "session_inv E s \<Longrightarrow> at_rest s \<longleftrightarrow> rest_inv E s"
  by (auto simp: session_inv_def session_parts at_rest_def np_phase_def split: if_split_asm)

lemma phase_values:
  "session_inv E s \<Longrightarrow> phase s \<in> {PPP_PHASE_DEAD, PPP_PHASE_HOLDOFF, PPP_PHASE_ESTABLISH, PPP_PHASE_NETWORK, PPP_PHASE_RUNNING, PPP_PHASE_TERMINATE}"
  by (auto simp: session_inv_def session_parts np_phase_def at_rest_def split: if_split_asm)

lemma do_connect_inv:
  assumes "session_inv E s" "ppp_do_connect (session_ops E) s = Some s'"
  shows "session_inv E s'"
proof -
  from assms(2) have "at_rest s" "s' = pppos_connect (session_ops E) (new_phase PPP_PHASE_INITIALIZE s)"
    by (simp_all add: ppp_do_connect_def at_rest_def split: if_split_asm)
  then show ?thesis using start_inv(1) [OF assms(1)] rest_session [OF assms(1)] by simp
qed

lemma rest_phase_inv:
  assumes "session_inv E s" "at_rest s" "p = PPP_PHASE_DEAD \<or> p = PPP_PHASE_HOLDOFF"
  shows "session_inv E (new_phase p s)"
  using assms(1,3) assms(2)[unfolded rest_session [OF assms(1)]]
  by (auto simp: session_inv_def rest_inv_def clear_inv_def at_rest_def)

lemma connect_inv:
  assumes "session_inv E s" "ppp_connect (session_ops E) holdoff s = Some (e, s')"
  shows "session_inv E s'"
proof -
  have "session_inv E (emit (Sys_Timeout x) (new_phase PPP_PHASE_HOLDOFF s))" if "phase s = PPP_PHASE_DEAD" for x
    by (intro emit_inv rest_phase_inv assms(1)) (simp_all add: at_rest_def that)
  then show ?thesis using assms do_connect_inv [OF assms(1)]
    by (auto simp: ppp_connect_def split: if_split_asm bind_splits)
qed

lemma err_inv: "session_inv E s \<Longrightarrow> session_inv E (s\<lparr>err_code := x\<rparr>)"
  by (auto simp: session_inv_def session_parts clear_inv_def plain_line_def usable_line_def)

text \<open>The carrier is lost.\<close>

lemma lowerdown_opened:
  assumes "in_use E s" "fstate (lcp_fsm s) = PPP_FSM_OPENED"
  shows "\<exists>f. lcp_lowerdown E s = lcp_down E (ci (lcp_fsm s)) (s\<lparr>lcp_fsm := f\<rparr>) \<and> fstate f = PPP_FSM_STARTING \<and>
    flags f = 0 \<and> lcp_inv E f"
proof -
  let ?g = "fsm_lowerdown (lcp_cb E) (lcp_fsm s)"
  have g: "events ?g = events (lcp_fsm s) @ [Down]" "fstate ?g = PPP_FSM_STARTING" "flags ?g = 0" "ci ?g = ci (lcp_fsm s)"
    using assms by (simp_all add: fsm_lowerdown_def in_use_def)
  have "lcp_inv E ?g" using assms(1) g(4) by (simp add: in_use_def lcp_inv_def fsm_lowerdown_inv)
  moreover have "\<not> is_delayed s" using assms(1) by (simp add: in_use_def is_delayed_def)
  ultimately show ?thesis using g by (intro exI [of _ ?g]) (simp add: lcp_lowerdown_def lcp_call_def lcp_run_def Let_def)
qed

lemma lost_carrier_inv:
  assumes "session_inv E s" "phase s = PPP_PHASE_RUNNING"
  shows "session_inv E (link_terminated (lcp_lowerdown E) (lcp_lowerdown E s))"
    "phase (link_terminated (lcp_lowerdown E) (lcp_lowerdown E s)) = PPP_PHASE_DEAD"
    "last_status (out (link_terminated (lcp_lowerdown E) (lcp_lowerdown E s))) =
      Some (if err_code s = PPPERR_NONE then PPPERR_CONNECT else err_code s)"
proof -
  have o: "fstate (lcp_fsm s) = PPP_FSM_OPENED"
    using assms by (auto simp: session_inv_def session_parts at_rest_def)
  then have u: "in_use E s" using in_use_open [OF assms(1)] by simp
  obtain f where f: "lcp_lowerdown E s = lcp_down E (ci (lcp_fsm s)) (s\<lparr>lcp_fsm := f\<rparr>)" "fstate f = PPP_FSM_STARTING"
      "flags f = 0" "lcp_inv E f" using lowerdown_opened [OF u o] by blast
  let ?s = "s\<lparr>lcp_fsm := f\<rparr>"
  have i: "link_inv ?s" "told ?s" "echo_timer ?s = lcp_echo_timer_running ?s" "\<not> at_rest ?s" "pppos_open ?s" "\<not> delayed_timer ?s"
    using u o by (simp_all add: in_use_def clear_inv_def)
  note d = lcp_down_inv [OF i(1-5), of E "ci (lcp_fsm s)"]
  let ?d = "new_phase PPP_PHASE_DISCONNECT (lcp_lowerdown E s)"
  have "lcp_lowerdown E ?d = ?d"
  proof -
    have "lcp_call E (\<lambda>_. fsm_lowerdown (lcp_cb E)) h ?d = ?d" for h
      by (rule lcp_call_same) (simp add: f d fsm_lowerdown_def)
    moreover have "\<not> is_delayed ?d" by (simp add: is_delayed_def f d)
    ultimately show ?thesis by (simp add: lcp_lowerdown_def)
  qed
  moreover have "phase (lcp_lowerdown E s) = PPP_PHASE_ESTABLISH" using d by (simp add: f)
  ultimately have e: "link_terminated (lcp_lowerdown E) (lcp_lowerdown E s) = ppp_link_terminated ?d"
    by (simp add: link_terminated_def)
  show "phase (link_terminated (lcp_lowerdown E) (lcp_lowerdown E s)) = PPP_PHASE_DEAD" by (simp add: e)
  show "last_status (out (link_terminated (lcp_lowerdown E) (lcp_lowerdown E s))) =
      Some (if err_code s = PPPERR_NONE then PPPERR_CONNECT else err_code s)"
    unfolding e using d(8) by (simp add: ppp_core_defs Let_def f(1))
  show "session_inv E (link_terminated (lcp_lowerdown E) (lcp_lowerdown E s))"
    using d f i(6) unfolding e session_inv_def
    by (auto simp: rest_inv_def clear_inv_def ppp_core_defs Let_def told_def at_rest_def net_idle_def quiet_def)
qed


lemma close_inv:
  assumes "session_inv E s"
  shows "session_inv E (snd (ppp_close (session_ops E) nocarrier s))"
proof -
  let ?s = "s\<lparr>err_code := PPPERR_USER\<rparr>"
  have i: "session_inv E ?s" by (rule err_inv [OF assms])
  have dead: "session_inv E (emit (Link_Status PPPERR_USER) t)" if "session_inv E t" "phase t = PPP_PHASE_DEAD" for t :: "'a ppp_session_scheme"
  proof -
    have "rest_inv E t" using rest_session [OF that(1)] that(2) by (simp add: at_rest_def)
    then have "rest_inv E (emit (Link_Status PPPERR_USER) t)" "clear_inv (emit (Link_Status PPPERR_USER) t)"
      using that by (simp_all add: rest_inv_def emit_def net_idle_def quiet_def at_rest_def clear_inv_def told_def session_inv_def)
    then show ?thesis using that(1) by (simp add: session_inv_def emit_def)
  qed
  from phase_values [OF i] consider "phase s = PPP_PHASE_DEAD" | "phase s = PPP_PHASE_HOLDOFF" | "phase s = PPP_PHASE_TERMINATE"
    | "phase s = PPP_PHASE_ESTABLISH" | "phase s = PPP_PHASE_NETWORK" | "phase s = PPP_PHASE_RUNNING" by auto
  then show ?thesis
  proof cases
    case 1
    then show ?thesis using dead [OF i] by (simp add: ppp_close_def)
  next
    case 2
    have r: "at_rest (emit Sys_Untimeout ?s)" using 2 by (simp add: at_rest_def)
    have "session_inv E (new_phase PPP_PHASE_DEAD (emit Sys_Untimeout ?s))"
      by (rule rest_phase_inv [OF emit_inv [OF i] r]) simp_all
    then show ?thesis using 2 dead by (simp add: ppp_close_def Let_def)
  next
    case 3
    then show ?thesis using i by (simp add: ppp_close_def)
  next
    case 4
    then have "in_use E ?s \<or> delayed_inv E ?s"
      using i in_use_busy [OF i] in_use_open [OF i] by (auto simp: session_inv_def rest_inv_def at_rest_def open_inv_def)
    moreover have "lcp_inv E (lcp_fsm ?s)" "clear_inv ?s" using i unfolding session_inv_def by blast+
    ultimately have "session_inv E (lcp_close E ''User request'' ?s)" using lcp_close_inv lcp_close_delayed(1) by blast
    then show ?thesis using 4 by (simp add: ppp_close_def session_ops_def)
  next
    case 5
    then have "fstate (lcp_fsm ?s) = PPP_FSM_OPENED" using i by (auto simp: session_inv_def session_parts at_rest_def)
    then have "session_inv E (lcp_close E ''User request'' ?s)" using in_use_open [OF i] lcp_close_inv by blast
    then show ?thesis using 5 by (simp add: ppp_close_def session_ops_def)
  next
    case 6
    then have "fstate (lcp_fsm ?s) = PPP_FSM_OPENED" using i by (auto simp: session_inv_def session_parts at_rest_def)
    then have "session_inv E (lcp_close E ''User request'' ?s)" using in_use_open [OF i] lcp_close_inv by blast
    then show ?thesis using 6 lost_carrier_inv(1) [OF i] by (simp add: ppp_close_def session_ops_def Let_def)
  qed
qed

lemma session_step_inv: "session_step E s s' \<Longrightarrow> session_inv E s \<Longrightarrow> session_inv E s'"
  by (induction rule: session_step.induct)
    (auto intro: connect_inv do_connect_inv close_inv session_input_inv lcp_timeout_inv network_timeout_inv echo_timeout_inv
      delayed_timeout_inv output_inv notify_phases_inv)

interpretation session_run: step_invariant "session_step E" "session_inv E" for E
  by unfold_locales (rule session_step_inv)

lemma new_session_inv: "session_inv E (new_session E n d)"
proof -
  let ?s = "new_session E n d"
  have l: "lcp_inv E (lcp_fsm ?s)"
    by (auto simp: new_session_def lcp_init_def fsm_init_def cleared_fsm_def new_lcp_def lcp_inv_def fsm_inv_def waiting_def
        negotiating_def lcp_ok_def wanted_lcp_def zero_lcp_options_def Let_def)
  have "rest_inv E ?s" "clear_inv ?s"
    by (simp_all add: rest_inv_def clear_inv_def new_session_def lcp_init_def ipcp_init_def fsm_init_def cleared_fsm_def
        net_idle_def quiet_def netif_address_def told_def at_rest_def last_status_def new_phase_def emit_def Let_def)
  with l show ?thesis by (simp add: session_inv_def)
qed

lemma session_reachable: "(session_step E)\<^sup>*\<^sup>* (new_session E n d) s \<Longrightarrow> session_inv E s"
  by (rule session_run.reachable [OF _ new_session_inv])

section \<open>How a connection ends\<close>

text \<open>After a run that leaves OPENED, or does not reach it, LCP goes on, or the session has ended.\<close>

definition reason_told :: "u8 \<Rightarrow> u8" where
  "reason_told e = (if e = PPPERR_NONE then PPPERR_CONNECT else e)"

definition ended :: "u8 \<Rightarrow> 'a ppp_session_scheme \<Rightarrow> bool" where
  "ended e s \<longleftrightarrow> phase s = PPP_PHASE_DEAD \<and> last_status (out s) = Some e"

lemma lcp_call_result:
  assumes "in_use E s" "proper E (lcp_fsm s) op" "g = lcp_run E op s" "fstate g \<noteq> PPP_FSM_OPENED"
  shows "working g \<and> lcp_fsm (lcp_call E op (lcp_reports E) s) = g \<and> err_code (lcp_call E op (lcp_reports E) s) = err_code s \<and>
      phase (lcp_call E op (lcp_reports E) s) = (if fstate (lcp_fsm s) = PPP_FSM_OPENED then PPP_PHASE_ESTABLISH else phase s) \<or>
    (fstate g = PPP_FSM_CLOSED \<or> fstate g = PPP_FSM_STOPPED) \<and> ended (reason_told (err_code s)) (lcp_call E op (lcp_reports E) s)"
proof -
  let ?f = "lcp_fsm s" let ?s = "s\<lparr>lcp_fsm := g\<rparr>"
  obtain new where g: "lcp_inv E g" and new: "finishes new ?f g" using lcp_run_proper [OF assms(2)] assms(3) by blast
  have ev: "events (lcp_run E op s) = events ?f @ new" and fl: "flags g = 0"
    using new assms(1,3) by (simp_all add: finishes_def in_use_def)
  note call = lcp_call_events [where op = op and s = s, OF ev, folded assms(3)]
  have clear: "clear_inv ?s" "\<not> at_rest ?s" "\<not> delayed_timer ?s" "pppos_open ?s"
    using assms(1) by (simp_all add: in_use_def clear_inv_def)
  consider "new = []" "fstate ?f \<noteq> PPP_FSM_OPENED" "working g"
    | "new = [Down]" "fstate ?f = PPP_FSM_OPENED" "working g"
    | "new = [Finished]" "fstate ?f \<noteq> PPP_FSM_OPENED" "fstate g = PPP_FSM_CLOSED \<or> fstate g = PPP_FSM_STOPPED"
    | "new = [Down, Finished]" "fstate ?f = PPP_FSM_OPENED" "fstate g = PPP_FSM_CLOSED \<or> fstate g = PPP_FSM_STOPPED"
    using new assms(4) by (auto simp: finishes_def Let_def)
  then show ?thesis
  proof cases
    case 1
    then show ?thesis by (simp add: call)
  next
    case 2
    have i: "link_inv ?s" "told ?s" "echo_timer ?s = lcp_echo_timer_running ?s"
      using assms(1) 2 by (simp_all add: in_use_def clear_inv_def)
    note d = lcp_down_inv [OF i clear(2,4), of E "ci ?f"]
    then show ?thesis using 2 by (simp add: call lcp_reports_def lcp_leaves_def)
  next
    case 3
    have f: "fstate (lcp_fsm ?s) = PPP_FSM_CLOSED \<or> fstate (lcp_fsm ?s) = PPP_FSM_STOPPED" "flags (lcp_fsm ?s) = 0"
      "lcp_inv E (lcp_fsm ?s)" "net_idle ?s" "\<not> lcp_echo_timer_running ?s" "\<not> echo_timer ?s" "\<not> delayed_timer ?s"
      "phase ?s \<noteq> PPP_PHASE_DEAD" using assms(1) 3 g fl clear by (auto simp: in_use_def clear_inv_def at_rest_def)
    have "ended (reason_told (err_code ?s)) (lcp_finished E ?s)"
      by (simp add: ended_def lcp_finished_inv(2) [OF f] lcp_finished_inv(3) [OF f] lcp_finished_inv(4) [OF f] reason_told_def)
    then show ?thesis using 3 by (simp add: call lcp_reports_def lcp_leaves_def)
  next
    case 4
    have i: "link_inv ?s" "told ?s" "echo_timer ?s = lcp_echo_timer_running ?s"
      using assms(1) 4 by (simp_all add: in_use_def clear_inv_def)
    note d = lcp_down_inv [OF i clear(2,4), of E "ci ?f"]
    let ?d = "lcp_down E (ci ?f) ?s"
    have f: "fstate (lcp_fsm ?d) = PPP_FSM_CLOSED \<or> fstate (lcp_fsm ?d) = PPP_FSM_STOPPED" "flags (lcp_fsm ?d) = 0"
      "lcp_inv E (lcp_fsm ?d)" "net_idle ?d" "\<not> lcp_echo_timer_running ?d" "\<not> echo_timer ?d" "\<not> delayed_timer ?d"
      "phase ?d \<noteq> PPP_PHASE_DEAD" using d 4 g fl clear(3) by (auto simp: clear_inv_def)
    have "ended (reason_told (err_code ?d)) (lcp_finished E ?d)"
      by (simp add: ended_def lcp_finished_inv(2) [OF f] lcp_finished_inv(3) [OF f] lcp_finished_inv(4) [OF f] reason_told_def)
    then show ?thesis using 4 d(8) by (simp add: call lcp_reports_def lcp_leaves_def)
  qed
qed

end
