(* ===== verification/Session_Line.thy ===== *)
theory Session_Line
  imports Session_Run
begin

unbundle bit_operations_syntax

text \<open>
  The configuration of the line, in every execution: as long as LCP is OPENED it is the one that
  was negotiated, whatever happens to the session.
\<close>

section \<open>What was agreed\<close>

definition agreed_line :: "session_env \<Rightarrow> 'a ppp_session_scheme \<Rightarrow> bool" where
  "agreed_line E s \<longleftrightarrow> (fstate (lcp_fsm s) = PPP_FSM_OPENED \<longrightarrow> line s = negotiated_line E (ci (lcp_fsm s)))"

lemma agreed_frame:
  assumes "agreed_line E s" "line s' = line s" "fstate (lcp_fsm s') = fstate (lcp_fsm s)"
    "line_options (ci (lcp_fsm s')) = line_options (ci (lcp_fsm s))"
  shows "agreed_line E s'"
  using assms negotiated_line_cong [OF assms(4)] by (simp add: agreed_line_def)

lemma agreed_closed: "fstate (lcp_fsm s) \<noteq> PPP_FSM_OPENED \<Longrightarrow> agreed_line E s"
  by (simp add: agreed_line_def)

lemma agreed_rest:
  assumes "session_inv E s" "at_rest s"
  shows "agreed_line E s"
proof (rule agreed_closed)
  have "rest_inv E s" using assms(2) by (simp only: rest_session [OF assms(1)])
  then show "fstate (lcp_fsm s) \<noteq> PPP_FSM_OPENED" by (auto simp: rest_inv_def)
qed

lemma agreed_fields [simp]:
  "agreed_line E (s\<lparr>err_code := x\<rparr>) = agreed_line E s" "agreed_line E (new_phase p s) = agreed_line E s"
  "agreed_line E (emit ev s) = agreed_line E s" "agreed_line E (s\<lparr>notify_phase_cb := b\<rparr>) = agreed_line E s"
  "agreed_line E (s\<lparr>lcp_echo_number := n\<rparr>) = agreed_line E s" "agreed_line E (s\<lparr>delayed_timer := b\<rparr>) = agreed_line E s"
  "agreed_line E (s\<lparr>echo_timer := b, lcp_echo_timer_running := b\<rparr>) = agreed_line E s"
  by (simp_all add: agreed_line_def line_def emit_def new_phase_def Let_def)

section \<open>Operations on LCP\<close>

text \<open>An operation that stays in OPENED changes no option.\<close>

definition keeps_line :: "lcp fsm \<Rightarrow> (fsm_pcb \<Rightarrow> lcp fsm \<Rightarrow> lcp fsm) \<Rightarrow> bool" where
  "keeps_line f op \<longleftrightarrow>
     (\<forall>fp. fstate f = PPP_FSM_OPENED \<longrightarrow> fstate (op fp f) = PPP_FSM_OPENED \<longrightarrow> line_options (ci (op fp f)) = line_options (ci f))"

lemma nakci_line: "lcp_nakci rand PPP_FSM_OPENED c p rej = (ret, c', reason) \<Longrightarrow> line_options c' = line_options c"
  by (auto simp: lcp_nakci_def lcp_nakci_update_def magic_def line_options_def Let_def split: option.splits if_split_asm)

lemma rejci_line: "lcp_rejci PPP_FSM_OPENED c p = (ret, c') \<Longrightarrow> line_options c' = line_options c"
  by (auto simp: lcp_rejci_def split: option.splits list.splits)

lemma extcode_line: "line_options (snd (snd (lcp_extcode st c code i p))) = line_options c"
  by (simp add: lcp_extcode_def lcp_rprotrej_def lcp_received_echo_reply_def line_options_def Let_def)

lemma nakrej_callback_line:
  assumes "fsm_nakrej_callback alloc (lcp_callbacks rand nakp) fp code p f = (ret, g)" "fstate f = PPP_FSM_OPENED"
  shows "fstate g = PPP_FSM_OPENED \<and> line_options (ci g) = line_options (ci f)"
proof (cases "code = CONFNAK")
  case True
  obtain r c' reason where n: "lcp_nakci rand PPP_FSM_OPENED (ci f) p (maxnakloops f \<le> rnakloops f) = (r, c', reason)"
    by (metis prod_cases3)
  have "g = f\<lparr>ci := c'\<rparr>" using assms n True lcp_nakci_opened [OF n] by (simp add: fsm_nakrej_callback_def lcp_callbacks_def)
  then show ?thesis using assms(2) nakci_line [OF n] by simp
next
  case False
  obtain r c' where n: "lcp_rejci PPP_FSM_OPENED (ci f) p = (r, c')" by fastforce
  have "g = f\<lparr>ci := c'\<rparr>" using assms n False by (simp add: fsm_nakrej_callback_def lcp_callbacks_def)
  then show ?thesis using assms(2) rejci_line [OF n] by simp
qed

lemma rconfnakrej_line:
  assumes "fstate f = PPP_FSM_OPENED" "fstate (fsm_rconfnakrej alloc (lcp_callbacks rand nakp) fp code i p f) = PPP_FSM_OPENED"
  shows "line_options (ci (fsm_rconfnakrej alloc (lcp_callbacks rand nakp) fp code i p f)) = line_options (ci f)"
proof -
  let ?f = "f\<lparr>rnakloops := (if code = CONFNAK then rnakloops f + 1 else 0)\<rparr>"
  obtain ret g where g: "fsm_nakrej_callback alloc (lcp_callbacks rand nakp) fp code p ?f = (ret, g)" by fastforce
  then have "fstate g = PPP_FSM_OPENED \<and> line_options (ci g) = line_options (ci f)"
    using nakrej_callback_line [OF g] assms(1) by simp
  then show ?thesis using assms
    by (auto simp: fsm_rconfnakrej_def g nakrej_next_def renegotiate_def Let_def split: if_split_asm)
qed

text \<open>Every other code but an unknown one leaves OPENED, or does nothing.\<close>

lemma rconf_line:
  assumes "fstate f = PPP_FSM_OPENED"
  shows "fstate (fsm_rconfreq alloc cb fp i p f) \<noteq> PPP_FSM_OPENED"
    "fstate (fsm_rconfack alloc cb fp i p f) = PPP_FSM_OPENED \<Longrightarrow> fsm_rconfack alloc cb fp i p f = f"
    "fstate (fsm_rtermreq alloc cb fp i f) \<noteq> PPP_FSM_OPENED" "fstate (fsm_rtermack alloc cb fp f) \<noteq> PPP_FSM_OPENED"
    "fsm_rcoderej p f = f"
  using assms by (auto simp: fsm_rconfreq_def enter_negotiation_def renegotiate_def answered_def fsm_rconfack_def
      fsm_rtermreq_def fsm_rtermack_def fsm_rcoderej_def Let_def split: prod.split if_split_asm option.splits)

lemma keeps_input: "keeps_line f (\<lambda>fp. fsm_input alloc (lcp_callbacks rand nakp) fp p)"
proof -
  have e: "extcode (lcp_callbacks rand nakp) = Some lcp_extcode" by (simp add: lcp_callbacks_def)
  show ?thesis unfolding keeps_line_def
    by (simp add: fsm_input_def fsm_code_def Let_def e case_prod_unfold rconf_line extcode_line rconfnakrej_line)
qed

lemma keeps_ops:
  "keeps_line f (\<lambda>fp. fsm_close alloc cb fp r)" "keeps_line f (fsm_protreject alloc cb)" "keeps_line f (fsm_timeout alloc cb)"
  by (simp_all add: keeps_line_def fsm_protreject_def fsm_timeout_def negotiating_def Let_def)

lemma lcp_call_agreed:
  assumes "in_use E s" "proper E (lcp_fsm s) op" "keeps_line (lcp_fsm s) op" "agreed_line E s"
    and "fstate (lcp_run E op s) = PPP_FSM_OPENED \<longleftrightarrow> fstate (lcp_fsm s) = PPP_FSM_OPENED \<Longrightarrow> phase_fits s"
  shows "agreed_line E (lcp_call E op (lcp_reports E) s)"
proof (cases "fstate (lcp_run E op s) = PPP_FSM_OPENED")
  case True
  let ?f = "lcp_fsm s" let ?g = "lcp_run E op s" let ?s = "s\<lparr>lcp_fsm := ?g\<rparr>"
  obtain new where g: "lcp_inv E ?g" and new: "finishes new ?f ?g" using lcp_run_proper [OF assms(2)] by blast
  have ev: "events ?g = events ?f @ new" and fl: "flags ?g = 0" using new assms(1) by (simp_all add: finishes_def in_use_def)
  note call = lcp_call_events [where op = op and s = s, OF ev]
  consider "new = []" "fstate ?f = PPP_FSM_OPENED" | "new = [Up]" "fstate ?f \<noteq> PPP_FSM_OPENED"
    using new True by (auto simp: finishes_def Let_def)
  then show ?thesis
  proof cases
    case 1
    have "line_options (ci ?g) = line_options (ci ?f)"
      using assms(3) 1(2) True by (simp add: keeps_line_def lcp_run_def Let_def split: if_split_asm)
    then show ?thesis using 1 True by (auto simp: call line_def intro: agreed_frame [OF assms(4)])
  next
    case 2
    have "line (lcp_up E ?s) = negotiated_line E (ci (lcp_fsm (lcp_up E ?s)))"
      by (rule lcp_up_inv(4)) (use assms(1) 2 True g fl in \<open>auto simp: in_use_def plain_line_def clear_inv_def\<close>)
    then show ?thesis using 2(1) by (simp add: call lcp_reports_def agreed_line_def)
  qed
next
  case False
  have "session_inv E (lcp_call E op (lcp_reports E) s)" by (rule lcp_call_inv [OF assms(1,2,5)])
  then show ?thesis using lcp_call_result [OF assms(1,2) refl False] False agreed_rest
    by (auto simp: agreed_line_def ended_def at_rest_def)
qed

lemma lcp_close_agreed:
  assumes "in_use E s" "agreed_line E s"
  shows "agreed_line E (lcp_close E r s)"
proof -
  note w = in_use_working [OF in_use_phase [OF assms(1)]]
  have "phase_fits (new_phase PPP_PHASE_TERMINATE s)" if "fstate (lcp_fsm s) \<noteq> PPP_FSM_OPENED"
    using that by (simp add: phase_fits_def)
  then show ?thesis unfolding lcp_close_in_use [OF assms(1)]
    by (intro lcp_call_agreed in_use_phase [OF assms(1)] proper_ops(1) w keeps_ops) (use assms(2) close_run_left in force)+
qed

section \<open>Everything that can happen\<close>

text \<open>Both invariants together.\<close>

definition line_inv :: "session_env \<Rightarrow> 'a ppp_session_scheme \<Rightarrow> bool" where
  "line_inv E s \<longleftrightarrow> session_inv E s \<and> agreed_line E s"

lemma line_invI: "session_inv E s \<Longrightarrow> agreed_line E s \<Longrightarrow> line_inv E s"
  by (simp add: line_inv_def)

lemma line_invD: "line_inv E s \<Longrightarrow> session_inv E s" "line_inv E s \<Longrightarrow> agreed_line E s"
  by (simp_all add: line_inv_def)

lemma network_call_line:
  assumes "line_inv E s" "network_op op"
  shows "agreed_line E (network_call E op s)"
proof (cases "fstate (lcp_fsm s) = PPP_FSM_OPENED")
  case True
  note n = network_op_open [OF line_invD(1) [OF assms(1)] assms(2) True]
  have "agreed_line E (op s)" using line_invD(2) [OF assms(1)] leaves_session(1,10) [OF n(3)] by (simp add: agreed_line_def)
  then show ?thesis using n(4) lcp_close_agreed [OF n(1)] by auto
next
  case False
  then obtain g where "network_call E op s = s\<lparr>ipcp_fsm := g\<rparr>" using network_op_idle [OF line_invD(1) [OF assms(1)] assms(2)] by blast
  then show ?thesis using False by (simp add: agreed_closed)
qed

lemma network_call_line_inv: "line_inv E s \<Longrightarrow> network_op op \<Longrightarrow> line_inv E (network_call E op s)"
  by (rule line_invI [OF network_call_inv [OF line_invD(1)] network_call_line])

lemma lcp_protrej_line:
  assumes "line_inv E s"
  shows "line_inv E (lcp_protrej E s)"
proof -
  from line_invD(1) [OF assms] have "agreed_line E (lcp_protrej E s)"
  proof (cases rule: session_cases)
    case used
    note p = proper_ops(2) [OF in_use_working [OF used(1)]]
    have "fstate (lcp_run E (fsm_protreject (lcp_alloc E) (lcp_cb E)) s) \<noteq> PPP_FSM_OPENED"
      using in_use_working(1,2) [OF used(1)]
      by (cases "fstate (lcp_fsm s)")
        (simp_all add: lcp_run_def fsm_protreject_def terminate_layer_def Let_def working_def waiting_def negotiating_def)
    note l = lcp_call_leaves [OF p disjI1 [OF this]]
    show ?thesis unfolding lcp_protrej_def l
      by (rule lcp_call_agreed [OF used(1) p keeps_ops(2) line_invD(2) [OF assms] used(2)])
  next
    case unused
    then have "fsm_protreject (lcp_alloc E) (lcp_cb E) fp (lcp_fsm s) = lcp_fsm s" for fp
      by (auto simp: fsm_protreject_def Let_def)
    then show ?thesis using line_invD(2) [OF assms] by (simp add: lcp_protrej_def lcp_call_same)
  qed
  then show ?thesis by (intro line_invI lcp_protrej_inv line_invD(1) [OF assms])
qed

lemma rejections_line: "line_inv E s \<Longrightarrow> line_inv E (fold (rejected_by_peer E) ps s)"
  by (induction ps arbitrary: s) (simp_all add: rejected_by_peer_def lcp_protrej_line network_call_line_inv network_ops)

lemma lcp_fsm_input_line:
  assumes "line_inv E s"
  shows "line_inv E (lcp_fsm_input E p s)"
  using line_invD(1) [OF assms]
proof (cases rule: session_cases)
  case used
  from lcp_fsm_input_run [OF used] obtain t ps where
    e: "lcp_fsm_input E p s = fold (rejected_by_peer E) ps
      (lcp_call E (\<lambda>fp. fsm_input (lcp_alloc E) (lcp_cb E) fp p) (lcp_reports E) t)"
    and t: "in_use E t" "phase_fits t" "lcp_fsm t = lcp_fsm s" "line t = line s" by blast
  have a: "agreed_line E t" using line_invD(2) [OF assms] t(3,4) by (simp add: agreed_line_def)
  note p = proper_ops(4) [OF in_use_working [OF t(1)]]
  show ?thesis unfolding e
    by (intro rejections_line line_invI lcp_call_inv [OF t(1) p t(2)] lcp_call_agreed [OF t(1) p keeps_input a t(2)])
next
  case unused
  then show ?thesis using assms by (simp add: lcp_fsm_input_unused)
qed

lemma fresh_up_line: "fresh_line E s \<Longrightarrow> line_inv E (lcp_fsm_lowerup E s)"
  using fresh_line_up [of E s] by (intro line_invI agreed_closed) simp_all

lemma lcp_input_line: "line_inv E s \<Longrightarrow> line_inv E (lcp_input E p s)"
  using fresh_up_line [OF delayed_fresh [OF line_invD(1)], of E s] by (simp add: lcp_input_def lcp_fsm_input_line)

lemma sprotrej_line: "line_inv E s \<Longrightarrow> line_inv E (lcp_sprotrej E p s)"
  by (rule line_invI [OF sprotrej_inv [OF line_invD(1)] agreed_frame [OF line_invD(2)]])
    (simp_all add: lcp_sprotrej_def Let_def line_def)

lemma session_input_line: "line_inv E s \<Longrightarrow> line_inv E (session_input E vj_ok n pb s)"
  by (simp add: session_input_def lcp_input_line sprotrej_line network_call_line_inv network_ops split: ppp_verdict.split)

lemma delayed_line:
  assumes "line_inv E s"
  shows "line_inv E (delayed_timeout E s)"
proof (cases "delayed_timer s")
  case True
  then have d: "is_delayed s" using line_invD(1) [OF assms] by (auto simp: session_inv_def session_parts is_delayed_def)
  have "with_flags h (s\<lparr>delayed_timer := b\<rparr>) = (with_flags h s)\<lparr>delayed_timer := b\<rparr>" for h b by (simp add: with_flags_def)
  moreover have "is_delayed (s\<lparr>delayed_timer := False\<rparr>)" using d by (simp add: is_delayed_def)
  ultimately show ?thesis using True fresh_up_line [OF delayed_fresh [OF line_invD(1) [OF assms] d]]
    by (simp add: delayed_timeout_def lcp_delayed_up_def)
qed (simp add: delayed_timeout_def assms)

lemma lcp_timeout_line:
  assumes "line_inv E s"
  shows "line_inv E (lcp_timeout E s)"
  using line_invD(1) [OF assms]
proof (cases rule: session_cases)
  case used
  note p = proper_ops(3) [OF in_use_working [OF used(1)]]
  have "agreed_line E (lcp_timeout E s)"
    using lcp_call_agreed [OF used(1) p keeps_ops(3) line_invD(2) [OF assms] used(2)] line_invD(2) [OF assms]
    by (simp add: lcp_timeout_def)
  then show ?thesis by (intro line_invI lcp_timeout_inv line_invD(1) [OF assms])
qed (simp add: lcp_timeout_def assms)

lemma with_lcp_agreed: "(\<And>c. line_options (h c) = line_options c) \<Longrightarrow> agreed_line E s \<Longrightarrow> agreed_line E (with_lcp h s)"
  by (auto simp: with_lcp_def line_def intro: agreed_frame [of E s])

text \<open>The keepalive.\<close>

lemma echo_request_line:
  assumes "line_inv E s"
  shows "line_inv E (LcpSendEchoRequest E s)"
proof -
  define t where "t = (if lcp_echo_fails E \<noteq> 0 \<and> lcp_echo_fails E \<le> lcp_echos_pending (ci (lcp_fsm s))
    then with_lcp (\<lambda>c. c\<lparr>lcp_echos_pending := 0\<rparr>) (LcpLinkFailure E s) else s)"
  have "agreed_line E (LcpLinkFailure E s)"
    using in_use_open [OF line_invD(1) [OF assms]] line_invD(2) [OF assms]
    by (simp add: LcpLinkFailure_def lcp_close_agreed in_use_frames)
  then have t: "agreed_line E t" using line_invD(2) [OF assms] by (simp add: t_def with_lcp_agreed line_options_def)
  let ?f = "fsm_sdata (lcp_alloc E) (with_mru E PPP_LCP (lcp_peer_mru t)) ECHOREQ (lcp_echo_number t)
    (put_long (magicnumber (lcp_gotoptions (ci (lcp_fsm t))))) (lcp_fsm t)"
  have e: "LcpSendEchoRequest E s = (if fstate (lcp_fsm t) = PPP_FSM_OPENED
      then with_lcp (\<lambda>c. c\<lparr>lcp_echos_pending := lcp_echos_pending c + 1\<rparr>) ((t\<lparr>lcp_fsm := ?f\<rparr>)\<lparr>lcp_echo_number := lcp_echo_number t + 1\<rparr>)
      else t)"
    unfolding LcpSendEchoRequest_def t_def [symmetric] by (simp add: Let_def)
  have "agreed_line E (t\<lparr>lcp_fsm := ?f\<rparr>)" by (rule agreed_frame [OF t]) (simp_all add: line_def)
  then have "agreed_line E (LcpSendEchoRequest E s)" unfolding e using t by (simp add: with_lcp_agreed line_options_def)
  then show ?thesis by (intro line_invI LcpSendEchoRequest_inv line_invD(1) [OF assms])
qed

lemma echo_line:
  assumes "line_inv E s"
  shows "line_inv E (echo_timeout E s)"
proof (cases "echo_timer s")
  case True
  let ?s = "s\<lparr>echo_timer := False, lcp_echo_timer_running := False\<rparr>"
  have "line_inv E ?s" using assms by (intro line_invI echo_state_inv(2)) (simp_all add: line_inv_def)
  note r = echo_request_line [OF this]
  have "lcp_echo_timer_running s" using line_invD(1) [OF assms] True by (simp add: session_inv_def clear_inv_def)
  with True have "echo_timeout E s = LcpEchoCheck E ?s" by (simp add: echo_timeout_def LcpEchoTimeout_def)
  then have "agreed_line E (echo_timeout E s)" using line_invD(2) [OF r] by (simp add: LcpEchoCheck_def Let_def)
  then show ?thesis by (intro line_invI echo_timeout_inv line_invD(1) [OF assms])
qed (simp add: echo_timeout_def assms)

text \<open>The user.\<close>

lemma do_connect_line:
  assumes "line_inv E s" "ppp_do_connect (session_ops E) s = Some s'"
  shows "agreed_line E s'"
proof -
  from assms(2) have "at_rest s" "s' = pppos_connect (session_ops E) (new_phase PPP_PHASE_INITIALIZE s)"
    by (simp_all add: ppp_do_connect_def at_rest_def split: if_split_asm)
  then show ?thesis using start_inv(3) [OF line_invD(1) [OF assms(1)]] rest_session [OF line_invD(1) [OF assms(1)]]
    by (simp add: agreed_closed)
qed

lemma connect_line:
  assumes "line_inv E s" "ppp_connect (session_ops E) holdoff s = Some (e, s')"
  shows "agreed_line E s'"
  using assms do_connect_line [OF assms(1)] line_invD(2) [OF assms(1)]
  by (auto simp: ppp_connect_def split: if_split_asm bind_splits)

lemma close_line:
  assumes "line_inv E s"
  shows "agreed_line E (snd (ppp_close (session_ops E) nocarrier s))"
proof -
  let ?s = "s\<lparr>err_code := PPPERR_USER\<rparr>"
  note i = err_inv [OF line_invD(1) [OF assms], of PPPERR_USER]
  have a: "agreed_line E ?s" using line_invD(2) [OF assms] by simp
  have rest: "agreed_line E t" if "session_inv E t" "phase t = PPP_PHASE_DEAD" for t :: "'a ppp_session_scheme"
    using agreed_rest [OF that(1)] that(2) by (simp add: at_rest_def)
  have close: "agreed_line E (lcp_close E r ?s)" if "\<not> at_rest s" for r
  proof -
    have "in_use E ?s \<or> delayed_inv E ?s"
      using i in_use_busy [OF i] in_use_open [OF i] that by (auto simp: session_inv_def rest_inv_def at_rest_def open_inv_def)
    moreover have "lcp_inv E (lcp_fsm ?s)" "clear_inv ?s" using i unfolding session_inv_def by blast+
    ultimately show ?thesis using lcp_close_agreed [OF _ a] lcp_close_delayed(1,2) rest by blast
  qed
  have "agreed_line E (link_terminated (lcp_lowerdown E) (lcp_lowerdown E ?s))" if "phase s = PPP_PHASE_RUNNING"
    using lost_carrier_inv(1,2) [OF i] that rest by simp
  then show ?thesis using a close phase_values [OF i] by (auto simp: ppp_close_def session_ops_def Let_def at_rest_def)
qed

lemma session_step_line: "session_step E s s' \<Longrightarrow> line_inv E s \<Longrightarrow> line_inv E s'"
proof -
  assume step: "session_step E s s'" and i: "line_inv E s"
  note session = session_step_inv [OF step line_invD(1) [OF i]]
  from step i have "agreed_line E s'"
  proof (induction rule: session_step.induct)
    case (send s vj e)
    note line_invD(2) [OF send]
    then show ?case by (simp add: ppp_netif_output_ip4_def ppp_netif_output_def split: vj_type.split)
  qed (auto intro: connect_line do_connect_line close_line line_invD(2) [OF session_input_line] line_invD(2) [OF lcp_timeout_line]
      line_invD(2) [OF echo_line] line_invD(2) [OF delayed_line] network_call_line network_ops
      simp: network_timeout_def ppp_set_notify_phase_callback_def line_invD(2))
  with session show ?thesis by (rule line_invI)
qed

interpretation session_lines: step_invariant "session_step E" "line_inv E" for E
  by unfold_locales (rule session_step_line)

lemma line_reachable:
  assumes "(session_step E)\<^sup>*\<^sup>* (new_session E n d) s"
  shows "agreed_line E s"
proof -
  have "fstate (lcp_fsm (new_session E n d)) \<noteq> PPP_FSM_OPENED"
    by (simp add: new_session_def lcp_init_def fsm_init_def cleared_fsm_def Let_def)
  then have "line_inv E (new_session E n d)" by (intro line_invI new_session_inv agreed_closed)
  then show ?thesis by (rule line_invD(2) [OF session_lines.reachable [OF assms]])
qed

section \<open>The receive map\<close>

text \<open>What \<open>lcp_down\<close> sets is what had been agreed on.\<close>

lemma down_receives: "rcvd_config (lcp_down E c s) = (if neg_asyncmap (lcp_gotoptions c) then asyncmap (lcp_gotoptions c) else 0xffffffff)"
  by (simp add: lcp_down_def Let_def ppp_send_config_def ppp_recv_config_def)

lemma finished_receives:
  assumes "fstate (lcp_fsm s) = PPP_FSM_CLOSED \<or> fstate (lcp_fsm s) = PPP_FSM_STOPPED" "flags (lcp_fsm s) = 0"
  shows "rcvd_config (lcp_finished E s) = rcvd_config s"
proof -
  let ?d = "new_phase PPP_PHASE_DISCONNECT s"
  obtain f where "lcp_lowerdown E ?d = ?d\<lparr>lcp_fsm := f\<rparr>"
    using lowerdown_closed [of ?d E] assms by (auto simp: is_delayed_def)
  then show ?thesis
    by (simp add: lcp_finished_def link_terminated_def ppp_core_defs Let_def)
qed

lemma close_receives:
  assumes "in_use E s" "fstate (lcp_fsm s) = PPP_FSM_OPENED" "agreed_line E s" "\<not> lax_recv E"
  shows "rcvd_config (lcp_close E r s) = rcvd_config s"
proof -
  let ?t = "new_phase PPP_PHASE_TERMINATE s" let ?op = "\<lambda>fp. fsm_close (lcp_alloc E) (lcp_cb E) fp (str r)"
  let ?g = "lcp_run E ?op ?t"
  note w = in_use_working [OF in_use_phase [OF assms(1)]]
  obtain new where new: "finishes new (lcp_fsm ?t) ?g" using lcp_run_proper [OF proper_ops(1) [OF w]] by blast
  have ev: "events ?g = events (lcp_fsm ?t) @ new" and fl: "flags ?g = 0"
    using new assms(1) by (simp_all add: finishes_def in_use_def)
  have e: "lcp_close E r s = fold (lcp_reports E (ci (lcp_fsm s))) new (?t\<lparr>lcp_fsm := ?g\<rparr>)"
    using lcp_call_events [OF ev, of "lcp_reports E"] by (simp add: lcp_close_in_use [OF assms(1)])
  let ?d = "lcp_down E (ci (lcp_fsm s)) (?t\<lparr>lcp_fsm := ?g\<rparr>)"
  have "rcvd_config s = rcvd_config ?d"
    using assms(2-4) by (simp add: down_receives agreed_line_def line_def negotiated_line_def Let_def)
  moreover consider "new = [Down]" | "new = [Down, Finished]" "fstate ?g = PPP_FSM_CLOSED \<or> fstate ?g = PPP_FSM_STOPPED"
    using new assms(2) close_run_left [of E "lcp_alloc E" "lcp_cb E" "str r" ?t] by (auto simp: finishes_def Let_def)
  then have "rcvd_config (lcp_close E r s) = rcvd_config ?d"
  proof cases
    case 2
    have i: "link_inv (?t\<lparr>lcp_fsm := ?g\<rparr>)" "told (?t\<lparr>lcp_fsm := ?g\<rparr>)"
        "echo_timer (?t\<lparr>lcp_fsm := ?g\<rparr>) = lcp_echo_timer_running (?t\<lparr>lcp_fsm := ?g\<rparr>)"
        "\<not> at_rest (?t\<lparr>lcp_fsm := ?g\<rparr>)" "pppos_open (?t\<lparr>lcp_fsm := ?g\<rparr>)"
      using in_use_phase [OF assms(1)] assms(2) by (simp_all add: in_use_def clear_inv_def)
    have "rcvd_config (lcp_finished E ?d) = rcvd_config ?d"
      by (rule finished_receives) (use 2(2) fl lcp_down_inv(6) [OF i] in simp_all)
    then show ?thesis using 2(1) by (simp add: e lcp_reports_def lcp_leaves_def)
  qed (simp add: e lcp_reports_def lcp_leaves_def)
  ultimately show ?thesis by simp
qed

end
