(* ===== verification/Session_Spec.thy ===== *)
theory Session_Spec
  imports Session_Line
begin

unbundle bit_operations_syntax

text \<open>
  The properties of a PPP session, in every execution: what the phase means, what the user is
  told, when timers run, how the line is configured, how a connection ends and starts again.
\<close>

section \<open>The timer of IPCP\<close>

definition ipcp_timed :: "session_env \<Rightarrow> 'a ip_link_scheme \<Rightarrow> bool" where
  "ipcp_timed E s \<longleftrightarrow> fsm_inv (ipcp_alloc E) ipcp_callbacks (ipcp_fsm s)"

lemma timed_fsm: "ipcp_fsm s' = ipcp_fsm s \<Longrightarrow> ipcp_timed E s \<Longrightarrow> ipcp_timed E s'"
  by (simp add: ipcp_timed_def)

lemma timed_leaves: "ipcp_timed E s \<Longrightarrow> ipcp_timed E (ipcp_leaves c e s)"
  by (rule timed_fsm) (auto simp: ipcp_leaves_def down_fsm finished_quiet(2) split: fsm_event.split)

lemma timed_call:
  assumes "ipcp_timed E s" "fsm_inv (ipcp_alloc E) ipcp_callbacks (op (ipcp_fsm s))"
    and "\<And>c e s. ipcp_timed E s \<Longrightarrow> ipcp_timed E (h c e s)"
  shows "ipcp_timed E (ipcp_call op h s)"
proof -
  have "ipcp_timed E t \<Longrightarrow> ipcp_timed E (fold (h c) es t)" for c es t
    by (induction es arbitrary: t) (simp_all add: assms(3))
  then show ?thesis using assms(2) by (simp add: ipcp_call_def Let_def ipcp_timed_def)
qed

lemma timed_inv: "ipcp_timed E s \<Longrightarrow> fsm_inv (ipcp_alloc E) ipcp_callbacks (ipcp_fsm s)"
  by (simp add: ipcp_timed_def)

lemma timed_close: "ipcp_timed E s \<Longrightarrow> ipcp_timed E (ipcp_close (ipcp_alloc E) fp r s)"
  unfolding ipcp_close_def by (rule timed_call) (simp_all add: fsm_close_inv timed_inv timed_leaves)

lemma timed_with_ci: "ipcp_timed E s \<Longrightarrow> ipcp_timed E (with_ci h s)"
  by (simp add: ipcp_timed_def with_ci_def fsm_ci_inv)

lemma timed_configure: "ipcp_timed E s \<Longrightarrow> ipcp_timed E (ipcp_configure s)"
  by (simp add: ipcp_timed_def ipcp_configure_def Let_def with_ci_def np_up_def fsm_ci_inv)

lemma timed_sdns: "ipcp_timed E s \<Longrightarrow> ipcp_timed E (if b then sdns x y s else s)"
  by (simp add: ipcp_timed_def)

lemma timed_up: "ipcp_timed E s \<Longrightarrow> ipcp_timed E (ipcp_up (ipcp_alloc E) fp s)"
  unfolding ipcp_up_def Let_def
  by (rule four_ways [where Q = "ipcp_timed E"]; intro timed_close timed_configure timed_sdns timed_with_ci)

lemma timed_reports: "ipcp_timed E s \<Longrightarrow> ipcp_timed E (ipcp_reports (ipcp_alloc E) fp c e s)"
  by (simp add: ipcp_reports_def timed_up timed_leaves)

lemma timed_network:
  assumes "ipcp_timed E s"
  shows "ipcp_timed E (ipcp_input (ipcp_alloc E) fp p s)" "ipcp_timed E (ipcp_timeout (ipcp_alloc E) fp s)"
    "ipcp_timed E (ipcp_lowerdown s)" "ipcp_timed E (ipcp_protrej s)" "ipcp_timed E (ipcp_open (ipcp_alloc E) fp s)"
    "ipcp_timed E (ipcp_lowerup (ipcp_alloc E) fp s)"
proof -
  note i = timed_inv [OF assms]
  show "ipcp_timed E (ipcp_input (ipcp_alloc E) fp p s)" "ipcp_timed E (ipcp_timeout (ipcp_alloc E) fp s)"
    "ipcp_timed E (ipcp_lowerdown s)" "ipcp_timed E (ipcp_protrej s)" "ipcp_timed E (ipcp_lowerup (ipcp_alloc E) fp s)"
    using assms by (auto simp: ipcp_input_def ipcp_timeout_def ipcp_lowerdown_def ipcp_protrej_def ipcp_lowerup_def
        intro!: timed_call fsm_input_inv fsm_timeout_inv fsm_lowerdown_inv fsm_lowerup_inv i timed_reports timed_leaves)
  have "ipcp_timed E (ipcp_call (fsm_open (ipcp_alloc E) ipcp_callbacks fp) (ipcp_reports (ipcp_alloc E) fp) s)"
    by (rule timed_call) (simp_all add: assms fsm_open_inv i timed_reports)
  then show "ipcp_timed E (ipcp_open (ipcp_alloc E) fp s)" by (simp add: ipcp_open_def ipcp_timed_def)
qed

lemma timed_phase [simp]: "ipcp_timed E (new_phase p s) = ipcp_timed E s"
  by (simp add: ipcp_timed_def)

lemma timed_link:
  assumes "ipcp_timed E s"
  shows "ipcp_timed E (link_established (ipcp_alloc E) fp s)" "ipcp_timed E (link_down (ipcp_alloc E) fp s)"
proof -
  have "ipcp_timed E (ipcp_open (ipcp_alloc E) fp (new_phase PPP_PHASE_NETWORK (ipcp_lowerup (ipcp_alloc E) fp s)))"
    by (intro timed_network(5)) (simp add: timed_network(6) assms)
  then show "ipcp_timed E (link_established (ipcp_alloc E) fp s)"
    by (simp add: link_established_def start_networks_def continue_networks_def ipcp_timed_def Let_def)
  have "ipcp_timed E (ipcp_close (ipcp_alloc E) fp ''LCP down'' (ipcp_lowerdown s))"
    by (intro timed_close timed_network(3) assms)
  then show "ipcp_timed E (link_down (ipcp_alloc E) fp s)"
    by (simp add: link_down_def upper_layers_down_def ipcp_timed_def Let_def)
qed

text \<open>The parts of the session.\<close>

lemma timed_fields [simp]:
  "ipcp_timed E (s\<lparr>lcp_fsm := f\<rparr>) = ipcp_timed E s" "ipcp_timed E (s\<lparr>err_code := x\<rparr>) = ipcp_timed E s"
  "ipcp_timed E (s\<lparr>delayed_timer := b\<rparr>) = ipcp_timed E s" "ipcp_timed E (s\<lparr>echo_timer := b\<rparr>) = ipcp_timed E s"
  "ipcp_timed E (s\<lparr>lcp_echo_timer_running := b\<rparr>) = ipcp_timed E s" "ipcp_timed E (s\<lparr>lcp_echo_number := n\<rparr>) = ipcp_timed E s"
  "ipcp_timed E (s\<lparr>lcp_peer_mru := m\<rparr>) = ipcp_timed E s" "ipcp_timed E (s\<lparr>pppos_open := b\<rparr>) = ipcp_timed E s"
  "ipcp_timed E (with_flags g s) = ipcp_timed E s" "ipcp_timed E (with_lcp k s) = ipcp_timed E s"
  "ipcp_timed E (ppp_send_config y b c s) = ipcp_timed E s" "ipcp_timed E (ppp_recv_config y s) = ipcp_timed E s"
  "ipcp_timed E (emit ev s) = ipcp_timed E s" "ipcp_timed E (s\<lparr>notify_phase_cb := b\<rparr>) = ipcp_timed E s"
  by (simp_all add: ipcp_timed_def with_flags_def with_lcp_def ppp_send_config_def ppp_recv_config_def emit_def)

lemma timed_lcp_call:
  assumes "ipcp_timed E s" "\<And>c e s. ipcp_timed E s \<Longrightarrow> ipcp_timed E (h c e s)"
  shows "ipcp_timed E (lcp_call E op h s)"
proof -
  have "ipcp_timed E t \<Longrightarrow> ipcp_timed E (fold (h c) es t)" for c es t
    by (induction es arbitrary: t) (simp_all add: assms(2))
  then show ?thesis using assms(1) by (simp add: lcp_call_def Let_def)
qed

lemma timed_lcp_down: "ipcp_timed E s \<Longrightarrow> ipcp_timed E (lcp_down E c s)"
  by (simp add: lcp_down_def Let_def timed_link(2) lcp_echo_lowerdown_def)

lemma timed_lowerdown: "ipcp_timed E s \<Longrightarrow> ipcp_timed E (lcp_lowerdown E s)"
  by (simp add: lcp_lowerdown_def timed_lcp_call timed_lcp_down)

lemma timed_terminated: "ipcp_timed E s \<Longrightarrow> ipcp_timed E (link_terminated (lcp_lowerdown E) s)"
  by (simp add: link_terminated_def ppp_link_terminated_def pppos_disconnect_def ppp_link_end_def Let_def timed_lowerdown)

lemma timed_lcp_leaves: "ipcp_timed E s \<Longrightarrow> ipcp_timed E (lcp_leaves E c e s)"
  by (simp add: lcp_leaves_def lcp_finished_def timed_lcp_down timed_terminated split: fsm_event.split)

lemma timed_lcp_close: "ipcp_timed E s \<Longrightarrow> ipcp_timed E (lcp_close E r s)"
  by (simp add: lcp_close_def Let_def lcp_finished_def timed_terminated timed_lcp_call timed_lcp_leaves)

lemma timed_network_call: "ipcp_timed E (op s) \<Longrightarrow> ipcp_timed E (network_call E op s)"
proof -
  have "ipcp_timed E t \<Longrightarrow> ipcp_timed E ((lcp_close E r ^^ n) t)" for r n t
    by (induction n) (simp_all add: timed_lcp_close)
  then show "ipcp_timed E (op s) \<Longrightarrow> ipcp_timed E (network_call E op s)" by (simp add: network_call_def Let_def)
qed

lemma timed_echo: "ipcp_timed E s \<Longrightarrow> ipcp_timed E (LcpEchoCheck E s)"
  by (simp add: LcpEchoCheck_def LcpSendEchoRequest_def LcpLinkFailure_def timed_lcp_close Let_def)

lemma timed_lcp_up: "ipcp_timed E s \<Longrightarrow> ipcp_timed E (lcp_up E s)"
proof -
  assume t: "ipcp_timed E s"
  have "ipcp_timed E (lcp_configure E (with_lcp lcp_settle s))"
    by (rule timed_fsm [OF _ t]) (simp add: lcp_configure_def netif_set_mtu_def ppp_send_config_def ppp_recv_config_def
        with_lcp_def Let_def)
  then show ?thesis by (simp add: lcp_up_def Let_def lcp_echo_lowerup_def timed_echo timed_network_call timed_link(1))
qed

lemma timed_lcp_reports: "ipcp_timed E s \<Longrightarrow> ipcp_timed E (lcp_reports E c e s)"
  by (simp add: lcp_reports_def timed_lcp_up timed_lcp_leaves)

lemma timed_rejected: "ipcp_timed E s \<Longrightarrow> ipcp_timed E (rejected_by_peer E prot s)"
  by (simp add: rejected_by_peer_def lcp_protrej_def timed_lcp_call timed_lcp_leaves timed_network_call timed_network(4))

lemma timed_rejections: "ipcp_timed E s \<Longrightarrow> ipcp_timed E (fold (rejected_by_peer E) ps s)"
  by (induction ps arbitrary: s) (simp_all add: timed_rejected)

lemma timed_input: "ipcp_timed E s \<Longrightarrow> ipcp_timed E (lcp_fsm_input E p s)"
  by (simp add: lcp_fsm_input_def Let_def timed_rejections timed_lcp_call timed_lcp_reports lcp_finished_def timed_terminated)

lemma timed_ops:
  "ipcp_timed E s \<Longrightarrow> ipcp_timed E (lcp_open E s)" "ipcp_timed E s \<Longrightarrow> ipcp_timed E (lcp_lowerup E s)"
  "ipcp_timed E s \<Longrightarrow> ipcp_timed E (lcp_fsm_lowerup E s)"
  by (simp_all add: lcp_open_def lcp_lowerup_def lcp_fsm_lowerup_def Let_def timed_lcp_call timed_lcp_reports)

lemma timed_do_connect: "ipcp_timed E s \<Longrightarrow> ppp_do_connect (session_ops E) s = Some s' \<Longrightarrow> ipcp_timed E s'"
  by (auto simp: ppp_do_connect_def pppos_connect_def ppp_start_def session_ops_def timed_ops split: if_split_asm)

lemma timed_step: "session_step E s s' \<Longrightarrow> ipcp_timed E s \<Longrightarrow> ipcp_timed E s'"
proof (induction rule: session_step.induct)
  case (connect holdoff s e s')
  then show ?case by (auto simp: ppp_connect_def timed_do_connect split: if_split_asm bind_splits)
next
  case (disconnect s nocarrier)
  then show ?case
    by (simp add: ppp_close_def session_ops_def Let_def timed_lcp_close timed_terminated timed_lowerdown
        ppp_link_terminated_def pppos_disconnect_def ppp_link_end_def)
next
  case (packet s vj_ok n pb)
  then show ?case
    by (simp add: session_input_def lcp_input_def timed_input timed_ops timed_network_call timed_network lcp_sprotrej_def Let_def
        split: ppp_verdict.split)
next
  case (send s vj e)
  then show ?case by (simp add: ppp_netif_output_ip4_def ppp_netif_output_def split: vj_type.split)
qed (simp_all add: timed_do_connect lcp_timeout_def timed_lcp_call timed_lcp_reports network_timeout_def timed_network_call
    timed_network echo_timeout_def LcpEchoTimeout_def timed_echo delayed_timeout_def lcp_delayed_up_def timed_ops
    ppp_set_notify_phase_callback_def)

interpretation session_timers: step_invariant "session_step E" "ipcp_timed E" for E
  by unfold_locales (rule timed_step)


section \<open>How a connection ends\<close>

lemma unat_u8_le [simp]: "unat (x :: u8) \<le> 255"
  using unat_u8_less [of x] by linarith

lemma lcp_run_cases: "\<exists>fp. lcp_run E op s = op fp (lcp_fsm s)"
  by (auto simp: lcp_run_def Let_def)

definition closing :: "fsm_state \<Rightarrow> bool" where
  "closing st \<longleftrightarrow> st = PPP_FSM_CLOSING \<or> st = PPP_FSM_STOPPING"

lemma timeout_closing:
  assumes "closing (fstate f)"
  shows "retransmits f = 0 \<Longrightarrow> fstate (fsm_timeout alloc cb fp f) = PPP_FSM_CLOSED \<or> fstate (fsm_timeout alloc cb fp f) = PPP_FSM_STOPPED"
    "retransmits f \<noteq> 0 \<Longrightarrow> fstate (fsm_timeout alloc cb fp f) = fstate f \<and> retransmits (fsm_timeout alloc cb fp f) = retransmits f - 1"
  using assms by (auto simp: fsm_timeout_def closing_def Let_def)

text \<open>One run of the timer of LCP while it is closing, and all of them.\<close>

lemma closing_timeout:
  assumes "in_use E s" "closing (fstate (lcp_fsm s))"
  shows "retransmits (lcp_fsm s) = 0 \<Longrightarrow> ended (reason_told (err_code s)) (lcp_timeout E s)"
    "retransmits (lcp_fsm s) \<noteq> 0 \<Longrightarrow> err_code (lcp_timeout E s) = err_code s \<and>
      closing (fstate (lcp_fsm (lcp_timeout E s))) \<and> retransmits (lcp_fsm (lcp_timeout E s)) = retransmits (lcp_fsm s) - 1"
proof -
  let ?op = "fsm_timeout (lcp_alloc E) (lcp_cb E)" let ?f = "lcp_fsm s"
  note w = in_use_working [OF assms(1)]
  obtain fp where g: "lcp_run E ?op s = ?op fp ?f" using lcp_run_cases by blast
  have "timer ?f" using w(3) assms(2) by (auto simp: lcp_inv_def fsm_inv_def closing_def)
  then have t: "lcp_timeout E s = lcp_call E ?op (lcp_reports E) s" by (simp add: lcp_timeout_def)
  have c: "fstate ?f \<noteq> PPP_FSM_OPENED" using assms(2) by (auto simp: closing_def)
  show "ended (reason_told (err_code s)) (lcp_timeout E s)" if r: "retransmits ?f = 0"
  proof -
    have st: "fstate (?op fp ?f) = PPP_FSM_CLOSED \<or> fstate (?op fp ?f) = PPP_FSM_STOPPED"
      by (rule timeout_closing(1) [OF assms(2) r])
    moreover have "flags (?op fp ?f) = 0"
      using lcp_line.timeout_finishes [OF w(1)] assms(1) by (fastforce simp: finishes_def in_use_def)
    ultimately have "\<not> working (?op fp ?f)" "fstate (?op fp ?f) \<noteq> PPP_FSM_OPENED"
      by (auto simp: working_def waiting_def negotiating_def)
    then show ?thesis using lcp_call_result [OF assms(1) proper_ops(3) [OF w] g [symmetric]] by (simp add: t)
  qed
  show "err_code (lcp_timeout E s) = err_code s \<and> closing (fstate (lcp_fsm (lcp_timeout E s))) \<and>
      retransmits (lcp_fsm (lcp_timeout E s)) = retransmits ?f - 1" if r: "retransmits ?f \<noteq> 0"
  proof -
    have st: "fstate (?op fp ?f) = fstate ?f" "retransmits (?op fp ?f) = retransmits ?f - 1"
      using timeout_closing(2) [OF assms(2) r] by simp_all
    then have "fstate (?op fp ?f) \<noteq> PPP_FSM_OPENED" "fstate (?op fp ?f) \<noteq> PPP_FSM_CLOSED" "fstate (?op fp ?f) \<noteq> PPP_FSM_STOPPED"
      using assms(2) by (auto simp: closing_def)
    then show ?thesis
      using lcp_call_result [OF assms(1) proper_ops(3) [OF w] g [symmetric]] st assms(2) by (simp add: t)
  qed
qed

lemma closing_in_use: "session_inv E s \<Longrightarrow> closing (fstate (lcp_fsm s)) \<Longrightarrow> in_use E s"
  by (erule session_cases) (auto simp: closing_def)

lemma closing_ends:
  assumes "session_inv E s" "closing (fstate (lcp_fsm s))"
  shows "ended (reason_told (err_code s)) ((lcp_timeout E ^^ Suc (unat (retransmits (lcp_fsm s)))) s)"
  using assms
proof (induction "unat (retransmits (lcp_fsm s))" arbitrary: s)
  case 0
  then have "retransmits (lcp_fsm s) = 0" by (simp add: unat_eq_0)
  then show ?case using closing_timeout(1) [OF closing_in_use [OF 0(2,3)] 0(3)] by simp
next
  case (Suc k)
  then have r: "retransmits (lcp_fsm s) \<noteq> 0" by auto
  let ?t = "lcp_timeout E s"
  have t: "err_code ?t = err_code s" "closing (fstate (lcp_fsm ?t))" "retransmits (lcp_fsm ?t) = retransmits (lcp_fsm s) - 1"
    using closing_timeout(2) [OF closing_in_use [OF Suc(3,4)] Suc(4) r] by simp_all
  have k: "k = unat (retransmits (lcp_fsm ?t))" using Suc(2) r by (simp add: t(3) unat_minus_one)
  have "ended (reason_told (err_code ?t)) ((lcp_timeout E ^^ Suc (unat (retransmits (lcp_fsm ?t)))) ?t)"
    by (rule Suc(1) [OF k lcp_timeout_inv [OF Suc(3)] t(2)])
  then have "ended (reason_told (err_code s)) ((lcp_timeout E ^^ Suc k) ?t)" by (simp only: k [symmetric] t(1))
  then show ?case by (simp only: Suc(2) [symmetric] funpow_Suc_right [of "Suc k"] o_def)
qed

lemma ended_stays:
  assumes "session_inv E s" "ended e s"
  shows "(lcp_timeout E ^^ n) s = s"
proof -
  have "rest_inv E s" using rest_session [OF assms(1)] assms(2) by (simp add: ended_def at_rest_def)
  then have "\<not> waiting (fstate (lcp_fsm s))" by (auto simp: rest_inv_def waiting_def negotiating_def)
  then have "lcp_timeout E s = s" using assms(1) by (auto simp: lcp_timeout_def session_inv_def lcp_inv_def fsm_inv_def)
  then show ?thesis by (induction n) simp_all
qed

text \<open>A call of \<open>lcp_close\<close>: LCP is closing then, or the session has ended.\<close>

lemma close_closing:
  assumes "working f" "fstate f \<noteq> PPP_FSM_STOPPED" "fstate g \<noteq> PPP_FSM_CLOSED"
    "g = fsm_close alloc cb fp r f"
  shows "fstate g = PPP_FSM_CLOSING" "\<not> closing (fstate f) \<Longrightarrow> retransmits g = fsm_max_term_transmits fp - 1 \<and> fsm_max_term_transmits fp \<noteq> 0"
  using assms by (cases "fstate f"; simp add: fsm_close_def terminate_layer_def working_def waiting_def negotiating_def
      closing_def Let_def split: if_split_asm)+

lemma lcp_close_result:
  assumes "in_use E s" "s' = lcp_close E r s"
  shows "closing (fstate (lcp_fsm s')) \<and> err_code s' = err_code s \<and>
      phase s' = (if fstate (lcp_fsm s) = PPP_FSM_OPENED then PPP_PHASE_ESTABLISH else PPP_PHASE_TERMINATE) \<and>
      (\<not> closing (fstate (lcp_fsm s)) \<longrightarrow>
        Suc (unat (retransmits (lcp_fsm s'))) = unat (fsm_max_term_transmits (fsm_settings E))) \<or>
    ended (reason_told (err_code s)) s'"
proof -
  let ?t = "new_phase PPP_PHASE_TERMINATE s" let ?op = "\<lambda>fp. fsm_close (lcp_alloc E) (lcp_cb E) fp (str r)"
  note u = in_use_phase [OF assms(1)]
  note w = in_use_working [OF u]
  let ?g = "lcp_run E ?op ?t"
  have s': "s' = lcp_call E ?op (lcp_reports E) ?t" by (simp add: assms(2) lcp_close_in_use [OF assms(1)])
  have w': "working (lcp_fsm s)" "fstate (lcp_fsm s) \<noteq> PPP_FSM_STOPPED" using w by simp_all
  from lcp_call_result [OF u proper_ops(1) [OF w] refl close_run_left, of "str r", folded s']
  consider (on) "working ?g" "lcp_fsm s' = ?g" "err_code s' = err_code s"
      "phase s' = (if fstate (lcp_fsm s) = PPP_FSM_OPENED then PPP_PHASE_ESTABLISH else PPP_PHASE_TERMINATE)"
    | (off) "ended (reason_told (err_code s)) s'" by auto
  then show ?thesis
  proof cases
    case on
    have "\<exists>m. ?g = ?op (with_mru E PPP_LCP m) (lcp_fsm s)" by (auto simp: lcp_run_def Let_def)
    then obtain m where m: "?g = ?op (with_mru E PPP_LCP m) (lcp_fsm s)" by blast
    have "fstate ?g \<noteq> PPP_FSM_CLOSED" using on(1) by (auto simp: working_def waiting_def negotiating_def)
    note c = close_closing [OF w' this m]
    have "Suc (unat (retransmits ?g)) = unat (fsm_max_term_transmits (fsm_settings E))" if "\<not> closing (fstate (lcp_fsm s))"
      using c(2) [OF that] by (simp add: with_mru_def unat_minus_one unat_gt_0)
    then show ?thesis using on(2-4) c(1) by (simp add: closing_def)
  qed blast
qed

lemma lcp_close_ends:
  assumes "in_use E s" "s' = lcp_close E r s" "e = reason_told (err_code s)"
  shows "\<exists>n \<le> 256. ended e ((lcp_timeout E ^^ n) s')"
    "\<not> closing (fstate (lcp_fsm s)) \<Longrightarrow> ended e ((lcp_timeout E ^^ unat (fsm_max_term_transmits (fsm_settings E))) s')"
    "phase s' = PPP_PHASE_DEAD \<or> phase s' = (if fstate (lcp_fsm s) = PPP_FSM_OPENED then PPP_PHASE_ESTABLISH else PPP_PHASE_TERMINATE)"
    "fstate (lcp_fsm s') \<noteq> PPP_FSM_OPENED"
    "closing (fstate (lcp_fsm s')) \<and> err_code s' = err_code s \<or> ended e s'"
proof -
  let ?n = "Suc (unat (retransmits (lcp_fsm s')))"
  have i: "session_inv E s'" using lcp_close_inv [OF assms(1)] by (simp add: assms(2))
  note r = lcp_close_result [OF assms(1,2), folded assms(3)]
  have on: "ended e ((lcp_timeout E ^^ ?n) s')" "?n \<le> 256"
    if "closing (fstate (lcp_fsm s'))" "err_code s' = err_code s"
    using closing_ends [OF i that(1)] that(2) unfolding assms(3) by auto
  show "closing (fstate (lcp_fsm s')) \<and> err_code s' = err_code s \<or> ended e s'" using r by blast
  show "phase s' = PPP_PHASE_DEAD \<or> phase s' = (if fstate (lcp_fsm s) = PPP_FSM_OPENED then PPP_PHASE_ESTABLISH else PPP_PHASE_TERMINATE)"
    using r by (auto simp: ended_def)
  have off: "(lcp_timeout E ^^ n) s' = s'" "fstate (lcp_fsm s') \<noteq> PPP_FSM_OPENED" if "ended e s'" for n
    using ended_stays [OF i that] rest_session [OF i] that by (auto simp: ended_def at_rest_def rest_inv_def)
  show "fstate (lcp_fsm s') \<noteq> PPP_FSM_OPENED" using r off(2) by (auto simp: closing_def)
  show "\<exists>n \<le> 256. ended e ((lcp_timeout E ^^ n) s')"
    using r on off(1) [of 0] by (metis le0)
  show "ended e ((lcp_timeout E ^^ unat (fsm_max_term_transmits (fsm_settings E))) s')" if "\<not> closing (fstate (lcp_fsm s))"
    using r on(1) off(1) that by (metis (no_types))
qed


section \<open>Properties\<close>

text \<open>Settings of a session in which every buffer can be had, with the defaults, and one that is started.\<close>

definition default_env :: session_env where
  "default_env = \<lparr>fsm_settings = default_pcb, lax_recv = False, listen_time = 0, lcp_echo_interval = 5,
     lcp_echo_fails = 3, lcp_alloc = (\<lambda>_. True), ipcp_alloc = (\<lambda>_. True), nak_alloc = (\<lambda>_. True),
     magic_numbers = of_nat\<rparr>"

definition first_session :: ppp_session where
  "first_session = pppos_connect (session_ops default_env) (new_phase PPP_PHASE_INITIALIZE (new_session default_env 10 new_ipcp))"

lemma new_session_dead: "phase (new_session E n d) = PPP_PHASE_DEAD"
  by (simp add: new_session_def)

lemma new_session_rest: "rest_inv E (new_session E n d)"
  using rest_session [OF new_session_inv] by (simp add: at_rest_def new_session_dead)

lemma first_session_step: "session_step default_env (new_session default_env 10 new_ipcp) first_session"
  by (rule session_step.connect [of _ 0]) (simp add: ppp_connect_def ppp_do_connect_def first_session_def new_session_dead)

lemma first_session_reachable: "(session_step default_env)\<^sup>*\<^sup>* (new_session default_env 10 new_ipcp) first_session"
  by (rule r_into_rtranclp) (rule first_session_step)

lemma first_session_phase: "phase first_session = PPP_PHASE_ESTABLISH"
  using start_inv(2) [OF new_session_inv new_session_rest, of default_env 10 new_ipcp]
  by (simp add: first_session_def default_env_def)

lemma first_session_open: "pppos_open first_session" "fstate (lcp_fsm first_session) \<noteq> PPP_FSM_OPENED"
  using session_reachable [OF first_session_reachable] first_session_phase
  by (auto simp: session_inv_def session_parts clear_inv_def at_rest_def np_phase_def waiting_def negotiating_def split: if_split_asm)

text \<open>
  What a packet for LCP does that rejects nothing and shows no loop; and such a session after the
  peer has acknowledged the request, and after it has sent one without options itself.
\<close>

lemma packet_run:
  assumes "fsm_input (lcp_alloc E) (lcp_cb E) (with_mru E PPP_LCP (lcp_peer_mru s)) p (lcp_fsm s) = g"
    "events g = events (lcp_fsm s) @ new" "Down \<notin> set new" "loopbacks (ci g) = loopbacks (ci (lcp_fsm s))"
    "protrejs (ci g) = protrejs (ci (lcp_fsm s))" "flags (lcp_fsm s) = 0"
  shows "session_input E vj n (0xc0 # 0x21 # p) s = fold (lcp_reports E (ci (lcp_fsm s))) new (s\<lparr>lcp_fsm := g\<rparr>)"
proof -
  let ?op = "\<lambda>fp. fsm_input (lcp_alloc E) (lcp_cb E) fp p"
  have run: "lcp_run E ?op s = g" using assms(2,3) by (simp add: lcp_run_def Let_def assms(1))
  then have "lcp_call E ?op (lcp_reports E) s = fold (lcp_reports E (ci (lcp_fsm s))) new (s\<lparr>lcp_fsm := g\<rparr>)"
    using lcp_call_events [where op = ?op and s = s] assms(2) by simp
  moreover have "ppp_input s b vj (0xc0 # 0x21 # p) = To_Protocol PPP_LCP p" for b
  proof -
    have "(word_cat (0xc0 :: u8) (0x21 :: u8) :: u16) = 0xc021" by (simp add: word_cat_8_alt)
    then show ?thesis by (simp add: ppp_input_def protocols_def Let_def)
  qed
  ultimately show ?thesis
    using assms(4-6) run by (simp add: session_input_def lcp_input_def lcp_fsm_input_def is_delayed_def Let_def)
qed

definition lcp_packet :: "u8 list \<Rightarrow> lcp fsm \<Rightarrow> lcp fsm" where
  "lcp_packet p = fsm_input (lcp_alloc default_env) (lcp_cb default_env) (with_mru default_env PPP_LCP PPP_MRU) p"

definition acked_lcp :: "lcp fsm" where
  "acked_lcp = lcp_packet [2, 1, 0, 20, 2, 6, 0, 0, 0, 0, 5, 6, 0, 0, 0, 0, 7, 2, 8, 2] (lcp_fsm first_session)"

definition opened_lcp :: "lcp fsm" where
  "opened_lcp = lcp_packet [1, 1, 0, 4] acked_lcp"

lemma first_lcp: "(flags (lcp_fsm first_session), loopbacks (ci (lcp_fsm first_session)), protrejs (ci (lcp_fsm first_session)),
    events (lcp_fsm first_session), lcp_peer_mru first_session) = (0, 0, [], [Starting], PPP_MRU)"
  by code_simp

lemma acked_lcp: "(fstate acked_lcp, flags acked_lcp, loopbacks (ci acked_lcp), protrejs (ci acked_lcp), events acked_lcp) =
    (PPP_FSM_ACKRCVD, 0, 0, [], [Starting])"
  by code_simp

lemma opened_lcp: "(fstate opened_lcp, flags opened_lcp, loopbacks (ci opened_lcp), protrejs (ci opened_lcp), events opened_lcp) =
    (PPP_FSM_OPENED, 0, 0, [], [Starting, Up])"
  by code_simp

definition open_session :: ppp_session where
  "open_session = lcp_up default_env (first_session\<lparr>lcp_fsm := opened_lcp\<rparr>)"

lemma acked_step: "session_step default_env first_session (first_session\<lparr>lcp_fsm := acked_lcp\<rparr>)"
proof -
  let ?p = "[2, 1, 0, 20, 2, 6, 0, 0, 0, 0, 5, 6, 0, 0, 0, 0, 7, 2, 8, 2] :: u8 list"
  have "session_input default_env True 0 (0xc0 # 0x21 # ?p) first_session = first_session\<lparr>lcp_fsm := acked_lcp\<rparr>"
    using packet_run [of default_env first_session ?p acked_lcp "[]" True 0] first_lcp acked_lcp
    by (simp add: acked_lcp_def [symmetric] lcp_packet_def [symmetric])
  then show ?thesis using session_step.packet [of default_env first_session True 0] by metis
qed

lemma open_step: "session_step default_env (first_session\<lparr>lcp_fsm := acked_lcp\<rparr>) open_session"
proof -
  let ?s = "first_session\<lparr>lcp_fsm := acked_lcp\<rparr>"
  have "session_input default_env True 0 (0xc0 # 0x21 # [1, 1, 0, 4]) ?s = open_session"
    using packet_run [of default_env ?s "[1, 1, 0, 4]" opened_lcp "[Up]" True 0] first_lcp acked_lcp opened_lcp
    by (simp add: opened_lcp_def [symmetric] lcp_packet_def [symmetric] open_session_def lcp_reports_def)
  then show ?thesis using session_step.packet [of default_env ?s True 0] by metis
qed

lemma acked_reachable: "(session_step default_env)\<^sup>*\<^sup>* (new_session default_env 10 new_ipcp) (first_session\<lparr>lcp_fsm := acked_lcp\<rparr>)"
  by (rule rtranclp.rtrancl_into_rtrancl [OF first_session_reachable acked_step])

lemma open_session_reachable: "(session_step default_env)\<^sup>*\<^sup>* (new_session default_env 10 new_ipcp) open_session"
  by (rule rtranclp.rtrancl_into_rtrancl [OF acked_reachable open_step])

lemma open_session_echo: "echo_timer open_session \<and> lcp_echos_pending (ci (lcp_fsm open_session)) = 1"
proof -
  let ?s = "first_session\<lparr>lcp_fsm := acked_lcp\<rparr>" let ?t = "first_session\<lparr>lcp_fsm := opened_lcp\<rparr>"
  have i: "session_inv default_env ?s" by (rule session_reachable [OF acked_reachable])
  have a: "fstate acked_lcp = PPP_FSM_ACKRCVD" using acked_lcp by simp
  have b: "busy_inv default_env ?s" using i a by (auto simp: session_inv_def session_parts)
  have "lcp_inv default_env opened_lcp"
  proof -
    have "lcp_inv default_env acked_lcp" using i by (simp add: session_inv_def)
    then show ?thesis by (simp add: opened_lcp_def lcp_packet_def lcp_inv_def fsm_input_inv lcp_ok.input_keeps)
  qed
  then have "lcp_echo_interval default_env \<noteq> 0 \<longrightarrow> echo_timer (lcp_up default_env ?t) \<and>
      lcp_echos_pending (ci (lcp_fsm (lcp_up default_env ?t))) = 1"
    using lcp_up_inv(3) [of ?t default_env] b i opened_lcp first_session_open
    by (auto simp: busy_inv_def session_inv_def clear_inv_def net_idle_def quiet_def plain_line_def)
  then show ?thesis by (simp add: open_session_def default_env_def)
qed

lemma echo_timer_open: "session_inv E s \<Longrightarrow> echo_timer s \<Longrightarrow> fstate (lcp_fsm s) = PPP_FSM_OPENED"
  by (auto simp: session_inv_def session_parts clear_inv_def)

text \<open>
  C7. What the phase of a session means, in every execution: whatever packets arrive, timers run
  out and calls the user makes, in any order. The session is in the phases NETWORK and RUNNING
  exactly while LCP is open, in RUNNING exactly while IPCP is, and exactly then the interface is
  up. The serial link is in use exactly in the phases other than DEAD and HOLDOFF; and in these
  both protocols are at their start and none of the four timers of the session is running, so
  that the block can be released.
\<close>
theorem session_phases:
  assumes "(session_step E)\<^sup>*\<^sup>* (new_session E n d) s"
  shows "phase s \<in> {PPP_PHASE_DEAD, PPP_PHASE_HOLDOFF, PPP_PHASE_ESTABLISH, PPP_PHASE_NETWORK, PPP_PHASE_RUNNING, PPP_PHASE_TERMINATE} \<and>
    (phase s = PPP_PHASE_NETWORK \<or> phase s = PPP_PHASE_RUNNING \<longleftrightarrow> fstate (lcp_fsm s) = PPP_FSM_OPENED) \<and>
    (phase s = PPP_PHASE_RUNNING \<longleftrightarrow> fstate (ipcp_fsm s) = PPP_FSM_OPENED) \<and> (if4_up s \<longleftrightarrow> phase s = PPP_PHASE_RUNNING) \<and>
    (pppos_open s \<longleftrightarrow> phase s \<noteq> PPP_PHASE_DEAD \<and> phase s \<noteq> PPP_PHASE_HOLDOFF) \<and>
    (\<not> pppos_open s \<longrightarrow> (fstate (lcp_fsm s) = PPP_FSM_INITIAL \<or> fstate (lcp_fsm s) = PPP_FSM_STARTING) \<and>
      fstate (ipcp_fsm s) = PPP_FSM_INITIAL \<and> \<not> timer (lcp_fsm s) \<and> \<not> timer (ipcp_fsm s) \<and> \<not> echo_timer s \<and> \<not> delayed_timer s)"
proof -
  have i: "session_inv E s" by (rule session_reachable [OF assms])
  have "ipcp_timed E (new_session E n d)"
    by (simp add: ipcp_timed_def new_session_def ipcp_init_def fsm_init_def cleared_fsm_def waiting_defs Let_def)
  then have "ipcp_timed E s" by (rule session_timers.reachable [OF assms])
  then have t: "timer (ipcp_fsm s) \<Longrightarrow> fstate (ipcp_fsm s) \<noteq> PPP_FSM_INITIAL"
    by (auto simp: ipcp_timed_def fsm_inv_def waiting_def negotiating_def)
  have l: "timer (lcp_fsm s) \<Longrightarrow> waiting (fstate (lcp_fsm s))" using i by (simp add: session_inv_def lcp_inv_def fsm_inv_def)
  have p: "pppos_open s \<longleftrightarrow> \<not> at_rest s" "echo_timer s \<longleftrightarrow> lcp_echo_timer_running s" using i by (simp_all add: session_inv_def clear_inv_def)
  from i consider "open_inv E s" | "busy_inv E s" | "delayed_inv E s" | "rest_inv E s" unfolding session_inv_def by blast
  then show ?thesis
  proof cases
    case 1
    then show ?thesis using p by (auto simp: open_inv_def np_phase_def link_inv_def live_def quiet_def at_rest_def Let_def split: if_split_asm)
  next
    case 2
    then show ?thesis using p by (auto simp: busy_inv_def net_idle_def quiet_def at_rest_def waiting_def negotiating_def)
  next
    case 3
    then show ?thesis using p by (auto simp: delayed_inv_def net_idle_def quiet_def at_rest_def)
  next
    case 4
    then show ?thesis using p t l by (auto simp: rest_inv_def net_idle_def quiet_def at_rest_def waiting_def negotiating_def)
  qed
qed

theorem session_phases_witness:
  "pppos_open first_session \<and> \<not> if4_up first_session \<and> fstate (lcp_fsm first_session) \<noteq> PPP_FSM_OPENED"
  using session_phases [OF first_session_reachable] by (simp add: first_session_phase)

text \<open>
  What the user is told is true in every execution: while the interface is up, what the status
  callback was called with last is \<open>PPPERR_NONE\<close>; and when a session has ended, it is not.
\<close>
theorem user_knows_the_status:
  assumes "(session_step E)\<^sup>*\<^sup>* (new_session E n d) s"
  shows "(if4_up s \<longrightarrow> last_status (out s) = Some PPPERR_NONE) \<and>
    (\<not> pppos_open s \<longrightarrow> last_status (out s) \<noteq> Some PPPERR_NONE)"
  using session_reachable [OF assms] by (auto simp: session_inv_def clear_inv_def told_def)

theorem user_knows_the_status_witness:
  "last_status (out (new_session default_env 10 new_ipcp)) \<noteq> Some PPPERR_NONE"
  using user_knows_the_status [of default_env 10 new_ipcp "new_session default_env 10 new_ipcp"]
  by (simp add: new_session_def)

text \<open>
  C8. How the line is configured, in every execution. As long as LCP is open, the sender's map and
  compression, the receiver's map, the interface's unit and the peer's receive unit are exactly
  what the two ends have agreed on, whatever happens meanwhile; the peer's unit is at least 128 and
  the interface's between 128 and 1500. While LCP negotiates, and while it closes or waits for the
  peer to begin, the sending side is plain: it compresses nothing, escapes every control character
  and takes the peer's unit for 1500. The receiving side is not: closing LCP leaves the
  receiver's map as it had been agreed on, because \<open>lcp_down\<close> sets it from \<open>lcp_gotoptions\<close> once
  more (unless \<open>lax_recv\<close> is set), until the next \<open>lcp_lowerup\<close>.
\<close>
theorem session_line:
  assumes "(session_step E)\<^sup>*\<^sup>* (new_session E n d) s"
  shows "(fstate (lcp_fsm s) = PPP_FSM_OPENED \<longrightarrow>
      (sent_config s, rcvd_config s, netif_mtu s, lcp_peer_mru s) = negotiated_line E (ci (lcp_fsm s)) \<and>
      128 \<le> unat (lcp_peer_mru s) \<and> 128 \<le> unat (netif_mtu s) \<and> unat (netif_mtu s) \<le> 1500) \<and>
    (pppos_open s \<and> fstate (lcp_fsm s) \<noteq> PPP_FSM_OPENED \<longrightarrow>
      sent_config s = (0xffffffff, False, False) \<and> lcp_peer_mru s = 1500) \<and>
    (fstate (lcp_fsm s) = PPP_FSM_OPENED \<and> \<not> lax_recv E \<longrightarrow> rcvd_config (lcp_close E r s) = rcvd_config s)"
proof -
  have i: "session_inv E s" by (rule session_reachable [OF assms])
  have a: "agreed_line E s" by (rule line_reachable [OF assms])
  have close: "rcvd_config (lcp_close E r s) = rcvd_config s" if "fstate (lcp_fsm s) = PPP_FSM_OPENED" "\<not> lax_recv E"
    using close_receives [OF _ that(1) a that(2)] in_use_open [OF i that(1)] by simp
  have l: "(sent_config s, rcvd_config s, netif_mtu s, lcp_peer_mru s) = negotiated_line E (ci (lcp_fsm s))"
    if "fstate (lcp_fsm s) = PPP_FSM_OPENED" using a that by (simp add: agreed_line_def line_def)
  from i consider "open_inv E s" | "busy_inv E s" | "delayed_inv E s" | "rest_inv E s" unfolding session_inv_def by blast
  then show ?thesis
  proof cases
    case 1
    then show ?thesis using l close by (simp add: open_inv_def usable_line_def word_le_nat_alt)
  next
    case 2
    then show ?thesis by (auto simp: busy_inv_def plain_line_def waiting_def negotiating_def)
  next
    case 3
    then show ?thesis by (simp add: delayed_inv_def plain_line_def)
  next
    case 4
    then show ?thesis using i by (auto simp: rest_inv_def session_inv_def clear_inv_def)
  qed
qed

theorem session_line_witness:
  "(sent_config open_session, rcvd_config open_session, netif_mtu open_session, lcp_peer_mru open_session) =
      negotiated_line default_env (ci (lcp_fsm open_session)) \<and>
    rcvd_config (lcp_close default_env ''User request'' open_session) = rcvd_config open_session \<and>
    sent_config first_session = (0xffffffff, False, False)"
proof -
  have o: "fstate (lcp_fsm open_session) = PPP_FSM_OPENED"
    using echo_timer_open [OF session_reachable [OF open_session_reachable]] open_session_echo by simp
  have "\<not> lax_recv default_env" by (simp add: default_env_def)
  with o show ?thesis
    using session_line [OF open_session_reachable, of "''User request''"] session_line [OF first_session_reachable]
      first_session_open by simp
qed


text \<open>
  C9. Closing always succeeds, whatever the peer does not answer. If the user closes a session in
  which LCP is starting or open, then the interface is down at once, and when the peer sends
  nothing any more, at most 256 runs of LCP's timer later the session has ended and the user was
  called with \<open>PPPERR_USER\<close>; if LCP was not closing yet, as many runs as there are
  Terminate-Requests to be sent are enough. After closing an open session the phase is ESTABLISH,
  not TERMINATE, until it has ended.
\<close>
theorem session_close_completes:
  assumes "(session_step E)\<^sup>*\<^sup>* (new_session E n d) s"
    and "phase s \<in> {PPP_PHASE_ESTABLISH, PPP_PHASE_NETWORK, PPP_PHASE_RUNNING}"
    and "ppp_close (session_ops E) False s = (err, s')"
  shows "err = ERR_OK \<and> \<not> if4_up s' \<and> (\<exists>n \<le> 256. ended PPPERR_USER ((lcp_timeout E ^^ n) s')) \<and>
    (fstate (lcp_fsm s) \<noteq> PPP_FSM_CLOSING \<and> fstate (lcp_fsm s) \<noteq> PPP_FSM_STOPPING \<longrightarrow>
      ended PPPERR_USER ((lcp_timeout E ^^ unat (fsm_max_term_transmits (fsm_settings E))) s')) \<and>
    (fstate (lcp_fsm s) = PPP_FSM_OPENED \<longrightarrow> phase s' = PPP_PHASE_ESTABLISH \<or> phase s' = PPP_PHASE_DEAD)"
proof -
  let ?s = "s\<lparr>err_code := PPPERR_USER\<rparr>"
  have i: "session_inv E ?s" by (rule err_inv [OF session_reachable [OF assms(1)]])
  have e: "err = ERR_OK" "s' = lcp_close E ''User request'' ?s"
    using assms(2,3) by (auto simp: ppp_close_def session_ops_def Let_def)
  have i': "session_inv E s'" using close_inv [OF session_reachable [OF assms(1)], of False] assms(3) by simp
  have "in_use E ?s \<or> delayed_inv E ?s"
    using i assms(2) in_use_busy [OF i] in_use_open [OF i]
    by (auto simp: session_inv_def rest_inv_def at_rest_def open_inv_def)
  then show ?thesis
  proof
    assume u: "in_use E ?s"
    note c = lcp_close_ends [OF u e(2) refl]
    have "\<not> if4_up s'" using i' c(4) by (auto simp: session_inv_def session_parts net_idle_def quiet_def)
    then show ?thesis using c(1-3) e(1) by (auto simp: reason_told_def closing_def)
  next
    assume d: "delayed_inv E ?s"
    have "lcp_inv E (lcp_fsm ?s)" "clear_inv ?s" using i unfolding session_inv_def by blast+
    note c = lcp_close_delayed [OF this d, of "''User request''", folded e(2)]
    have off: "ended PPPERR_USER s'" using c by (simp add: ended_def)
    have "\<not> if4_up s'" using rest_session [OF i'] c(2) by (simp add: rest_inv_def at_rest_def net_idle_def quiet_def)
    then show ?thesis using off ended_stays [OF i' off] e(1) d
      by (auto simp: delayed_inv_def intro: exI [of _ 0])
  qed
qed

theorem session_close_completes_witness:
  "ended PPPERR_USER ((lcp_timeout default_env ^^ 2) (snd (ppp_close (session_ops default_env) False first_session)))"
proof -
  obtain err s' where c: "ppp_close (session_ops default_env) False first_session = (err, s')" by fastforce
  have "fstate (lcp_fsm first_session) = PPP_FSM_REQSENT"
    using start_inv(2) [OF new_session_inv new_session_rest, of default_env 10 new_ipcp]
    by (auto simp: first_session_def default_env_def)
  moreover have "unat (fsm_max_term_transmits (fsm_settings default_env)) = 2"
    by (simp add: default_env_def default_pcb_def)
  ultimately show ?thesis
    using session_close_completes [OF first_session_reachable _ c] first_session_phase by (simp add: c)
qed

text \<open>One run of the keepalive's timer.\<close>

lemma echo_timeout_opened:
  assumes "session_inv E s" "echo_timer s" "\<not> (lcp_echo_fails E \<noteq> 0 \<and> lcp_echo_fails E \<le> lcp_echos_pending (ci (lcp_fsm s)))"
  shows "echo_timer (echo_timeout E s)" "fstate (lcp_fsm (echo_timeout E s)) = PPP_FSM_OPENED"
    "lcp_echos_pending (ci (lcp_fsm (echo_timeout E s))) = lcp_echos_pending (ci (lcp_fsm s)) + 1"
proof -
  let ?s = "s\<lparr>echo_timer := False, lcp_echo_timer_running := False\<rparr>"
  have r: "lcp_echo_timer_running s" using assms(1,2) by (simp add: session_inv_def clear_inv_def)
  then have "fstate (lcp_fsm ?s) = PPP_FSM_OPENED" using assms(1) by (auto simp: session_inv_def session_parts)
  from echo_check_opened [OF this, of E] assms(3)
  obtain f n where "LcpEchoCheck E ?s = ?s\<lparr>lcp_fsm := f, lcp_echo_number := n, echo_timer := True, lcp_echo_timer_running := True\<rparr>"
    "fstate f = PPP_FSM_OPENED" "lcp_echos_pending (ci f) = lcp_echos_pending (ci (lcp_fsm s)) + 1" by auto
  moreover have "echo_timeout E s = LcpEchoCheck E ?s" using r assms(2) by (simp add: echo_timeout_def LcpEchoTimeout_def)
  ultimately show "echo_timer (echo_timeout E s)" "fstate (lcp_fsm (echo_timeout E s)) = PPP_FSM_OPENED"
    "lcp_echos_pending (ci (lcp_fsm (echo_timeout E s))) = lcp_echos_pending (ci (lcp_fsm s)) + 1" by simp_all
qed

lemma timeout_with_lcp_ended: "ended e (with_lcp h s) = ended e s"
  by (simp add: ended_def with_lcp_def)

lemma keepalive_runs:
  assumes "session_inv E s" "echo_timer s" "unat (lcp_echos_pending (ci (lcp_fsm s))) + k = unat (lcp_echo_fails E)" "j \<le> k"
  shows "session_inv E ((echo_timeout E ^^ j) s) \<and> echo_timer ((echo_timeout E ^^ j) s) \<and>
    unat (lcp_echos_pending (ci (lcp_fsm ((echo_timeout E ^^ j) s)))) = unat (lcp_echos_pending (ci (lcp_fsm s))) + j"
  using assms(4)
proof (induction j)
  case 0
  then show ?case using assms(1,2) by simp
next
  case (Suc j)
  let ?s = "(echo_timeout E ^^ j) s"
  have i: "session_inv E ?s" "echo_timer ?s"
    and n: "unat (lcp_echos_pending (ci (lcp_fsm ?s))) = unat (lcp_echos_pending (ci (lcp_fsm s))) + j"
    using Suc by simp_all
  then have l: "unat (lcp_echos_pending (ci (lcp_fsm ?s))) < unat (lcp_echo_fails E)" using assms(3) Suc.prems by simp
  then have "\<not> (lcp_echo_fails E \<noteq> 0 \<and> lcp_echo_fails E \<le> lcp_echos_pending (ci (lcp_fsm ?s)))"
    by (simp add: word_le_nat_alt)
  note e = echo_timeout_opened [OF i this]
  have "Suc (unat (lcp_echos_pending (ci (lcp_fsm ?s)))) < 256"
    using l unat_u8_less [of "lcp_echo_fails E"] by linarith
  then have "unat (lcp_echos_pending (ci (lcp_fsm ?s)) + 1) = Suc (unat (lcp_echos_pending (ci (lcp_fsm ?s))))"
    by (simp add: unat_word_ariths)
  then show ?case using e n echo_timeout_inv [OF i(1)] by simp
qed

lemma keepalive_fails:
  assumes "session_inv E s" "echo_timer s" "lcp_echo_fails E \<noteq> 0" "lcp_echo_fails E \<le> lcp_echos_pending (ci (lcp_fsm s))"
  shows "fstate (lcp_fsm (echo_timeout E s)) \<noteq> PPP_FSM_OPENED"
    "\<exists>n \<le> 256. ended PPPERR_PEERDEAD ((lcp_timeout E ^^ n) (echo_timeout E s))"
proof -
  let ?s = "s\<lparr>echo_timer := False, lcp_echo_timer_running := False\<rparr>"
  let ?t = "?s\<lparr>err_code := PPPERR_PEERDEAD\<rparr>" let ?c = "lcp_close E ''Peer not responding'' ?t"
  let ?z = "\<lambda>c. c\<lparr>lcp_echos_pending := 0\<rparr> :: lcp"
  note o = echo_timer_open [OF assms(1,2)]
  have session: "session_inv E ?t" by (rule err_inv [OF echo_state_inv(2) [OF assms(1)]]) simp
  have u: "in_use E ?t" using in_use_open [OF session] o by simp
  note c = lcp_close_ends [OF u refl refl, of "''Peer not responding''"]
  have r: "lcp_echo_timer_running s" using assms(1,2) by (simp add: session_inv_def clear_inv_def)
  have st: "echo_timeout E s = with_lcp ?z ?c"
    using c(4) o r assms(2-4)
    by (simp add: echo_timeout_def LcpEchoTimeout_def LcpEchoCheck_def LcpSendEchoRequest_def LcpLinkFailure_def Let_def with_lcp_def)
  have i: "session_inv E (with_lcp ?z ?c)" using echo_timeout_inv [OF assms(1)] by (simp add: st)
  show "fstate (lcp_fsm (echo_timeout E s)) \<noteq> PPP_FSM_OPENED" unfolding st using c(4) by (simp add: with_lcp_def)
  have told: "reason_told (err_code ?t) = PPPERR_PEERDEAD" by (simp add: reason_told_def)
  show "\<exists>n \<le> 256. ended PPPERR_PEERDEAD ((lcp_timeout E ^^ n) (echo_timeout E s))"
    using c(5) unfolding told st
  proof
    assume "closing (fstate (lcp_fsm ?c)) \<and> err_code ?c = err_code ?t"
    then have l: "closing (fstate (lcp_fsm (with_lcp ?z ?c)))" "reason_told (err_code (with_lcp ?z ?c)) = PPPERR_PEERDEAD"
      by (simp_all add: with_lcp_def reason_told_def)
    show "\<exists>n \<le> 256. ended PPPERR_PEERDEAD ((lcp_timeout E ^^ n) (with_lcp ?z ?c))" using closing_ends [OF i l(1)] l(2)
      by (intro exI [of _ "Suc (unat (retransmits (lcp_fsm (with_lcp ?z ?c))))"]) (simp del: funpow.simps)
  next
    assume "ended PPPERR_PEERDEAD ?c"
    then have "ended PPPERR_PEERDEAD (with_lcp ?z ?c)" by (simp only: timeout_with_lcp_ended)
    then show "\<exists>n \<le> 256. ended PPPERR_PEERDEAD ((lcp_timeout E ^^ n) (with_lcp ?z ?c))" by (intro exI [of _ 0]) simp
  qed
qed

text \<open>
  C10. A peer that does not answer any more is noticed by the keepalive, if it is switched on: with
  \<open>p\<close> Echo-Requests unanswered and \<open>lcp_echo_fails\<close> of them tolerated, LCP stays open for
  \<open>lcp_echo_fails - p\<close> runs of the timer, and the next one closes it. Then the interface is down,
  and at most 256 runs of LCP's timer later the session has ended and the user was called with
  \<open>PPPERR_PEERDEAD\<close>.
\<close>
theorem dead_peer_is_noticed:
  assumes "(session_step E)\<^sup>*\<^sup>* (new_session E n d) s" and "echo_timer s" and "lcp_echo_fails E \<noteq> 0"
    and "unat (lcp_echos_pending (ci (lcp_fsm s))) + k = unat (lcp_echo_fails E)"
  shows "(\<forall>j \<le> k. fstate (lcp_fsm ((echo_timeout E ^^ j) s)) = PPP_FSM_OPENED) \<and>
    (let s' = (echo_timeout E ^^ Suc k) s
     in fstate (lcp_fsm s') \<noteq> PPP_FSM_OPENED \<and> \<not> if4_up s' \<and>
        (\<exists>n \<le> 256. ended PPPERR_PEERDEAD ((lcp_timeout E ^^ n) s')))"
proof -
  note i = session_reachable [OF assms(1)]
  note run = keepalive_runs [OF i assms(2,4)]
  let ?s = "(echo_timeout E ^^ k) s"
  have k: "session_inv E ?s" "echo_timer ?s" "lcp_echo_fails E \<le> lcp_echos_pending (ci (lcp_fsm ?s))"
    using run [OF order_refl] assms(4) by (simp_all add: word_le_nat_alt)
  have "fstate (lcp_fsm ((echo_timeout E ^^ j) s)) = PPP_FSM_OPENED" if "j \<le> k" for j
    using run [OF that] echo_timer_open by blast
  moreover note f = keepalive_fails [OF k(1,2) assms(3) k(3)]
  moreover have "\<not> if4_up (echo_timeout E ?s)"
    using echo_timeout_inv [OF k(1)] f(1) by (auto simp: session_inv_def session_parts net_idle_def quiet_def)
  ultimately show ?thesis by (simp add: Let_def)
qed

theorem dead_peer_is_noticed_witness:
  "fstate (lcp_fsm ((echo_timeout default_env ^^ 2) open_session)) = PPP_FSM_OPENED \<and>
    fstate (lcp_fsm ((echo_timeout default_env ^^ 3) open_session)) \<noteq> PPP_FSM_OPENED"
proof -
  have e: "lcp_echo_fails default_env = 3" by (simp add: default_env_def)
  then have "unat (lcp_echos_pending (ci (lcp_fsm open_session))) + 2 = unat (lcp_echo_fails default_env)"
    using open_session_echo by simp
  moreover have "lcp_echo_fails default_env \<noteq> 0" by (simp add: e)
  ultimately have "(\<forall>j \<le> 2. fstate (lcp_fsm ((echo_timeout default_env ^^ j) open_session)) = PPP_FSM_OPENED) \<and>
      fstate (lcp_fsm ((echo_timeout default_env ^^ Suc 2) open_session)) \<noteq> PPP_FSM_OPENED"
    using dead_peer_is_noticed [OF open_session_reachable conjunct1 [OF open_session_echo], of 2] unfolding Let_def by blast
  moreover have "Suc 2 = (3 :: nat)" by simp
  ultimately show ?thesis by (metis order_refl)
qed

text \<open>The first request of LCP.\<close>

lemma first_request:
  assumes "lcp_wantoptions (ci f) = wanted_lcp m" "\<not> negotiating (fstate f)" "lcp_alloc E (fsm_allocs f)"
  shows "timer (fsm_sconfreq (lcp_alloc E) (lcp_cb E) (with_mru E PPP_LCP PPP_MRU) False f) \<and>
    packets (fsm_sconfreq (lcp_alloc E) (lcp_cb E) (with_mru E PPP_LCP PPP_MRU) False f) = packets f @
      [[0xff, 0x03, 0xc0, 0x21, 1, id_no f + 1, 0, 20, 2, 6, 0, 0, 0, 0, 5, 6] @
         put_long (magic_numbers E (magics (ci f))) @ [7, 2, 8, 2]]"
proof -
  have "short_bytes 0xc021 = [0xc0, 0x21]" "short_bytes 20 = [0, 20]" by code_simp+
  then show ?thesis using assms
    by (simp add: fsm_sconfreq_def request_length_def request_options_def lcp_callbacks_def lcp_resetci_def
        magic_def wanted_lcp_def zero_lcp_options_def lcp_cilen_def lcp_addci_def asks_mru_def asks_asyncmap_def with_mru_def
        long_option_def void_option_def fsm_packet_def put_long_def Let_def)
qed

text \<open>
  C11. A connection starts afresh. If the user connects a session that has ended, or was never
  used, LCP is opened and sends a Configure-Request at once, with the next identifier, for the
  default options and the next magic number drawn: whatever an earlier connection
  had agreed on is gone, on both sides of the line as well.
\<close>
theorem reconnect_starts_afresh:
  assumes "(session_step E)\<^sup>*\<^sup>* (new_session E n d) s" and "phase s = PPP_PHASE_DEAD"
    and "listen_time E = 0" and "lcp_alloc E (fsm_allocs (lcp_fsm s))"
  shows "\<exists>s'. ppp_connect (session_ops E) 0 s = Some (ERR_OK, s') \<and> phase s' = PPP_PHASE_ESTABLISH \<and>
    pppos_open s' \<and> fstate (lcp_fsm s') = PPP_FSM_REQSENT \<and> timer (lcp_fsm s') \<and>
    sent_config s' = (0xffffffff, False, False) \<and> rcvd_config s' = (if lax_recv E then 0 else 0xffffffff) \<and>
    lcp_peer_mru s' = 1500 \<and>
    packets (lcp_fsm s') = packets (lcp_fsm s) @
      [[0xff, 0x03, 0xc0, 0x21, 1, id_no (lcp_fsm s) + 1, 0, 20, 2, 6, 0, 0, 0, 0, 5, 6] @
         put_long (magic_numbers E (magics (ci (lcp_fsm s)))) @ [7, 2, 8, 2]]"
proof -
  have i: "session_inv E s" by (rule session_reachable [OF assms(1)])
  have "rest_inv E s" using rest_session [OF i] assms(2) by (simp add: at_rest_def)
  note start = start_inv [OF i this]
  let ?c = "pppos_connect (session_ops E) (new_phase PPP_PHASE_INITIALIZE s)"
  obtain f where f: "ci f = ci (lcp_fsm s)" "fstate f = PPP_FSM_STARTING" "lcp_inv E f"
      "fsm_allocs f = fsm_allocs (lcp_fsm s)" "packets f = packets (lcp_fsm s)" "id_no f = id_no (lcp_fsm s)"
      "lcp_fsm ?c = (fsm_sconfreq (lcp_alloc E) (lcp_cb E) (with_mru E PPP_LCP PPP_MRU) False f)\<lparr>fstate := PPP_FSM_REQSENT\<rparr>"
    and b: "busy_inv E ?c" "phase ?c = PPP_PHASE_ESTABLISH"
    using start(2) [OF assms(3)] by blast
  obtain m where "lcp_wantoptions (ci (lcp_fsm s)) = wanted_lcp m"
    using i by (auto simp: session_inv_def lcp_inv_def lcp_ok_def)
  note p = first_request [of f m E, unfolded f, OF this _ assms(4)]
  have "pppos_open ?c" using start(1) b(2) by (simp add: session_inv_def clear_inv_def at_rest_def)
  then show ?thesis using b p f(2,7) assms(2) start(4)
    by (simp add: negotiating_def ppp_connect_def ppp_do_connect_def busy_inv_def plain_line_def)
qed

theorem reconnect_starts_afresh_witness:
  "\<exists>s'. ppp_connect (session_ops default_env) 0 (new_session default_env 10 new_ipcp) = Some (ERR_OK, s') \<and>
    fstate (lcp_fsm s') = PPP_FSM_REQSENT"
  using reconnect_starts_afresh [of default_env 10 new_ipcp "new_session default_env 10 new_ipcp"]
  by (auto simp: new_session_dead default_env_def)

end
