(* ===== verification/Pbuf.thy ===== *)
theory Pbuf
  imports Prelude
begin

text \<open>
  Packet buffer chains, \<open>lwip-2.1.2/src/core/pbuf.c\<close>: the functions that read a chain as
  one sequence of bytes.

  A chain is the list of the payloads of its buffers (the empty list is NULL). Its total
  length is kept in 16 bits; offsets and lengths are natural numbers here because none of
  the source's 16 bit sums exceeds the total length of the chain.
\<close>

type_synonym pbuf = "u8 list list"

definition tot_len :: "pbuf \<Rightarrow> nat" where
  "tot_len p = length (concat p)"

text \<open>The buffer that holds an offset, and the offset in it.\<close>

fun pbuf_skip :: "pbuf \<Rightarrow> nat \<Rightarrow> pbuf \<times> nat" where
  "pbuf_skip [] off = ([], off)"
| "pbuf_skip (q # p) off = (if length q \<le> off then pbuf_skip p (off - length q) else (q # p, off))"

definition pbuf_try_get_at :: "pbuf \<Rightarrow> nat \<Rightarrow> u8 option" where
  "pbuf_try_get_at p off =
     (case pbuf_skip p off of
        (q # _, i) \<Rightarrow> if i < length q then Some (q ! i) else None
      | ([], _) \<Rightarrow> None)"

definition pbuf_get_at :: "pbuf \<Rightarrow> nat \<Rightarrow> u8" where
  "pbuf_get_at p off = (case pbuf_try_get_at p off of Some c \<Rightarrow> c | None \<Rightarrow> 0)"

text \<open>The comparison: 0 for equal, else one more than the index of the first difference.\<close>

fun memcmp_from :: "pbuf \<Rightarrow> nat \<Rightarrow> nat \<Rightarrow> u8 list \<Rightarrow> nat" where
  "memcmp_from q start i [] = 0"
| "memcmp_from q start i (b # bs) =
     (if pbuf_get_at q (start + i) \<noteq> b then min (i + 1) 0xffff else memcmp_from q start (Suc i) bs)"

definition pbuf_memcmp :: "pbuf \<Rightarrow> nat \<Rightarrow> u8 list \<Rightarrow> nat" where
  "pbuf_memcmp p off s2 =
     (if tot_len p < off + length s2 then 0xffff
      else let (q, start) = pbuf_skip p off in memcmp_from q start 0 s2)"

fun memfind_from :: "pbuf \<Rightarrow> u8 list \<Rightarrow> nat \<Rightarrow> nat \<Rightarrow> nat" where
  "memfind_from p mem i 0 = 0xffff"
| "memfind_from p mem i (Suc k) =
     (if pbuf_memcmp p i mem = 0 then i else memfind_from p mem (Suc i) k)"

definition pbuf_memfind :: "pbuf \<Rightarrow> u8 list \<Rightarrow> nat \<Rightarrow> nat" where
  "pbuf_memfind p mem start =
     (if length mem + start \<le> tot_len p
      then memfind_from p mem start (Suc (tot_len p - length mem) - start) else 0xffff)"

text \<open>The bytes copied to the destination.\<close>

fun pbuf_copy_partial :: "pbuf \<Rightarrow> nat \<Rightarrow> nat \<Rightarrow> u8 list" where
  "pbuf_copy_partial [] len off = []"
| "pbuf_copy_partial (q # p) len off =
     (if len = 0 then []
      else if off \<noteq> 0 \<and> length q \<le> off then pbuf_copy_partial p len (off - length q)
      else let n = min len (length q - off)
           in take n (drop off q) @ pbuf_copy_partial p (len - n) 0)"

fun pbuf_free_header :: "pbuf \<Rightarrow> nat \<Rightarrow> pbuf" where
  "pbuf_free_header [] n = []"
| "pbuf_free_header (q # p) n =
     (if n = 0 then q # p
      else if length q \<le> n then pbuf_free_header p (n - length q)
      else drop n q # p)"

definition pbuf_cat :: "pbuf \<Rightarrow> pbuf \<Rightarrow> pbuf" where
  "pbuf_cat h t = h @ t"

section \<open>Chains are their contents\<close>

lemma pbuf_skip_spec:
  "pbuf_skip p off = (q, i) \<Longrightarrow>
     drop i (concat q) = drop off (concat p) \<and> (q = [] \<longleftrightarrow> tot_len p \<le> off) \<and> (q \<noteq> [] \<longrightarrow> i < length (hd q))"
  by (induction p off rule: pbuf_skip.induct) (auto simp: tot_len_def split: if_splits)

lemma pbuf_get_at_flat: "pbuf_get_at p off = (if off < tot_len p then concat p ! off else 0)"
proof -
  obtain q i where s: "pbuf_skip p off = (q, i)" by fastforce
  note sp = pbuf_skip_spec [OF s]
  show ?thesis
  proof (cases q)
    case Nil
    with sp s show ?thesis by (auto simp: pbuf_get_at_def pbuf_try_get_at_def)
  next
    case (Cons b r)
    with sp have i: "i < length b" "off < tot_len p" by auto
    have "concat p ! off = drop off (concat p) ! 0" using i(2) by (simp add: tot_len_def)
    also have "\<dots> = drop i (concat q) ! 0" using sp by simp
    also have "\<dots> = b ! i" using i Cons by (simp add: nth_append)
    finally show ?thesis using s Cons i by (simp add: pbuf_get_at_def pbuf_try_get_at_def)
  qed
qed

lemma memcmp_from_flat:
  "start + i + length s \<le> tot_len q \<Longrightarrow>
     memcmp_from q start i s = 0 \<longleftrightarrow> take (length s) (drop (start + i) (concat q)) = s"
proof (induction q start i s rule: memcmp_from.induct)
  case (2 q start i b bs)
  then have "drop (start + i) (concat q) = concat q ! (start + i) # drop (Suc (start + i)) (concat q)"
    by (simp add: tot_len_def Cons_nth_drop_Suc)
  with 2 show ?case by (auto simp: pbuf_get_at_flat)
qed simp

lemma pbuf_memcmp_flat:
  "s2 \<noteq> [] \<Longrightarrow> pbuf_memcmp p off s2 = 0 \<longleftrightarrow> take (length s2) (drop off (concat p)) = s2"
proof -
  assume ne: "s2 \<noteq> []"
  obtain q i where s: "pbuf_skip p off = (q, i)" by fastforce
  note sp = pbuf_skip_spec [OF s]
  show ?thesis
  proof (cases "tot_len p < off + length s2")
    case True
    then have "length (take (length s2) (drop off (concat p))) < length s2"
      using ne by (cases s2) (auto simp: tot_len_def)
    then have "take (length s2) (drop off (concat p)) \<noteq> s2" by force
    with True show ?thesis by (simp add: pbuf_memcmp_def)
  next
    case False
    have "q \<noteq> []" using sp False ne by (cases s2) (auto simp: tot_len_def)
    then have "i \<le> length (concat q)" using sp by (cases q) auto
    then have "length (concat q) - i = length (concat p) - off"
      using sp by (metis length_drop)
    then have "i + 0 + length s2 \<le> tot_len q"
      using False \<open>i \<le> _\<close> by (simp add: tot_len_def)
    from memcmp_from_flat [OF this] sp False s show ?thesis by (simp add: pbuf_memcmp_def)
  qed
qed

lemma memfind_from_flat:
  "mem \<noteq> [] \<Longrightarrow> i + k + length mem = Suc (tot_len p) \<Longrightarrow> memfind_from p mem i k =
    (case find_sub mem (drop i (concat p)) of Some j \<Rightarrow> i + j | None \<Rightarrow> 0xffff)"
proof (induction p mem i k rule: memfind_from.induct)
  case (1 p mem i)
  have "find_sub mem (drop i (concat p)) = None"
  proof (rule ccontr)
    assume "find_sub mem (drop i (concat p)) \<noteq> None"
    then obtain j where "find_sub mem (drop i (concat p)) = Some j" by auto
    from find_sub_Some [OF this] have "j + length mem \<le> length (concat p) - i" by simp
    moreover have "0 < length mem" using 1 by simp
    moreover have "i + length mem = Suc (length (concat p))" using 1 by (simp add: tot_len_def)
    ultimately show False by linarith
  qed
  then show ?case by simp
next
  case (2 p mem i k)
  then have "i < tot_len p" by (cases mem) auto
  then have d: "drop i (concat p) = concat p ! i # drop (Suc i) (concat p)"
    by (simp add: tot_len_def Cons_nth_drop_Suc)
  show ?case using 2 by (auto simp: pbuf_memcmp_flat [OF 2(2)] d split: option.splits)
qed

lemma find_sub_short: "length xs < length pat \<Longrightarrow> find_sub pat xs = None"
proof (rule ccontr)
  assume l: "length xs < length pat" and "find_sub pat xs \<noteq> None"
  then obtain j where "find_sub pat xs = Some j" by auto
  from find_sub_Some [OF this] l show False by simp
qed

lemma pbuf_memfind_flat:
  assumes "mem \<noteq> []"
  shows "pbuf_memfind p mem start =
    (case find_sub mem (drop start (concat p)) of Some j \<Rightarrow> start + j | None \<Rightarrow> 0xffff)"
proof (cases "length mem + start \<le> tot_len p")
  case True
  then have "start + (Suc (tot_len p - length mem) - start) + length mem = Suc (tot_len p)" by simp
  from memfind_from_flat [OF assms this] True show ?thesis by (simp add: pbuf_memfind_def)
next
  case False
  then have "length (drop start (concat p)) < length mem"
    using assms by (cases mem) (auto simp: tot_len_def)
  from find_sub_short [OF this] False show ?thesis by (simp add: pbuf_memfind_def)
qed

lemma pbuf_copy_partial_flat: "pbuf_copy_partial p len off = take len (drop off (concat p))"
  by (induction p len off rule: pbuf_copy_partial.induct) (auto simp: Let_def min_def)

lemma pbuf_free_header_flat: "concat (pbuf_free_header p n) = drop n (concat p)"
  by (induction p n rule: pbuf_free_header.induct) auto

lemma pbuf_cat_flat: "concat (pbuf_cat h t) = concat h @ concat t"
  by (simp add: pbuf_cat_def)

text \<open>
  C36. A chain is its contents: however the bytes are spread over buffers (empty ones
  included) the readers of the chain give what a single array would. A byte at an offset,
  the comparison with a string, the search for a string (0xffff when it does not occur), the
  partial copy and the removal of leading bytes are the list operations on the contents.
\<close>
theorem pbuf_chain_is_contents:
  assumes "mem \<noteq> []"
  shows "pbuf_get_at p off = (if off < tot_len p then concat p ! off else 0) \<and>
    (pbuf_memcmp p off mem = 0 \<longleftrightarrow> take (length mem) (drop off (concat p)) = mem) \<and>
    pbuf_memfind p mem off =
      (case find_sub mem (drop off (concat p)) of Some j \<Rightarrow> off + j | None \<Rightarrow> 0xffff) \<and>
    pbuf_copy_partial p len off = take len (drop off (concat p)) \<and>
    concat (pbuf_free_header p len) = drop len (concat p)"
  using pbuf_get_at_flat [of p off] pbuf_memcmp_flat [OF assms, of p off]
    pbuf_memfind_flat [OF assms, of p off] pbuf_copy_partial_flat [of p len off]
    pbuf_free_header_flat [of p len] by simp

theorem pbuf_chain_is_contents_witness:
  "pbuf_memfind [str ''ab'', [], str ''cde''] (str ''bc'') 0 = 1"
  using pbuf_chain_is_contents [of "str ''bc''" "[str ''ab'', [], str ''cde'']" 0 0]
  by (simp add: tot_len_def)

end
