(* ===== verification/Http.thy ===== *)
theory Http
  imports Pbuf
begin

unbundle bit_operations_syntax

text \<open>
  The HTTP client, \<open>lwip-2.1.2/src/apps/http/http_client.c\<close>, and the application that uses
  it, \<open>app_http/app_http.c\<close>.

  The client is a set of callbacks of one TCP connection. Its request block is \<open>conn\<close>,
  \<open>None\<close> once it is freed; what it does to the connection and what it reports is logged.
  What the memory allocator, the name resolver and the connection return is an argument
  (\<open>http_env\<close>). Error codes are the integers of \<open>err_t\<close>, because the application compares
  them with the numbers of another enumeration. A write behind a local array, or the
  conversion of an unterminated one, has no defined result.
\<close>

type_synonym err_t = int

abbreviation (input) "E_OK \<equiv> 0 :: err_t"
abbreviation (input) "E_MEM \<equiv> -1 :: err_t"
abbreviation (input) "E_INPROGRESS \<equiv> -5 :: err_t"
abbreviation (input) "E_VAL \<equiv> -6 :: err_t"
abbreviation (input) "E_ABRT \<equiv> -13 :: err_t"
abbreviation (input) "E_ARG \<equiv> -16 :: err_t"
abbreviation (input) "HTTPC_CONTENT_LEN_INVALID \<equiv> 0xffffffff :: u32"
abbreviation (input) "HTTPC_POLL_TIMEOUT \<equiv> 30 :: nat"

datatype httpc_result =
    HTTPC_RESULT_OK | HTTPC_RESULT_ERR_UNKNOWN | HTTPC_RESULT_ERR_CONNECT | HTTPC_RESULT_ERR_HOSTNAME
  | HTTPC_RESULT_ERR_CLOSED | HTTPC_RESULT_ERR_TIMEOUT | HTTPC_RESULT_ERR_SVR_RESP
  | HTTPC_RESULT_ERR_MEM | HTTPC_RESULT_LOCAL_ABORT | HTTPC_RESULT_ERR_CONTENT_LEN

datatype httpc_parse_state = HTTPC_PARSE_WAIT_FIRST_LINE | HTTPC_PARSE_WAIT_HEADERS | HTTPC_PARSE_RX_DATA

record httpc_state =
  has_pcb :: bool
  remote_port :: u16
  timeout_ticks :: nat
  http_request :: "u8 list option"
  rx_hdrs :: pbuf
  rx_http_version :: u16
  rx_status :: u16
  rx_content_len :: u32
  hdr_content_len :: u32
  parse_state :: httpc_parse_state

datatype app_http_event =
    APP_HTTP_EVENT_START | APP_HTTP_EVENT_CONNTECTED | APP_HTTP_EVENT_DATA
  | APP_HTTP_EVENT_FINISH_SUCCESS | APP_HTTP_EVENT_FINISH_FAILED

datatype tcp_call = Tcp_Recved nat | Tcp_Write "u8 list" | Tcp_Output | Tcp_Close | Tcp_Abort

text \<open>The client's connection, the application's variables, and what was reported.\<close>

record http =
  conn :: "httpc_state option"
  cfg_on_event_cb :: bool
  cfg_url :: "u8 list"
  cfg_file :: "u8 list"
  cfg_port :: u16
  m_total_bytes_recv :: u32
  m_content_length :: u32
  m_http_free :: bool
  app_events :: "(app_http_event \<times> u32) list"
  results :: "(httpc_result \<times> u32 \<times> u32 \<times> err_t) list"  \<comment> \<open>calls of \<open>result_fn\<close>\<close>
  header_calls :: "(nat \<times> u32) list"                          \<comment> \<open>calls of \<open>headers_done_fn\<close>\<close>
  body :: "u8 list"                                          \<comment> \<open>data passed to \<open>recv_fn\<close>\<close>
  tcp_calls :: "tcp_call list"

record http_env =
  malloc_ok :: bool
  pbuf_ok :: bool
  pcb_ok :: bool
  dns_err :: err_t
  connect_err :: err_t
  write_err :: err_t
  close_err :: err_t

section \<open>The application's callbacks\<close>

definition app_event :: "app_http_event \<Rightarrow> u32 \<Rightarrow> http \<Rightarrow> http" where
  "app_event e d s = (if cfg_on_event_cb s then s\<lparr>app_events := app_events s @ [(e, d)]\<rparr> else s)"

definition app_http_cleanup :: "http \<Rightarrow> http" where
  "app_http_cleanup s =
     s\<lparr>cfg_on_event_cb := False, cfg_url := [], cfg_file := [], cfg_port := 0,
       m_total_bytes_recv := 0, m_content_length := 0\<rparr>"

text \<open>The \<open>switch\<close> is on \<open>err\<close>, with the enumerators of \<open>httpc_result_t\<close> as its labels.\<close>

definition httpc_result_callback :: "httpc_result \<Rightarrow> u32 \<Rightarrow> u32 \<Rightarrow> err_t \<Rightarrow> http \<Rightarrow> http" where
  "httpc_result_callback result rx_len srv_res err s =
     (let s = (if err = 0
               then (if m_content_length s \<noteq> 0 \<and> m_content_length s = m_total_bytes_recv s
                     then app_event APP_HTTP_EVENT_FINISH_SUCCESS (m_total_bytes_recv s) s
                     else app_event APP_HTTP_EVENT_FINISH_FAILED (m_total_bytes_recv s) s)
               else if err \<in> {1..9}
               then app_event APP_HTTP_EVENT_FINISH_FAILED (m_total_bytes_recv s) s
               else s)
      in s\<lparr>m_http_free := True\<rparr>)"

definition httpc_headers_done_callback :: "nat \<Rightarrow> u32 \<Rightarrow> http \<Rightarrow> err_t \<times> http" where
  "httpc_headers_done_callback hdr_len content_len s =
     (let s = s\<lparr>m_content_length := content_len\<rparr>;
          s = (if content_len = 0xffffffff
               then app_event APP_HTTP_EVENT_FINISH_FAILED content_len s
               else app_event APP_HTTP_EVENT_CONNTECTED content_len s)
      in (E_OK, s))"

definition tcp_call :: "tcp_call \<Rightarrow> http \<Rightarrow> http" where
  "tcp_call c s = s\<lparr>tcp_calls := tcp_calls s @ [c]\<rparr>"

definition httpc_file_recv_callback :: "pbuf \<Rightarrow> http \<Rightarrow> err_t \<times> http" where
  "httpc_file_recv_callback p s =
     (if p \<noteq> [] then (E_OK, tcp_call (Tcp_Recved (tot_len p)) (s\<lparr>body := body s @ concat p\<rparr>))
      else (E_ABRT, tcp_call Tcp_Close s))"

section \<open>Closing\<close>

definition httpc_free_state :: "http_env \<Rightarrow> httpc_state \<Rightarrow> http \<Rightarrow> err_t \<times> http" where
  "httpc_free_state env req s =
     (let s = s\<lparr>conn := None\<rparr>
      in if has_pcb req
         then (let s = tcp_call Tcp_Close s
               in if close_err env \<noteq> E_OK then (E_ABRT, tcp_call Tcp_Abort s) else (E_OK, s))
         else (E_OK, s))"

definition httpc_close :: "http_env \<Rightarrow> httpc_result \<Rightarrow> u32 \<Rightarrow> err_t \<Rightarrow> httpc_state \<Rightarrow> http \<Rightarrow> err_t \<times> http" where
  "httpc_close env result server_response err req s =
     (let s = httpc_result_callback result (rx_content_len req) server_response err
            (s\<lparr>results := results s @ [(result, rx_content_len req, server_response, err)]\<rparr>)
      in httpc_free_state env req s)"

section \<open>Parsing the response\<close>

definition is_space :: "u8 \<Rightarrow> bool" where
  "is_space c \<longleftrightarrow> c = 32 \<or> 9 \<le> c \<and> c \<le> 13"

definition is_dec :: "u8 \<Rightarrow> bool" where
  "is_dec c \<longleftrightarrow> 48 \<le> c \<and> c \<le> 57"

definition dec_value :: "u8 list \<Rightarrow> int" where
  "dec_value ds = foldl (\<lambda>n d. 10 * n + (int (unat d) - 48)) 0 ds"

text \<open>\<open>atoi\<close> of a local array: it must be terminated, and the value must fit an \<open>int\<close>.\<close>

definition c_atoi :: "u8 list \<Rightarrow> int option" where
  "c_atoi m =
     (if 0 \<notin> set m then None
      else
        let s = dropWhile is_space (cstr m 0);
            (neg, s) = (case s of c # r \<Rightarrow> if c = 45 then (True, r) else if c = 43 then (False, r) else (False, s)
                        | [] \<Rightarrow> (False, []));
            n = dec_value (takeWhile is_dec s);
            n = (if neg then - n else n)
        in if - 2147483648 \<le> n \<and> n \<le> 2147483647 then Some n else None)"

text \<open>\<open>memset\<close> of a local array of \<open>n\<close> bytes and the copy into it.\<close>

definition local_copy :: "nat \<Rightarrow> u8 list \<Rightarrow> u8 list option" where
  "local_copy n c = (if length c \<le> n then Some (c @ replicate (n - length c) 0) else None)"

text \<open>
  The version, where it is written, and the status, if the result is \<open>ERR_OK\<close>. The
  position of the status text is not used by the caller and left out.
\<close>

definition http_parse_response_status :: "pbuf \<Rightarrow> (u16 option \<times> u16 option) option" where
  "http_parse_response_status p =
     (let end1 = pbuf_memfind p crlf 0
      in if end1 = 0xffff then Some (None, None)
      else
        let space1 = pbuf_memfind p [32] 0
        in if space1 = 0xffff then Some (None, None)
        else if \<not> (pbuf_memcmp p 0 (str ''HTTP/'') = 0 \<and> pbuf_get_at p 6 = 46) then Some (None, None)
        else
          let version = push_bit 8 ((ucast (pbuf_get_at p 5) :: u16) - 48) OR (ucast (pbuf_get_at p 7) - 48);
              space2 = pbuf_memfind p [32] (space1 + 1);
              status_num_len = ((if space2 \<noteq> 0xffff then int space2 else int end1) - int space1 - 1) mod 2 ^ 32;
              copied = pbuf_copy_partial p (nat (status_num_len mod 2 ^ 16)) (space1 + 1)
          in do {
            status_num \<leftarrow> local_copy 10 copied;
            if int (length copied) = status_num_len
            then do {
              status \<leftarrow> c_atoi status_num;
              Some (Some version, if 0 < status \<and> status \<le> 0xffff then Some (of_int status) else None) }
            else Some (Some version, None) })"

definition content_length_at :: "pbuf \<Rightarrow> nat \<Rightarrow> u32 option" where
  "content_length_at p content_len_hdr =
     (let content_len_line_end = pbuf_memfind p crlf content_len_hdr
      in if content_len_line_end = 0xffff then Some HTTPC_CONTENT_LEN_INVALID
      else
        let n = nat ((int content_len_line_end - int content_len_hdr - 16) mod 2 ^ 16);
            copied = pbuf_copy_partial p n (content_len_hdr + 16)
        in do {
          num \<leftarrow> local_copy 16 copied;
          if length copied = n
          then do {
            len \<leftarrow> c_atoi num;
            if 0 \<le> len then Some (of_int len) else Some HTTPC_CONTENT_LEN_INVALID }
          else Some HTTPC_CONTENT_LEN_INVALID })"

text \<open>\<open>None\<close> for \<open>ERR_VAL\<close>, else the content length and the length of the headers.\<close>

definition http_wait_headers :: "pbuf \<Rightarrow> (u32 \<times> nat) option option" where
  "http_wait_headers p =
     (let end1 = pbuf_memfind p (crlf @ crlf) 0
      in if end1 < 0xffff - 2
         then
           let content_len_hdr = pbuf_memfind p (str ''Content-Length: '') 0
           in do {
             len \<leftarrow> (if content_len_hdr \<noteq> 0xffff then content_length_at p content_len_hdr
                     else
                       let content_len_hdr = pbuf_memfind p (str ''Content-length: '') 0
                       in if content_len_hdr \<noteq> 0xffff then content_length_at p content_len_hdr
                          else Some HTTPC_CONTENT_LEN_INVALID);
             Some (Some (len, (end1 + 4) mod 65536)) }
         else Some None)"

section \<open>The connection's callbacks\<close>

definition rx_first_line :: "httpc_state \<Rightarrow> httpc_state option" where
  "rx_first_line req =
     (if parse_state req = HTTPC_PARSE_WAIT_FIRST_LINE
      then do {
        (v, st) \<leftarrow> http_parse_response_status (rx_hdrs req);
        let req = (case v of Some v \<Rightarrow> req\<lparr>rx_http_version := v\<rparr> | None \<Rightarrow> req);
        Some (case st of
                Some st \<Rightarrow> req\<lparr>rx_status := st, parse_state := HTTPC_PARSE_WAIT_HEADERS\<rparr>
              | None \<Rightarrow> req) }
      else Some req)"

text \<open>
  The headers: \<open>Inl\<close> the value to return, after the application refused them, or \<open>Inr\<close> the
  buffers that are left to receive as data.
\<close>

definition rx_headers ::
  "http_env \<Rightarrow> pbuf \<Rightarrow> httpc_state \<Rightarrow> http \<Rightarrow> ((err_t + pbuf \<times> httpc_state) \<times> http) option" where
  "rx_headers env p req s =
     (if parse_state req = HTTPC_PARSE_WAIT_HEADERS
      then do {
        r \<leftarrow> http_wait_headers (rx_hdrs req);
        case r of
          None \<Rightarrow> Some (Inr (p, req), s)
        | Some (clen, total_header_len) \<Rightarrow>
            let req = req\<lparr>hdr_content_len := clen\<rparr>;
                s = tcp_call (Tcp_Recved total_header_len) s;
                s = s\<lparr>header_calls := header_calls s @ [(total_header_len, clen)]\<rparr>;
                (err, s) = httpc_headers_done_callback total_header_len clen s
            in if err \<noteq> E_OK
               then let (e, s) = httpc_close env HTTPC_RESULT_LOCAL_ABORT (ucast (rx_status req)) err req s
                    in Some (Inl e, s)
               else Some (Inr (pbuf_free_header (rx_hdrs req) total_header_len,
                 req\<lparr>rx_hdrs := [], parse_state := HTTPC_PARSE_RX_DATA\<rparr>), s) }
      else Some (Inr (p, req), s))"

definition rx_data ::
  "pbuf \<Rightarrow> httpc_state \<Rightarrow> http \<Rightarrow> err_t \<times> http" where
  "rx_data p req s =
     (if p \<noteq> [] \<and> parse_state req = HTTPC_PARSE_RX_DATA
      then
        let req = req\<lparr>timeout_ticks := HTTPC_POLL_TIMEOUT,
                      rx_content_len := rx_content_len req + of_nat (tot_len p)\<rparr>
        in httpc_file_recv_callback p (s\<lparr>conn := Some req\<rparr>)
      else (E_OK, s\<lparr>conn := Some req\<rparr>))"

definition httpc_tcp_recv :: "http_env \<Rightarrow> pbuf \<Rightarrow> http \<Rightarrow> (err_t \<times> http) option" where
  "httpc_tcp_recv env p s = do {
     req \<leftarrow> conn s;
     if p = []
     then
       let result =
         (if parse_state req \<noteq> HTTPC_PARSE_RX_DATA then HTTPC_RESULT_ERR_CLOSED
          else if hdr_content_len req \<noteq> HTTPC_CONTENT_LEN_INVALID \<and> hdr_content_len req \<noteq> rx_content_len req
          then HTTPC_RESULT_ERR_CONTENT_LEN
          else HTTPC_RESULT_OK)
       in Some (httpc_close env result (ucast (rx_status req)) E_OK req s)
     else if parse_state req \<noteq> HTTPC_PARSE_RX_DATA
     then do {
       req \<leftarrow> rx_first_line (req\<lparr>rx_hdrs := pbuf_cat (rx_hdrs req) p\<rparr>);
       (r, s) \<leftarrow> rx_headers env p req s;
       case r of
         Inl e \<Rightarrow> Some (e, s)
       | Inr (p, req) \<Rightarrow> Some (rx_data p req s) }
     else Some (rx_data p req s) }"

definition httpc_tcp_err :: "http_env \<Rightarrow> err_t \<Rightarrow> http \<Rightarrow> http" where
  "httpc_tcp_err env err s =
     (case conn s of
        Some req \<Rightarrow> snd (httpc_close env HTTPC_RESULT_ERR_CLOSED 0 err (req\<lparr>has_pcb := False\<rparr>) s)
      | None \<Rightarrow> s)"

definition httpc_tcp_poll :: "http_env \<Rightarrow> http \<Rightarrow> err_t \<times> http" where
  "httpc_tcp_poll env s =
     (case conn s of
        Some req \<Rightarrow>
          let req = req\<lparr>timeout_ticks := timeout_ticks req - 1\<rparr>
          in if timeout_ticks req = 0
             then httpc_close env HTTPC_RESULT_ERR_TIMEOUT 0 E_OK req (s\<lparr>conn := Some req\<rparr>)
             else (E_OK, s\<lparr>conn := Some req\<rparr>)
      | None \<Rightarrow> (E_OK, s))"

definition httpc_tcp_connected :: "http_env \<Rightarrow> http \<Rightarrow> (err_t \<times> http) option" where
  "httpc_tcp_connected env s = do {
     req \<leftarrow> conn s;
     r \<leftarrow> http_request req;
     let s = tcp_call (Tcp_Write r) s;
     if write_err env \<noteq> E_OK
     then Some (httpc_close env HTTPC_RESULT_ERR_MEM 0 (write_err env) req s)
     else Some (E_OK, tcp_call Tcp_Output (s\<lparr>conn := Some (req\<lparr>http_request := None\<rparr>)\<rparr>)) }"

text \<open>The resolver's callback: whether an address was found.\<close>

definition httpc_dns_found :: "http_env \<Rightarrow> bool \<Rightarrow> http \<Rightarrow> http" where
  "httpc_dns_found env found s =
     (case conn s of
        Some req \<Rightarrow>
          if found
          then (if connect_err env = E_OK then s
                else snd (httpc_close env HTTPC_RESULT_ERR_CONNECT 0 (connect_err env) req s))
          else snd (httpc_close env HTTPC_RESULT_ERR_HOSTNAME 0 E_ARG req s)
      | None \<Rightarrow> s)"

section \<open>Starting a request\<close>

text \<open>The request with a host line; \<open>huytv\<close> is the configured user agent.\<close>

definition httpc_create_request_string :: "u8 list \<Rightarrow> u8 list \<Rightarrow> u8 list" where
  "httpc_create_request_string server_name uri =
     str ''GET '' @ uri @ str '' HTTP/1.1'' @ crlf @
     str ''User-Agent: huytv'' @ crlf @
     str ''Accept: */*'' @ crlf @
     str ''Host: '' @ server_name @ crlf @
     str ''Connection: Close'' @ crlf @ crlf"

definition httpc_init_connection :: "http_env \<Rightarrow> u8 list \<Rightarrow> u16 \<Rightarrow> u8 list \<Rightarrow> http \<Rightarrow> err_t + httpc_state" where
  "httpc_init_connection env server_name port uri s =
     (let r = httpc_create_request_string server_name uri
      in if length r > 0xffff then Inl E_VAL
         else if length r + 1 > 0xffff then Inl E_VAL
         else if \<not> malloc_ok env then Inl E_MEM
         else if \<not> pbuf_ok env then Inl E_MEM
         else if \<not> pcb_ok env then Inl E_MEM
         else Inr \<lparr>has_pcb = True, remote_port = port, timeout_ticks = HTTPC_POLL_TIMEOUT,
           http_request = Some r, rx_hdrs = [], rx_http_version = 0, rx_status = 0,
           rx_content_len = 0, hdr_content_len = HTTPC_CONTENT_LEN_INVALID,
           parse_state = HTTPC_PARSE_WAIT_FIRST_LINE\<rparr>)"

definition httpc_get_file_dns :: "http_env \<Rightarrow> u8 list \<Rightarrow> u16 \<Rightarrow> u8 list \<Rightarrow> http \<Rightarrow> err_t \<times> http" where
  "httpc_get_file_dns env server_name port uri s =
     (case httpc_init_connection env server_name port uri s of
        Inl e \<Rightarrow> (e, s)
      | Inr req \<Rightarrow>
          let err = (if dns_err env = E_OK then connect_err env
                     else if dns_err env = E_INPROGRESS then E_OK
                     else dns_err env)
          in if err \<noteq> E_OK then (err, (snd (httpc_free_state env req s))\<lparr>conn := conn s\<rparr>)
             else (E_OK, s\<lparr>conn := Some req\<rparr>))"

definition app_http_start :: "http_env \<Rightarrow> u8 list \<Rightarrow> u16 \<Rightarrow> u8 list \<Rightarrow> http \<Rightarrow> bool \<times> http" where
  "app_http_start env url port file s =
     (let s = (app_http_cleanup s)\<lparr>cfg_url := url, cfg_port := port, cfg_file := file,
                cfg_on_event_cb := False\<rparr>;
          (error, s) = httpc_get_file_dns env url port file s
      in if error \<noteq> E_OK then (False, s)
         else (True, (app_event APP_HTTP_EVENT_START 0 s)\<lparr>m_http_free := False\<rparr>))"

section \<open>Searching in a prefix\<close>

definition occurs :: "'a list \<Rightarrow> 'a list \<Rightarrow> nat \<Rightarrow> bool" where
  "occurs pat xs i \<longleftrightarrow> take (length pat) (drop i xs) = pat"

lemma occurs_bound: "occurs pat xs i \<Longrightarrow> pat \<noteq> [] \<Longrightarrow> i + length pat \<le> length xs"
proof -
  assume o: "occurs pat xs i" "pat \<noteq> []"
  then have "length (take (length pat) (drop i xs)) = length pat" by (simp add: occurs_def)
  with o(2) show ?thesis by (cases pat) auto
qed

lemma find_sub_eq:
  assumes "pat \<noteq> []"
  shows "find_sub pat xs = Some i \<longleftrightarrow> occurs pat xs i \<and> (\<forall>j<i. \<not> occurs pat xs j)"
proof (induction xs arbitrary: i)
  case Nil
  then show ?case using assms by (simp add: occurs_def)
next
  case (Cons x xs)
  show ?case
  proof (cases "occurs pat (x # xs) 0")
    case True
    then show ?thesis by (cases i) (auto simp: occurs_def)
  next
    case False
    then have "find_sub pat (x # xs) = map_option Suc (find_sub pat xs)" by (simp add: occurs_def)
    moreover have "occurs pat (x # xs) (Suc k) \<longleftrightarrow> occurs pat xs k" for k by (simp add: occurs_def)
    ultimately show ?thesis using False Cons.IH by (cases i) (auto simp: less_Suc_eq_0_disj)
  qed
qed

lemma occurs_take: "pat \<noteq> [] \<Longrightarrow> occurs pat (take m xs) i \<longleftrightarrow> occurs pat xs i \<and> i + length pat \<le> m"
proof
  assume ne: "pat \<noteq> []" and o: "occurs pat (take m xs) i"
  from occurs_bound [OF o ne] have "i + length pat \<le> m" by simp
  with o show "occurs pat xs i \<and> i + length pat \<le> m"
    by (simp add: occurs_def drop_take min_def split: if_splits)
next
  assume o: "occurs pat xs i \<and> i + length pat \<le> m"
  then have "length pat \<le> m - i" by linarith
  with o show "occurs pat (take m xs) i" by (simp add: occurs_def drop_take)
qed

lemma occurs_drop: "occurs pat (drop k xs) i \<longleftrightarrow> occurs pat xs (k + i)"
  by (simp add: occurs_def add.commute)

lemma find_sub_None_iff: "pat \<noteq> [] \<Longrightarrow> find_sub pat xs = None \<longleftrightarrow> (\<forall>j. \<not> occurs pat xs j)"
proof
  assume ne: "pat \<noteq> []" and n: "find_sub pat xs = None"
  show "\<forall>j. \<not> occurs pat xs j"
  proof
    fix j
    show "\<not> occurs pat xs j"
    proof
      assume "occurs pat xs j"
      then have "xs = take j xs @ pat @ drop (length pat) (drop j xs)"
        by (metis append_take_drop_id occurs_def)
      with find_sub_None [OF n] show False by blast
    qed
  qed
next
  assume ne: "pat \<noteq> []" and "\<forall>j. \<not> occurs pat xs j"
  then show "find_sub pat xs = None" using find_sub_eq [OF ne, of xs] by (cases "find_sub pat xs") auto
qed

text \<open>A first occurrence is found in every prefix that contains it, and in no shorter one.\<close>

lemma find_sub_take:
  assumes "pat \<noteq> []" "find_sub pat xs = Some i"
  shows "find_sub pat (take m xs) = (if i + length pat \<le> m then Some i else None)"
proof -
  from assms have o: "occurs pat xs i" "\<forall>j<i. \<not> occurs pat xs j" by (simp_all add: find_sub_eq)
  show ?thesis
  proof (cases "i + length pat \<le> m")
    case True
    with o show ?thesis by (simp add: find_sub_eq [OF assms(1)] occurs_take [OF assms(1)])
  next
    case False
    have "\<not> occurs pat (take m xs) j" for j
    proof
      assume "occurs pat (take m xs) j"
      then have "occurs pat xs j" "j + length pat \<le> m" by (simp_all add: occurs_take [OF assms(1)])
      with o(2) have "i \<le> j" by (meson not_le)
      with \<open>j + length pat \<le> m\<close> False show False by simp
    qed
    with False show ?thesis by (simp add: find_sub_None_iff [OF assms(1)])
  qed
qed

lemma find_sub_append_Some:
  assumes "pat \<noteq> []" "find_sub pat xs = Some i"
  shows "find_sub pat (xs @ ys) = Some i"
proof -
  have t: "take (length xs) (xs @ ys) = xs" by simp
  from assms have o: "occurs pat xs i" "\<forall>j<i. \<not> occurs pat xs j" by (simp_all add: find_sub_eq)
  have "occurs pat xs j \<longleftrightarrow> occurs pat (xs @ ys) j \<and> j + length pat \<le> length xs" for j
    using occurs_take [OF assms(1), of "length xs" "xs @ ys" j] by simp
  with o occurs_bound [OF o(1) assms(1)] show ?thesis
    by (auto simp: find_sub_eq [OF assms(1)])
qed

section \<open>Well-formed responses\<close>

definition dec_ok :: "u8 list \<Rightarrow> bool" where
  "dec_ok d \<longleftrightarrow> d \<noteq> [] \<and> length d \<le> 9 \<and> (\<forall>c\<in>set d. is_dec c)"

lemma dec_value_snoc: "dec_value (d @ [c]) = 10 * dec_value d + (int (unat c) - 48)"
  by (simp add: dec_value_def)

lemma is_dec_unat: "is_dec c \<longleftrightarrow> 48 \<le> unat c \<and> unat c \<le> 57"
  by (simp add: is_dec_def word_le_nat_alt)

lemma dec_value_bound: "\<forall>c\<in>set d. is_dec c \<Longrightarrow> 0 \<le> dec_value d \<and> dec_value d < 10 ^ length d"
proof (induction d rule: rev_induct)
  case Nil
  then show ?case by (simp add: dec_value_def)
next
  case (snoc c d)
  then have "0 \<le> dec_value d" "dec_value d < 10 ^ length d" "48 \<le> unat c" "unat c \<le> 57"
    by (simp_all add: is_dec_unat)
  then have "48 \<le> int (unat c)" "int (unat c) \<le> 57" by linarith+
  with \<open>0 \<le> dec_value d\<close> \<open>dec_value d < 10 ^ length d\<close> show ?case
    unfolding dec_value_snoc length_append_singleton power_Suc by linarith
qed

lemma dec_value_ok: "dec_ok d \<Longrightarrow> 0 \<le> dec_value d \<and> dec_value d < 1000000000"
proof -
  assume d: "dec_ok d"
  then have b: "0 \<le> dec_value d" "dec_value d < 10 ^ length d" using dec_value_bound [of d] by (auto simp: dec_ok_def)
  have "(10 :: int) ^ length d \<le> 10 ^ 9" using d by (intro power_increasing) (auto simp: dec_ok_def)
  with b show ?thesis by simp
qed

lemma dec_not: "is_dec c \<Longrightarrow> \<not> is_space c \<and> c \<noteq> 45 \<and> c \<noteq> 43 \<and> c \<noteq> 0"
  by (auto simp: is_dec_unat is_space_def word_le_nat_alt word_unat_eq_iff)

lemma c_atoi_dec:
  assumes "dec_ok d" "0 < k"
  shows "c_atoi (d @ replicate k 0) = Some (dec_value d)"
proof -
  obtain c r where d: "d = c # r" using assms(1) by (cases d) (auto simp: dec_ok_def)
  have all: "\<forall>x\<in>set d. is_dec x" using assms(1) by (simp add: dec_ok_def)
  obtain k' where k: "k = Suc k'" using assms(2) by (cases k) auto
  have n0: "0 \<notin> set d" using all dec_not by blast
  have cs: "cstr (d @ replicate k 0) 0 = d" using cstr_append [OF n0] by (simp add: k)
  have "is_dec c" using all d by simp
  note nd = dec_not [OF this]
  have dw: "dropWhile is_space d = d" using nd d by simp
  have tw: "takeWhile is_dec d = d" using all by (simp add: takeWhile_eq_all_conv)
  have sg: "(case d of c # r \<Rightarrow> if c = 45 then (True, r) else if c = 43 then (False, r) else (False, d)
      | [] \<Rightarrow> (False, [])) = (False, d)" using nd d by simp
  have z: "0 \<in> set (d @ replicate k 0)" using k by simp
  show ?thesis using dec_value_ok [OF assms(1)] z unfolding c_atoi_def cs dw sg Let_def by (simp add: tw)
qed

definition good_status :: "u8 list \<Rightarrow> nat \<Rightarrow> u16 \<Rightarrow> bool" where
  "good_status h e st \<longleftrightarrow> take 5 h = str ''HTTP/'' \<and> 7 < e \<and> h ! 6 = 46 \<and> find_sub crlf h = Some e \<and>
     (case find_sub [32] h of
        None \<Rightarrow> False
      | Some a \<Rightarrow>
          (case find_sub [32] (drop (a + 1) h) of
             None \<Rightarrow> False
           | Some b \<Rightarrow> a + 1 + b < e \<and> dec_ok (take b (drop (a + 1) h)) \<and>
               dec_value (take b (drop (a + 1) h)) \<in> {1..0xffff} \<and>
               st = of_int (dec_value (take b (drop (a + 1) h)))))"

definition good_length :: "u8 list \<Rightarrow> u32 \<Rightarrow> bool" where
  "good_length h n \<longleftrightarrow>
     (case find_sub (str ''Content-Length: '') h of
        None \<Rightarrow> False
      | Some k \<Rightarrow>
          (case find_sub crlf (drop k h) of
             None \<Rightarrow> False
           | Some j \<Rightarrow> 16 \<le> j \<and> dec_ok (take (j - 16) (drop (k + 16) h)) \<and>
               n = of_int (dec_value (take (j - 16) (drop (k + 16) h)))))"

text \<open>
  A response head: a status line with version, status and reason, and header lines that
  end with the first empty line and contain a content length.
\<close>

definition good_head :: "u8 list \<Rightarrow> nat \<Rightarrow> u16 \<Rightarrow> u32 \<Rightarrow> bool" where
  "good_head h e st n \<longleftrightarrow> good_status h e st \<and> good_length h n \<and>
     4 \<le> length h \<and> find_sub (crlf @ crlf) h = Some (length h - 4)"

lemma memfind_take:
  assumes "concat p = take m (h @ d)" "pat \<noteq> []" "find_sub pat (drop k h) = Some i" "k + i + length pat \<le> m"
  shows "pbuf_memfind p pat k = k + i"
proof -
  have i: "i + length pat \<le> length (drop k h)" using find_sub_Some [OF assms(3)] by simp
  then have "k \<le> length h" using assms(2) by (cases pat) auto
  then have "drop k (h @ d) = drop k h @ d" by simp
  then have "find_sub pat (drop k (h @ d)) = Some i" using find_sub_append_Some [OF assms(2,3)] by simp
  moreover have "drop k (concat p) = take (m - k) (drop k (h @ d))" by (simp only: assms(1) drop_take)
  ultimately have "find_sub pat (drop k (concat p)) = Some i"
    using find_sub_take [OF assms(2), of "drop k (h @ d)" i "m - k"] assms(4) by simp
  then show ?thesis by (simp add: pbuf_memfind_flat [OF assms(2)])
qed

lemma memfind_early:
  assumes "concat p = take m (h @ d)" "pat \<noteq> []" "find_sub pat h = Some i" "m < i + length pat"
  shows "pbuf_memfind p pat 0 = 0xffff"
  using find_sub_take [OF assms(2) find_sub_append_Some [OF assms(2,3)], of m d] assms(1,4)
  by (simp add: pbuf_memfind_flat [OF assms(2)])

lemma status_early:
  assumes "concat p = take m (h @ d)" "good_status h e st" "m < e + 2"
  shows "http_parse_response_status p = Some (None, None)"
  using memfind_early [OF assms(1), of crlf e] assms(2,3)
  by (simp add: http_parse_response_status_def good_status_def)

lemma status_parsed:
  assumes p: "concat p = take m (h @ d)" and g: "good_status h e st" and m: "e + 2 \<le> m" and l: "length h < 65535"
  shows "\<exists>v. http_parse_response_status p = Some (Some v, Some st)"
proof -
  from g obtain a b where ab: "find_sub crlf h = Some e" "find_sub [32] h = Some a"
    "find_sub [32] (drop (a + 1) h) = Some b" "a + 1 + b < e" "take 5 h = str ''HTTP/''" "7 < e" "h ! 6 = 46"
    and d: "dec_ok (take b (drop (a + 1) h))" "dec_value (take b (drop (a + 1) h)) \<in> {1..0xffff}"
      "st = of_int (dec_value (take b (drop (a + 1) h)))"
    by (auto simp: good_status_def split: option.splits)
  have e: "e + 2 \<le> length h" using find_sub_Some [OF ab(1)] by simp
  have end1: "pbuf_memfind p crlf 0 = e" using memfind_take [OF p, of crlf 0 e] ab(1) m by simp
  have s1: "pbuf_memfind p [32] 0 = a" using memfind_take [OF p, of "[32]" 0 a] ab m by simp
  have s2: "pbuf_memfind p [32] (a + 1) = a + 1 + b" using memfind_take [OF p, of "[32]" "a + 1" b] ab m by simp
  have t: "take e (concat p) = take e h" using e m by (simp add: p min_def)
  have "take 5 (concat p) = take 5 (take e (concat p))" using ab(6) by (simp add: min_def)
  also have "\<dots> = take 5 h" using ab(6) unfolding t by (simp add: min_def)
  finally have h5: "take 5 (concat p) = str ''HTTP/''" using ab(5) by simp
  have ne: "str ''HTTP/'' \<noteq> []" and le: "length (str ''HTTP/'') = 5" by simp_all
  have v: "pbuf_memcmp p 0 (str ''HTTP/'') = 0"
    using h5 unfolding pbuf_memcmp_flat [OF ne] le drop_0 .
  have "concat p ! 6 = take e (concat p) ! 6" using ab(6) by simp
  then have g6: "pbuf_get_at p 6 = 46"
    using ab(6,7) e m by (simp add: t pbuf_get_at_flat tot_len_def p)
  let ?d = "take b (drop (a + 1) h)"
  have "take b (drop (a + 1) (concat p)) = take b (drop (a + 1) (take e (concat p)))"
    using ab(4) by (simp add: drop_take min_def)
  also have "\<dots> = ?d" using ab(4) unfolding t by (simp add: drop_take min_def)
  finally have c: "pbuf_copy_partial p b (a + 1) = ?d" by (simp add: pbuf_copy_partial_flat)
  have lb: "length ?d = b" using ab(4) e by simp
  then have b: "b \<le> 9" "b < 65536" using d(1) by (simp_all add: dec_ok_def)
  have n: "(int (a + 1 + b) - int a - 1) mod 2 ^ 32 = int b" "nat (int b mod 2 ^ 16) = b" using b by simp_all
  have lc: "local_copy 10 ?d = Some (?d @ replicate (10 - b) 0)" using b lb by (simp add: local_copy_def)
  have "e < 65535" "a < 65535" "a + 1 + b < 65535" using e l ab(4) by simp_all
  then show ?thesis
    using d c_atoi_dec [OF d(1), of "10 - b"] b lb
    unfolding http_parse_response_status_def Let_def end1 s1 s2
    by (simp only: v g6 n c lc s2 end1 s1) (simp add: n c [folded Suc_eq_plus1] lc [folded Suc_eq_plus1])
qed

lemma headers_early:
  assumes "concat p = take m (h @ d)" "find_sub (crlf @ crlf) h = Some (length h - 4)" "4 \<le> length h"
    and "m < length h"
  shows "http_wait_headers p = Some None"
  using memfind_early [OF assms(1), of "crlf @ crlf" "length h - 4"] assms(2-4)
  by (simp add: http_wait_headers_def)

lemma headers_parsed:
  assumes p: "concat p = take m (h @ d)" and g: "good_head h e st n" and m: "length h \<le> m" and l: "length h < 65535"
  shows "http_wait_headers p = Some (Some (n, length h))"
proof -
  from g have h: "find_sub (crlf @ crlf) h = Some (length h - 4)" "4 \<le> length h" by (simp_all add: good_head_def)
  from g obtain k j where kj: "find_sub (str ''Content-Length: '') h = Some k" "find_sub crlf (drop k h) = Some j"
    "16 \<le> j" "dec_ok (take (j - 16) (drop (k + 16) h))"
    "n = of_int (dec_value (take (j - 16) (drop (k + 16) h)))"
    by (auto simp: good_head_def good_length_def split: option.splits)
  have k: "k + 16 \<le> length h" using find_sub_Some [OF kj(1)] by simp
  have "j + 2 \<le> length h - k" using find_sub_Some [OF kj(2)] by simp
  then have j: "k + j + 2 \<le> length h" using k by linarith
  have e1: "pbuf_memfind p (crlf @ crlf) 0 = length h - 4"
    using memfind_take [OF p, of "crlf @ crlf" 0 "length h - 4"] h m by simp
  have e2: "pbuf_memfind p (str ''Content-Length: '') 0 = k"
    using memfind_take [OF p, of "str ''Content-Length: ''" 0 k] kj(1) k m by simp
  have e3: "pbuf_memfind p crlf k = k + j"
    using memfind_take [OF p, of crlf k j] kj(2) j m by simp
  let ?d = "take (j - 16) (drop (k + 16) h)"
  have "take (j - 16) (drop (k + 16) (take m (h @ d))) = ?d" using j m by (simp add: drop_take min_def)
  then have c: "pbuf_copy_partial p (j - 16) (k + 16) = ?d" by (simp add: pbuf_copy_partial_flat p)
  have ld: "length ?d = j - 16" using j by simp
  then have j9: "j - 16 \<le> 9" using kj(4) by (simp add: dec_ok_def)
  have n: "nat ((int (k + j) - int k - 16) mod 2 ^ 16) = j - 16" using kj(3) j9 by simp
  have lc: "local_copy 16 ?d = Some (?d @ replicate (16 - (j - 16)) 0)"
    using ld j9 by (simp add: local_copy_def)
  have a: "c_atoi (?d @ replicate (16 - (j - 16)) 0) = Some (dec_value ?d)"
    using c_atoi_dec [OF kj(4)] j9 by simp
  have "content_length_at p k = Some n"
    unfolding content_length_at_def e3 Let_def n c lc ld
    using j l dec_value_ok [OF kj(4)] a by (simp add: kj(5))
  moreover have "length h - 4 < 0xffff - 2" "k \<noteq> 0xffff" using l k h(2) by simp_all
  moreover have "(length h - 4 + 4) mod 65536 = length h" using h(2) l by simp
  ultimately show ?thesis unfolding http_wait_headers_def e1 e2 Let_def by simp
qed

section \<open>Any segmentation\<close>

fun recv_all :: "http_env \<Rightarrow> pbuf list \<Rightarrow> http \<Rightarrow> http option" where
  "recv_all env [] s = Some s"
| "recv_all env (p # ps) s = do { (e, s) \<leftarrow> httpc_tcp_recv env p s; recv_all env ps s }"

text \<open>After \<open>m\<close> bytes of a response with head \<open>h\<close> and data \<open>d\<close>, started in \<open>s0\<close>.\<close>

definition received_so_far ::
  "http \<Rightarrow> u8 list \<Rightarrow> nat \<Rightarrow> u16 \<Rightarrow> u32 \<Rightarrow> u8 list \<Rightarrow> nat \<Rightarrow> http \<Rightarrow> bool" where
  "received_so_far s0 h e st n d m s \<longleftrightarrow>
     (\<exists>req. conn s = Some req \<and> results s = results s0 \<and>
       (if m < length h
        then concat (rx_hdrs req) = take m (h @ d) \<and> rx_content_len req = 0 \<and>
          parse_state req = (if m < e + 2 then HTTPC_PARSE_WAIT_FIRST_LINE else HTTPC_PARSE_WAIT_HEADERS) \<and>
          (e + 2 \<le> m \<longrightarrow> rx_status req = st) \<and> body s = body s0 \<and> header_calls s = header_calls s0
        else parse_state req = HTTPC_PARSE_RX_DATA \<and> rx_status req = st \<and> hdr_content_len req = n \<and>
          rx_content_len req = of_nat (m - length h) \<and>
          body s = body s0 @ take (m - length h) d \<and>
          header_calls s = header_calls s0 @ [(length h, n)]))"

lemma first_line_step:
  assumes "concat (rx_hdrs req) = take m (h @ d)" "good_status h e st" "length h < 65535"
    and "parse_state req = HTTPC_PARSE_WAIT_FIRST_LINE \<or>
      parse_state req = HTTPC_PARSE_WAIT_HEADERS \<and> rx_status req = st \<and> e + 2 \<le> m"
  shows "\<exists>req'. rx_first_line req = Some req' \<and> rx_hdrs req' = rx_hdrs req \<and>
    rx_content_len req' = rx_content_len req \<and>
    parse_state req' = (if m < e + 2 then HTTPC_PARSE_WAIT_FIRST_LINE else HTTPC_PARSE_WAIT_HEADERS) \<and>
    (e + 2 \<le> m \<longrightarrow> rx_status req' = st)"
proof (cases "parse_state req = HTTPC_PARSE_WAIT_FIRST_LINE")
  case True
  show ?thesis
  proof (cases "m < e + 2")
    case early: True
    show ?thesis using status_early [OF assms(1,2) early] True early by (simp add: rx_first_line_def Let_def)
  next
    case False
    then obtain v where "http_parse_response_status (rx_hdrs req) = Some (Some v, Some st)"
      using status_parsed [OF assms(1,2) _ assms(3)] by auto
    with True False show ?thesis by (simp add: rx_first_line_def Let_def)
  qed
next
  case False
  with assms(4) show ?thesis by (simp add: rx_first_line_def)
qed

lemma app_event_frame [simp]:
  "conn (app_event ev x s) = conn s" "results (app_event ev x s) = results s"
  "header_calls (app_event ev x s) = header_calls s" "body (app_event ev x s) = body s"
  by (simp_all add: app_event_def)

lemma tcp_call_frame [simp]:
  "conn (tcp_call c s) = conn s" "results (tcp_call c s) = results s"
  "header_calls (tcp_call c s) = header_calls s" "body (tcp_call c s) = body s"
  by (simp_all add: tcp_call_def)

lemma rx_data_step:
  assumes "parse_state req = HTTPC_PARSE_RX_DATA"
  shows "\<exists>s' req'. rx_data p req s = (E_OK, s') \<and> conn s' = Some req' \<and> results s' = results s \<and>
    parse_state req' = HTTPC_PARSE_RX_DATA \<and> rx_status req' = rx_status req \<and>
    hdr_content_len req' = hdr_content_len req \<and>
    rx_content_len req' = rx_content_len req + of_nat (length (concat p)) \<and>
    body s' = body s @ concat p \<and> header_calls s' = header_calls s"
  using assms by (cases "p = []") (simp_all add: rx_data_def httpc_file_recv_callback_def Let_def tot_len_def)

lemma recv_step:
  assumes g: "good_head h e st n" and l: "length h < 65535"
    and r: "received_so_far s0 h e st n d m s"
    and p: "p \<noteq> []" "m + length (concat p) \<le> length (h @ d)"
      "concat p = take (length (concat p)) (drop m (h @ d))"
  shows "\<exists>s'. httpc_tcp_recv env p s = Some (E_OK, s') \<and>
    received_so_far s0 h e st n d (m + length (concat p)) s'"
proof -
  let ?m = "m + length (concat p)"
  from r obtain req where req: "conn s = Some req" "results s = results s0" by (auto simp: received_so_far_def)
  have gs: "good_status h e st" using g by (simp add: good_head_def)
  then have e: "e + 2 \<le> length h" using find_sub_Some [of crlf h e] by (simp add: good_status_def)
  show ?thesis
  proof (cases "m < length h")
    case True
    with r req have q: "concat (rx_hdrs req) = take m (h @ d)" "rx_content_len req = 0"
      "parse_state req = (if m < e + 2 then HTTPC_PARSE_WAIT_FIRST_LINE else HTTPC_PARSE_WAIT_HEADERS)"
      "e + 2 \<le> m \<longrightarrow> rx_status req = st" "body s = body s0" "header_calls s = header_calls s0"
      by (auto simp: received_so_far_def)
    let ?req = "req\<lparr>rx_hdrs := pbuf_cat (rx_hdrs req) p\<rparr>"
    have "concat (rx_hdrs ?req) = concat (rx_hdrs req) @ concat p" by (simp add: pbuf_cat_flat)
    also have "\<dots> = take m (h @ d) @ take (length (concat p)) (drop m (h @ d))"
      by (rule arg_cong2 [where f = append, OF q(1) p(3)])
    finally have c: "concat (rx_hdrs ?req) = take ?m (h @ d)" by (simp only: take_add)
    have "parse_state ?req = HTTPC_PARSE_WAIT_FIRST_LINE \<or>
        parse_state ?req = HTTPC_PARSE_WAIT_HEADERS \<and> rx_status ?req = st \<and> e + 2 \<le> ?m"
      using q(3,4) by auto
    note fl = first_line_step [OF c gs l this]
    obtain req1 where r1: "rx_first_line ?req = Some req1" "rx_hdrs req1 = rx_hdrs ?req" "rx_content_len req1 = 0"
      "parse_state req1 = (if ?m < e + 2 then HTTPC_PARSE_WAIT_FIRST_LINE else HTTPC_PARSE_WAIT_HEADERS)"
      "e + 2 \<le> ?m \<longrightarrow> rx_status req1 = st"
      using fl q(2) by auto
    have rv: "httpc_tcp_recv env p s = do {
        (r, s) \<leftarrow> rx_headers env p req1 s;
        case r of Inl e \<Rightarrow> Some (e, s) | Inr (p, req) \<Rightarrow> Some (rx_data p req s) }"
      using p(1) req(1) q(3) r1(1) by (simp add: httpc_tcp_recv_def)
    show ?thesis
    proof (cases "?m < length h")
      case early: True
      have "rx_headers env p req1 s = Some (Inr (p, req1), s)"
        using headers_early [OF c _ _ early] g r1(2,4) by (simp add: rx_headers_def good_head_def)
      then have "httpc_tcp_recv env p s = Some (E_OK, s\<lparr>conn := Some req1\<rparr>)"
        using r1(4) by (simp add: rv rx_data_def)
      then show ?thesis using early c r1 q req by (simp add: received_so_far_def)
    next
      case False
      have ps: "parse_state req1 = HTTPC_PARSE_WAIT_HEADERS" "rx_status req1 = st" using r1 e False by auto
      let ?p = "pbuf_free_header (rx_hdrs req1) (length h)"
      let ?req2 = "req1\<lparr>hdr_content_len := n, rx_hdrs := [], parse_state := HTTPC_PARSE_RX_DATA\<rparr>"
      obtain s2 where s2: "rx_headers env p req1 s = Some (Inr (?p, ?req2), s2)" "conn s2 = conn s"
        "results s2 = results s" "body s2 = body s" "header_calls s2 = header_calls s @ [(length h, n)]"
        using headers_parsed [OF c g _ l] False ps(1) r1(2)
        by (auto simp: rx_headers_def httpc_headers_done_callback_def Let_def)
      have cp: "concat ?p = take (?m - length h) d"
        using c False by (simp add: pbuf_free_header_flat r1(2) drop_take)
      have "length (concat ?p) = ?m - length h" using p(2) by (simp add: cp)
      with rx_data_step [of ?req2 ?p s2] s2 ps r1(3) q req False cp show ?thesis
        by (auto simp: rv received_so_far_def)
    qed
  next
    case False
    with r req have q: "parse_state req = HTTPC_PARSE_RX_DATA" "rx_status req = st" "hdr_content_len req = n"
      "rx_content_len req = of_nat (m - length h)" "body s = body s0 @ take (m - length h) d"
      "header_calls s = header_calls s0 @ [(length h, n)]" by (auto simp: received_so_far_def)
    have "httpc_tcp_recv env p s = Some (rx_data p req s)"
      using p(1) req(1) q(1) by (simp add: httpc_tcp_recv_def)
    moreover have "concat p = take (length (concat p)) (drop (m - length h) d)" using p(3) False by simp
    then have "take (m - length h) d @ concat p = take (?m - length h) d"
      using False by (metis Nat.add_diff_assoc2 not_less take_add)
    moreover have "of_nat (m - length h) + of_nat (length (concat p)) = (of_nat (?m - length h) :: u32)"
      using False by (simp flip: of_nat_add)
    ultimately show ?thesis using rx_data_step [OF q(1), of p s] q req False
      by (auto simp: received_so_far_def)
  qed
qed

lemma recv_all_steps:
  assumes g: "good_head h e st n" "length h < 65535"
  shows "received_so_far s0 h e st n d m s \<Longrightarrow> \<forall>p\<in>set ps. p \<noteq> [] \<Longrightarrow>
    take m (h @ d) @ concat (map concat ps) = h @ d \<Longrightarrow> m \<le> length (h @ d) \<Longrightarrow>
    \<exists>s'. recv_all env ps s = Some s' \<and> received_so_far s0 h e st n d (length (h @ d)) s'"
proof (induction ps arbitrary: m s)
  case Nil
  then have "m = length (h @ d)" by (metis concat.simps(1) append_Nil2 length_take list.simps(8) min.absorb2)
  with Nil show ?case by simp
next
  case (Cons p ps)
  let ?m = "m + length (concat p)"
  have dr: "drop m (h @ d) = concat p @ concat (map concat ps)"
    using Cons.prems(3) by (metis append_eq_conv_conj append_take_drop_id same_append_eq list.simps(9) concat.simps(2))
  have le: "?m \<le> length (h @ d)" using arg_cong [OF dr, of length] Cons.prems(4) by simp
  have t: "concat p = take (length (concat p)) (drop m (h @ d))" unfolding dr by simp
  from recv_step [OF g Cons.prems(1) _ le t] Cons.prems(2) obtain s1 where
    s1: "httpc_tcp_recv env p s = Some (E_OK, s1)" "received_so_far s0 h e st n d ?m s1" by auto
  have "take ?m (h @ d) = take m (h @ d) @ concat p" by (simp only: take_add t [symmetric])
  with Cons.prems(3) have "take ?m (h @ d) @ concat (map concat ps) = h @ d"
    by (simp only: append_assoc list.simps concat.simps)
  from Cons.IH [OF s1(2) _ this le] Cons.prems(2) s1(1) show ?case by simp
qed

section \<open>Properties of the client and the application\<close>

definition fresh_request :: "httpc_state \<Rightarrow> bool" where
  "fresh_request req \<longleftrightarrow> rx_hdrs req = [] \<and> rx_content_len req = 0 \<and> parse_state req = HTTPC_PARSE_WAIT_FIRST_LINE"

text \<open>
  C35. The response is understood however TCP cuts it. For every response with a well-formed
  head of less than 65535 bytes and every segmentation into nonempty buffer chains, the
  head is reported once, with its length and content length; exactly the bytes after the
  head are passed to the receiver, in order; and the close of the connection is reported
  once, with the status, the number of bytes received, and success exactly if that number
  is the announced one.
\<close>
theorem http_response_any_segmentation:
  assumes "good_head h e st n" and "length h < 65535"
    and "conn s = Some req" and "fresh_request req"
    and "\<forall>p\<in>set ps. p \<noteq> []" and "concat (map concat ps) = h @ d"
  shows "\<exists>s1 s2 err. recv_all env ps s = Some s1 \<and> httpc_tcp_recv env [] s1 = Some (err, s2) \<and>
    body s2 = body s @ d \<and> header_calls s2 = header_calls s @ [(length h, n)] \<and> conn s2 = None \<and>
    results s2 = results s @
      [(if n = of_nat (length d) then HTTPC_RESULT_OK else HTTPC_RESULT_ERR_CONTENT_LEN,
        of_nat (length d), ucast st, E_OK)]"
proof -
  have "received_so_far s h e st n d 0 s"
    using assms(1,3,4) find_sub_Some [of crlf h e]
    by (auto simp: received_so_far_def fresh_request_def good_head_def good_status_def)
  from recv_all_steps [OF assms(1,2) this assms(5)] assms(6) obtain s1 where
    s1: "recv_all env ps s = Some s1" "received_so_far s h e st n d (length (h @ d)) s1" by auto
  then obtain req1 where r: "conn s1 = Some req1" "results s1 = results s"
    "parse_state req1 = HTTPC_PARSE_RX_DATA" "rx_status req1 = st" "hdr_content_len req1 = n"
    "rx_content_len req1 = of_nat (length d)" "body s1 = body s @ d"
    "header_calls s1 = header_calls s @ [(length h, n)]" by (auto simp: received_so_far_def)
  have n: "n \<noteq> HTTPC_CONTENT_LEN_INVALID"
  proof -
    obtain c where c: "dec_ok c" "n = of_int (dec_value c)"
      using assms(1) by (auto simp: good_head_def good_length_def split: option.splits)
    have b: "0 \<le> dec_value c" "dec_value c < 1000000000" using dec_value_ok [OF c(1)] by simp_all
    then have "uint n = dec_value c" by (simp add: c(2) uint_word_of_int)
    with b show ?thesis by auto
  qed
  have "\<exists>err s2. httpc_tcp_recv env [] s1 = Some (err, s2) \<and> conn s2 = None \<and> body s2 = body s1 \<and>
      header_calls s2 = header_calls s1 \<and> results s2 = results s1 @
        [(if n = of_nat (length d) then HTTPC_RESULT_OK else HTTPC_RESULT_ERR_CONTENT_LEN,
          of_nat (length d), ucast st, E_OK)]"
    using r n by (auto simp: httpc_tcp_recv_def httpc_close_def httpc_free_state_def
        httpc_result_callback_def Let_def)
  then obtain err s2 where "httpc_tcp_recv env [] s1 = Some (err, s2)" "conn s2 = None" "body s2 = body s1"
    "header_calls s2 = header_calls s1" "results s2 = results s1 @
        [(if n = of_nat (length d) then HTTPC_RESULT_OK else HTTPC_RESULT_ERR_CONTENT_LEN,
          of_nat (length d), ucast st, E_OK)]" by blast
  with s1(1) r show ?thesis by (intro exI conjI) (assumption, assumption, simp_all)
qed

definition blank_http :: http where
  "blank_http = \<lparr>conn = None, cfg_on_event_cb = False, cfg_url = [], cfg_file = [], cfg_port = 0,
     m_total_bytes_recv = 0, m_content_length = 0, m_http_free = True, app_events = [], results = [],
     header_calls = [], body = [], tcp_calls = []\<rparr>"

definition blank_request :: httpc_state where
  "blank_request = \<lparr>has_pcb = True, remote_port = 80, timeout_ticks = 30, http_request = None, rx_hdrs = [],
     rx_http_version = 0, rx_status = 0, rx_content_len = 0, hdr_content_len = 0xffffffff,
     parse_state = HTTPC_PARSE_WAIT_FIRST_LINE\<rparr>"

definition good_env :: http_env where
  "good_env = \<lparr>malloc_ok = True, pbuf_ok = True, pcb_ok = True, dns_err = 0, connect_err = 0,
     write_err = 0, close_err = 0\<rparr>"

definition sample_head :: "u8 list" where
  "sample_head = str ''HTTP/1.1 200 OK'' @ crlf @ str ''Content-Length: 3'' @ crlf @ crlf"

lemma sample_head_lines:
  "find_sub crlf sample_head = Some 15" "find_sub [32] sample_head = Some 8"
  "find_sub [32] (drop 9 sample_head) = Some 3" "find_sub (crlf @ crlf) sample_head = Some 34"
  "find_sub (str ''Content-Length: '') sample_head = Some 17" "find_sub crlf (drop 17 sample_head) = Some 17"
  by (simp_all add: sample_head_def)

lemma sample_head_parts:
  "take 3 (drop 9 sample_head) = [50, 48, 48]" "take 1 (drop 33 sample_head) = [51]"
  "take 5 sample_head = str ''HTTP/''" "sample_head ! 6 = 46" "length sample_head = 38"
  by (simp_all add: sample_head_def)

lemma sample_numbers:
  "dec_ok [50, 48, 48]" "dec_value [50, 48, 48] = 200" "dec_ok [51]" "dec_value [51] = 3"
  by (simp_all add: dec_ok_def is_dec_def dec_value_def)

lemma sample_head_good: "good_head sample_head 15 200 3"
  unfolding good_head_def good_status_def good_length_def
  by (simp add: sample_head_lines [simplified] sample_head_parts [simplified] sample_numbers [simplified])

theorem http_response_any_segmentation_witness:
  "\<exists>s1 s2 err. recv_all good_env [[take 11 sample_head], [drop 11 sample_head @ [1], [2, 3]]]
      (blank_http\<lparr>conn := Some blank_request\<rparr>) = Some s1 \<and> httpc_tcp_recv good_env [] s1 = Some (err, s2) \<and>
    results s2 = [(HTTPC_RESULT_OK, 3, 200, 0)]"
  using http_response_any_segmentation [OF sample_head_good, of "blank_http\<lparr>conn := Some blank_request\<rparr>" blank_request
      "[[take 11 sample_head], [drop 11 sample_head @ [1], [2, 3]]]" "[1, 2, 3]" good_env]
  by (auto simp: fresh_request_def blank_request_def blank_http_def sample_head_def)

text \<open>The executions of client and application, one request at a time.\<close>

inductive http_step :: "http \<Rightarrow> http \<Rightarrow> bool" where
  start: "conn s = None \<Longrightarrow> http_step s (snd (app_http_start env url port file s))"
| config: "http_step s (s\<lparr>cfg_on_event_cb := b\<rparr>)"
| found: "http_step s (httpc_dns_found env a s)"
| connected: "httpc_tcp_connected env s = Some (e, s') \<Longrightarrow> http_step s s'"
| recv: "httpc_tcp_recv env p s = Some (e, s') \<Longrightarrow> http_step s s'"
| poll: "http_step s (snd (httpc_tcp_poll env s))"
| err: "http_step s (httpc_tcp_err env e s)"

inductive_cases http_stepE: "http_step s s'"

definition no_success :: "http \<Rightarrow> bool" where
  "no_success s \<longleftrightarrow> m_total_bytes_recv s = 0 \<and> (\<forall>x. (APP_HTTP_EVENT_FINISH_SUCCESS, x) \<notin> set (app_events s))"

lemma no_success_frame [simp]:
  "no_success (s\<lparr>conn := c\<rparr>) = no_success s" "no_success (tcp_call t s) = no_success s"
  "no_success (s\<lparr>results := r\<rparr>) = no_success s" "no_success (s\<lparr>header_calls := hc\<rparr>) = no_success s"
  "no_success (s\<lparr>body := b\<rparr>) = no_success s" "no_success (s\<lparr>m_http_free := f\<rparr>) = no_success s"
  "no_success (s\<lparr>m_content_length := l\<rparr>) = no_success s" "no_success (s\<lparr>cfg_on_event_cb := cb\<rparr>) = no_success s"
  by (simp_all add: no_success_def tcp_call_def)

lemma no_success_event:
  "no_success s \<Longrightarrow> ev \<noteq> APP_HTTP_EVENT_FINISH_SUCCESS \<Longrightarrow> no_success (app_event ev x s)"
  by (auto simp: no_success_def app_event_def)

lemma no_success_result: "no_success s \<Longrightarrow> no_success (httpc_result_callback r l v e s)"
  by (auto simp: httpc_result_callback_def Let_def intro!: no_success_event) (auto simp: no_success_def)

lemma no_success_close: "no_success s \<Longrightarrow> no_success (snd (httpc_close env r v e req s))"
  by (simp add: httpc_close_def httpc_free_state_def Let_def no_success_result)

lemma no_success_headers:
  "no_success s \<Longrightarrow> no_success (snd (httpc_headers_done_callback n l s))"
  by (simp add: httpc_headers_done_callback_def Let_def no_success_event)

lemma no_success_rx_data: "no_success s \<Longrightarrow> no_success (snd (rx_data p req s))"
  by (simp add: rx_data_def httpc_file_recv_callback_def Let_def)

lemma no_success_rx_headers:
  "rx_headers env p req s = Some (r, s') \<Longrightarrow> no_success s \<Longrightarrow> no_success s'"
  by (auto simp: rx_headers_def httpc_headers_done_callback_def Let_def no_success_event
      split: bind_splits if_splits option.splits)

lemma no_success_recv:
  assumes "httpc_tcp_recv env p s = Some (e, s')" "no_success s"
  shows "no_success s'"
  using assms no_success_close [OF assms(2), of env] no_success_rx_data
  by (auto simp: httpc_tcp_recv_def Let_def split: bind_splits if_splits sum.splits
      dest: no_success_rx_headers) (metis no_success_close no_success_rx_data no_success_rx_headers snd_conv)+

lemma no_success_cleanup: "no_success s \<Longrightarrow> no_success (app_http_cleanup s)"
  by (simp add: no_success_def app_http_cleanup_def)

lemma no_success_cfg:
  "no_success (s\<lparr>cfg_url := u, cfg_port := p, cfg_file := f, cfg_on_event_cb := b\<rparr>) = no_success s"
  by (simp add: no_success_def)

lemma no_success_get: "no_success s \<Longrightarrow> no_success (snd (httpc_get_file_dns env n p u s))"
  by (simp add: httpc_get_file_dns_def httpc_free_state_def Let_def split: sum.split)

lemma no_success_start:
  assumes "no_success s" shows "no_success (snd (app_http_start env url port file s))"
proof -
  let ?s = "(app_http_cleanup s)\<lparr>cfg_url := url, cfg_port := port, cfg_file := file, cfg_on_event_cb := False\<rparr>"
  obtain e t where t: "httpc_get_file_dns env url port file ?s = (e, t)" by fastforce
  have "no_success ?s" using assms by (simp only: no_success_cfg no_success_cleanup)
  from no_success_get [OF this, of env url port "file"] have "no_success t" by (simp add: t)
  then show ?thesis unfolding app_http_start_def Let_def t by (simp add: no_success_event)
qed

lemma no_success_poll: "no_success s \<Longrightarrow> no_success (snd (httpc_tcp_poll env s))"
  by (simp add: httpc_tcp_poll_def Let_def no_success_close split: option.split)

lemma no_success_found: "no_success s \<Longrightarrow> no_success (httpc_dns_found env a s)"
  by (simp add: httpc_dns_found_def no_success_close split: option.split)

lemma no_success_err: "no_success s \<Longrightarrow> no_success (httpc_tcp_err env e s)"
  by (simp add: httpc_tcp_err_def no_success_close split: option.split)

lemma no_success_connected:
  assumes "httpc_tcp_connected env s = Some (e, s')" "no_success s" shows "no_success s'"
proof -
  obtain req r where r: "conn s = Some req" "http_request req = Some r"
    using assms(1) by (auto simp: httpc_tcp_connected_def split: bind_splits)
  have "no_success (snd (httpc_close env HTTPC_RESULT_ERR_MEM 0 (write_err env) req (tcp_call (Tcp_Write r) s)))"
    using assms(2) by (intro no_success_close) simp
  with assms r show ?thesis by (auto simp: httpc_tcp_connected_def Let_def split: if_splits)
qed

interpretation http_run: step_invariant http_step no_success
  by unfold_locales (auto elim!: http_stepE intro: no_success_start no_success_found no_success_connected
      no_success_recv no_success_poll no_success_err)

text \<open>
  C38. The application never reports success. In no execution, whatever the server sends and
  even if an event callback is installed, is \<open>APP_HTTP_EVENT_FINISH_SUCCESS\<close> raised: the
  byte count it is conditional on is never increased. And the result of a transfer does
  not matter at all: the callback decides on the error code instead, so an unexpected
  close, a timeout and a wrong length (all reported with \<open>ERR_OK\<close>) are handled like a
  received file.
\<close>
theorem app_http_never_succeeds:
  assumes "http_step\<^sup>*\<^sup>* s0 s" and "m_total_bytes_recv s0 = 0" and "app_events s0 = []"
  shows "(\<forall>x. (APP_HTTP_EVENT_FINISH_SUCCESS, x) \<notin> set (app_events s)) \<and>
    httpc_result_callback result l v err s = httpc_result_callback HTTPC_RESULT_OK l v err s"
proof -
  have "no_success s0" using assms(2,3) by (simp add: no_success_def)
  from http_run.reachable [OF assms(1) this] show ?thesis
    by (simp add: no_success_def httpc_result_callback_def)
qed

theorem app_http_never_succeeds_witness:
  "(APP_HTTP_EVENT_FINISH_SUCCESS, 0) \<notin> set (app_events (blank_http\<lparr>cfg_on_event_cb := True\<rparr>))"
  using app_http_never_succeeds [of blank_http "blank_http\<lparr>cfg_on_event_cb := True\<rparr>"]
    http_step.config [of blank_http True]
  by (simp add: blank_http_def)

text \<open>The inactivity timeout.\<close>

fun polls :: "nat \<Rightarrow> http_env \<Rightarrow> http \<Rightarrow> http" where
  "polls 0 env s = s"
| "polls (Suc n) env s = polls n env (snd (httpc_tcp_poll env s))"

lemma polls_close:
  "conn s = Some req \<Longrightarrow> timeout_ticks req = Suc n \<Longrightarrow>
    conn (polls (Suc n) env s) = None \<and> m_http_free (polls (Suc n) env s) \<and>
    results (polls (Suc n) env s) = results s @ [(HTTPC_RESULT_ERR_TIMEOUT, rx_content_len req, 0, E_OK)]"
proof (induction n arbitrary: s req)
  case 0
  then show ?case
    by (simp add: httpc_tcp_poll_def httpc_close_def httpc_free_state_def httpc_result_callback_def Let_def
        tcp_call_def app_event_def)
next
  case (Suc n)
  let ?s = "snd (httpc_tcp_poll env s)"
  have "conn ?s = Some (req\<lparr>timeout_ticks := Suc n\<rparr>)" "results ?s = results s"
    using Suc.prems by (simp_all add: httpc_tcp_poll_def Let_def)
  with Suc.IH [of ?s "req\<lparr>timeout_ticks := Suc n\<rparr>"] show ?case by simp
qed

text \<open>
  C37. A request ends even if the server falls silent. After as many polls of the connection
  without received data as ticks are left (30 after a start or a received segment of data)
  the request is freed, a timeout is reported once, and the application is idle again.
\<close>
theorem http_request_times_out:
  assumes "conn s = Some req" and "0 < timeout_ticks req" and "s' = polls (timeout_ticks req) env s"
  shows "conn s' = None \<and> m_http_free s' \<and>
    results s' = results s @ [(HTTPC_RESULT_ERR_TIMEOUT, rx_content_len req, 0, E_OK)]"
  using polls_close [OF assms(1), of "timeout_ticks req - 1"] assms(2,3) by simp

theorem http_request_times_out_witness:
  "conn (polls 30 good_env (blank_http\<lparr>conn := Some blank_request\<rparr>)) = None"
  using http_request_times_out [of "blank_http\<lparr>conn := Some blank_request\<rparr>" blank_request _ good_env, OF _ _ refl]
  by (simp add: blank_request_def)

lemma find_sub_single: "c \<notin> set xs \<Longrightarrow> find_sub [c] (xs @ c # r) = Some (length xs)"
  by (induction xs) auto

text \<open>
  A status line without a reason phrase overflows the stack. When the line ends right
  after the status number, the search for the next space runs on into the header lines;
  if more than ten bytes lie before it they are copied into a local array of ten.
\<close>
theorem status_without_reason_overflows:
  assumes "concat p = str ''HTTP/1.1 '' @ d @ crlf @ x @ [32] @ r" and "32 \<notin> set d" and "32 \<notin> set x"
    and "8 < length d + length x" and "tot_len p < 65535"
  shows "http_parse_response_status p = None"
proof -
  let ?w = "d @ crlf @ x"
  have len: "9 + length ?w < 65535" using assms(1,5) by (simp add: tot_len_def)
  have c: "concat p = (str ''HTTP/1.1'') @ 32 # ?w @ 32 # r" using assms(1) by simp
  obtain e where e: "find_sub crlf (concat p) = Some e"
    using find_sub_iff [of crlf "concat p"] assms(1) by (metis append.assoc not_None_eq)
  then have "e < 65535" using find_sub_Some [OF e] assms(5) by (simp add: tot_len_def)
  then have end1: "pbuf_memfind p crlf 0 = e" "e \<noteq> 0xffff" using e by (simp_all add: pbuf_memfind_flat)
  have "find_sub [32] (concat p) = Some 8"
    unfolding c using find_sub_single [of 32 "str ''HTTP/1.1''"] by simp
  then have s1: "pbuf_memfind p [32] 0 = 8" by (simp add: pbuf_memfind_flat)
  have dr: "drop 9 (concat p) = ?w @ 32 # r" by (simp add: c)
  have "find_sub [32] (drop 9 (concat p)) = Some (length ?w)"
    unfolding dr using assms(2,3) by (intro find_sub_single) auto
  then have s2: "pbuf_memfind p [32] 9 = 9 + length ?w" by (simp add: pbuf_memfind_flat)
  have v: "pbuf_memcmp p 0 (str ''HTTP/'') = 0" by (simp add: pbuf_memcmp_flat c)
  have g: "pbuf_get_at p 6 = 46" by (simp add: pbuf_get_at_flat tot_len_def c)
  have n: "nat ((int (9 + length ?w) - int 8 - 1) mod 2 ^ 32 mod 2 ^ 16) = length ?w" using len by simp
  have lc: "local_copy 10 (pbuf_copy_partial p (length ?w) 9) = None"
    using assms(4) by (simp add: pbuf_copy_partial_flat dr local_copy_def)
  show ?thesis
    unfolding http_parse_response_status_def Let_def end1(1) s1
    using end1(2) len n lc s2 v g by simp
qed

theorem status_without_reason_overflows_witness:
  "http_parse_response_status [str ''HTTP/1.1 200'' @ crlf @ str ''Server: nginx'' @ crlf] = None"
  by (rule status_without_reason_overflows [where d = "str ''200''" and x = "str ''Server:''"
        and r = "str ''nginx'' @ crlf"]) (simp_all add: tot_len_def)

end
