(* ===== verification/Timeouts.thy ===== *)
theory Timeouts
  imports Prelude
begin

text \<open>
  The timers of the stack (\<open>lwip-2.1.2/src/core/timeouts.c\<close>): a list of one-shot timeouts
  ordered by their due times on a 32-bit millisecond clock that wraps, the cyclic timers that
  renew themselves, and \<open>sys_check_timeouts\<close>, which the polling task of the manager calls.

  The list is a list of records in link order; its blocks come from the pool
  \<open>MEMP_SYS_TIMEOUT\<close>, which serves nothing else, so that an allocation succeeds as long as the
  list is shorter than the pool. Handlers outside the file are arguments: \<open>acts\<close> gives, for
  the calls made so far, what the function called last does with the timers and how much time
  it takes; \<open>pcbs\<close> tells whether TCP has active or waiting connections then.
\<close>

section \<open>Data\<close>

datatype 'h handler = Lwip_Cyclic_Timer | Tcpip_Tcp_Timer | Handler 'h

datatype 'a arg = Arg_Null | Arg_Cyclic nat | Arg 'a

record ('h, 'a) sys_timeo =
  to_time :: u32
  to_h :: "'h handler option"
  to_arg :: "'a arg"

text \<open>A function outside the file that a timer has called.\<close>

datatype ('h, 'a) callee = Tcp_Tmr | Dns_Tmr | User 'h "'a arg"

type_synonym ('h, 'a) call_log = "(('h, 'a) callee \<times> nat) list"

text \<open>
  The static variables, the milliseconds since the clock was zero (the code sees them
  modulo $2^{32}$) and the calls made, each with its time.
\<close>

record ('h, 'a) timers =
  next_timeout :: "('h, 'a) sys_timeo list"
  current_timeout_due_time :: u32
  tcpip_tcp_timer_active :: bool
  tick :: nat
  calls :: "('h, 'a) call_log"

definition sys_now :: "('h, 'a) timers \<Rightarrow> u32" where
  "sys_now s = word_of_nat (tick s)"

abbreviation MEMP_NUM_SYS_TIMEOUT :: nat where
  "MEMP_NUM_SYS_TIMEOUT \<equiv> 4"

definition TIME_LESS_THAN :: "u32 \<Rightarrow> u32 \<Rightarrow> bool" where
  "TIME_LESS_THAN t compare_to \<longleftrightarrow> 0x7fffffff < t - compare_to"

definition TCP_TMR_INTERVAL :: u32 where
  "TCP_TMR_INTERVAL = 500"

definition lwip_cyclic_timers :: "(u32 \<times> ('h, 'a) callee) list" where
  "lwip_cyclic_timers = [(TCP_TMR_INTERVAL, Tcp_Tmr), (1000, Dns_Tmr)]"

section \<open>Arming and cancelling\<close>

fun insert_after :: "('h, 'a) sys_timeo \<Rightarrow> ('h, 'a) sys_timeo list \<Rightarrow> ('h, 'a) sys_timeo list" where
  "insert_after n [] = []"
| "insert_after n [t] = [t, n]"
| "insert_after n (t # u # ts) =
     (if TIME_LESS_THAN (to_time n) (to_time u) then t # n # u # ts
      else t # insert_after n (u # ts))"

definition sys_timeout_abs ::
  "u32 \<Rightarrow> 'h handler option \<Rightarrow> 'a arg \<Rightarrow> ('h, 'a) timers \<Rightarrow> ('h, 'a) timers" where
  "sys_timeout_abs abs_time h a s =
     (if MEMP_NUM_SYS_TIMEOUT \<le> length (next_timeout s) then s
      else let n = \<lparr>to_time = abs_time, to_h = h, to_arg = a\<rparr> in
        (case next_timeout s of
           [] \<Rightarrow> s\<lparr>next_timeout := [n]\<rparr>
         | t # ts \<Rightarrow>
             if TIME_LESS_THAN (to_time n) (to_time t) then s\<lparr>next_timeout := n # t # ts\<rparr>
             else s\<lparr>next_timeout := insert_after n (t # ts)\<rparr>))"

definition sys_timeout ::
  "u32 \<Rightarrow> 'h handler option \<Rightarrow> 'a arg \<Rightarrow> ('h, 'a) timers \<Rightarrow> ('h, 'a) timers" where
  "sys_timeout msecs h a s = sys_timeout_abs (sys_now s + msecs) h a s"

fun unlink :: "'h handler option \<Rightarrow> 'a arg \<Rightarrow> ('h, 'a) sys_timeo list \<Rightarrow> ('h, 'a) sys_timeo list" where
  "unlink h a [] = []"
| "unlink h a (t # ts) = (if to_h t = h \<and> to_arg t = a then ts else t # unlink h a ts)"

definition sys_untimeout ::
  "'h handler option \<Rightarrow> 'a arg \<Rightarrow> ('h, 'a) timers \<Rightarrow> ('h, 'a) timers" where
  "sys_untimeout h a s = s\<lparr>next_timeout := unlink h a (next_timeout s)\<rparr>"

definition tcp_timer_needed :: "bool \<Rightarrow> ('h, 'a) timers \<Rightarrow> ('h, 'a) timers" where
  "tcp_timer_needed tcp_pcbs s =
     (if \<not> tcpip_tcp_timer_active s \<and> tcp_pcbs
      then sys_timeout TCP_TMR_INTERVAL (Some Tcpip_Tcp_Timer) Arg_Null
             (s\<lparr>tcpip_tcp_timer_active := True\<rparr>)
      else s)"

definition sys_timeouts_init :: "('h, 'a) timers \<Rightarrow> ('h, 'a) timers" where
  "sys_timeouts_init s =
     foldl (\<lambda>s i. sys_timeout (fst (lwip_cyclic_timers ! i :: u32 \<times> ('h, 'a) callee))
                    (Some Lwip_Cyclic_Timer) (Arg_Cyclic i) s)
       s [1 ..< length (lwip_cyclic_timers :: (u32 \<times> ('h, 'a) callee) list)]"

section \<open>What the rest of the program does\<close>

datatype ('h, 'a) act =
    Timeout u32 "'h option" "'a arg"
  | Untimeout "'h option" "'a arg"
  | Timer_Needed bool
  | Elapse nat

primrec do_act :: "('h, 'a) act \<Rightarrow> ('h, 'a) timers \<Rightarrow> ('h, 'a) timers" where
  "do_act (Timeout msecs h a) s = sys_timeout msecs (map_option Handler h) a s"
| "do_act (Untimeout h a) s = sys_untimeout (map_option Handler h) a s"
| "do_act (Timer_Needed tcp_pcbs) s = tcp_timer_needed tcp_pcbs s"
| "do_act (Elapse n) s = s\<lparr>tick := tick s + n\<rparr>"

definition call_out ::
  "(('h, 'a) call_log \<Rightarrow> ('h, 'a) act list) \<Rightarrow> ('h, 'a) callee \<Rightarrow> ('h, 'a) timers \<Rightarrow> ('h, 'a) timers" where
  "call_out acts c s =
     (let s = s\<lparr>calls := calls s @ [(c, tick s)]\<rparr> in fold do_act (acts (calls s)) s)"

section \<open>Expiry\<close>

definition tcpip_tcp_timer ::
  "(('h, 'a) call_log \<Rightarrow> ('h, 'a) act list) \<Rightarrow> (('h, 'a) call_log \<Rightarrow> bool) \<Rightarrow>
   ('h, 'a) timers \<Rightarrow> ('h, 'a) timers" where
  "tcpip_tcp_timer acts pcbs s =
     (let s = call_out acts Tcp_Tmr s in
      if pcbs (calls s) then sys_timeout TCP_TMR_INTERVAL (Some Tcpip_Tcp_Timer) Arg_Null s
      else s\<lparr>tcpip_tcp_timer_active := False\<rparr>)"

definition lwip_cyclic_timer ::
  "(('h, 'a) call_log \<Rightarrow> ('h, 'a) act list) \<Rightarrow> nat \<Rightarrow> ('h, 'a) timers \<Rightarrow> ('h, 'a) timers" where
  "lwip_cyclic_timer acts i s =
     (let (interval_ms, callee) = lwip_cyclic_timers ! i;
          s = call_out acts callee s;
          now = sys_now s;
          next_timeout_time = current_timeout_due_time s + interval_ms
      in if TIME_LESS_THAN next_timeout_time now
         then sys_timeout_abs (now + interval_ms) (Some Lwip_Cyclic_Timer) (Arg_Cyclic i) s
         else sys_timeout_abs next_timeout_time (Some Lwip_Cyclic_Timer) (Arg_Cyclic i) s)"

text \<open>\<open>handler(arg)\<close>: the cyclic timer casts its argument to an entry of the table.\<close>

definition call_handler ::
  "(('h, 'a) call_log \<Rightarrow> ('h, 'a) act list) \<Rightarrow> (('h, 'a) call_log \<Rightarrow> bool) \<Rightarrow>
   'h handler option \<Rightarrow> 'a arg \<Rightarrow> ('h, 'a) timers \<Rightarrow> ('h, 'a) timers option" where
  "call_handler acts pcbs h a s =
     (case h of
        None \<Rightarrow> Some s
      | Some Lwip_Cyclic_Timer \<Rightarrow>
          (case a of
             Arg_Cyclic i \<Rightarrow>
               if i < length (lwip_cyclic_timers :: (u32 \<times> ('h, 'a) callee) list)
               then Some (lwip_cyclic_timer acts i s) else None
           | _ \<Rightarrow> None)
      | Some Tcpip_Tcp_Timer \<Rightarrow> Some (tcpip_tcp_timer acts pcbs s)
      | Some (Handler x) \<Rightarrow> Some (call_out acts (User x a) s))"

definition check_round ::
  "(('h, 'a) call_log \<Rightarrow> ('h, 'a) act list) \<Rightarrow> (('h, 'a) call_log \<Rightarrow> bool) \<Rightarrow> u32 \<Rightarrow>
   ('h, 'a) timers \<Rightarrow> (('h, 'a) timers + ('h, 'a) timers) option" where
  "check_round acts pcbs now s =
     (case next_timeout s of
        [] \<Rightarrow> Some (Inr s)
      | t # ts \<Rightarrow>
          if TIME_LESS_THAN now (to_time t) then Some (Inr s)
          else map_option Inl (call_handler acts pcbs (to_h t) (to_arg t)
                 (s\<lparr>next_timeout := ts, current_timeout_due_time := to_time t\<rparr>)))"

definition sys_check_timeouts ::
  "(('h, 'a) call_log \<Rightarrow> ('h, 'a) act list) \<Rightarrow> (('h, 'a) call_log \<Rightarrow> bool) \<Rightarrow>
   ('h, 'a) timers \<Rightarrow> ('h, 'a) timers option" where
  "sys_check_timeouts acts pcbs s = loop (check_round acts pcbs (sys_now s)) s"

definition sys_restart_timeouts :: "('h, 'a) timers \<Rightarrow> ('h, 'a) timers" where
  "sys_restart_timeouts s =
     (case next_timeout s of
        [] \<Rightarrow> s
      | t # ts \<Rightarrow>
          s\<lparr>next_timeout := map (\<lambda>u. u\<lparr>to_time := (to_time u - to_time t) + sys_now s\<rparr>) (t # ts)\<rparr>)"

definition sys_timeouts_sleeptime :: "('h, 'a) timers \<Rightarrow> u32" where
  "sys_timeouts_sleeptime s =
     (case next_timeout s of
        [] \<Rightarrow> 0xFFFFFFFF
      | t # ts \<Rightarrow>
          if TIME_LESS_THAN (to_time t) (sys_now s) then 0 else to_time t - sys_now s)"

text \<open>An execution: the program's own calls, and the polls of the main loop.\<close>

datatype ('h, 'a) step = Act "('h, 'a) act" | Check | Restart

primrec do_step ::
  "(('h, 'a) call_log \<Rightarrow> ('h, 'a) act list) \<Rightarrow> (('h, 'a) call_log \<Rightarrow> bool) \<Rightarrow>
   ('h, 'a) step \<Rightarrow> ('h, 'a) timers \<Rightarrow> ('h, 'a) timers option" where
  "do_step acts pcbs (Act x) s = Some (do_act x s)"
| "do_step acts pcbs Check s = sys_check_timeouts acts pcbs s"
| "do_step acts pcbs Restart s = Some (sys_restart_timeouts s)"

fun run_steps ::
  "(('h, 'a) call_log \<Rightarrow> ('h, 'a) act list) \<Rightarrow> (('h, 'a) call_log \<Rightarrow> bool) \<Rightarrow>
   ('h, 'a) step list \<Rightarrow> ('h, 'a) timers \<Rightarrow> ('h, 'a) timers option" where
  "run_steps acts pcbs [] s = Some s"
| "run_steps acts pcbs (x # xs) s = do { s \<leftarrow> do_step acts pcbs x s; run_steps acts pcbs xs s }"

text \<open>The state after \<open>lwip_init\<close>, at any reading of the clock.\<close>

definition timers_boot :: "nat \<Rightarrow> ('h, 'a) timers" where
  "timers_boot c = sys_timeouts_init
     \<lparr>next_timeout = [], current_timeout_due_time = 0, tcpip_tcp_timer_active = False,
      tick = c, calls = []\<rparr>"


section \<open>The same timers on a clock that does not wrap\<close>

text \<open>
  The specification keeps absolute due times as integers, in order, a new deadline behind
  those due no later. It has no result (\<open>None\<close>) where the execution leaves the contract of
  the code: a timeout of more than a quarter of the clock's range, which \<open>sys_timeout\<close>
  asserts, or a delay of a due call by as much.
\<close>

definition horizon :: nat where
  "horizon = 2 ^ 30"

record ('h, 'a) schedule =
  deadlines :: "(int \<times> 'h handler option \<times> 'a arg) list"
  q_due :: int
  q_tcp :: bool
  q_now :: nat
  q_calls :: "('h, 'a) call_log"

definition q_arm ::
  "int \<Rightarrow> 'h handler option \<Rightarrow> 'a arg \<Rightarrow> ('h, 'a) schedule \<Rightarrow> ('h, 'a) schedule" where
  "q_arm d h a q =
     (if MEMP_NUM_SYS_TIMEOUT \<le> length (deadlines q) then q
      else q\<lparr>deadlines := takeWhile (\<lambda>e. fst e \<le> d) (deadlines q) @ (d, h, a)
               # dropWhile (\<lambda>e. fst e \<le> d) (deadlines q)\<rparr>)"

definition q_timeout ::
  "u32 \<Rightarrow> 'h handler option \<Rightarrow> 'a arg \<Rightarrow> ('h, 'a) schedule \<Rightarrow> ('h, 'a) schedule" where
  "q_timeout msecs h a q = q_arm (int (q_now q) + uint msecs) h a q"

fun q_unlink ::
  "'h handler option \<Rightarrow> 'a arg \<Rightarrow> (int \<times> 'h handler option \<times> 'a arg) list \<Rightarrow>
   (int \<times> 'h handler option \<times> 'a arg) list" where
  "q_unlink h a [] = []"
| "q_unlink h a (e # es) = (if snd e = (h, a) then es else e # q_unlink h a es)"

definition punctual :: "('h, 'a) schedule \<Rightarrow> bool" where
  "punctual q \<longleftrightarrow> (\<forall>e\<in>set (deadlines q). int (q_now q) - fst e < int horizon)"

primrec q_act :: "('h, 'a) act \<Rightarrow> ('h, 'a) schedule \<Rightarrow> ('h, 'a) schedule option" where
  "q_act (Timeout msecs h a) q =
     (if unat msecs < horizon then Some (q_timeout msecs (map_option Handler h) a q) else None)"
| "q_act (Untimeout h a) q =
     Some (q\<lparr>deadlines := q_unlink (map_option Handler h) a (deadlines q)\<rparr>)"
| "q_act (Timer_Needed tcp_pcbs) q =
     Some (if \<not> q_tcp q \<and> tcp_pcbs
           then q_timeout TCP_TMR_INTERVAL (Some Tcpip_Tcp_Timer) Arg_Null (q\<lparr>q_tcp := True\<rparr>)
           else q)"
| "q_act (Elapse n) q =
     (let q = q\<lparr>q_now := q_now q + n\<rparr> in if punctual q then Some q else None)"

fun q_acts :: "('h, 'a) act list \<Rightarrow> ('h, 'a) schedule \<Rightarrow> ('h, 'a) schedule option" where
  "q_acts [] q = Some q"
| "q_acts (x # xs) q = do { q \<leftarrow> q_act x q; q_acts xs q }"

definition q_call_out ::
  "(('h, 'a) call_log \<Rightarrow> ('h, 'a) act list) \<Rightarrow> ('h, 'a) callee \<Rightarrow>
   ('h, 'a) schedule \<Rightarrow> ('h, 'a) schedule option" where
  "q_call_out acts c q =
     (let q = q\<lparr>q_calls := q_calls q @ [(c, q_now q)]\<rparr> in q_acts (acts (q_calls q)) q)"

definition q_tcp_timer ::
  "(('h, 'a) call_log \<Rightarrow> ('h, 'a) act list) \<Rightarrow> (('h, 'a) call_log \<Rightarrow> bool) \<Rightarrow>
   ('h, 'a) schedule \<Rightarrow> ('h, 'a) schedule option" where
  "q_tcp_timer acts pcbs q = do {
     q \<leftarrow> q_call_out acts Tcp_Tmr q;
     Some (if pcbs (q_calls q) then q_timeout TCP_TMR_INTERVAL (Some Tcpip_Tcp_Timer) Arg_Null q
           else q\<lparr>q_tcp := False\<rparr>) }"

text \<open>A cyclic timer is due one interval after it was due, or after now if that has passed.\<close>

definition q_cyclic_timer ::
  "(('h, 'a) call_log \<Rightarrow> ('h, 'a) act list) \<Rightarrow> nat \<Rightarrow>
   ('h, 'a) schedule \<Rightarrow> ('h, 'a) schedule option" where
  "q_cyclic_timer acts i q =
     (let (interval, callee) = lwip_cyclic_timers ! i in do {
        q \<leftarrow> q_call_out acts callee q;
        if int (q_now q) - q_due q < int horizon
        then Some (let d = q_due q + uint interval in
               q_arm (if d < int (q_now q) then int (q_now q) + uint interval else d)
                 (Some Lwip_Cyclic_Timer) (Arg_Cyclic i) q)
        else None })"

definition q_call ::
  "(('h, 'a) call_log \<Rightarrow> ('h, 'a) act list) \<Rightarrow> (('h, 'a) call_log \<Rightarrow> bool) \<Rightarrow>
   'h handler option \<Rightarrow> 'a arg \<Rightarrow> ('h, 'a) schedule \<Rightarrow> ('h, 'a) schedule option" where
  "q_call acts pcbs h a q =
     (case h of
        None \<Rightarrow> Some q
      | Some Lwip_Cyclic_Timer \<Rightarrow>
          (case a of
             Arg_Cyclic i \<Rightarrow>
               if i < length (lwip_cyclic_timers :: (u32 \<times> ('h, 'a) callee) list)
               then q_cyclic_timer acts i q else None
           | _ \<Rightarrow> None)
      | Some Tcpip_Tcp_Timer \<Rightarrow> q_tcp_timer acts pcbs q
      | Some (Handler x) \<Rightarrow> q_call_out acts (User x a) q)"

definition q_round ::
  "(('h, 'a) call_log \<Rightarrow> ('h, 'a) act list) \<Rightarrow> (('h, 'a) call_log \<Rightarrow> bool) \<Rightarrow> nat \<Rightarrow>
   ('h, 'a) schedule \<Rightarrow> (('h, 'a) schedule + ('h, 'a) schedule) option" where
  "q_round acts pcbs now q =
     (if q_now q - now < horizon then
        (case deadlines q of
           [] \<Rightarrow> Some (Inr q)
         | (d, h, a) # es \<Rightarrow>
             if int now < d then Some (Inr q)
             else map_option Inl (q_call acts pcbs h a (q\<lparr>deadlines := es, q_due := d\<rparr>)))
      else None)"

definition q_check ::
  "(('h, 'a) call_log \<Rightarrow> ('h, 'a) act list) \<Rightarrow> (('h, 'a) call_log \<Rightarrow> bool) \<Rightarrow>
   ('h, 'a) schedule \<Rightarrow> ('h, 'a) schedule option" where
  "q_check acts pcbs q = loop (q_round acts pcbs (q_now q)) q"

text \<open>After a long sleep all deadlines are moved so that the first is due now.\<close>

definition q_restart :: "('h, 'a) schedule \<Rightarrow> ('h, 'a) schedule option" where
  "q_restart q =
     (case deadlines q of
        [] \<Rightarrow> Some q
      | e # es \<Rightarrow>
          if fst (last (e # es)) - fst e < int horizon
          then Some (q\<lparr>deadlines := map (\<lambda>x. (fst x - fst e + int (q_now q), snd x)) (e # es)\<rparr>)
          else None)"

primrec q_step ::
  "(('h, 'a) call_log \<Rightarrow> ('h, 'a) act list) \<Rightarrow> (('h, 'a) call_log \<Rightarrow> bool) \<Rightarrow>
   ('h, 'a) step \<Rightarrow> ('h, 'a) schedule \<Rightarrow> ('h, 'a) schedule option" where
  "q_step acts pcbs (Act x) q = q_act x q"
| "q_step acts pcbs Check q = q_check acts pcbs q"
| "q_step acts pcbs Restart q = q_restart q"

fun q_run ::
  "(('h, 'a) call_log \<Rightarrow> ('h, 'a) act list) \<Rightarrow> (('h, 'a) call_log \<Rightarrow> bool) \<Rightarrow>
   ('h, 'a) step list \<Rightarrow> ('h, 'a) schedule \<Rightarrow> ('h, 'a) schedule option" where
  "q_run acts pcbs [] q = Some q"
| "q_run acts pcbs (x # xs) q = do { q \<leftarrow> q_step acts pcbs x q; q_run acts pcbs xs q }"

definition q_boot :: "nat \<Rightarrow> ('h, 'a) schedule" where
  "q_boot c = \<lparr>deadlines = [(int c + 1000, Some Lwip_Cyclic_Timer, Arg_Cyclic 1)], q_due = 0,
     q_tcp = False, q_now = c, q_calls = []\<rparr>"

definition q_sleeptime :: "('h, 'a) schedule \<Rightarrow> int" where
  "q_sleeptime q =
     (case deadlines q of [] \<Rightarrow> 0xFFFFFFFF | e # es \<Rightarrow> max 0 (fst e - int (q_now q)))"

section \<open>The wrapping clock agrees with it\<close>

text \<open>Comparison modulo $2^{32}$ is comparison of times less than half the range apart.\<close>

lemma TIME_LESS_THAN_of_int:
  assumes "- (2 ^ 31) \<le> a - b" "a - b < 2 ^ 31"
  shows "TIME_LESS_THAN (word_of_int a) (word_of_int b) \<longleftrightarrow> a < b"
proof -
  have u: "uint (word_of_int a - word_of_int b :: u32) = (a - b) mod 2 ^ 32"
    by (simp add: of_int_diff [symmetric] unsigned_of_int take_bit_eq_mod del: of_int_diff)
  have "(a - b) mod 2 ^ 32 = (if a < b then a - b + 2 ^ 32 else a - b)"
  proof (cases "a < b")
    case True
    have "(a - b) mod 2 ^ 32 = (a - b + 2 ^ 32) mod 2 ^ 32" by simp
    also have "\<dots> = a - b + 2 ^ 32" using True assms by (intro mod_pos_pos_trivial) auto
    finally show ?thesis using True by simp
  next
    case False
    then show ?thesis using assms by (auto intro: mod_pos_pos_trivial)
  qed
  then show ?thesis using assms u by (auto simp: TIME_LESS_THAN_def word_less_alt split: if_splits)
qed

definition stamp :: "int \<times> 'h handler option \<times> 'a arg \<Rightarrow> ('h, 'a) sys_timeo" where
  "stamp e = \<lparr>to_time = word_of_int (fst e), to_h = fst (snd e), to_arg = snd (snd e)\<rparr>"

lemma stamp_simps [simp]:
  "to_time (stamp e) = word_of_int (fst e)" "to_h (stamp e) = fst (snd e)" "to_arg (stamp e) = snd (snd e)"
  by (simp_all add: stamp_def)

definition in_reach :: "int \<Rightarrow> int \<Rightarrow> bool" where
  "in_reach c d \<longleftrightarrow> c - d < int horizon \<and> d - c < int horizon"

lemma in_reach_less:
  "in_reach c d \<Longrightarrow> in_reach c e \<Longrightarrow> TIME_LESS_THAN (word_of_int d) (word_of_int e) \<longleftrightarrow> d < e"
  by (rule TIME_LESS_THAN_of_int) (auto simp: in_reach_def horizon_def)

text \<open>A well-formed schedule is ordered and lies within reach of its clock.\<close>

definition schedule_ok :: "('h, 'a) schedule \<Rightarrow> bool" where
  "schedule_ok q \<longleftrightarrow> sorted (map fst (deadlines q)) \<and>
     (\<forall>e\<in>set (deadlines q). in_reach (int (q_now q)) (fst e))"

definition timers_sim :: "('h, 'a) timers \<Rightarrow> ('h, 'a) schedule \<Rightarrow> bool" where
  "timers_sim s q \<longleftrightarrow> schedule_ok q \<and> next_timeout s = map stamp (deadlines q) \<and>
     current_timeout_due_time s = word_of_int (q_due q) \<and> tcpip_tcp_timer_active s = q_tcp q \<and>
     tick s = q_now q \<and> calls s = q_calls q"

lemma insert_after_stamp:
  assumes "\<not> d < fst e" "\<forall>x\<in>set (e # es). in_reach c (fst x)" "in_reach c d"
  shows "insert_after (stamp (d, h, a)) (map stamp (e # es)) =
    map stamp (takeWhile (\<lambda>x. fst x \<le> d) (e # es) @ (d, h, a) # dropWhile (\<lambda>x. fst x \<le> d) (e # es))"
  using assms
proof (induction es arbitrary: e)
  case Nil
  then show ?case by simp
next
  case (Cons f es)
  from Cons.prems have "in_reach c (fst f)" by simp
  with Cons.prems(3) have "TIME_LESS_THAN (word_of_int d) (word_of_int (fst f)) \<longleftrightarrow> d < fst f"
    by (rule in_reach_less)
  with Cons.prems Cons.IH [of f] show ?case by auto
qed

text \<open>Arming in terms of the abstract entry.\<close>

lemma sys_timeout_abs_stamp:
  "sys_timeout_abs (word_of_int d) h a s =
     (if MEMP_NUM_SYS_TIMEOUT \<le> length (next_timeout s) then s
      else s\<lparr>next_timeout :=
        (case next_timeout s of
           [] \<Rightarrow> [stamp (d, h, a)]
         | t # ts \<Rightarrow> if TIME_LESS_THAN (word_of_int d) (to_time t) then stamp (d, h, a) # t # ts
             else insert_after (stamp (d, h, a)) (t # ts))\<rparr>)"
  by (auto simp: sys_timeout_abs_def stamp_def split: list.splits)

lemma arm_list:
  assumes "\<forall>x\<in>set es. in_reach c (fst x)" "in_reach c d" "sorted (map fst es)"
  shows "(case map stamp es of
           [] \<Rightarrow> [stamp (d, h, a)]
         | t # ts \<Rightarrow> if TIME_LESS_THAN (word_of_int d) (to_time t) then stamp (d, h, a) # t # ts
             else insert_after (stamp (d, h, a)) (t # ts)) =
    map stamp (takeWhile (\<lambda>x. fst x \<le> d) es @ (d, h, a) # dropWhile (\<lambda>x. fst x \<le> d) es)"
proof (cases es)
  case Nil
  then show ?thesis by simp
next
  case (Cons e r)
  with assms have "TIME_LESS_THAN (word_of_int d) (word_of_int (fst e)) \<longleftrightarrow> d < fst e"
    using in_reach_less by (metis list.set_intros(1))
  then show ?thesis using Cons assms insert_after_stamp [of d e r c h a]
    by (cases "d < fst e") auto
qed

lemma sorted_arm:
  assumes "sorted (map fst es)"
  shows "sorted (map fst (takeWhile (\<lambda>x. fst x \<le> d) es @ (d, h, a) # dropWhile (\<lambda>x. fst x \<le> d) es))"
  using assms by (induction es) (fastforce dest: set_takeWhileD set_dropWhileD)+

lemma sim_arm:
  assumes "timers_sim s q" "in_reach (int (q_now q)) d"
  shows "timers_sim (sys_timeout_abs (word_of_int d) h a s) (q_arm d h a q)"
  using assms arm_list [of "deadlines q" "int (q_now q)" d h a] sorted_arm [of "deadlines q" d h a]
  by (auto simp: timers_sim_def schedule_ok_def sys_timeout_abs_stamp q_arm_def
      dest!: set_takeWhileD set_dropWhileD)

lemma sys_now_sim: "timers_sim s q \<Longrightarrow> sys_now s = word_of_int (int (q_now q))"
  by (simp add: timers_sim_def sys_now_def)

lemma sim_timeout:
  assumes "timers_sim s q" "unat msecs < horizon"
  shows "timers_sim (sys_timeout msecs h a s) (q_timeout msecs h a q)"
proof -
  have e: "sys_now s + msecs = word_of_int (int (q_now q) + uint msecs)"
    using assms(1) by (simp add: sys_now_sim)
  have "in_reach (int (q_now q)) (int (q_now q) + uint msecs)"
    using assms(2) by (simp add: in_reach_def horizon_def uint_nat del: of_nat_unat)
  then show ?thesis unfolding sys_timeout_def q_timeout_def e by (rule sim_arm [OF assms(1)])
qed

lemma unlink_stamp: "unlink h a (map stamp es) = map stamp (q_unlink h a es)"
  by (induction es) (auto simp: prod_eq_iff)

lemma q_unlink_set: "e \<in> set (q_unlink h a es) \<Longrightarrow> e \<in> set es"
  by (induction es) (auto split: if_splits)

lemma q_unlink_sorted: "sorted (map fst es) \<Longrightarrow> sorted (map fst (q_unlink h a es))"
  by (induction es) (auto dest: q_unlink_set)

lemma sim_untimeout:
  "timers_sim s q \<Longrightarrow> timers_sim (sys_untimeout h a s) (q\<lparr>deadlines := q_unlink h a (deadlines q)\<rparr>)"
  by (auto simp: timers_sim_def schedule_ok_def sys_untimeout_def unlink_stamp q_unlink_sorted
      dest: q_unlink_set)

lemma sim_tcp_active:
  "timers_sim s q \<Longrightarrow> timers_sim (s\<lparr>tcpip_tcp_timer_active := b\<rparr>) (q\<lparr>q_tcp := b\<rparr>)"
  by (simp add: timers_sim_def schedule_ok_def)

lemma tcp_interval: "unat TCP_TMR_INTERVAL < horizon"
  by (simp add: TCP_TMR_INTERVAL_def horizon_def)

lemma sim_elapse:
  "timers_sim s q \<Longrightarrow> punctual (q\<lparr>q_now := q_now q + n\<rparr>) \<Longrightarrow>
     timers_sim (s\<lparr>tick := tick s + n\<rparr>) (q\<lparr>q_now := q_now q + n\<rparr>)"
  by (fastforce simp: timers_sim_def schedule_ok_def punctual_def in_reach_def)

lemma sim_act:
  assumes "timers_sim s q" "q_act x q = Some q'"
  shows "timers_sim (do_act x s) q'"
proof (cases x)
  case (Timer_Needed b)
  then show ?thesis
    using assms sim_timeout [OF sim_tcp_active [OF assms(1)] tcp_interval]
    by (auto simp: tcp_timer_needed_def timers_sim_def [of s q])
qed (use assms in \<open>auto simp: sim_timeout sim_untimeout sim_elapse Let_def split: if_splits\<close>)

lemma sim_acts: "timers_sim s q \<Longrightarrow> q_acts xs q = Some q' \<Longrightarrow> timers_sim (fold do_act xs s) q'"
  by (induction xs arbitrary: s q) (auto split: bind_splits intro: sim_act)

lemma sim_call_out:
  assumes "timers_sim s q" "q_call_out acts c q = Some q'"
  shows "timers_sim (call_out acts c s) q'"
proof -
  have "timers_sim (s\<lparr>calls := calls s @ [(c, tick s)]\<rparr>) (q\<lparr>q_calls := q_calls q @ [(c, q_now q)]\<rparr>)"
    and "calls s = q_calls q" "tick s = q_now q"
    using assms(1) by (simp_all add: timers_sim_def schedule_ok_def)
  with sim_acts assms(2) show ?thesis by (simp add: call_out_def q_call_out_def Let_def)
qed

text \<open>Neither arming nor cancelling touches the clock or the due time of the call in progress.\<close>

lemma q_arm_frame [simp]: "q_now (q_arm d h a q) = q_now q" "q_due (q_arm d h a q) = q_due q"
  by (simp_all add: q_arm_def)

lemma q_timeout_frame [simp]: "q_now (q_timeout m h a q) = q_now q" "q_due (q_timeout m h a q) = q_due q"
  by (simp_all add: q_timeout_def)

lemma q_act_frame: "q_act x q = Some q' \<Longrightarrow> q_due q' = q_due q \<and> q_now q \<le> q_now q'"
  by (cases x) (auto simp: Let_def split: if_splits)

lemma q_acts_frame: "q_acts xs q = Some q' \<Longrightarrow> q_due q' = q_due q \<and> q_now q \<le> q_now q'"
  by (induction xs arbitrary: q) (auto split: bind_splits dest!: q_act_frame, force+)

lemma q_call_out_frame: "q_call_out acts c q = Some q' \<Longrightarrow> q_due q' = q_due q \<and> q_now q \<le> q_now q'"
  by (auto simp: q_call_out_def Let_def dest: q_acts_frame)

lemma cyclic_interval:
  assumes "i < length (lwip_cyclic_timers :: (u32 \<times> ('h, 'a) callee) list)"
  shows "uint (fst (lwip_cyclic_timers ! i :: u32 \<times> ('h, 'a) callee)) \<in> {500, 1000}"
proof -
  from assms have "i = 0 \<or> i = 1" by (simp add: lwip_cyclic_timers_def) arith
  then show ?thesis by (auto simp: lwip_cyclic_timers_def TCP_TMR_INTERVAL_def)
qed

lemma sim_cyclic_timer:
  fixes s :: "('h, 'a) timers"
  assumes "timers_sim s q" "q_cyclic_timer acts i q = Some q'" "q_due q \<le> int (q_now q)"
    and i: "i < length (lwip_cyclic_timers :: (u32 \<times> ('h, 'a) callee) list)"
  shows "timers_sim (lwip_cyclic_timer acts i s) q'"
proof -
  obtain iv c where ic: "lwip_cyclic_timers ! i = (iv, c :: ('h, 'a) callee)" by fastforce
  with cyclic_interval [OF i] have iv: "uint iv = 500 \<or> uint iv = 1000" by auto
  obtain p where p: "q_call_out acts c q = Some p" "int (q_now p) - q_due p < int horizon"
    and q': "q' = (let d = q_due p + uint iv in
        q_arm (if d < int (q_now p) then int (q_now p) + uint iv else d)
          (Some Lwip_Cyclic_Timer) (Arg_Cyclic i) p)"
    using assms(2) ic by (auto simp: q_cyclic_timer_def split: bind_splits if_splits)
  let ?s = "call_out acts c s"
  have sim: "timers_sim ?s p" by (rule sim_call_out [OF assms(1) p(1)])
  then have now: "sys_now ?s = word_of_int (int (q_now p))"
    and due: "current_timeout_due_time ?s = word_of_int (q_due p)"
    by (simp_all add: sys_now_sim) (simp add: timers_sim_def)
  have "q_due p \<le> int (q_now p)" using q_call_out_frame [OF p(1)] assms(3) by simp
  with p(2) iv have r: "in_reach (int (q_now p)) (q_due p + uint iv)"
    "in_reach (int (q_now p)) (int (q_now p) + uint iv)" "in_reach (int (q_now p)) (int (q_now p))"
    by (auto simp: in_reach_def horizon_def)
  have w: "current_timeout_due_time ?s + iv = word_of_int (q_due p + uint iv)"
    "sys_now ?s + iv = word_of_int (int (q_now p) + uint iv)"
    by (simp_all add: now due)
  have less: "TIME_LESS_THAN (word_of_int (q_due p + uint iv)) (word_of_int (int (q_now p)))
      \<longleftrightarrow> q_due p + uint iv < int (q_now p)"
    by (rule in_reach_less [OF r(1,3)])
  have "lwip_cyclic_timer acts i s =
      (if TIME_LESS_THAN (current_timeout_due_time ?s + iv) (sys_now ?s)
       then sys_timeout_abs (sys_now ?s + iv) (Some Lwip_Cyclic_Timer) (Arg_Cyclic i) ?s
       else sys_timeout_abs (current_timeout_due_time ?s + iv) (Some Lwip_Cyclic_Timer) (Arg_Cyclic i) ?s)"
    by (simp add: lwip_cyclic_timer_def ic Let_def)
  also have "\<dots> = sys_timeout_abs (word_of_int (if q_due p + uint iv < int (q_now p)
        then int (q_now p) + uint iv else q_due p + uint iv)) (Some Lwip_Cyclic_Timer) (Arg_Cyclic i) ?s"
    unfolding w unfolding now less by simp
  finally show ?thesis using sim_arm [OF sim] r(1,2) by (simp add: q' Let_def)
qed

lemma sim_call:
  assumes "timers_sim s q" "q_call acts pcbs h a q = Some q'" "q_due q \<le> int (q_now q)"
  shows "\<exists>s'. call_handler acts pcbs h a s = Some s' \<and> timers_sim s' q'"
proof (cases h)
  case None
  with assms show ?thesis by (simp add: q_call_def call_handler_def)
next
  case (Some x)
  show ?thesis
  proof (cases x)
    case Lwip_Cyclic_Timer
    with Some assms show ?thesis
      by (auto simp: q_call_def call_handler_def sim_cyclic_timer split: arg.splits if_splits)
  next
    case Tcpip_Tcp_Timer
    with Some assms(2) obtain p where p: "q_call_out acts Tcp_Tmr q = Some p"
      "q' = (if pcbs (q_calls p) then q_timeout TCP_TMR_INTERVAL (Some Tcpip_Tcp_Timer) Arg_Null p
             else p\<lparr>q_tcp := False\<rparr>)"
      by (auto simp: q_call_def q_tcp_timer_def split: bind_splits)
    have sim: "timers_sim (call_out acts Tcp_Tmr s) p" by (rule sim_call_out [OF assms(1) p(1)])
    then have "calls (call_out acts Tcp_Tmr s) = q_calls p" by (simp add: timers_sim_def)
    with Some Tcpip_Tcp_Timer p(2) sim_timeout [OF sim tcp_interval] sim_tcp_active [OF sim]
    show ?thesis by (simp add: call_handler_def tcpip_tcp_timer_def Let_def)
  next
    case (Handler y)
    with Some assms show ?thesis by (simp add: q_call_def call_handler_def sim_call_out)
  qed
qed

lemma q_call_frame:
  assumes "q_call acts pcbs h a q = Some q'"
  shows "q_now q \<le> q_now q'"
  using assms
  by (auto simp: q_call_def q_tcp_timer_def q_cyclic_timer_def Let_def dest!: q_call_out_frame
      split: option.splits handler.splits arg.splits bind_splits if_splits prod.splits)

lemma sim_round:
  assumes "timers_sim s q" "c \<le> q_now q" "q_round acts pcbs c q = Some r"
  shows "(\<exists>s' q'. r = Inl q' \<and> check_round acts pcbs (word_of_nat c) s = Some (Inl s') \<and>
       timers_sim s' q' \<and> c \<le> q_now q') \<or>
    (r = Inr q \<and> check_round acts pcbs (word_of_nat c) s = Some (Inr s))"
proof (cases "deadlines q")
  case Nil
  with assms show ?thesis by (auto simp: q_round_def check_round_def timers_sim_def split: if_splits)
next
  case (Cons e es)
  obtain d h a where e: "e = (d, h, a)" by (cases e)
  from assms(1) have n: "next_timeout s = stamp e # map stamp es" and ok: "schedule_ok q"
    using Cons by (simp_all add: timers_sim_def)
  from assms(3) have c: "q_now q - c < horizon" by (simp add: q_round_def split: if_splits)
  from ok Cons e have "in_reach (int (q_now q)) d" by (simp add: schedule_ok_def)
  with c assms(2) have "- (2 ^ 31) \<le> int c - d" "int c - d < 2 ^ 31"
    by (auto simp: in_reach_def horizon_def)
  then have lt: "TIME_LESS_THAN (word_of_nat c) (word_of_int d) \<longleftrightarrow> int c < d"
    using TIME_LESS_THAN_of_int [of "int c" d] by simp
  show ?thesis
  proof (cases "int c < d")
    case True
    with lt n e Cons assms(3) show ?thesis by (simp add: q_round_def check_round_def c)
  next
    case False
    let ?q = "q\<lparr>deadlines := es, q_due := d\<rparr>"
    let ?s = "s\<lparr>next_timeout := map stamp es, current_timeout_due_time := word_of_int d\<rparr>"
    from False Cons e assms(3) obtain q' where q': "q_call acts pcbs h a ?q = Some q'" "r = Inl q'"
      by (auto simp: q_round_def c)
    have sim: "timers_sim ?s ?q" using assms(1) Cons by (simp add: timers_sim_def schedule_ok_def)
    have "q_due ?q \<le> int (q_now ?q)" using False assms(2) by simp
    from sim_call [OF sim q'(1) this] obtain s' where
      "call_handler acts pcbs h a ?s = Some s'" "timers_sim s' q'" by blast
    moreover have "c \<le> q_now q'" using q_call_frame [OF q'(1)] assms(2) by simp
    ultimately show ?thesis using False lt n e q'(2) by (simp add: check_round_def)
  qed
qed

lemma sim_check:
  assumes "timers_sim s q" "q_check acts pcbs q = Some q'"
  shows "\<exists>s'. sys_check_timeouts acts pcbs s = Some s' \<and> timers_sim s' q'"
proof -
  have n: "sys_now s = word_of_nat (q_now q)" using assms(1) by (simp add: sys_now_sim)
  have "\<exists>s'. loop (check_round acts pcbs (word_of_nat (q_now q))) s = Some s' \<and> timers_sim s' q'"
    by (rule loop_simulation [where R = "\<lambda>s p. timers_sim s p \<and> q_now q \<le> q_now p",
          OF assms(2) [unfolded q_check_def]])
      (use assms(1) in \<open>auto dest: sim_round\<close>)
  then show ?thesis by (simp add: sys_check_timeouts_def n)
qed

lemma sim_list:
  "timers_sim s q \<Longrightarrow> sorted (map fst l) \<Longrightarrow> \<forall>x\<in>set l. in_reach (int (q_now q)) (fst x) \<Longrightarrow>
     timers_sim (s\<lparr>next_timeout := map stamp l\<rparr>) (q\<lparr>deadlines := l\<rparr>)"
  by (simp add: timers_sim_def schedule_ok_def)

lemma sorted_shift: "sorted xs \<Longrightarrow> sorted (map (\<lambda>d. d + k) xs)" for k :: int
  by (induction xs) auto

lemma sim_restart:
  assumes "timers_sim s q" "q_restart q = Some q'"
  shows "timers_sim (sys_restart_timeouts s) q'"
proof (cases "deadlines q")
  case Nil
  with assms show ?thesis by (simp add: q_restart_def sys_restart_timeouts_def timers_sim_def)
next
  case (Cons e es)
  let ?f = "\<lambda>x. (fst x - fst e + int (q_now q), snd x)"
  from assms(1) have n: "next_timeout s = map stamp (e # es)" and ok: "schedule_ok q"
    using Cons by (simp_all add: timers_sim_def)
  from assms(2) Cons have l: "fst (last (e # es)) - fst e < int horizon"
    and q': "q' = q\<lparr>deadlines := map ?f (e # es)\<rparr>"
    by (auto simp: q_restart_def split: if_splits)
  from ok Cons have srt: "sorted (map fst (e # es))" by (simp add: schedule_ok_def)
  have r: "fst e \<le> fst x" "fst x \<le> fst (last (e # es))" if "x \<in> set (e # es)" for x
    using srt that by (induction es rule: rev_induct) (auto simp: sorted_append)
  have "map (\<lambda>u. u\<lparr>to_time := (to_time u - to_time (stamp e)) + sys_now s\<rparr>) (map stamp (e # es))
      = map stamp (map ?f (e # es))"
    using assms(1) by (simp add: sys_now_sim stamp_def)
  then have "sys_restart_timeouts s = s\<lparr>next_timeout := map stamp (map ?f (e # es))\<rparr>"
    using n by (simp add: sys_restart_timeouts_def)
  moreover have "\<forall>x\<in>set (map ?f (e # es)). in_reach (int (q_now q)) (fst x)"
  proof
    fix x assume "x \<in> set (map ?f (e # es))"
    then obtain y where y: "y \<in> set (e # es)" "x = ?f y" unfolding set_map by blast
    with r [OF y(1)] l show "in_reach (int (q_now q)) (fst x)" by (simp add: in_reach_def horizon_def)
  qed
  moreover have "sorted (map fst (map ?f (e # es)))"
    using srt sorted_shift [of "map fst (e # es)" "int (q_now q) - fst e"]
    by (simp add: comp_def algebra_simps)
  ultimately show ?thesis using sim_list [OF assms(1)] by (simp only: q')
qed

lemma sim_step:
  assumes "timers_sim s q" "q_step acts pcbs x q = Some q'"
  shows "\<exists>s'. do_step acts pcbs x s = Some s' \<and> timers_sim s' q'"
  using assms by (cases x) (auto intro: sim_act sim_check sim_restart)

lemma sim_run:
  assumes "timers_sim s q" "q_run acts pcbs xs q = Some q'"
  shows "\<exists>s'. run_steps acts pcbs xs s = Some s' \<and> timers_sim s' q'"
  using assms
proof (induction xs arbitrary: s q)
  case Nil
  then show ?case by simp
next
  case (Cons x xs)
  then obtain p where p: "q_step acts pcbs x q = Some p" "q_run acts pcbs xs p = Some q'"
    by (auto split: bind_splits)
  from sim_step [OF Cons.prems(1) p(1)] obtain s1 where
    "do_step acts pcbs x s = Some s1" "timers_sim s1 p" by blast
  with Cons.IH p(2) show ?case by fastforce
qed

lemma timers_boot_simps:
  "timers_boot c = \<lparr>next_timeout = [\<lparr>to_time = word_of_nat c + 1000, to_h = Some Lwip_Cyclic_Timer,
     to_arg = Arg_Cyclic 1\<rparr>], current_timeout_due_time = 0, tcpip_tcp_timer_active = False,
     tick = c, calls = []\<rparr>"
  by (simp add: timers_boot_def sys_timeouts_init_def lwip_cyclic_timers_def sys_timeout_def
      sys_timeout_abs_def sys_now_def)

lemma sim_boot: "timers_sim (timers_boot c) (q_boot c)"
  by (simp add: timers_boot_simps q_boot_def timers_sim_def schedule_ok_def in_reach_def horizon_def
      stamp_def)

lemma sim_sleeptime:
  assumes "timers_sim s q"
  shows "uint (sys_timeouts_sleeptime s) = q_sleeptime q"
proof (cases "deadlines q")
  case Nil
  with assms show ?thesis by (simp add: timers_sim_def sys_timeouts_sleeptime_def q_sleeptime_def)
next
  case (Cons e es)
  let ?c = "int (q_now q)"
  from assms Cons have n: "next_timeout s = map stamp (e # es)" and r: "in_reach ?c (fst e)"
    by (simp_all add: timers_sim_def schedule_ok_def)
  have now: "sys_now s = word_of_int ?c" using assms by (rule sys_now_sim)
  have "in_reach ?c ?c" by (simp add: in_reach_def horizon_def)
  with r have lt: "TIME_LESS_THAN (word_of_int (fst e)) (word_of_int ?c) \<longleftrightarrow> fst e < ?c"
    by (rule in_reach_less)
  have u: "uint (word_of_int (fst e) - word_of_int ?c :: u32) = fst e - ?c" if "\<not> fst e < ?c"
    using that r
    by (simp add: of_int_diff [symmetric] unsigned_of_int take_bit_eq_mod in_reach_def horizon_def
        del: of_int_diff of_int_of_nat_eq)
  show ?thesis
    using n now lt u Cons by (auto simp: sys_timeouts_sleeptime_def q_sleeptime_def simp del: of_int_of_nat_eq)
qed

text \<open>
  C31. The timers on the wrapping clock behave as the schedule on a clock that does not wrap,
  for every reading of the clock at the start, whatever the called functions arm, cancel and
  start, and however long the run: as long as no timeout is set for more than $2^{30}$ ms and
  none is served that late (the schedule has a result), the code has a result too, makes the
  same calls at the same times, keeps its list in the order of the true due times, and reports
  the true time to the next one.
\<close>
theorem timers_follow_schedule:
  assumes "q_run acts pcbs steps (q_boot c) = Some q"
  shows "\<exists>s. run_steps acts pcbs steps (timers_boot c) = Some s \<and>
    calls s = q_calls q \<and> tick s = q_now q \<and>
    next_timeout s = map stamp (deadlines q) \<and> sorted (map fst (deadlines q)) \<and>
    uint (sys_timeouts_sleeptime s) = q_sleeptime q"
proof -
  from sim_run [OF sim_boot assms] obtain s where
    "run_steps acts pcbs steps (timers_boot c) = Some s" "timers_sim s q" by blast
  then show ?thesis by (auto simp: sim_sleeptime timers_sim_def schedule_ok_def)
qed

text \<open>A run across the wrap of the clock: a timeout armed before it fires after it.\<close>

theorem timers_follow_schedule_witness:
  "\<exists>s. run_steps (\<lambda>_. []) (\<lambda>_. False)
      [Act (Timeout 500 (Some ()) Arg_Null), Act (Elapse 700), Check]
      (timers_boot 4294967000 :: (unit, unit) timers) = Some s \<and>
    calls s = [(User () Arg_Null, 4294967700)] \<and> uint (sys_timeouts_sleeptime s) = 300"
proof -
  let ?q = "\<lparr>deadlines = [(4294968000, Some Lwip_Cyclic_Timer, Arg_Cyclic 1)], q_due = 4294967500,
    q_tcp = False, q_now = 4294967700, q_calls = [(User () Arg_Null, 4294967700)]\<rparr>
    :: (unit, unit) schedule"
  have "q_run (\<lambda>_. []) (\<lambda>_. False)
      [Act (Timeout 500 (Some ()) Arg_Null), Act (Elapse 700), Check] (q_boot 4294967000) = Some ?q"
    by (simp add: q_boot_def q_timeout_def q_arm_def horizon_def punctual_def q_check_def
        loop_unfold q_round_def q_call_def q_call_out_def)
  from timers_follow_schedule [OF this] show ?thesis by (auto simp: q_sleeptime_def)
qed

section \<open>A poll returns\<close>

text \<open>What a called function may do: take some hours, and arm timeouts that are not due yet.\<close>

definition call_budget :: nat where
  "call_budget = 2 ^ 26"

primrec act_time :: "('h, 'a) act \<Rightarrow> nat" where
  "act_time (Timeout m h a) = 0"
| "act_time (Untimeout h a) = 0"
| "act_time (Timer_Needed b) = 0"
| "act_time (Elapse n) = n"

primrec arms_later :: "('h, 'a) act \<Rightarrow> bool" where
  "arms_later (Timeout m h a) \<longleftrightarrow> 0 < m \<and> unat m < horizon"
| "arms_later (Untimeout h a) \<longleftrightarrow> True"
| "arms_later (Timer_Needed b) \<longleftrightarrow> True"
| "arms_later (Elapse n) \<longleftrightarrow> True"

definition modest :: "('h, 'a) act list \<Rightarrow> bool" where
  "modest xs \<longleftrightarrow> sum_list (map act_time xs) \<le> call_budget \<and> (\<forall>x\<in>set xs. arms_later x)"

text \<open>The entries of the list: the pool bounds them, and the cyclic ones are the table's.\<close>

definition entry_ok :: "int \<times> 'h handler option \<times> 'a arg \<Rightarrow> bool" where
  "entry_ok e \<longleftrightarrow> (fst (snd e) = Some Lwip_Cyclic_Timer \<longrightarrow> snd (snd e) = Arg_Cyclic 1)"

definition entries_ok :: "('h, 'a) schedule \<Rightarrow> bool" where
  "entries_ok q \<longleftrightarrow> length (deadlines q) \<le> MEMP_NUM_SYS_TIMEOUT \<and> (\<forall>e\<in>set (deadlines q). entry_ok e)"

text \<open>
  How often an entry can still be called in a poll that started at \<open>now\<close>: not at all when it
  is due later, twice when it was due earlier, as a cyclic timer may be due again just now.
\<close>

definition late_weight :: "nat \<Rightarrow> int \<Rightarrow> nat" where
  "late_weight now d = (if int now < d then 0 else if d = int now then 1 else 2)"

definition calls_left :: "nat \<Rightarrow> ('h, 'a) schedule \<Rightarrow> nat" where
  "calls_left now q = sum_list (map (\<lambda>e. late_weight now (fst e)) (deadlines q))"

lemma sum_list_split:
  "sum_list (map f (takeWhile P xs)) + sum_list (map f (dropWhile P xs)) = sum_list (map f xs)"
  for f :: "'b \<Rightarrow> nat"
  by (metis map_append sum_list_append takeWhile_dropWhile_id)

lemma length_split: "length (takeWhile P xs) + length (dropWhile P xs) = length xs"
  by (metis length_append takeWhile_dropWhile_id)

lemma calls_left_arm: "calls_left now (q_arm d h a q) \<le> calls_left now q + late_weight now d"
  using sum_list_split [of "\<lambda>e. late_weight now (fst e)" "\<lambda>e. fst e \<le> d" "deadlines q"]
  by (simp add: calls_left_def q_arm_def)

lemma set_arm: "set (deadlines (q_arm d h a q)) \<subseteq> insert (d, h, a) (set (deadlines q))"
  by (auto simp: q_arm_def dest: set_takeWhileD set_dropWhileD)

lemma entries_arm:
  assumes "entries_ok q" "entry_ok (d, h, a)"
  shows "entries_ok (q_arm d h a q)"
proof -
  have "length (deadlines (q_arm d h a q)) \<le> MEMP_NUM_SYS_TIMEOUT"
    using assms(1) length_split [of "\<lambda>e. fst e \<le> d" "deadlines q"]
    by (auto simp: entries_ok_def q_arm_def)
  then show ?thesis using assms set_arm [of d h a q] by (auto simp: entries_ok_def)
qed

lemma q_unlink_length: "length (q_unlink h a es) \<le> length es"
  by (induction es) auto

lemma calls_left_unlink:
  "calls_left now (q\<lparr>deadlines := q_unlink h a (deadlines q)\<rparr>) \<le> calls_left now q"
proof -
  have "sum_list (map (\<lambda>e. late_weight now (fst e)) (q_unlink h a es)) \<le>
      sum_list (map (\<lambda>e. late_weight now (fst e)) es)" for es :: "(int \<times> 'a handler option \<times> 'b arg) list"
    by (induction es) auto
  then show ?thesis by (simp add: calls_left_def)
qed

text \<open>The state inside a poll that started at \<open>now\<close>, all deadlines being at least \<open>B\<close>.\<close>

definition polling :: "int \<Rightarrow> nat \<Rightarrow> ('h, 'a) schedule \<Rightarrow> bool" where
  "polling B now q \<longleftrightarrow> entries_ok q \<and> (\<forall>e\<in>set (deadlines q). B \<le> fst e) \<and> now \<le> q_now q"

lemma polling_arm:
  assumes "polling B now q" "B \<le> d" "entry_ok (d, h, a)"
  shows "polling B now (q_arm d h a q)"
proof -
  have "\<forall>e\<in>set (deadlines (q_arm d h a q)). B \<le> fst e"
    using set_arm [of d h a q] assms(1,2) by (auto simp: polling_def)
  then show ?thesis using assms(1,3) entries_arm [of q d h a] by (simp add: polling_def)
qed

lemma q_arm_calls [simp]: "q_calls (q_arm d h a q) = q_calls q"
  by (simp add: q_arm_def)

lemma polling_timeout:
  assumes "polling B now q" "B \<le> int now" "0 < m" "h \<noteq> Some Lwip_Cyclic_Timer"
  shows "polling B now (q_timeout m h a q)" "calls_left now (q_timeout m h a q) \<le> calls_left now q"
proof -
  let ?d = "int (q_now q) + uint m"
  have d: "int now < ?d" using assms(1,3) by (simp add: polling_def word_less_alt)
  then show "polling B now (q_timeout m h a q)"
    using assms polling_arm [of B now q ?d h a] by (simp add: q_timeout_def entry_ok_def)
  show "calls_left now (q_timeout m h a q) \<le> calls_left now q"
    using calls_left_arm [of now ?d h a q] d by (simp add: q_timeout_def late_weight_def)
qed

lemma polling_act:
  assumes "polling B now q" "B \<le> int now" "arms_later x"
    and "int (q_now q + act_time x) - B < int horizon"
  shows "\<exists>q'. q_act x q = Some q' \<and> polling B now q' \<and> calls_left now q' \<le> calls_left now q \<and>
    q_now q' = q_now q + act_time x \<and> q_calls q' = q_calls q"
proof (cases x)
  case (Timeout m h a)
  with assms polling_timeout [of B now q m "map_option Handler h" a] show ?thesis
    by (auto simp: q_timeout_def)
next
  case (Untimeout h a)
  with assms(1) calls_left_unlink [of now "map_option Handler h" a q] show ?thesis
    by (auto simp: polling_def entries_ok_def dest: q_unlink_set
        intro: order_trans [OF q_unlink_length])
next
  case (Timer_Needed b)
  let ?q = "q\<lparr>q_tcp := True\<rparr>"
  have "polling B now ?q" "calls_left now ?q = calls_left now q"
    using assms(1) by (simp_all add: polling_def entries_ok_def calls_left_def)
  with Timer_Needed assms polling_timeout [of B now ?q TCP_TMR_INTERVAL "Some Tcpip_Tcp_Timer" Arg_Null]
  show ?thesis by (auto simp: q_timeout_def TCP_TMR_INTERVAL_def)
next
  case (Elapse n)
  with assms show ?thesis
    by (fastforce simp: polling_def entries_ok_def punctual_def calls_left_def Let_def)
qed

lemma polling_acts:
  assumes "polling B now q" "B \<le> int now" "\<forall>x\<in>set xs. arms_later x"
    and "int (q_now q + sum_list (map act_time xs)) - B < int horizon"
  shows "\<exists>q'. q_acts xs q = Some q' \<and> polling B now q' \<and> calls_left now q' \<le> calls_left now q \<and>
    q_now q' = q_now q + sum_list (map act_time xs) \<and> q_calls q' = q_calls q"
  using assms
proof (induction xs arbitrary: q)
  case Nil
  then show ?case by simp
next
  case (Cons x xs)
  from Cons.prems obtain p where p: "q_act x q = Some p" "polling B now p"
    "calls_left now p \<le> calls_left now q" "q_now p = q_now q + act_time x" "q_calls p = q_calls q"
    using polling_act [of B now q x] by auto
  with Cons.prems Cons.IH [OF p(2)] obtain q' where
    "q_acts xs p = Some q'" "polling B now q'" "calls_left now q' \<le> calls_left now p"
    "q_now q' = q_now p + sum_list (map act_time xs)" "q_calls q' = q_calls p"
    by (auto simp: add.assoc)
  with p show ?case by auto
qed

lemma polling_call_out:
  assumes "polling B now q" "B \<le> int now" "\<forall>log. modest (acts log)"
    and "int (q_now q + call_budget) - B < int horizon"
  shows "\<exists>q'. q_call_out acts c q = Some q' \<and> polling B now q' \<and> calls_left now q' \<le> calls_left now q \<and>
    q_now q' \<le> q_now q + call_budget \<and> length (q_calls q') = Suc (length (q_calls q))"
proof -
  let ?q = "q\<lparr>q_calls := q_calls q @ [(c, q_now q)]\<rparr>"
  let ?xs = "acts (q_calls ?q)"
  have q: "polling B now ?q" "calls_left now ?q = calls_left now q"
    using assms(1) by (simp_all add: polling_def entries_ok_def calls_left_def)
  have m: "sum_list (map act_time ?xs) \<le> call_budget" "\<forall>x\<in>set ?xs. arms_later x"
    using assms(3) by (simp_all add: modest_def)
  with polling_acts [OF q(1) assms(2), of ?xs] assms(4) obtain q' where
    "q_acts ?xs ?q = Some q'" "polling B now q'" "calls_left now q' \<le> calls_left now q"
    "q_now q' = q_now q + sum_list (map act_time ?xs)" "q_calls q' = q_calls ?q"
    using q(2) by auto
  with m(1) show ?thesis by (auto simp: q_call_out_def Let_def)
qed

lemma q_cyclic_timer_dns:
  "q_cyclic_timer acts (Suc 0) q = do {
     p \<leftarrow> q_call_out acts Dns_Tmr q;
     if int (q_now p) - q_due p < int horizon
     then Some (let d = q_due p + 1000 in
            q_arm (if d < int (q_now p) then int (q_now p) + 1000 else d)
              (Some Lwip_Cyclic_Timer) (Arg_Cyclic 1) p)
     else None }"
proof -
  have "lwip_cyclic_timers ! Suc 0 = (1000 :: u32, Dns_Tmr :: ('a, 'b) callee)"
    by (simp add: lwip_cyclic_timers_def)
  moreover have "uint (1000 :: u32) = 1000" by simp
  ultimately show ?thesis
    unfolding q_cyclic_timer_def Let_def One_nat_def by (simp only: prod.case)
qed

lemma polling_cyclic_timer:
  fixes q :: "('h, 'a) schedule"
  assumes "polling B now q" "B \<le> int now" "\<forall>log. modest (acts log)"
    and t: "int (q_now q + call_budget) - B < int horizon"
    and due: "B \<le> q_due q" "q_due q \<le> int now"
  shows "\<exists>q'. q_cyclic_timer acts 1 q = Some q' \<and> polling B now q' \<and>
    calls_left now q' \<le> calls_left now q + (if q_due q < int now then 1 else 0) \<and>
    q_now q' \<le> q_now q + call_budget \<and> length (q_calls q') \<le> Suc (length (q_calls q))"
proof -
  from polling_call_out [OF assms(1,2,3) t] obtain p where
    p: "q_call_out acts Dns_Tmr q = Some p" "polling B now p" "calls_left now p \<le> calls_left now q"
      "q_now p \<le> q_now q + call_budget" "length (q_calls p) = Suc (length (q_calls q))"
    by blast
  have due_p: "q_due p = q_due q" using q_call_out_frame [OF p(1)] by simp
  have now_p: "int now \<le> int (q_now p)" using p(2) by (simp add: polling_def)
  define d where "d = (if q_due p + 1000 < int (q_now p) then int (q_now p) + 1000 else q_due p + 1000)"
  let ?q' = "q_arm d (Some Lwip_Cyclic_Timer) (Arg_Cyclic 1) p"
  have "int (q_now p) - q_due p < int horizon" using p(4) t due due_p by simp
  then have "q_cyclic_timer acts 1 q = Some ?q'"
    by (simp add: q_cyclic_timer_dns p(1) d_def)
  moreover have "polling B now ?q'"
    by (rule polling_arm [OF p(2)])
      (use due due_p now_p assms(2) in \<open>auto simp: d_def entry_ok_def\<close>)
  moreover have "late_weight now d \<le> (if q_due q < int now then 1 else 0)"
    using due_p now_p due by (auto simp: late_weight_def d_def)
  then have "calls_left now ?q' \<le> calls_left now q + (if q_due q < int now then 1 else 0)"
    using calls_left_arm [of now d "Some Lwip_Cyclic_Timer" "Arg_Cyclic 1" p] p(3) by linarith
  ultimately show ?thesis using p by auto
qed

lemma polling_call:
  assumes "polling B now q" "B \<le> int now" "\<forall>log. modest (acts log)"
    and "int (q_now q + call_budget) - B < int horizon"
    and "B \<le> q_due q" "q_due q \<le> int now" and e: "entry_ok (d, h, a)"
  shows "\<exists>q'. q_call acts pcbs h a q = Some q' \<and> polling B now q' \<and>
    calls_left now q' \<le> calls_left now q + (if q_due q < int now then 1 else 0) \<and>
    q_now q' \<le> q_now q + call_budget \<and> length (q_calls q') \<le> Suc (length (q_calls q))"
proof (cases h)
  case None
  with assms(1) show ?thesis by (simp add: q_call_def)
next
  case (Some x)
  show ?thesis
  proof (cases x)
    case Lwip_Cyclic_Timer
    with Some e have "q_call acts pcbs h a q = q_cyclic_timer acts 1 q"
      by (simp add: q_call_def entry_ok_def lwip_cyclic_timers_def)
    with polling_cyclic_timer [OF assms(1-6)] show ?thesis by simp
  next
    case Tcpip_Tcp_Timer
    from polling_call_out [OF assms(1-4)] obtain p where
      p: "q_call_out acts Tcp_Tmr q = Some p" "polling B now p" "calls_left now p \<le> calls_left now q"
        "q_now p \<le> q_now q + call_budget" "length (q_calls p) = Suc (length (q_calls q))"
      by blast
    let ?p = "p\<lparr>q_tcp := False\<rparr>"
    have "polling B now ?p" "calls_left now ?p = calls_left now p"
      using p(2) by (simp_all add: polling_def entries_ok_def calls_left_def)
    moreover note polling_timeout [OF p(2) assms(2), of TCP_TMR_INTERVAL "Some Tcpip_Tcp_Timer" Arg_Null]
    ultimately show ?thesis using Some Tcpip_Tcp_Timer p
      by (auto simp: q_call_def q_tcp_timer_def q_timeout_def TCP_TMR_INTERVAL_def)
  next
    case (Handler y)
    from polling_call_out [OF assms(1-4), of "User y a"] Some Handler show ?thesis
      by (auto simp: q_call_def)
  qed
qed

text \<open>Every schedule that is well-formed describes a state of the code, so the simulation keeps it so.\<close>

lemma schedule_ok_sim: "schedule_ok q \<Longrightarrow> \<exists>s. timers_sim s q"
  by (rule exI [of _ "\<lparr>next_timeout = map stamp (deadlines q), current_timeout_due_time = word_of_int (q_due q),
      tcpip_tcp_timer_active = q_tcp q, tick = q_now q, calls = q_calls q\<rparr>"])
    (simp add: timers_sim_def)

lemma schedule_ok_call:
  assumes "schedule_ok q" "q_call acts pcbs h a q = Some q'" "q_due q \<le> int (q_now q)"
  shows "schedule_ok q'"
  using schedule_ok_sim [OF assms(1)] sim_call [OF _ assms(2,3)] by (auto simp: timers_sim_def)

definition poll_inv :: "int \<Rightarrow> nat \<Rightarrow> nat \<Rightarrow> ('h, 'a) schedule \<Rightarrow> bool" where
  "poll_inv B now k q \<longleftrightarrow> schedule_ok q \<and> polling B now q \<and> calls_left now q \<le> 8 \<and>
     q_now q \<le> now + call_budget * (8 - calls_left now q) \<and>
     length (q_calls q) \<le> k + (8 - calls_left now q)"

lemma poll_round:
  assumes I: "poll_inv B now k q" and B: "B \<le> int now" "int now - B < 2 ^ 29"
    and m: "\<forall>log. modest (acts log)"
  shows "(\<exists>q'. q_round acts pcbs now q = Some (Inl q') \<and> poll_inv B now k q' \<and>
       calls_left now q' < calls_left now q) \<or>
    (q_round acts pcbs now q = Some (Inr q) \<and> (\<forall>e\<in>set (deadlines q). int now < fst e))"
proof -
  note inv = I [unfolded poll_inv_def]
  have "call_budget * (8 - calls_left now q) \<le> call_budget * 8" by simp
  with inv have "q_now q \<le> now + call_budget * 8" by linarith
  then have t: "q_now q \<le> now + 2 ^ 29" by (simp add: call_budget_def)
  then have g: "q_now q - now < horizon" by (simp add: horizon_def)
  show ?thesis
  proof (cases "deadlines q")
    case Nil
    then show ?thesis by (simp add: q_round_def g)
  next
    case (Cons e es)
    obtain d h a where e: "e = (d, h, a)" by (cases e)
    show ?thesis
    proof (cases "int now < d")
      case True
      have "\<forall>x\<in>set (deadlines q). d \<le> fst x" using inv Cons e by (auto simp: schedule_ok_def)
      with True Cons e show ?thesis by (fastforce simp: q_round_def g)
    next
      case False
      let ?q = "q\<lparr>deadlines := es, q_due := d\<rparr>"
      have p: "polling B now ?q" "B \<le> d" "entry_ok (d, h, a)" "schedule_ok ?q"
        using inv Cons e by (auto simp: polling_def entries_ok_def schedule_ok_def)
      have w: "calls_left now q = calls_left now ?q + late_weight now d"
        using Cons e by (simp add: calls_left_def)
      have w1: "(if d < int now then 1 else 0) < late_weight now d" "0 < late_weight now d"
        using False by (auto simp: late_weight_def)
      have "call_budget * (8 - calls_left now q) \<le> call_budget * 7"
        using w w1(2) by (intro mult_le_mono2) simp
      with inv B have "int (q_now ?q + call_budget) - B < int horizon"
        by (simp add: call_budget_def horizon_def)
      from polling_call [OF p(1) B(1) m this _ _ p(3), of pcbs] p(2) False obtain q' where
        q': "q_call acts pcbs h a ?q = Some q'" "polling B now q'"
          "calls_left now q' \<le> calls_left now ?q + (if d < int now then 1 else 0)"
          "q_now q' \<le> q_now q + call_budget" "length (q_calls q') \<le> Suc (length (q_calls q))"
        by auto
      have less: "calls_left now q' < calls_left now q" using q'(3) w w1 by linarith
      have "Suc (8 - calls_left now q) \<le> 8 - calls_left now q'" using less inv by linarith
      then have "call_budget * Suc (8 - calls_left now q) \<le> call_budget * (8 - calls_left now q')"
        by (rule mult_le_mono2)
      then have "q_now q' \<le> now + call_budget * (8 - calls_left now q')" using inv q'(4) by simp
      moreover have "length (q_calls q') \<le> k + (8 - calls_left now q')" using inv q'(5) less by linarith
      moreover have "schedule_ok q'"
        using schedule_ok_call [OF p(4) q'(1)] False inv by (simp add: polling_def)
      ultimately have "poll_inv B now k q'" using q'(2) less inv by (simp add: poll_inv_def)
      with less False Cons e q'(1) show ?thesis by (simp add: q_round_def g)
    qed
  qed
qed

lemma calls_left_le: "calls_left now q \<le> 2 * length (deadlines q)"
proof -
  have "sum_list (map (\<lambda>e. late_weight now (fst e)) es) \<le> 2 * length es" for es :: "(int \<times> 'a handler option \<times> 'b arg) list"
    by (induction es) (auto simp: late_weight_def)
  then show ?thesis by (simp add: calls_left_def)
qed

lemma poll_returns:
  assumes "schedule_ok q" "entries_ok q" "\<forall>e\<in>set (deadlines q). int (q_now q) - fst e < 2 ^ 29"
    and m: "\<forall>log. modest (acts log)"
  shows "\<exists>q'. q_check acts pcbs q = Some q' \<and> length (q_calls q') \<le> length (q_calls q) + 8 \<and>
    q_now q' \<le> q_now q + 2 ^ 29 \<and> (\<forall>e\<in>set (deadlines q'). int (q_now q) < fst e)"
proof -
  let ?now = "q_now q" and ?k = "length (q_calls q)"
  let ?B = "int ?now - (2 ^ 29 - 1)"
  have I: "poll_inv ?B ?now (?k + 0) q"
    using assms(1-3) calls_left_le [of ?now q] by (auto simp: poll_inv_def polling_def entries_ok_def)
  have "\<exists>q'. loop (q_round acts pcbs ?now) q = Some q' \<and>
      (poll_inv ?B ?now (?k + 0) q' \<and> (\<forall>e\<in>set (deadlines q'). int ?now < fst e))"
    by (rule loop_rule [where I = "poll_inv ?B ?now (?k + 0)" and mu = "calls_left ?now", OF I])
      (use poll_round [of ?B ?now "?k + 0", OF _ _ _ m] in fastforce)
  then obtain q' where q': "loop (q_round acts pcbs ?now) q = Some q'" "poll_inv ?B ?now (?k + 0) q'"
    "\<forall>e\<in>set (deadlines q'). int ?now < fst e" by blast
  have "call_budget * (8 - calls_left ?now q') \<le> call_budget * 8" by simp
  with q'(2) have "q_now q' \<le> q_now q + call_budget * 8" and l: "length (q_calls q') \<le> ?k + 8"
    unfolding poll_inv_def by linarith+
  then have "q_now q' \<le> q_now q + 2 ^ 29" by (simp add: call_budget_def)
  with l q' show ?thesis by (auto simp: q_check_def)
qed

text \<open>The entries stay those of the table in every run.\<close>

lemma entries_ok_frame [simp]:
  "entries_ok (q\<lparr>q_tcp := b\<rparr>) = entries_ok q" "entries_ok (q\<lparr>q_now := n\<rparr>) = entries_ok q"
  "entries_ok (q\<lparr>q_calls := l\<rparr>) = entries_ok q" "entries_ok (q\<lparr>q_due := d\<rparr>) = entries_ok q"
  by (simp_all add: entries_ok_def)

lemma entries_timeout:
  "entries_ok q \<Longrightarrow> h \<noteq> Some Lwip_Cyclic_Timer \<Longrightarrow> entries_ok (q_timeout m h a q)"
  by (simp add: q_timeout_def entries_arm entry_ok_def)

lemma entries_act: "entries_ok q \<Longrightarrow> q_act x q = Some q' \<Longrightarrow> entries_ok q'"
proof (cases x)
  case (Untimeout h a)
  assume "entries_ok q" "q_act x q = Some q'"
  with Untimeout show ?thesis
    by (auto simp: entries_ok_def dest!: q_unlink_set intro: order_trans [OF q_unlink_length])
qed (auto simp: entries_timeout Let_def split: if_splits)

lemma entries_acts: "entries_ok q \<Longrightarrow> q_acts xs q = Some q' \<Longrightarrow> entries_ok q'"
  by (induction xs arbitrary: q) (auto split: bind_splits intro: entries_act)

lemma entries_call_out: "entries_ok q \<Longrightarrow> q_call_out acts c q = Some q' \<Longrightarrow> entries_ok q'"
  by (auto simp: q_call_out_def Let_def dest: entries_acts [rotated])

lemma entries_call:
  assumes "entries_ok q" "entry_ok (d, h, a)" "q_call acts pcbs h a q = Some q'"
  shows "entries_ok q'"
  using assms
  by (auto simp: q_call_def q_tcp_timer_def q_cyclic_timer_def entry_ok_def Let_def
      split: option.splits handler.splits arg.splits bind_splits if_splits prod.splits
      intro!: entries_timeout entries_arm intro: entries_call_out)

lemma entries_round:
  assumes "entries_ok q" "q_round acts pcbs now q = Some (Inl q')"
  shows "entries_ok q'"
proof -
  from assms(2) obtain d h a es where d: "deadlines q = (d, h, a) # es"
    and c: "q_call acts pcbs h a (q\<lparr>deadlines := es, q_due := d\<rparr>) = Some q'"
    by (auto simp: q_round_def split: if_splits list.splits)
  from assms(1) d have "entries_ok (q\<lparr>deadlines := es, q_due := d\<rparr>)" "entry_ok (d, h, a)"
    by (auto simp: entries_ok_def)
  from entries_call [OF this c] show ?thesis .
qed

lemma entries_check:
  assumes "entries_ok q" "q_check acts pcbs q = Some q'"
  shows "entries_ok q'"
  by (rule loop_partial [OF assms(2) [unfolded q_check_def], where I = entries_ok])
    (auto simp: assms(1) intro: entries_round simp: q_round_def split: if_splits list.splits)

lemma entries_step: "entries_ok q \<Longrightarrow> q_step acts pcbs x q = Some q' \<Longrightarrow> entries_ok q'"
proof (cases x)
  case Restart
  assume "entries_ok q" "q_step acts pcbs x q = Some q'"
  with Restart show ?thesis
    by (fastforce simp: q_restart_def entries_ok_def entry_ok_def split: list.splits if_splits)
qed (auto intro: entries_act entries_check)

lemma entries_run: "entries_ok q \<Longrightarrow> q_run acts pcbs xs q = Some q' \<Longrightarrow> entries_ok q'"
  by (induction xs arbitrary: q) (auto split: bind_splits intro: entries_step)

lemma entries_boot: "entries_ok (q_boot c)"
  by (simp add: q_boot_def entries_ok_def entry_ok_def)

text \<open>
  C32. A poll always returns: in every state a run leads to, if no call is later than $2^{29}$ ms
  (six days), and the called functions arm nothing for less than a millisecond and take no more
  than $2^{26}$ ms each, \<open>sys_check_timeouts\<close> comes back after at most two calls for each of the
  four blocks of the pool, and then nothing is left in the list that was due when it started.
\<close>
theorem poll_terminates:
  assumes "q_run acts pcbs steps (q_boot c) = Some q"
    and "\<forall>log. modest (acts log)"
    and "\<forall>e\<in>set (deadlines q). int (q_now q) - fst e < 2 ^ 29"
  shows "\<exists>s s'. run_steps acts pcbs steps (timers_boot c) = Some s \<and>
    sys_check_timeouts acts pcbs s = Some s' \<and>
    length (calls s') \<le> length (calls s) + 2 * MEMP_NUM_SYS_TIMEOUT \<and>
    (\<forall>t\<in>set (next_timeout s'). TIME_LESS_THAN (sys_now s) (to_time t))"
proof -
  from sim_run [OF sim_boot assms(1)] obtain s where
    s: "run_steps acts pcbs steps (timers_boot c) = Some s" "timers_sim s q" by blast
  from s(2) have "schedule_ok q" by (simp add: timers_sim_def)
  from poll_returns [OF this entries_run [OF entries_boot assms(1)] assms(3,2)] obtain q' where
    q': "q_check acts pcbs q = Some q'" "length (q_calls q') \<le> length (q_calls q) + 8"
      "q_now q' \<le> q_now q + 2 ^ 29" "\<forall>e\<in>set (deadlines q'). int (q_now q) < fst e" by blast
  from sim_check [OF s(2) q'(1)] obtain s' where
    s': "sys_check_timeouts acts pcbs s = Some s'" "timers_sim s' q'" by blast
  have "TIME_LESS_THAN (sys_now s) (word_of_int (fst e))" if "e \<in> set (deadlines q')" for e
  proof -
    have "in_reach (int (q_now q')) (fst e)" "int (q_now q) < fst e"
      using s'(2) q'(4) that by (auto simp: timers_sim_def schedule_ok_def)
    then show ?thesis using q'(3) TIME_LESS_THAN_of_int [of "int (q_now q)" "fst e"] s(2)
      by (simp add: sys_now_sim in_reach_def horizon_def)
  qed
  with s s' q'(2) show ?thesis by (auto simp: timers_sim_def)
qed

theorem poll_terminates_witness:
  "\<exists>s s'. run_steps (\<lambda>_. [Timeout 10 (Some ()) Arg_Null]) (\<lambda>_. True)
      [Act (Timeout 500 (Some ()) Arg_Null), Act (Timer_Needed True), Act (Elapse 1700)]
      (timers_boot 4294967000 :: (unit, unit) timers) = Some s \<and>
    sys_check_timeouts (\<lambda>_. [Timeout 10 (Some ()) Arg_Null]) (\<lambda>_. True) s = Some s' \<and>
    length (calls s') \<le> length (calls s) + 2 * MEMP_NUM_SYS_TIMEOUT \<and>
    (\<forall>t\<in>set (next_timeout s'). TIME_LESS_THAN (sys_now s) (to_time t))"
proof (rule poll_terminates)
  let ?q = "\<lparr>deadlines = [(4294967500, Some (Handler ()), Arg_Null), (4294967500, Some Tcpip_Tcp_Timer, Arg_Null),
      (4294968000, Some Lwip_Cyclic_Timer, Arg_Cyclic 1)], q_due = 0,
    q_tcp = True, q_now = 4294968700, q_calls = []\<rparr> :: (unit, unit) schedule"
  show "q_run (\<lambda>_. [Timeout 10 (Some ()) Arg_Null]) (\<lambda>_. True)
      [Act (Timeout 500 (Some ()) Arg_Null), Act (Timer_Needed True), Act (Elapse 1700)]
      (q_boot 4294967000) = Some ?q"
    by (simp add: q_boot_def q_timeout_def q_arm_def horizon_def punctual_def TCP_TMR_INTERVAL_def)
  show "\<forall>log. modest [Timeout 10 (Some ()) Arg_Null :: (unit, unit) act]"
    by (simp add: modest_def call_budget_def horizon_def)
  show "\<forall>e\<in>set (deadlines ?q). int (q_now ?q) - fst e < 2 ^ 29" by simp
qed

section \<open>The resolver's timer does not drift\<close>

text \<open>Polls at arbitrary moments, and nothing else.\<close>

definition polls :: "nat list \<Rightarrow> ('h, 'a) step list" where
  "polls gaps = concat (map (\<lambda>g. [Act (Elapse g), Check]) gaps)"

lemma polls_simps [simp]: "polls [] = []" "polls (g # gs) = Act (Elapse g) # Check # polls gs"
  by (simp_all add: polls_def)

text \<open>The schedule after \<open>k\<close> calls, \<open>n\<close> milliseconds after the start.\<close>

definition resolver_at :: "nat \<Rightarrow> nat \<Rightarrow> nat \<Rightarrow> int \<Rightarrow> ('h, 'a) call_log \<Rightarrow> ('h, 'a) schedule" where
  "resolver_at c n k d l = \<lparr>deadlines = [(int (c + 1000 * Suc k), Some Lwip_Cyclic_Timer, Arg_Cyclic 1)],
     q_due = d, q_tcp = False, q_now = c + n, q_calls = l\<rparr>"

lemma resolver_boot: "q_boot c = resolver_at c 0 0 0 []"
  by (simp add: q_boot_def resolver_at_def)

lemma resolver_elapse:
  "n < 1000 * Suc k + horizon \<Longrightarrow> q_act (Elapse g) (resolver_at c m k d l) = Some (resolver_at c n k d l)"
  if "n = m + g"
  using that by (simp add: resolver_at_def punctual_def Let_def)

lemma resolver_idle:
  "n < 1000 * Suc k \<Longrightarrow>
     q_check (\<lambda>_. []) pcbs (resolver_at c n k d l) = Some (resolver_at c n k d l)"
  by (simp add: q_check_def loop_unfold q_round_def resolver_at_def horizon_def)

lemma resolver_fires:
  assumes "1000 * Suc k \<le> n" "n < 1000 * Suc (Suc k)"
  shows "q_check (\<lambda>_. []) pcbs (resolver_at c n k d l) =
    Some (resolver_at c n (Suc k) (int (c + 1000 * Suc k)) (l @ [(Dns_Tmr, c + n)]))"
proof -
  let ?q = "resolver_at c n (Suc k) (int (c + 1000 * Suc k)) (l @ [(Dns_Tmr, c + n)])"
  have "q_round (\<lambda>_. []) pcbs (c + n) (resolver_at c n k d l) = Some (Inl ?q)"
    using assms
    by (simp add: q_round_def resolver_at_def horizon_def q_call_def q_cyclic_timer_dns
        lwip_cyclic_timers_def q_call_out_def q_arm_def)
  then have "q_check (\<lambda>_. []) pcbs (resolver_at c n k d l) = loop (q_round (\<lambda>_. []) pcbs (c + n)) ?q"
    by (simp add: q_check_def loop_step resolver_at_def)
  also have "\<dots> = q_check (\<lambda>_. []) pcbs ?q" by (simp add: q_check_def resolver_at_def)
  also have "\<dots> = Some ?q" by (rule resolver_idle) (use assms(2) in simp)
  finally show ?thesis .
qed

text \<open>The \<open>j\<close>-th call is made in the second after its due time.\<close>

definition dns_on_time :: "nat \<Rightarrow> ('h, 'a) call_log \<Rightarrow> bool" where
  "dns_on_time c l \<longleftrightarrow> (\<forall>j<length l. \<exists>t. l ! j = (Dns_Tmr, c + t) \<and>
     1000 * Suc j \<le> t \<and> t < 1000 * Suc (Suc j))"

lemma dns_on_time_snoc:
  assumes "dns_on_time c l" "1000 * Suc (length l) \<le> n" "n < 1000 * Suc (Suc (length l))"
  shows "dns_on_time c (l @ [(Dns_Tmr, c + n)])"
  using assms by (auto simp: dns_on_time_def nth_append less_Suc_eq)

lemma resolver_run:
  assumes "\<forall>g\<in>set gaps. g \<le> 1000" "1000 * length l \<le> n" "n < 1000 * Suc (length l)"
    and "dns_on_time c l"
  shows "\<exists>d' l'. q_run (\<lambda>_. []) pcbs (polls gaps) (resolver_at c n (length l) d l) =
      Some (resolver_at c (n + sum_list gaps) (length l') d' l') \<and>
    1000 * length l' \<le> n + sum_list gaps \<and> n + sum_list gaps < 1000 * Suc (length l') \<and>
    dns_on_time c l'"
  using assms
proof (induction gaps arbitrary: n l d)
  case Nil
  then show ?case by auto
next
  case (Cons g gs)
  let ?n = "n + g"
  have "q_act (Elapse g) (resolver_at c n (length l) d l) = Some (resolver_at c ?n (length l) d l)"
    by (rule resolver_elapse) (use Cons.prems in \<open>auto simp: horizon_def\<close>)
  then have e: "q_run (\<lambda>_. []) pcbs (polls (g # gs)) (resolver_at c n (length l) d l) =
      do { q \<leftarrow> q_check (\<lambda>_. []) pcbs (resolver_at c ?n (length l) d l); q_run (\<lambda>_. []) pcbs (polls gs) q }"
    by (simp del: q_act.simps)
  have s: "n + sum_list (g # gs) = ?n + sum_list gs" by simp
  show ?case
  proof (cases "?n < 1000 * Suc (length l)")
    case True
    then have "q_run (\<lambda>_. []) pcbs (polls (g # gs)) (resolver_at c n (length l) d l) =
        q_run (\<lambda>_. []) pcbs (polls gs) (resolver_at c ?n (length l) d l)"
      by (simp only: e resolver_idle Option.bind.bind_lunit)
    moreover have "1000 * length l \<le> ?n" "\<forall>g\<in>set gs. g \<le> 1000" using Cons.prems by simp_all
    ultimately show ?thesis using Cons.IH [of l ?n d] True Cons.prems(4) by (simp only: s)
  next
    case False
    let ?l = "l @ [(Dns_Tmr, c + ?n)]" and ?d = "int (c + 1000 * Suc (length l))"
    have n: "1000 * Suc (length l) \<le> ?n" "?n < 1000 * Suc (Suc (length l))"
      using False Cons.prems by auto
    have "q_run (\<lambda>_. []) pcbs (polls (g # gs)) (resolver_at c n (length l) d l) =
        q_run (\<lambda>_. []) pcbs (polls gs) (resolver_at c ?n (length ?l) ?d ?l)"
      by (simp only: e resolver_fires [OF n] Option.bind.bind_lunit length_append list.size add_Suc_right add_0_right)
    moreover have "1000 * length ?l \<le> ?n" "?n < 1000 * Suc (length ?l)" "\<forall>g\<in>set gs. g \<le> 1000"
      using n Cons.prems by simp_all
    moreover have "dns_on_time c ?l" by (rule dns_on_time_snoc [OF Cons.prems(4) n])
    ultimately show ?thesis using Cons.IH [of ?l ?n ?d] by (simp only: s)
  qed
qed

text \<open>
  C33. The cyclic timer keeps its rate: however irregularly the main loop polls, as long as it
  polls once a second, and whatever the clock read at the start, the resolver's timer has been
  called once for every full second since then, the \<open>j\<close>-th time within the second after
  \<open>j\<close> seconds; the delays of the polls do not add up.
\<close>
theorem resolver_timer_keeps_rate:
  assumes "\<forall>g\<in>set gaps. g \<le> 1000"
  shows "\<exists>s. run_steps (\<lambda>_. []) pcbs (polls gaps) (timers_boot c) = Some s \<and>
    length (calls s) = sum_list gaps div 1000 \<and> dns_on_time c (calls s)"
proof -
  have "dns_on_time c []" by (simp add: dns_on_time_def)
  from resolver_run [of gaps "[]" 0, OF assms _ _ this, of pcbs 0] obtain d l where
    l: "q_run (\<lambda>_. []) pcbs (polls gaps) (q_boot c) = Some (resolver_at c (sum_list gaps) (length l) d l)"
      "1000 * length l \<le> sum_list gaps" "sum_list gaps < 1000 * Suc (length l)" "dns_on_time c l"
    by (auto simp: resolver_boot)
  from sim_run [OF sim_boot l(1)] obtain s where
    s: "run_steps (\<lambda>_. []) pcbs (polls gaps) (timers_boot c) = Some s"
      "timers_sim s (resolver_at c (sum_list gaps) (length l) d l)" by blast
  then have "calls s = l" by (simp add: timers_sim_def resolver_at_def)
  moreover have "length l = sum_list gaps div 1000" using l(2,3) by simp
  ultimately show ?thesis using s(1) l(4) by auto
qed

theorem resolver_timer_keeps_rate_witness:
  "\<exists>s. run_steps (\<lambda>_. []) (\<lambda>_. False) (polls [900, 1000, 350, 1000])
      (timers_boot 4294966000 :: (unit, unit) timers) = Some s \<and>
    length (calls s) = 3 \<and> dns_on_time 4294966000 (calls s)"
  using resolver_timer_keeps_rate [of "[900, 1000, 350, 1000]" "\<lambda>_. False" 4294966000] by simp

section \<open>A timer that found no block\<close>

text \<open>
  \<open>tcp_timer_needed\<close> marks the timer as running before it asks for a block; nothing clears the
  mark but the timer itself.
\<close>

definition no_tcp_entry :: "('h, 'a) timers \<Rightarrow> bool" where
  "no_tcp_entry s \<longleftrightarrow> (\<forall>t\<in>set (next_timeout s). to_h t \<noteq> Some Tcpip_Tcp_Timer \<and>
     (to_h t = Some Lwip_Cyclic_Timer \<longrightarrow> to_arg t = Arg_Cyclic 1))"

definition tcp_calls :: "('h, 'a) timers \<Rightarrow> ('h, 'a) call_log" where
  "tcp_calls s = filter (\<lambda>x. fst x = Tcp_Tmr) (calls s)"

definition tcp_timer_lost :: "('h, 'a) call_log \<Rightarrow> ('h, 'a) timers \<Rightarrow> bool" where
  "tcp_timer_lost l s \<longleftrightarrow> tcpip_tcp_timer_active s \<and> no_tcp_entry s \<and> tcp_calls s = l"

lemma set_insert_after: "set (insert_after n ts) \<subseteq> insert n (set ts)"
  by (induction n ts rule: insert_after.induct) auto

lemma set_timeout_abs:
  "set (next_timeout (sys_timeout_abs d h a s)) \<subseteq>
     insert \<lparr>to_time = d, to_h = h, to_arg = a\<rparr> (set (next_timeout s))"
  using set_insert_after [of "\<lparr>to_time = d, to_h = h, to_arg = a\<rparr>" "next_timeout s"]
  by (auto simp: sys_timeout_abs_def Let_def split: list.splits if_splits)

lemma sys_timeout_abs_frame [simp]:
  "tcpip_tcp_timer_active (sys_timeout_abs d h a s) = tcpip_tcp_timer_active s"
  "calls (sys_timeout_abs d h a s) = calls s"
  by (auto simp: sys_timeout_abs_def Let_def split: list.splits)

lemma lost_timeout_abs:
  assumes "tcp_timer_lost l s" "h \<noteq> Some Tcpip_Tcp_Timer" "h = Some Lwip_Cyclic_Timer \<longrightarrow> a = Arg_Cyclic 1"
  shows "tcp_timer_lost l (sys_timeout_abs d h a s)"
proof -
  have "no_tcp_entry (sys_timeout_abs d h a s)"
    using set_timeout_abs [of d h a s] assms by (fastforce simp: tcp_timer_lost_def no_tcp_entry_def)
  with assms(1) show ?thesis by (simp add: tcp_timer_lost_def tcp_calls_def)
qed

lemma set_unlink: "set (unlink h a ts) \<subseteq> set ts"
  by (induction ts) auto

lemma lost_act: "tcp_timer_lost l s \<Longrightarrow> tcp_timer_lost l (do_act x s)"
proof (cases x)
  case (Timeout m h a)
  assume "tcp_timer_lost l s"
  with Timeout show ?thesis by (simp add: sys_timeout_def lost_timeout_abs)
next
  case (Untimeout h a)
  assume "tcp_timer_lost l s"
  with Untimeout set_unlink [of "map_option Handler h" a "next_timeout s"] show ?thesis
    by (auto simp: sys_untimeout_def tcp_timer_lost_def no_tcp_entry_def tcp_calls_def)
qed (auto simp: tcp_timer_needed_def tcp_timer_lost_def no_tcp_entry_def tcp_calls_def)

lemma lost_acts: "tcp_timer_lost l s \<Longrightarrow> tcp_timer_lost l (fold do_act xs s)"
  by (induction xs arbitrary: s) (simp_all add: lost_act)

lemma lost_call_out:
  assumes "tcp_timer_lost l s" "c \<noteq> Tcp_Tmr"
  shows "tcp_timer_lost l (call_out acts c s)"
proof -
  have "tcp_timer_lost l (s\<lparr>calls := calls s @ [(c, tick s)]\<rparr>)"
    using assms by (simp add: tcp_timer_lost_def no_tcp_entry_def tcp_calls_def)
  from lost_acts [OF this] show ?thesis by (simp add: call_out_def Let_def)
qed

lemma lost_cyclic_timer:
  "tcp_timer_lost l s \<Longrightarrow> tcp_timer_lost l (lwip_cyclic_timer acts (Suc 0) s)"
  by (simp add: lwip_cyclic_timer_def lwip_cyclic_timers_def Let_def lost_timeout_abs lost_call_out)

lemma lost_round:
  assumes "tcp_timer_lost l s" "check_round acts pcbs now s = Some r"
  shows "tcp_timer_lost l (case r of Inl s' \<Rightarrow> s' | Inr s' \<Rightarrow> s')"
proof (cases "next_timeout s")
  case Nil
  with assms show ?thesis by (auto simp: check_round_def)
next
  case (Cons t ts)
  let ?s = "s\<lparr>next_timeout := ts, current_timeout_due_time := to_time t\<rparr>"
  have "tcp_timer_lost l ?s" "to_h t \<noteq> Some Tcpip_Tcp_Timer"
    "to_h t = Some Lwip_Cyclic_Timer \<Longrightarrow> to_arg t = Arg_Cyclic 1"
    using assms(1) Cons by (auto simp: tcp_timer_lost_def no_tcp_entry_def tcp_calls_def)
  then have "tcp_timer_lost l s'" if "call_handler acts pcbs (to_h t) (to_arg t) ?s = Some s'" for s'
    using that lost_cyclic_timer [of l ?s acts] lost_call_out [of l ?s _ acts]
    by (auto simp: call_handler_def split: option.splits handler.splits if_splits)
  with assms Cons show ?thesis by (auto simp: check_round_def split: if_splits)
qed

lemma lost_step:
  assumes "tcp_timer_lost l s" "do_step acts pcbs x s = Some s'"
  shows "tcp_timer_lost l s'"
proof (cases x)
  case Check
  with assms(2) have "loop (check_round acts pcbs (sys_now s)) s = Some s'"
    by (simp add: sys_check_timeouts_def)
  then show ?thesis
    by (rule loop_partial [where I = "tcp_timer_lost l"])
      (use assms(1) lost_round [of l _ acts pcbs "sys_now s"] in fastforce)+
next
  case Restart
  with assms show ?thesis
    by (auto simp: sys_restart_timeouts_def tcp_timer_lost_def no_tcp_entry_def tcp_calls_def
        split: list.splits)
qed (use assms lost_act [of l s] in auto)

definition timer_step ::
  "(('h, 'a) call_log \<Rightarrow> ('h, 'a) act list) \<Rightarrow> (('h, 'a) call_log \<Rightarrow> bool) \<Rightarrow>
   ('h, 'a) timers \<Rightarrow> ('h, 'a) timers \<Rightarrow> bool" where
  "timer_step acts pcbs s s' \<longleftrightarrow> (\<exists>x. do_step acts pcbs x s = Some s')"

lemma run_steps_reach: "run_steps acts pcbs xs s = Some s' \<Longrightarrow> (timer_step acts pcbs)\<^sup>*\<^sup>* s s'"
proof (induction xs arbitrary: s)
  case (Cons x xs)
  then obtain p where "do_step acts pcbs x s = Some p" "(timer_step acts pcbs)\<^sup>*\<^sup>* p s'"
    by (auto split: bind_splits)
  then show ?case by (metis converse_rtranclp_into_rtranclp timer_step_def)
qed simp

interpretation lost_timer: step_invariant "timer_step acts pcbs" "tcp_timer_lost l" for acts pcbs l
  by unfold_locales (auto simp: timer_step_def intro: lost_step)

text \<open>
  C40. A TCP timer that finds the pool empty is lost for good: when the first connection is
  registered while all four blocks are in use, the timer is marked as running without an entry
  in the list, and from then on, whatever the program does and however often it polls,
  \<open>tcp_tmr\<close> is never called again: nothing is retransmitted and no connection times out.
\<close>
theorem tcp_timer_lost_forever:
  assumes "length (next_timeout s) = MEMP_NUM_SYS_TIMEOUT" "\<not> tcpip_tcp_timer_active s"
    and "no_tcp_entry s"
    and "run_steps acts pcbs (Act (Timer_Needed True) # steps) s = Some s'"
  shows "tcp_calls s' = tcp_calls s \<and> tcpip_tcp_timer_active s'"
proof -
  have "tcp_timer_lost (tcp_calls s) (do_act (Timer_Needed True) s)"
    using assms(1-3)
    by (simp add: tcp_timer_needed_def sys_timeout_def sys_timeout_abs_def tcp_timer_lost_def
        no_tcp_entry_def tcp_calls_def)
  moreover have "(timer_step acts pcbs)\<^sup>*\<^sup>* (do_act (Timer_Needed True) s) s'"
    using assms(4) by (auto intro: run_steps_reach)
  ultimately have "tcp_timer_lost (tcp_calls s) s'" by (rule lost_timer.reachable [rotated])
  then show ?thesis by (simp add: tcp_timer_lost_def)
qed

text \<open>
  Two negotiations and one timeout of the application beside the resolver's fill the pool; the
  application's timeout expires, but the connection opened after it gets no timer.
\<close>

theorem tcp_timer_lost_forever_witness:
  "\<exists>s s'. run_steps (\<lambda>_. []) (\<lambda>_. True)
      [Act (Timeout 6000 (Some 1) Arg_Null), Act (Timeout 6000 (Some 2) Arg_Null),
       Act (Timeout 5000 (Some 3) Arg_Null)] (timers_boot 0 :: (nat, unit) timers) = Some s \<and>
    run_steps (\<lambda>_. []) (\<lambda>_. True) (Act (Timer_Needed True) # [Act (Elapse 500), Check]) s = Some s' \<and>
    tcp_calls s' = [] \<and> tcpip_tcp_timer_active s'"
proof -
  let ?e = "\<lambda>t x a. \<lparr>to_time = t, to_h = x, to_arg = a\<rparr>"
  let ?s = "\<lambda>n b. \<lparr>next_timeout = [?e 1000 (Some Lwip_Cyclic_Timer) (Arg_Cyclic 1),
      ?e 5000 (Some (Handler 3)) Arg_Null, ?e 6000 (Some (Handler 1)) Arg_Null,
      ?e 6000 (Some (Handler 2)) Arg_Null], current_timeout_due_time = 0,
      tcpip_tcp_timer_active = b, tick = n, calls = []\<rparr> :: (nat, unit) timers"
  have 1: "run_steps (\<lambda>_. []) (\<lambda>_. True)
      [Act (Timeout 6000 (Some 1) Arg_Null), Act (Timeout 6000 (Some 2) Arg_Null),
       Act (Timeout 5000 (Some 3) Arg_Null)] (timers_boot 0) = Some (?s 0 False)"
    by (simp add: timers_boot_simps sys_timeout_def sys_timeout_abs_def TIME_LESS_THAN_def sys_now_def)
  have 2: "run_steps (\<lambda>_. []) (\<lambda>_. True) (Act (Timer_Needed True) # [Act (Elapse 500), Check])
      (?s 0 False) = Some (?s 500 True)"
    by (simp add: tcp_timer_needed_def sys_timeout_def sys_timeout_abs_def sys_check_timeouts_def
        loop_unfold check_round_def TIME_LESS_THAN_def sys_now_def)
  have "tcp_calls (?s 500 True) = tcp_calls (?s 0 False) \<and> tcpip_tcp_timer_active (?s 500 True)"
    by (rule tcp_timer_lost_forever [OF _ _ _ 2]) (simp_all add: no_tcp_entry_def)
  with 1 2 show ?thesis by (simp add: tcp_calls_def)
qed

end
