(* ===== verification/Spec2Isabelle.thy ===== *)
theory Spec2Isabelle
  imports Gsm_Data_Layer Usart Pppos_Frames Ipcp_Peers Lcp_Nak Session_Spec
    Http Timeouts
begin

text \<open>
  A verification library for \<open>lwip_porting\<close>: a firmware for an STM32 that brings a cellular
  modem on line over a serial port, runs PPP over it with lwIP 2.1.2, and fetches a page by
  HTTP. All paths are under \<open>src/\<close>.

  \<^bold>\<open>The program.\<close> Bytes from the modem are written by the DMA controller into a circular
  buffer and handed over by interrupt handlers (\<open>Core/Src/usart.c\<close>) to the modem's serial
  layer (\<open>gsm/gsm_hardware_layer.c\<close>). In AT mode that layer collects responses and matches
  them against the pending command; in PPP mode it queues the bytes in a ring. The modem
  manager (\<open>gsm/gsm_data_layer.c\<close>) drives the power pins, conducts the configuration
  dialogue through AT commands whose responses the parsers of \<open>gsm/gsm_utilities.c\<close> read,
  dials, and opens a PPP session; its main loop moves bytes from the ring to \<open>pppos_input\<close>.
  lwIP's \<open>pppos.c\<close> turns the bytes into frames and back, \<open>ppp.c\<close> keeps the session's phase and
  passes packets to the control protocols, which share the negotiation automaton \<open>fsm.c\<close>:
  \<open>lcp.c\<close> settles the parameters of the line, \<open>ipcp.c\<close> the address with which it configures the
  interface. Their timeouts, TCP's and the resolver's are kept by \<open>core/timeouts.c\<close>, which the
  main loop polls.
  When the session is up \<open>main.c\<close> starts one HTTP request: \<open>app_http/app_http.c\<close> on lwIP's
  \<open>apps/http/http_client.c\<close>, which reads responses through the chain functions of
  \<open>core/pbuf.c\<close>.

  \<^bold>\<open>The theories\<close>, each holding the data, the operations and the lemmas of its component:

  \<^item> \<open>Prelude\<close>: machine integers, C strings and blocks with their faults, C loops as a
    partial function with a total and a partial correctness rule, \<open>strstr\<close>, and the locale
    \<open>step_invariant\<close> (an invariant of a step relation holds of all reachable states).
  \<^item> \<open>Fifo_Spec\<close>: the abstract byte queue and the locale \<open>bounded_fifo\<close> between an interrupt
    and a reader. It is interpreted twice: by the PPP ring (\<open>ppp_ring\<close> in \<open>Gsm_Hardware\<close>) and by
    the whole path from the line to the reader (\<open>serial_path\<close> in \<open>Usart\<close>).
  \<^item> \<open>Gsm_Utilities\<close>: the response parsers, on memory blocks, with every loop of the code.
  \<^item> \<open>Ppp_Core\<close>: phases, connect, close, free and the packet dispatch of \<open>ppp.c\<close>.
  \<^item> \<open>Gsm_State\<close>: the record of the driver's static variables, the pins and the logs.
  \<^item> \<open>Gsm_Hardware\<close>: the AT engine (\<open>gsm_hw_layer_run\<close>), the receive path and the ring.
  \<^item> \<open>Usart\<close>: the DMA buffer, the interrupt handlers and the receive callback.
  \<^item> \<open>Gsm_Data_Layer\<close>: the manager: power sequence, both configuration dialogues, dialling,
    the PPP callbacks, the polling tasks, and the step relation \<open>gsm_step\<close> of all of these
    with two interpretations of \<open>step_invariant\<close>.
  \<^item> \<open>Pppos\<close>, \<open>Pppos_Codec\<close>, \<open>Pppos_Frames\<close>: the framing of \<open>pppos.c\<close>; its check sequence and
    character maps; the round trip, the faults and the resynchronisation of the receiver.
  \<^item> \<open>Ppp_Fsm\<close>: the negotiation automaton, generic in the protocol's callbacks.
  \<^item> \<open>Ppp_Options\<close>, \<open>Ipcp\<close>: numbers and options in packets; the options of the IP control protocol,
    one definition per macro and callback of \<open>ipcp.c\<close>. \<open>Ipcp_Requests\<close>, \<open>Ipcp_Nak\<close>, \<open>Ipcp_Replies\<close>:
    our request and what acknowledges or rejects it, the peer's suggestions, the answer to the peer's
    request. \<open>Ipcp_Link\<close>: IPCP between LCP (\<open>auth.c\<close>) and the interface (\<open>Ppp_Core\<close>), with an
    interpretation of \<open>step_invariant\<close>. \<open>Ipcp_Negotiation\<close>: IPCP in two automata of \<open>Ppp_Fsm\<close>;
    \<open>Ipcp_Peers\<close>: in two control blocks with their interfaces.
  \<^item> \<open>Lcp\<close>: the options of the link control protocol and its own packets, one definition per macro
    and callback of \<open>lcp.c\<close>. \<open>Lcp_Requests\<close>, \<open>Lcp_Nak\<close>, \<open>Lcp_Replies\<close>: our request and what acknowledges
    or rejects it, the peer's suggestions, the answer to the peer's request.
  \<^item> \<open>Fsm_Owner\<close>: what a protocol that owns an automaton relies on, as locales: \<open>ci_request\<close> and
    \<open>ci_invariant\<close> (callbacks that keep a property of the options, then every operation of the
    automaton does) and \<open>link_callbacks\<close> (what one operation can report, and in which state it
    ends). All are interpreted on the callbacks of LCP, in \<open>Session_Lcp\<close> and \<open>Session_Run\<close>.
  \<^item> \<open>Ppp_Session\<close>: a session as a whole. The record extends that of \<open>Ipcp_Link\<close> by LCP, the
    configuration of the line and the timers; the rest of \<open>lcp.c\<close> (opening, closing, the delayed
    start, the keepalive, Protocol-Reject), the dispatch of packets, and the step relation
    \<open>session_step\<close> of everything the program, the peer and the timers can do. \<open>Session_Net\<close>: what
    IPCP and \<open>auth.c\<close> leave alone of LCP. \<open>Session_Inv\<close>, \<open>Session_Run\<close>: the invariant of a session, one
    part for each of its situations (LCP open, LCP at work, waiting for the peer to begin, at rest),
    and that every step keeps it, with an interpretation of \<open>step_invariant\<close>. \<open>Session_Line\<close>: the
    same of the configuration of the line. \<open>Session_Spec\<close>: how a connection ends, and the properties.
  \<^item> \<open>Timeouts\<close>: the timer list of \<open>core/timeouts.c\<close> on its wrapping clock, its specification on a
    clock that does not wrap, and the simulation between them.
  \<^item> \<open>Pbuf\<close>: buffer chains and the functions that read them.
  \<^item> \<open>Http\<close>: the client's connection callbacks and parsers, and the application's callbacks.

  \<^bold>\<open>Conventions.\<close> Definitions carry the names of the C functions. Static variables and
  structures are records passed explicitly; a call of a function outside the model is either
  logged in the state (bytes sent, callbacks reported, packets passed up) or its result is an
  argument (whether the n-th allocation succeeds, what a connection call returns, what the
  upper layers do with a packet). \<open>None\<close> is an execution without a defined result: an access
  outside an object, a dereference of NULL or of a released block, a loop that never returns.
  Integers that can wrap are words of their width; positions and lengths that the code keeps
  below a bound proved or assumed are natural numbers. Loops are recursions over their data,
  or \<open>loop\<close> of \<open>Prelude\<close>, which needs no fuel: that a loop returns is then part of what is
  proved of it.

  \<^bold>\<open>What is shown.\<close> For the serial side: bytes come out of the receive path complete and in
  order for every interleaving within the capacity, and what happens at one byte too many; in
  every execution, which of the driver's accesses to its serial buffers can fault, and when. For the AT engine: when a command is answered, repeated
  and given up; the transcript of the dialogue; the trace of the pins. For the manager: that a
  lost session is never recovered, which follows from a mode that is never reset. For the
  framing: a stream of any packets survives the line unchanged, any garbage is left behind at
  the next flag but in one state, and the exact fault of the receiver there. For the automaton: its contract with
  the layers above in every execution, agreement before it opens, convergence of two peers,
  and its termination when nobody answers. For IPCP: that its requests are well-formed and
  exactly they are acknowledged or rejected, what a peer can change by suggestions and by requests,
  how a client is given its address and when the address is refused, that the interface has the negotiated address exactly while
  IPCP is open, and two ways in which its packets are misread or overrun their buffer. For LCP: the
  same of its requests, what it grants to the peer and lets the peer change, when a looped back line
  is noticed, and how the buffer of a Nak is overrun. For a PPP session as a whole, in every
  execution: what the phase tells of LCP, IPCP, the interface, the serial link and the timers; the
  configuration of the line, which is the negotiated one while LCP is open, and plain on the sending
  side while it is not, with the bounds of the receive units; that closing ends it even if the
  peer is silent; that the keepalive notices a dead peer; that a new connection inherits nothing.
  For the timers: that the wrap of the 32-bit clock
  is invisible, that a poll returns, that cyclic timers do not drift, and how the TCP timer
  can be lost. For HTTP: independence of the segmentation, the
  timeout, and that success is never reported. Several properties state a defect the code
  has; they describe what it does, and hold of it.

  \<^bold>\<open>Assumptions.\<close> Handlers run to completion, as they do on this single core where the main
  loop's accesses to the shared buffers are single indices. The half and full interrupts of
  the DMA controller are served before the next byte (\<open>Usart\<close>). The reporting callbacks of the
  automaton that call back into it do so last, so that such a call is a further step
  (\<open>Ppp_Fsm\<close>), and there a timer can always be had (\<open>sys_timeout\<close> asserts it; \<open>Timeouts\<close>
  models the pool). In a session (\<open>Ppp_Session\<close>) the settings of the control block do not change, the
  program leaves passive and silent mode off, as it does, and the user does not call into the
  session from its callbacks. No timeout is set for more than $2^{30}$ ms or served that late. One HTTP request runs at a
  time, as in \<open>main.c\<close>.

  \<^bold>\<open>Not modelled.\<close> Authentication and the server side of PPP, the statistics, and the rest of
  lwIP (TCP, UDP, IP, DNS, memory management): the callbacks and results the modelled code
  uses of them are arguments. The MQTT client application is disabled in \<open>main.c\<close>. The
  register configuration of pins, clocks and peripherals, log output, the vendor's HAL, CMSIS
  and RTT sources, and \<open>port_stm32f4/\<close>, a second project that repeats the same sources, carry
  none of the program's logic.
\<close>

end
